(* ===== verification/Prelude.thy ===== *)
theory Prelude
  imports
    Main
    "HOL-Library.AList"
    "HOL-Library.Multiset"
    "HOL-Library.Word"
    "HOL-Library.Char_ord"
    "HOL-Library.List_Lexorder"
begin

text \<open>
  Shared vocabulary of the development.

  A Go \<^verbatim>\<open>map[K]V\<close> is an association list with distinct keys (\<open>gomap\<close>): \<^const>\<open>map_of\<close> reads it,
  \<^const>\<open>AList.update\<close> and \<^const>\<open>AList.delete\<close> write it, its length is \<^verbatim>\<open>len(m)\<close>.  Go leaves the
  order of \<^verbatim>\<open>range\<close> over a map open; where the order is observable the operations of this
  development take it as an argument (see the theory Engine).

  A Go \<^verbatim>\<open>time.Time\<close> is the number of nanoseconds since the zero time (year 1), so \<^verbatim>\<open>IsZero\<close> is
  equality with 0, \<^verbatim>\<open>Before\<close> is \<open><\<close> and \<^verbatim>\<open>Add\<close> is \<open>+\<close>; a \<^verbatim>\<open>time.Duration\<close> is a number of
  nanoseconds.  Go strings and byte slices are byte lists; strings are \<open>char list\<close>, compared
  bytewise (theories \<^verbatim>\<open>Char_ord\<close> and \<^verbatim>\<open>List_Lexorder\<close>), which is Go's \<open><\<close> on strings.
\<close>

named_theorems frame \<open>fields an operation leaves alone\<close>
named_theorems keys \<open>the key sets of Go maps after an operation\<close>

type_synonym ('k, 'v) gomap = "('k \<times> 'v) list"
type_synonym time = int
type_synonym duration = int
type_synonym uint64 = "64 word"
type_synonym byte = "8 word"

abbreviation dkeys :: "('k, 'v) gomap \<Rightarrow> bool" where
  "dkeys m \<equiv> distinct (map fst m)"

abbreviation keyset :: "('k, 'v) gomap \<Rightarrow> 'k set" where
  "keyset m \<equiv> fst ` set m"

text \<open>\<^verbatim>\<open>time.Second\<close>, \<^verbatim>\<open>time.Millisecond\<close> and \<^verbatim>\<open>time.Minute\<close>.\<close>

definition Second :: duration where
  "Second = 1000000000"

definition Millisecond :: duration where
  "Millisecond = 1000000"

definition Minute :: duration where
  "Minute = 60 * Second"

text \<open>Decimal printing: \<^verbatim>\<open>%d\<close>, \<^verbatim>\<open>strconv.Itoa\<close> and \<^verbatim>\<open>strconv.FormatUint(_, 10)\<close> on naturals.\<close>

definition digit_char :: "nat \<Rightarrow> char" where
  "digit_char d = char_of (48 + d)"

fun show_nat :: "nat \<Rightarrow> string" where
  "show_nat n = (if n < 10 then [digit_char n] else show_nat (n div 10) @ [digit_char (n mod 10)])"

declare show_nat.simps [simp del]

section \<open>Go maps\<close>

lemma map_of_update [simp]: "map_of (AList.update k v m) = (map_of m)(k \<mapsto> v)"
  by (simp add: update_conv')

lemma map_of_delete_fun [simp]: "map_of (AList.delete k m) = (map_of m)(k := None)"
  by (simp add: delete_conv')

lemma keyset_update [simp, keys]: "keyset (AList.update k v m) = insert k (keyset m)"
  by (simp add: dom_update)

lemma keyset_delete [simp, keys]: "keyset (AList.delete k m) = keyset m - {k}"
  by (auto simp: AList.delete_eq image_iff)

lemma dkeys_update [simp]: "dkeys m \<Longrightarrow> dkeys (AList.update k v m)"
  by (rule distinct_update)

lemma dkeys_delete [simp]: "dkeys m \<Longrightarrow> dkeys (AList.delete k m)"
  by (rule distinct_delete)

lemma length_keys: "dkeys m \<Longrightarrow> length m = card (keyset m)"
  using distinct_card [of "map fst m"] by simp

lemma length_update:
  "dkeys m \<Longrightarrow> length (AList.update k v m) = (if k \<in> keyset m then length m else Suc (length m))"
  by (simp add: length_keys insert_absorb)

lemma length_delete:
  "dkeys m \<Longrightarrow> length (AList.delete k m) = (if k \<in> keyset m then length m - 1 else length m)"
  by (auto simp: length_keys)

lemma map_of_mem: "map_of m k = Some v \<Longrightarrow> (k, v) \<in> set m"
  by (rule map_of_SomeD)

lemma map_of_mem_keys: "map_of m k = Some v \<Longrightarrow> k \<in> keyset m"
  by (force dest: map_of_SomeD)

lemma keys_map_of: "k \<in> keyset m \<longleftrightarrow> map_of m k \<noteq> None"
  by (simp add: map_of_eq_None_iff)

lemma mem_map_of: "dkeys m \<Longrightarrow> (k, v) \<in> set m \<longleftrightarrow> map_of m k = Some v"
  by simp

lemma mem_delete: "(i, x) \<in> set (AList.delete k m) \<longleftrightarrow> (i, x) \<in> set m \<and> i \<noteq> k"
  by (auto simp: AList.delete_eq)

lemma mem_update:
  "dkeys m \<Longrightarrow> (i, x) \<in> set (AList.update k v m) \<longleftrightarrow>
     (if i = k then x = v else (i, x) \<in> set m)"
  using mem_map_of [OF dkeys_update [of m k v], of i x] mem_map_of [of m i x]
  by (auto simp del: map_of_eq_Some_iff)

lemma delete_same_iff: "AList.delete k m = m \<longleftrightarrow> k \<notin> keyset m"
proof
  assume "AList.delete k m = m"
  then have "keyset m = keyset m - {k}" by (metis keyset_delete)
  then show "k \<notin> keyset m" by blast
next
  assume "k \<notin> keyset m"
  then show "AList.delete k m = m" by (simp add: delete_idem)
qed

lemma map_of_map_values:
  "map_of (map (\<lambda>(k, v). (k, f k v)) m) k = map_option (f k) (map_of m k)"
  by (induction m) auto

section \<open>Loops as folds\<close>

lemma fold_invariant:
  assumes "P s" and "\<And>x s. x \<in> set xs \<Longrightarrow> P s \<Longrightarrow> P (f x s)"
  shows "P (fold f xs s)"
  using assms by (induction xs arbitrary: s) auto

lemma fold_same:
  assumes "\<And>x s. x \<in> set xs \<Longrightarrow> g (f x s) = g s"
  shows "g (fold f xs s) = g s"
  using assms by (induction xs arbitrary: s) auto

text \<open>A loop over distinct keys in which each iteration touches its own key only.\<close>

lemma fold_pointwise:
  assumes "distinct xs"
    and "\<And>x s. x \<in> set xs \<Longrightarrow> look (f x s) x = upd x (look s x)"
    and "\<And>x y s. x \<in> set xs \<Longrightarrow> y \<noteq> x \<Longrightarrow> look (f x s) y = look s y"
  shows "look (fold f xs s) y = (if y \<in> set xs then upd y (look s y) else look s y)"
  using assms
proof (induction xs arbitrary: s)
  case Nil
  then show ?case by simp
next
  case (Cons x xs)
  have "look (fold f xs (f x s)) y =
      (if y \<in> set xs then upd y (look (f x s) y) else look (f x s) y)"
    using Cons.prems by (intro Cons.IH) auto
  moreover have "y \<noteq> x \<Longrightarrow> look (f x s) y = look s y" and "look (f x s) x = upd x (look s x)"
    using Cons.prems(2,3) by simp_all
  ultimately show ?case using Cons.prems(1) by (cases "y = x") auto
qed

lemma perm_set: "mset xs = mset ys \<Longrightarrow> set xs = set ys"
  by (metis set_mset_mset)

lemma perm_distinct: "mset xs = mset ys \<Longrightarrow> distinct xs \<longleftrightarrow> distinct ys"
  by (metis mset_eq_imp_distinct_iff)

end
