(* ===== verification/Protocol.thy ===== *)
theory Protocol
  imports Prelude
begin

text \<open>
  The public data of the program: \<^verbatim>\<open>pkg/protocol/types.go\<close> (what the API serialises) and
  \<^verbatim>\<open>internal/observation/observation.go\<close> (what the providers hand to the engine).  Each Go struct
  is a record with the same fields; the theory \<^verbatim>\<open>Protocol_Json\<close> follows their JSON tags.
\<close>

section \<open>\<^verbatim>\<open>pkg/protocol\<close>\<close>

definition Version :: string where
  "Version = ''v1''"

text \<open>
  \<^verbatim>\<open>PresenceState\<close> is a string type with three named values; \<open>StateZero\<close> is its zero value
  \<^verbatim>\<open>""\<close>, which a freshly allocated client has until its state is computed.
\<close>

datatype PresenceState = StatePresent | StateAbsent | StateUnknown | StateZero

record Connection =
  conn_ID :: string
  conn_Provider :: string
  conn_SourceInstance :: string
  conn_ConnectedAt :: time
  conn_LastSeenAt :: time
  conn_Stale :: bool

text \<open>\<^verbatim>\<open>Present *bool\<close> is an option: \<open>None\<close> is the nil pointer.\<close>

record Client =
  cl_ID :: string
  cl_State :: PresenceState
  cl_Present :: "bool option"
  cl_Connections :: "Connection list"
  cl_FirstSeenAt :: time
  cl_LastSeenAt :: time

record Snapshot =
  snap_StreamEpoch :: string
  snap_Sequence :: uint64
  snap_GeneratedAt :: time
  snap_Clients :: "Client list"

record Provider =
  pr_ID :: string
  pr_Kind :: string
  pr_Status :: string
  pr_SnapshotSupported :: bool
  pr_Sources :: "string list"
  pr_LastSnapshotAt :: time
  pr_LastEventAt :: time
  pr_LastError :: string
  pr_SnapshotSource :: string
  pr_EventSource :: string

text \<open>The values the code stores in \<^verbatim>\<open>Event.Data any\<close>; a \<^verbatim>\<open>map[string]any\<close> holds strings and truth values.\<close>

datatype any_value = AnyString string | AnyBool bool

datatype EventData =
    NoData
  | ClientData Client
  | ProviderData Provider
  | MapData "(string, any_value) gomap"
  | SnapshotData Snapshot

record Event =
  ev_Type :: string
  ev_EventID :: string
  ev_StreamEpoch :: string
  ev_Sequence :: uint64
  ev_Timestamp :: time
  ev_Reason :: string
  ev_Data :: EventData

section \<open>\<^verbatim>\<open>internal/observation\<close>\<close>

text \<open>\<^verbatim>\<open>Kind\<close> is a string type; \<open>OtherKind\<close> stands for every string without a name.\<close>

datatype Kind = WiFiAssociated | WiFiDisassociated | WiredReachable | OtherKind string

datatype Confidence = Authoritative

record Observation =
  ob_Provider :: string
  ob_SourceInstance :: string
  ob_ObservedAt :: "time option"
  ob_ReceivedAt :: time
  ob_ClientID :: string
  ob_Kind :: Kind
  ob_Confidence :: Confidence

record ObsSnapshot =
  os_Provider :: string
  os_ReceivedAt :: time
  os_Stations :: "(string, string list) gomap"

record SourceSnapshot =
  ss_Provider :: string
  ss_SourceInstance :: string
  ss_ReceivedAt :: time
  ss_Clients :: "string list"

record ProviderStatus =
  ps_ID :: string
  ps_Kind :: string
  ps_Status :: string
  ps_SnapshotSupported :: bool
  ps_Sources :: "string list"
  ps_LastSnapshotAt :: time
  ps_LastEventAt :: time
  ps_LastError :: string
  ps_SnapshotSource :: string
  ps_EventSource :: string

end
