(* ===== verification/Go_Strings.thy ===== *)
theory Go_Strings
  imports Prelude
begin

text \<open>
  The functions of Go's \<^verbatim>\<open>strings\<close>, \<^verbatim>\<open>bytes\<close> and \<^verbatim>\<open>encoding/hex\<close> packages that the agent calls.  A Go
  string is a sequence of bytes, and so is a list of HOL characters.  Go's space characters include
  the Unicode ones; since no space character's UTF-8 encoding can overlap another character, looking
  for the encoded byte sequences is the same as decoding characters.
\<close>

section \<open>Spaces\<close>

definition space_seqs :: "string list" where
  "space_seqs =
     [[CHR 0x09], [CHR 0x0A], [CHR 0x0B], [CHR 0x0C], [CHR 0x0D], [CHR 0x20],
      [CHR 0xC2, CHR 0x85], [CHR 0xC2, CHR 0xA0], [CHR 0xE1, CHR 0x9A, CHR 0x80],
      [CHR 0xE2, CHR 0x80, CHR 0x80], [CHR 0xE2, CHR 0x80, CHR 0x81], [CHR 0xE2, CHR 0x80, CHR 0x82],
      [CHR 0xE2, CHR 0x80, CHR 0x83], [CHR 0xE2, CHR 0x80, CHR 0x84], [CHR 0xE2, CHR 0x80, CHR 0x85],
      [CHR 0xE2, CHR 0x80, CHR 0x86], [CHR 0xE2, CHR 0x80, CHR 0x87], [CHR 0xE2, CHR 0x80, CHR 0x88],
      [CHR 0xE2, CHR 0x80, CHR 0x89], [CHR 0xE2, CHR 0x80, CHR 0x8A], [CHR 0xE2, CHR 0x80, CHR 0xA8],
      [CHR 0xE2, CHR 0x80, CHR 0xA9], [CHR 0xE2, CHR 0x80, CHR 0xAF], [CHR 0xE2, CHR 0x81, CHR 0x9F],
      [CHR 0xE3, CHR 0x80, CHR 0x80]]"

definition space_len :: "string list \<Rightarrow> string \<Rightarrow> nat" where
  "space_len seqs s = (case find (\<lambda>q. take (length q) s = q) seqs of None \<Rightarrow> 0 | Some q \<Rightarrow> length q)"

function trim_left :: "string list \<Rightarrow> string \<Rightarrow> string" where
  "trim_left seqs s =
     (if s = [] \<or> space_len seqs s = 0 then s else trim_left seqs (drop (space_len seqs s) s))"
  by auto
termination by (relation "measure (\<lambda>(_, s). length s)") auto

declare trim_left.simps [simp del]

definition TrimSpace :: "string \<Rightarrow> string" where
  "TrimSpace s = rev (trim_left (map rev space_seqs) (rev (trim_left space_seqs s)))"

text \<open>\<^verbatim>\<open>strings.Fields\<close>: \<open>cur\<close> is the field being read.\<close>

function fields_from :: "string \<Rightarrow> string \<Rightarrow> string list" where
  "fields_from cur s =
     (if s = [] then (if cur = [] then [] else [cur])
      else if space_len space_seqs s = 0 then fields_from (cur @ [hd s]) (tl s)
      else (if cur = [] then [] else [cur]) @ fields_from [] (drop (space_len space_seqs s) s))"
  by auto
termination by (relation "measure (\<lambda>(_, s). length s)") auto

declare fields_from.simps [simp del]

definition Fields :: "string \<Rightarrow> string list" where
  "Fields s = fields_from [] s"

section \<open>Searching and splitting\<close>

definition HasPrefix :: "string \<Rightarrow> string \<Rightarrow> bool" where
  "HasPrefix s p = (take (length p) s = p)"

definition TrimPrefix :: "string \<Rightarrow> string \<Rightarrow> string" where
  "TrimPrefix s p = (if HasPrefix s p then drop (length p) s else s)"

definition HasSuffix :: "string \<Rightarrow> string \<Rightarrow> bool" where
  "HasSuffix s p = HasPrefix (rev s) (rev p)"

definition TrimSuffix :: "string \<Rightarrow> string \<Rightarrow> string" where
  "TrimSuffix s p = (if HasSuffix s p then take (length s - length p) s else s)"

text \<open>\<^verbatim>\<open>strings.IndexByte\<close>, \<open>None\<close> for \<open>-1\<close>.\<close>

primrec IndexByte :: "string \<Rightarrow> char \<Rightarrow> nat option" where
  "IndexByte [] c = None"
| "IndexByte (x # xs) c = (if x = c then Some 0 else map_option Suc (IndexByte xs c))"

primrec Split :: "string \<Rightarrow> char \<Rightarrow> string list" where
  "Split [] c = [[]]"
| "Split (x # xs) c =
     (if x = c then [] # Split xs c
      else (case Split xs c of [] \<Rightarrow> [[x]] | f # fs \<Rightarrow> (x # f) # fs))"

primrec StrContains :: "string \<Rightarrow> string \<Rightarrow> bool" where
  "StrContains [] p = (p = [])"
| "StrContains (x # xs) p = (HasPrefix (x # xs) p \<or> StrContains xs p)"

definition ContainsAny :: "string \<Rightarrow> string \<Rightarrow> bool" where
  "ContainsAny s cs = list_ex (\<lambda>c. c \<in> set cs) s"

text \<open>Lower case of the ASCII letters.\<close>

definition lower_char :: "char \<Rightarrow> char" where
  "lower_char c = (if 0x41 \<le> (of_char c :: nat) \<and> (of_char c :: nat) \<le> 0x5A
                   then char_of ((of_char c :: nat) + 32) else c)"

definition lower_ascii :: "string \<Rightarrow> string" where
  "lower_ascii s = map lower_char s"

section \<open>Hexadecimal\<close>

definition hexDigit :: "nat \<Rightarrow> char" where
  "hexDigit n = ''0123456789abcdef'' ! n"

definition hexval :: "char \<Rightarrow> nat option" where
  "hexval c =
     (let n = (of_char c :: nat) in
      if 0x30 \<le> n \<and> n \<le> 0x39 then Some (n - 0x30)
      else if 0x61 \<le> n \<and> n \<le> 0x66 then Some (n - 0x61 + 10)
      else if 0x41 \<le> n \<and> n \<le> 0x46 then Some (n - 0x41 + 10)
      else None)"

definition hex_byte :: "byte \<Rightarrow> string" where
  "hex_byte b = [hexDigit (unat b div 16), hexDigit (unat b mod 16)]"

definition EncodeToString :: "byte list \<Rightarrow> string" where
  "EncodeToString bs = concat (map hex_byte bs)"

text \<open>\<^verbatim>\<open>hex.DecodeString\<close>: \<open>None\<close> for an invalid digit or an odd length.\<close>

fun DecodeString :: "string \<Rightarrow> byte list option" where
  "DecodeString [] = Some []"
| "DecodeString [c] = None"
| "DecodeString (a # b # cs) =
     (case (hexval a, hexval b) of
        (Some x, Some y) \<Rightarrow> map_option (Cons (of_nat (16 * x + y))) (DecodeString cs)
      | _ \<Rightarrow> None)"

section \<open>Decimal\<close>

fun decimal :: "nat \<Rightarrow> string" where
  "decimal n = (if n < 10 then [hexDigit n] else decimal (n div 10) @ [hexDigit (n mod 10)])"

declare decimal.simps [simp del]

definition digit :: "char \<Rightarrow> bool" where
  "digit c \<longleftrightarrow> 0x30 \<le> (of_char c :: nat) \<and> (of_char c :: nat) \<le> 0x39"

definition digit_val :: "char \<Rightarrow> nat" where
  "digit_val c = of_char c - 0x30"

definition decimal_val :: "string \<Rightarrow> nat" where
  "decimal_val s = foldl (\<lambda>v c. v * 10 + digit_val c) 0 s"

lemma decimal_digits: "list_all digit (decimal n)"
proof (induction n rule: decimal.induct)
  case (1 n)
  have "m < 10 \<Longrightarrow> digit (hexDigit m)" for m
  proof -
    assume "m < 10"
    then have "m \<in> {0, 1, 2, 3, 4, 5, 6, 7, 8, 9}" by (simp, presburger)
    then show ?thesis by (auto simp: digit_def hexDigit_def)
  qed
  with 1 show ?case by (subst decimal.simps) simp
qed

lemma hexDigit_digit:
  assumes "n < 10"
  shows "of_char (hexDigit n) = 0x30 + n" and "digit (hexDigit n)" and "digit_val (hexDigit n) = n"
proof -
  have "n \<in> {0, 1, 2, 3, 4, 5, 6, 7, 8, 9}" using assms by (simp, presburger)
  then show "of_char (hexDigit n) = 0x30 + n" "digit (hexDigit n)" "digit_val (hexDigit n) = n"
    by (auto simp: hexDigit_def digit_def digit_val_def)
qed

lemma decimal_val_snoc: "decimal_val (s @ [c]) = decimal_val s * 10 + digit_val c"
  by (simp add: decimal_val_def)

lemma decimal_val_decimal [simp]: "decimal_val (decimal n) = n"
proof (induction n rule: decimal.induct)
  case (1 n)
  then show ?case
    by (subst decimal.simps) (auto simp: decimal_val_snoc hexDigit_digit, simp add: decimal_val_def hexDigit_digit)
qed

lemma decimal_not_Nil [simp]: "decimal n \<noteq> []"
  by (subst decimal.simps) simp

lemma decimal_length: "n < 10 ^ w \<Longrightarrow> 0 < w \<Longrightarrow> length (decimal n) \<le> w"
proof (induction w arbitrary: n)
  case (Suc w)
  show ?case
  proof (cases "n < 10")
    case True
    then show ?thesis by (subst decimal.simps) simp
  next
    case False
    then have "0 < w" using Suc.prems(1) by (cases w) auto
    moreover have "n div 10 < 10 ^ w" using Suc.prems(1) by (simp add: less_mult_imp_div_less mult.commute)
    ultimately show ?thesis using Suc.IH [of "n div 10"] False by (subst decimal.simps) simp
  qed
qed simp

lemma IndexByte_append:
  "c \<notin> set s \<Longrightarrow> IndexByte (s @ c # t) c = Some (length s)"
  by (induction s) auto

section \<open>Lemmas on spaces\<close>

text \<open>A character that cannot begin or end a space.\<close>

definition plain :: "char \<Rightarrow> bool" where
  "plain c \<longleftrightarrow> (of_char c :: nat) < 0x80 \<and> c \<notin> {CHR 0x09, CHR 0x0A, CHR 0x0B, CHR 0x0C, CHR 0x0D, CHR 0x20}"

definition ascii_space :: "char \<Rightarrow> bool" where
  "ascii_space c \<longleftrightarrow> c \<in> {CHR 0x09, CHR 0x0A, CHR 0x0B, CHR 0x0C, CHR 0x0D, CHR 0x20}"

lemma space_len_Nil [simp]: "space_len space_seqs [] = 0" "space_len (map rev space_seqs) [] = 0"
  by (simp_all add: space_len_def space_seqs_def)

lemma space_seqs_facts:
  "list_all (\<lambda>q. q \<noteq> [] \<and> \<not> plain (hd q) \<and> \<not> plain (last q) \<and>
     (ascii_space (hd q) \<longrightarrow> length q = 1) \<and> (ascii_space (last q) \<longrightarrow> length q = 1)) space_seqs"
  "ascii_space c \<Longrightarrow> [c] \<in> set space_seqs"
proof -
  show "list_all (\<lambda>q. q \<noteq> [] \<and> \<not> plain (hd q) \<and> \<not> plain (last q) \<and>
     (ascii_space (hd q) \<longrightarrow> length q = 1) \<and> (ascii_space (last q) \<longrightarrow> length q = 1)) space_seqs"
    by code_simp
  show "ascii_space c \<Longrightarrow> [c] \<in> set space_seqs"
    by (auto simp: ascii_space_def space_seqs_def)
qed

text \<open>The same for the reversed sequences, in the form the scan from either end uses.\<close>

lemma space_seqs_either:
  assumes "seqs = space_seqs \<or> seqs = map rev space_seqs"
  shows "q \<in> set seqs \<Longrightarrow> q \<noteq> [] \<and> \<not> plain (hd q) \<and> (ascii_space (hd q) \<longrightarrow> length q = 1)"
    and "ascii_space c \<Longrightarrow> [c] \<in> set seqs"
  using assms space_seqs_facts(1) space_seqs_facts(2) [of c]
  by (auto simp: list_all_iff hd_rev image_iff intro: bexI [of _ "[c]"])

lemma space_len_either:
  assumes "seqs = space_seqs \<or> seqs = map rev space_seqs"
  shows "plain c \<Longrightarrow> space_len seqs (c # s) = 0" and "ascii_space c \<Longrightarrow> space_len seqs (c # s) = 1"
proof -
  note q = space_seqs_either [OF assms]
  have hd: "take (length p) (c # s) = p \<Longrightarrow> p \<noteq> [] \<Longrightarrow> hd p = c" for p by (cases p) auto
  show "space_len seqs (c # s) = 0" if "plain c"
  proof -
    have "find (\<lambda>q. take (length q) (c # s) = q) seqs = None"
      using q(1) hd that unfolding find_None_iff by blast
    then show ?thesis by (simp add: space_len_def)
  qed
  show "space_len seqs (c # s) = 1" if "ascii_space c"
  proof -
    have "find (\<lambda>q. take (length q) (c # s) = q) seqs \<noteq> None"
      unfolding find_None_iff using q(2) [OF that] by force
    then obtain p where p: "find (\<lambda>q. take (length q) (c # s) = q) seqs = Some p" by blast
    then have "p \<in> set seqs" "take (length p) (c # s) = p" by (auto simp: find_Some_iff)
    with q(1) hd that have "length p = 1" by metis
    then show ?thesis by (simp add: space_len_def p)
  qed
qed

lemmas space_len_plain = space_len_either(1) [of space_seqs, simplified]
  space_len_either(1) [of "map rev space_seqs", simplified]

lemmas space_len_space = space_len_either(2) [of space_seqs, simplified]
  space_len_either(2) [of "map rev space_seqs", simplified]

lemma trim_left_plain [simp]:
  "plain c \<Longrightarrow> trim_left space_seqs (c # s) = c # s"
  "plain c \<Longrightarrow> trim_left (map rev space_seqs) (c # s) = c # s"
  by (simp_all add: trim_left.simps space_len_plain)

lemma trim_left_Nil [simp]: "trim_left seqs [] = []"
  by (simp add: trim_left.simps)

lemma trim_left_spaces:
  "list_all ascii_space ws \<Longrightarrow> trim_left space_seqs (ws @ s) = trim_left space_seqs s"
  "list_all ascii_space ws \<Longrightarrow> trim_left (map rev space_seqs) (ws @ s) = trim_left (map rev space_seqs) s"
  by (induction ws) (simp_all add: trim_left.simps [of _ "_ # _"] space_len_space)

text \<open>Spaces around a text that begins and ends with plain characters go, and nothing else.\<close>

lemma TrimSpace_around:
  assumes "list_all ascii_space ws" and "list_all ascii_space ws'" and "s \<noteq> []"
    and "plain (hd s)" and "plain (last s)"
  shows "TrimSpace (ws @ s @ ws') = s"
proof -
  obtain c t where s: "s = c # t" using assms(3) by (cases s) auto
  have "trim_left space_seqs (ws @ s @ ws') = s @ ws'"
    using assms(1,4) by (simp add: trim_left_spaces s)
  moreover obtain d u where r: "rev s = d # u" using assms(3) by (cases "rev s") auto
  then have d: "plain d" using assms(5) by (metis hd_rev list.sel(1))
  have "list_all ascii_space (rev ws')" using assms(2) by (simp add: list_all_iff)
  then have "trim_left (map rev space_seqs) (rev ws' @ rev s) = rev s"
    using d by (simp add: trim_left_spaces r)
  ultimately show ?thesis by (simp add: TrimSpace_def)
qed

lemma TrimSpace_id:
  "s = [] \<or> plain (hd s) \<and> plain (last s) \<Longrightarrow> TrimSpace s = s"
  using TrimSpace_around [of "[]" "[]" s] by (cases "s = []") (simp_all add: TrimSpace_def)

section \<open>Lemmas on fields\<close>

lemma fields_word:
  "list_all plain w \<Longrightarrow> fields_from cur (w @ s) = fields_from (cur @ w) s"
  by (induction w arbitrary: cur) (simp_all add: fields_from.simps [of _ "_ # _"] space_len_plain)

lemma fields_space:
  "ascii_space c \<Longrightarrow> fields_from cur (c # s) = (if cur = [] then [] else [cur]) @ fields_from [] s"
  by (simp add: fields_from.simps [of _ "_ # _"] space_len_space)

lemma fields_Nil [simp]: "fields_from cur [] = (if cur = [] then [] else [cur])"
  by (simp add: fields_from.simps)

text \<open>Words without spaces, each followed by one space, are read back.\<close>

lemma Fields_words:
  assumes "\<forall>w \<in> set ws. w \<noteq> [] \<and> list_all plain w" and "list_all plain t"
  shows "Fields (concat (map (\<lambda>w. w @ '' '') ws) @ t) = ws @ (if t = [] then [] else [t])"
  using assms(1) unfolding Fields_def
proof (induction ws)
  case Nil
  then show ?case using fields_word [OF assms(2), of "[]" "[]"] by simp
next
  case (Cons w ws)
  have "ascii_space (CHR '' '')" by (simp add: ascii_space_def)
  with Cons show ?case by (simp add: fields_word fields_space)
qed

lemma Fields_nonempty: "w \<in> set (Fields s) \<Longrightarrow> w \<noteq> []"
proof -
  have "w \<in> set (fields_from cur s) \<Longrightarrow> w \<noteq> []" for cur
    by (induction cur s rule: fields_from.induct)
       (subst (asm) fields_from.simps, auto split: if_splits)
  then show "w \<in> set (Fields s) \<Longrightarrow> w \<noteq> []" by (auto simp: Fields_def)
qed

section \<open>Lemmas on hexadecimal digits\<close>

lemma hexDigit_cases:
  assumes "(n::nat) < 16"
  shows "n \<in> {0, 1, 2, 3, 4, 5, 6, 7, 8, 9, 10, 11, 12, 13, 14, 15}"
  unfolding insert_iff empty_iff using assms by presburger

lemma hexval_hexDigit [simp]: "n < 16 \<Longrightarrow> hexval (hexDigit n) = Some n"
  by (drule hexDigit_cases) (auto simp: hexDigit_def hexval_def)

lemma hexDigit_plain: "n < 16 \<Longrightarrow> plain (hexDigit n)"
  by (drule hexDigit_cases) (auto simp: hexDigit_def plain_def)

lemma hexval_less: "hexval c = Some n \<Longrightarrow> n < 16"
  by (auto simp: hexval_def Let_def split: if_splits)

lemma hexval_plain: "hexval c = Some n \<Longrightarrow> plain c"
  by (auto simp: hexval_def plain_def Let_def split: if_splits)

lemma lower_hexDigit: "n < 16 \<Longrightarrow> lower_char (hexDigit n) = hexDigit n"
  by (drule hexDigit_cases) (auto simp: hexDigit_def lower_char_def)

lemma byte_split [simp]:
  fixes b :: byte
  shows "unat b div 16 < 16" and "of_nat (16 * (unat b div 16) + unat b mod 16) = b"
proof -
  have "unat b < 256" using unsigned_less [of b] by simp
  then show "unat b div 16 < 16" by simp
  show "of_nat (16 * (unat b div 16) + unat b mod 16) = b" by simp
qed

lemma DecodeString_Encode [simp]: "DecodeString (EncodeToString bs) = Some bs"
proof (induction bs)
  case Nil
  then show ?case by (simp add: EncodeToString_def)
next
  case (Cons b bs)
  have "of_nat (16 * (unat b div 16) + unat b mod 16) = b" by (rule byte_split(2))
  with Cons show ?case by (simp add: EncodeToString_def hex_byte_def del: mult_div_mod_eq)
qed

lemma DecodeString_length: "DecodeString s = Some bs \<Longrightarrow> length s = 2 * length bs"
  by (induction s arbitrary: bs rule: DecodeString.induct) (auto split: option.splits)

lemma DecodeString_hex: "DecodeString s = Some bs \<Longrightarrow> c \<in> set s \<Longrightarrow> \<exists>n. hexval c = Some n"
  by (induction s arbitrary: bs rule: DecodeString.induct) (auto split: option.splits)

lemma decimal_front:
  "decimal n \<noteq> [] \<and> CHR ''_'' \<notin> set (decimal n) \<and> (0 < n \<longrightarrow> hd (decimal n) \<noteq> CHR ''0'') \<and>
   hd (decimal n) \<noteq> CHR ''-'' \<and> hd (decimal n) \<noteq> CHR ''+''"
proof (induction n rule: decimal.induct)
  case (1 n)
  have f: "m < 10 \<Longrightarrow> hexDigit m \<noteq> CHR ''_'' \<and> hexDigit m \<noteq> CHR ''-'' \<and> hexDigit m \<noteq> CHR ''+'' \<and> (0 < m \<longrightarrow> hexDigit m \<noteq> CHR ''0'')" for m
    using hexDigit_digit(1) [of m] by auto
  show ?case
  proof (cases "n < 10")
    case True
    then show ?thesis using f [OF True] by (subst (1 2 3 4 5) decimal.simps) auto
  next
    case False
    then show ?thesis using 1 f [of "n mod 10"] by (subst (1 2 3 4 5) decimal.simps) auto
  qed
qed

end
