(* ===== verification/Engine.thy ===== *)
theory Engine
  imports Protocol Go_Strings
begin

text \<open>
  The state engine, \<^verbatim>\<open>internal/engine/engine.go\<close>: its state as the record \<open>Engine\<close> and one
  definition per method.  Every method runs under \<^verbatim>\<open>e.mu\<close>, so each is one atomic function of the
  state.

  Go leaves three things to its runtime, and the operations take them from an argument \<open>Env\<close>:
  the order in which \<^verbatim>\<open>range\<close> yields the keys of a map (\<open>env_order\<close>, one choice per range statement
  and, for a loop over one client's connections, per client; \<open>env_subs\<close> for the subscribers), and
  the instants that \<^verbatim>\<open>time.Now()\<close> returns (\<open>env_clock\<close>, per sequence number).  Loops whose iterations
  touch disjoint entries and emit nothing are folds in list order.

  A channel is a cell of \<open>e_heap\<close>, a channel value an index into it; sending on or closing a closed
  channel is a Go panic and sets \<open>e_panicked\<close>.  Three fields are history variables that no operation
  reads: \<open>e_log\<close> (every event emitted so far), and of a channel \<open>ch_taken\<close> (what its reader has
  received) and \<open>ch_opened\<close> (the length of the log when it was made).
\<close>

section \<open>State\<close>

record Limits =
  MaxClients :: int
  MaxSubscribers :: int
  QueueSize :: int
  ReconnectGrace :: duration

record pendingDeparture =
  pd_provider :: string
  pd_source :: string
  pd_deadline :: time

record client =
  c_ID :: string
  c_State :: PresenceState
  c_Connections :: "(string, Connection) gomap"
  c_FirstSeenAt :: time
  c_LastSeenAt :: time

record chan =
  ch_buf :: "Event list"
  ch_cap :: nat
  ch_closed :: bool
  ch_taken :: "Event list"
  ch_opened :: nat

record Engine =
  e_epoch :: string
  e_sequence :: uint64
  e_clients :: "(string, client) gomap"
  e_providers :: "(string, Provider) gomap"
  e_subscribers :: "(uint64, nat) gomap"
  e_nextSub :: uint64
  e_limits :: Limits
  e_dropped :: uint64
  e_reconciliations :: uint64
  e_reconnectGrace :: duration
  e_pending :: "(string, pendingDeparture) gomap"
  e_stopSweeper :: "bool option"
  e_stopOnce :: bool
  e_heap :: "chan list"
  e_panicked :: bool
  e_log :: "Event list"

datatype engine_err =
    LimitsNotPositive
  | EpochUnavailable
  | ClientLimitReached
  | SnapshotExceedsLimit
  | SourceSnapshotExceedsLimit
  | StreamLimitReached
  | UnsupportedKind Kind

datatype range_site =
    SweepSite
  | EvictSite
  | ReconcileConnsSite string
  | ReconcileEmitSite
  | SourceEmitSite
  | SetProviderSite

record Env =
  env_order :: "range_site \<Rightarrow> string list \<Rightarrow> string list"
  env_subs :: "uint64 \<Rightarrow> (uint64 \<times> nat) list \<Rightarrow> (uint64 \<times> nat) list"
  env_clock :: "uint64 \<Rightarrow> time"

text \<open>Whatever order the runtime picks, it yields every entry exactly once.\<close>

definition good_env :: "Env \<Rightarrow> bool" where
  "good_env env \<longleftrightarrow>
     (\<forall>s ks. mset (env_order env s ks) = mset ks) \<and>
     (\<forall>q ss. mset (env_subs env q ss) = mset ss)"

section \<open>Channels and events\<close>

datatype send_result = Sent chan | WouldBlock | SendPanic

definition chan_make :: "nat \<Rightarrow> nat \<Rightarrow> chan" where
  "chan_make cap n = \<lparr>ch_buf = [], ch_cap = cap, ch_closed = False, ch_taken = [], ch_opened = n\<rparr>"

text \<open>\<^verbatim>\<open>select { case ch <- event: default: }\<close>.\<close>

definition chan_send :: "Event \<Rightarrow> chan \<Rightarrow> send_result" where
  "chan_send ev ch =
     (if ch_closed ch then SendPanic
      else if length (ch_buf ch) < ch_cap ch then Sent (ch\<lparr>ch_buf := ch_buf ch @ [ev]\<rparr>)
      else WouldBlock)"

definition close_chan :: "nat \<Rightarrow> Engine \<Rightarrow> Engine" where
  "close_chan r e =
     (if ch_closed (e_heap e ! r) then e\<lparr>e_panicked := True\<rparr>
      else e\<lparr>e_heap := (e_heap e)[r := (e_heap e ! r)\<lparr>ch_closed := True\<rparr>]\<rparr>)"

text \<open>One iteration of the loop over \<^verbatim>\<open>e.subscribers\<close> in \<^verbatim>\<open>emitLocked\<close>.\<close>

definition deliver :: "Event \<Rightarrow> uint64 \<times> nat \<Rightarrow> Engine \<Rightarrow> Engine" where
  "deliver ev s e =
     (case s of (i, r) \<Rightarrow>
       (case chan_send ev (e_heap e ! r) of
          Sent ch \<Rightarrow> e\<lparr>e_heap := (e_heap e)[r := ch]\<rparr>
        | WouldBlock \<Rightarrow>
            (close_chan r (e\<lparr>e_subscribers := AList.delete i (e_subscribers e)\<rparr>))
              \<lparr>e_dropped := e_dropped e + 1\<rparr>
        | SendPanic \<Rightarrow> e\<lparr>e_panicked := True\<rparr>))"

definition mk_event :: "Env \<Rightarrow> string \<Rightarrow> string \<Rightarrow> EventData \<Rightarrow> Engine \<Rightarrow> Event" where
  "mk_event env kind reason data e =
     \<lparr>ev_Type = kind,
      ev_EventID = e_epoch e @ '':'' @ show_nat (unat (e_sequence e)),
      ev_StreamEpoch = e_epoch e, ev_Sequence = e_sequence e,
      ev_Timestamp = env_clock env (e_sequence e),
      ev_Reason = reason, ev_Data = data\<rparr>"

definition emitLocked :: "Env \<Rightarrow> string \<Rightarrow> string \<Rightarrow> EventData \<Rightarrow> Engine \<Rightarrow> Engine" where
  "emitLocked env kind reason data e =
     (let e1 = e\<lparr>e_sequence := e_sequence e + 1\<rparr>;
          event = mk_event env kind reason data e1
      in fold (deliver event) (env_subs env (e_sequence e1) (e_subscribers e1))
           (e1\<lparr>e_log := e_log e1 @ [event]\<rparr>))"

section \<open>Clients\<close>

definition connectionID :: "string \<Rightarrow> string \<Rightarrow> string" where
  "connectionID provider source = provider @ '':'' @ source"

definition reducedState :: "client \<Rightarrow> PresenceState \<Rightarrow> PresenceState" where
  "reducedState c emptyState =
     (if list_ex (\<lambda>(_, conn). \<not> conn_Stale conn) (c_Connections c) then StatePresent
      else if length (c_Connections c) \<noteq> 0 then StateUnknown
      else emptyState)"

definition publicClientLocked :: "client \<Rightarrow> Client" where
  "publicClientLocked c =
     \<lparr>cl_ID = c_ID c, cl_State = c_State c,
      cl_Present = (if c_State c = StatePresent \<or> c_State c = StateAbsent
                    then Some (c_State c = StatePresent) else None),
      cl_Connections = sort_key conn_ID (map snd (c_Connections c)),
      cl_FirstSeenAt = c_FirstSeenAt c, cl_LastSeenAt = c_LastSeenAt c\<rparr>"

abbreviation put_client :: "string \<Rightarrow> client \<Rightarrow> Engine \<Rightarrow> Engine" where
  "put_client cid c e \<equiv> e\<lparr>e_clients := AList.update cid c (e_clients e)\<rparr>"

definition new_client :: "string \<Rightarrow> time \<Rightarrow> client" where
  "new_client cid at =
     \<lparr>c_ID = cid, c_State = StateZero, c_Connections = [], c_FirstSeenAt = at, c_LastSeenAt = 0\<rparr>"

definition new_conn :: "string \<Rightarrow> string \<Rightarrow> time \<Rightarrow> time \<Rightarrow> Connection" where
  "new_conn provider source at seen =
     \<lparr>conn_ID = connectionID provider source, conn_Provider = provider,
      conn_SourceInstance = source, conn_ConnectedAt = at, conn_LastSeenAt = seen,
      conn_Stale = False\<rparr>"

text \<open>\<^verbatim>\<open>isWiFiProvider\<close> and \<^verbatim>\<open>isLastNonStaleLocked\<close>.\<close>

definition isWiFiProvider :: "Engine \<Rightarrow> string \<Rightarrow> bool" where
  "isWiFiProvider e provider =
     (case map_of (e_providers e) provider of None \<Rightarrow> False | Some p \<Rightarrow> pr_Kind p = ''wifi'')"

definition isLastNonStaleLocked :: "client \<Rightarrow> string \<Rightarrow> bool" where
  "isLastNonStaleLocked c connID =
     list_all (\<lambda>(i, conn). \<not> (i \<noteq> connID \<and> \<not> conn_Stale conn)) (c_Connections c)"

definition ensurePendingLocked ::
    "string \<Rightarrow> string \<Rightarrow> string \<Rightarrow> time \<Rightarrow> Engine \<Rightarrow> Engine" where
  "ensurePendingLocked cid provider source at e =
     (case map_of (e_pending e) cid of
        Some _ \<Rightarrow> e
      | None \<Rightarrow> e\<lparr>e_pending := AList.update cid
            \<lparr>pd_provider = provider, pd_source = source,
             pd_deadline = at + e_reconnectGrace e\<rparr> (e_pending e)\<rparr>)"

text \<open>
  The common tail of \<^verbatim>\<open>Disassociate\<close> and \<^verbatim>\<open>applyPendingDepartureLocked\<close>: remove one connection,
  recompute the state, announce it.
\<close>

definition dropConnection ::
    "Env \<Rightarrow> string \<Rightarrow> client \<Rightarrow> string \<Rightarrow> time \<Rightarrow> string \<Rightarrow> Engine \<Rightarrow> Engine" where
  "dropConnection env cid c connID at reason e =
     (let c1 = c\<lparr>c_Connections := AList.delete connID (c_Connections c), c_LastSeenAt := at\<rparr>;
          old = c_State c1;
          c2 = c1\<lparr>c_State := reducedState c1 StateUnknown\<rparr>;
          e2 = put_client cid c2 e
      in if c_State c2 \<noteq> old
         then emitLocked env ''client.presence_changed'' reason (ClientData (publicClientLocked c2)) e2
         else emitLocked env ''client.updated'' reason (ClientData (publicClientLocked c2)) e2)"

definition applyPendingDepartureLocked ::
    "Env \<Rightarrow> string \<Rightarrow> pendingDeparture \<Rightarrow> time \<Rightarrow> Engine \<Rightarrow> Engine" where
  "applyPendingDepartureLocked env cid p at e =
     (case map_of (e_clients e) cid of
        None \<Rightarrow> e
      | Some c \<Rightarrow>
          let i = connectionID (pd_provider p) (pd_source p) in
          (case map_of (c_Connections c) i of
             None \<Rightarrow> e
           | Some _ \<Rightarrow> dropConnection env cid c i at ''reconnect_grace_expired'' e))"

definition sweep_one :: "Env \<Rightarrow> time \<Rightarrow> string \<Rightarrow> Engine \<Rightarrow> Engine" where
  "sweep_one env now cid e =
     (case map_of (e_pending e) cid of
        None \<Rightarrow> e
      | Some p \<Rightarrow>
          if now < pd_deadline p then e
          else applyPendingDepartureLocked env cid p now
                 (e\<lparr>e_pending := AList.delete cid (e_pending e)\<rparr>))"

definition sweepPending :: "Env \<Rightarrow> time \<Rightarrow> Engine \<Rightarrow> Engine" where
  "sweepPending env now e =
     fold (sweep_one env now) (env_order env SweepSite (map fst (e_pending e))) e"

section \<open>Life cycle\<close>

text \<open>\<^verbatim>\<open>startSweeper\<close>: the channel is made, and the ticker runs at this period.\<close>

definition sweeper_tick :: "duration \<Rightarrow> duration" where
  "sweeper_tick grace =
     (let tick = grace div 2;
          tick = (if tick > Second then Second else tick)
      in if tick < 100 * Millisecond then 100 * Millisecond else tick)"

definition startSweeper :: "Engine \<Rightarrow> Engine" where
  "startSweeper e = e\<lparr>e_stopSweeper := Some False\<rparr>"

text \<open>
  \<^verbatim>\<open>New\<close>: \<open>random\<close> is the byte that \<^verbatim>\<open>rand.Read\<close> puts at each index of the array, \<open>None\<close> a failing random source.
\<close>

definition New :: "(nat \<Rightarrow> byte) option \<Rightarrow> Limits \<Rightarrow> engine_err + Engine" where
  "New random l =
     (if MaxClients l < 1 \<or> MaxSubscribers l < 1 \<or> QueueSize l < 1 then Inl LimitsNotPositive
      else (case random of
              None \<Rightarrow> Inl EpochUnavailable
            | Some fill \<Rightarrow>
                let raw = map fill [0..<16];
                    e = \<lparr>e_epoch = EncodeToString raw, e_sequence = 0, e_clients = [], e_providers = [],
                             e_subscribers = [], e_nextSub = 0, e_limits = l, e_dropped = 0,
                             e_reconciliations = 0, e_reconnectGrace = ReconnectGrace l,
                             e_pending = [], e_stopSweeper = None, e_stopOnce = False,
                             e_heap = [], e_panicked = False, e_log = []\<rparr>
                in Inr (if ReconnectGrace l > 0 then startSweeper e else e)))"

definition Stop :: "Engine \<Rightarrow> Engine" where
  "Stop e =
     (if e_stopOnce e then e
      else e\<lparr>e_stopOnce := True, e_stopSweeper := map_option (\<lambda>_. True) (e_stopSweeper e)\<rparr>)"

section \<open>Eviction\<close>

definition evict_rank :: "client \<Rightarrow> nat option" where
  "evict_rank c =
     (if c_State c = StateAbsent \<and> length (c_Connections c) = 0 then Some 1
      else if c_State c = StateUnknown \<and> reducedState c StateUnknown = StateUnknown then Some 2
      else None)"

text \<open>One iteration of the scan: the candidate so far, with its rank.\<close>

definition evict_consider ::
    "Engine \<Rightarrow> string list \<Rightarrow> string \<Rightarrow> (client \<times> nat) option \<Rightarrow> (client \<times> nat) option" where
  "evict_consider e exclude k cand =
     (case map_of (e_clients e) k of
        None \<Rightarrow> cand
      | Some current \<Rightarrow>
          (case evict_rank current of
             None \<Rightarrow> cand
           | Some rank \<Rightarrow>
               if k \<in> set exclude then cand
               else (case cand of
                       None \<Rightarrow> Some (current, rank)
                     | Some (best, bestRank) \<Rightarrow>
                         if rank < bestRank \<or>
                            rank = bestRank \<and> c_LastSeenAt current < c_LastSeenAt best
                         then Some (current, rank) else cand)))"

definition evictOldestNonPresentLocked ::
    "Env \<Rightarrow> string list \<Rightarrow> Engine \<Rightarrow> bool \<times> Engine" where
  "evictOldestNonPresentLocked env exclude e =
     (case fold (evict_consider e exclude) (env_order env EvictSite (map fst (e_clients e))) None of
        None \<Rightarrow> (False, e)
      | Some (c, _) \<Rightarrow>
          (True, emitLocked env ''client.removed'' ''retention_limit''
                   (ClientData (publicClientLocked c))
                   (e\<lparr>e_clients := AList.delete (c_ID c) (e_clients e),
                      e_pending := AList.delete (c_ID c) (e_pending e)\<rparr>)))"

text \<open>
  \<^verbatim>\<open>for len(e.clients)+newClients > e.limits.MaxClients { if !e.evict...() { return err } }\<close>.
  \<open>None\<close> would be a loop that never returns.
\<close>

partial_function (option) evict_loop ::
    "Env \<Rightarrow> string list \<Rightarrow> nat \<Rightarrow> Engine \<Rightarrow> (bool \<times> Engine) option" where
  "evict_loop env exclude newClients e =
     (if int (length (e_clients e)) + int newClients > MaxClients (e_limits e)
      then (case evictOldestNonPresentLocked env exclude e of
              (ok, e') \<Rightarrow> if \<not> ok then Some (False, e') else evict_loop env exclude newClients e')
      else Some (True, e))"

declare evict_loop.simps [code]

section \<open>Observations\<close>

definition associate_client ::
    "Env \<Rightarrow> string \<Rightarrow> string \<Rightarrow> string \<Rightarrow> time \<Rightarrow> string \<Rightarrow> client \<Rightarrow> Engine \<Rightarrow> Engine" where
  "associate_client env provider source cid at reason c e =
     (let wasPresent = (c_State c = StatePresent);
          i = connectionID provider source;
          existed = (map_of (c_Connections c) i \<noteq> None);
          conn = (case map_of (c_Connections c) i of
                    Some n \<Rightarrow> n
                  | None \<Rightarrow> new_conn provider source at 0);
          conn1 = conn\<lparr>conn_LastSeenAt := at, conn_Stale := False\<rparr>;
          c1 = c\<lparr>c_Connections := AList.update i conn1 (c_Connections c),
                 c_State := StatePresent, c_LastSeenAt := at\<rparr>;
          e1 = (put_client cid c1 e)\<lparr>e_pending := AList.delete cid (e_pending e)\<rparr>
      in if \<not> wasPresent
         then emitLocked env ''client.presence_changed'' reason (ClientData (publicClientLocked c1)) e1
         else if \<not> existed
         then emitLocked env ''client.updated'' reason (ClientData (publicClientLocked c1)) e1
         else e1)"

definition Associate ::
    "Env \<Rightarrow> string \<Rightarrow> string \<Rightarrow> string \<Rightarrow> time \<Rightarrow> string \<Rightarrow> Engine \<Rightarrow> engine_err option \<times> Engine" where
  "Associate env provider source cid at reason e =
     (case map_of (e_clients e) cid of
        Some c \<Rightarrow> (None, associate_client env provider source cid at reason c e)
      | None \<Rightarrow>
          if int (length (e_clients e)) \<ge> MaxClients (e_limits e)
          then (case evictOldestNonPresentLocked env [] e of
                  (False, e') \<Rightarrow> (Some ClientLimitReached, e')
                | (True, e') \<Rightarrow>
                    (None, associate_client env provider source cid at reason (new_client cid at) e'))
          else (None, associate_client env provider source cid at reason (new_client cid at) e))"

definition Disassociate ::
    "Env \<Rightarrow> string \<Rightarrow> string \<Rightarrow> string \<Rightarrow> time \<Rightarrow> string \<Rightarrow> Engine \<Rightarrow> Engine" where
  "Disassociate env provider source cid at reason e =
     (case map_of (e_clients e) cid of
        None \<Rightarrow> e
      | Some c \<Rightarrow>
          let i = connectionID provider source in
          (case map_of (c_Connections c) i of
             None \<Rightarrow> e
           | Some _ \<Rightarrow>
               if e_reconnectGrace e > 0 \<and> c_State c = StatePresent \<and> isLastNonStaleLocked c i
               then ensurePendingLocked cid provider source at e
               else dropConnection env cid c i at reason e))"

section \<open>Snapshots of a whole provider\<close>

definition wanted_add ::
    "string \<Rightarrow> string \<Rightarrow> (string, string list) gomap \<Rightarrow> (string, string list) gomap" where
  "wanted_add source cid w =
     AList.update cid (List.insert source (case map_of w cid of None \<Rightarrow> [] | Some ss \<Rightarrow> ss)) w"

definition build_wanted :: "(string, string list) gomap \<Rightarrow> (string, string list) gomap" where
  "build_wanted stations = fold (\<lambda>(source, ids). fold (wanted_add source) ids) stations []"

definition is_wanted :: "(string, string list) gomap \<Rightarrow> string \<Rightarrow> string \<Rightarrow> bool" where
  "is_wanted w cid source =
     (case map_of w cid of None \<Rightarrow> False | Some ss \<Rightarrow> source \<in> set ss)"

text \<open>The body of the inner loop over \<^verbatim>\<open>c.Connections\<close>; the state carries \<^verbatim>\<open>changed\<close>.\<close>

definition scan_conn ::
    "string \<Rightarrow> (string, string list) gomap \<Rightarrow> time \<Rightarrow> string \<Rightarrow> string \<Rightarrow>
     Engine \<times> string list \<Rightarrow> Engine \<times> string list" where
  "scan_conn provider wanted at cid connID s =
     (case s of (e, changed) \<Rightarrow>
       (case map_of (e_clients e) cid of
          None \<Rightarrow> s
        | Some c \<Rightarrow>
            (case map_of (c_Connections c) connID of
               None \<Rightarrow> s
             | Some conn \<Rightarrow>
                 if conn_Provider conn \<noteq> provider then s
                 else if is_wanted wanted cid (conn_SourceInstance conn) then s
                 else if e_reconnectGrace e > 0 \<and> isWiFiProvider e provider \<and>
                         c_State c = StatePresent \<and> isLastNonStaleLocked c connID
                 then (ensurePendingLocked cid (conn_Provider conn) (conn_SourceInstance conn) at e,
                       changed)
                 else (put_client cid
                         (c\<lparr>c_Connections := AList.delete connID (c_Connections c)\<rparr>) e,
                       List.insert cid changed))))"

definition reconcile_scan ::
    "Env \<Rightarrow> string \<Rightarrow> (string, string list) gomap \<Rightarrow> time \<Rightarrow> string \<Rightarrow>
     Engine \<times> string list \<Rightarrow> Engine \<times> string list" where
  "reconcile_scan env provider wanted at cid s =
     (case map_of (e_clients (fst s)) cid of
        None \<Rightarrow> s
      | Some c \<Rightarrow>
          fold (scan_conn provider wanted at cid)
            (env_order env (ReconcileConnsSite cid) (map fst (c_Connections c))) s)"

text \<open>The body of the loop over \<^verbatim>\<open>sources\<close> for one wanted client.\<close>

definition want_source ::
    "string \<Rightarrow> time \<Rightarrow> string \<Rightarrow> client \<times> bool \<Rightarrow> client \<times> bool" where
  "want_source provider at source s =
     (case s of (c, chg) \<Rightarrow>
       let i = connectionID provider source in
       (case map_of (c_Connections c) i of
          None \<Rightarrow> (c\<lparr>c_Connections := AList.update i (new_conn provider source at at)
                                        (c_Connections c)\<rparr>, True)
        | Some conn \<Rightarrow> (c\<lparr>c_Connections := AList.update i
                            (conn\<lparr>conn_LastSeenAt := at, conn_Stale := False\<rparr>)
                            (c_Connections c)\<rparr>, chg)))"

definition reconcile_want ::
    "string \<Rightarrow> time \<Rightarrow> string \<times> string list \<Rightarrow> Engine \<times> string list \<Rightarrow> Engine \<times> string list" where
  "reconcile_want provider at w s =
     (case w of (cid, sources) \<Rightarrow> case s of (e, changed) \<Rightarrow>
        let e1 = e\<lparr>e_pending := AList.delete cid (e_pending e)\<rparr>;
            c = (case map_of (e_clients e1) cid of Some c \<Rightarrow> c | None \<Rightarrow> new_client cid at);
            (c1, chg) = fold (want_source provider at) sources (c, False)
        in (put_client cid c1 e1, if chg then List.insert cid changed else changed))"

definition reconcile_publish ::
    "Env \<Rightarrow> string list \<Rightarrow> time \<Rightarrow> string \<Rightarrow> Engine \<Rightarrow> Engine" where
  "reconcile_publish env changed at cid e =
     (case map_of (e_clients e) cid of
        None \<Rightarrow> e
      | Some c \<Rightarrow>
          let old = c_State c;
              c1 = c\<lparr>c_State := reducedState c StateAbsent\<rparr>
          in if c_State c1 \<noteq> old
             then let c2 = c1\<lparr>c_LastSeenAt := at\<rparr> in
                  emitLocked env ''client.presence_changed'' ''snapshot_reconciliation''
                    (ClientData (publicClientLocked c2)) (put_client cid c2 e)
             else if c_ID c1 \<in> set changed
             then emitLocked env ''client.updated'' ''snapshot_reconciliation''
                    (ClientData (publicClientLocked c1)) (put_client cid c1 e)
             else put_client cid c1 e)"

definition count_new :: "string list \<Rightarrow> Engine \<Rightarrow> nat" where
  "count_new ids e = length (filter (\<lambda>i. map_of (e_clients e) i = None) ids)"

text \<open>Everything after the client limit has been checked.\<close>

definition reconcile_apply ::
    "Env \<Rightarrow> string \<Rightarrow> (string, string list) gomap \<Rightarrow> time \<Rightarrow> Engine \<Rightarrow> Engine" where
  "reconcile_apply env provider wanted at e =
     (let e1 = e\<lparr>e_reconciliations := e_reconciliations e + 1\<rparr>;
          s2 = fold (reconcile_scan env provider wanted at) (map fst (e_clients e1)) (e1, []);
          (e3, changed) = fold (reconcile_want provider at) wanted s2;
          e4 = fold (reconcile_publish env changed at)
                 (env_order env ReconcileEmitSite (map fst (e_clients e3))) e3
      in emitLocked env ''state.resynchronized'' ''authoritative_snapshot''
           (MapData [(''provider'', AnyString provider)]) e4)"

definition Reconcile ::
    "Env \<Rightarrow> string \<Rightarrow> (string, string list) gomap \<Rightarrow> time \<Rightarrow> Engine \<Rightarrow>
     (engine_err option \<times> Engine) option" where
  "Reconcile env provider stations at e =
     (let wanted = build_wanted stations in
      case evict_loop env (map fst wanted) (count_new (map fst wanted) e) e of
        None \<Rightarrow> None
      | Some (False, e1) \<Rightarrow> Some (Some SnapshotExceedsLimit, e1)
      | Some (True, e1) \<Rightarrow> Some (None, reconcile_apply env provider wanted at e1))"

section \<open>Snapshots of one source\<close>

text \<open>\<^verbatim>\<open>affected\<close> holds pointers into \<^verbatim>\<open>e.clients\<close>; the model keeps the keys.\<close>

definition source_scan ::
    "string \<Rightarrow> string \<Rightarrow> string list \<Rightarrow> time \<Rightarrow> string \<Rightarrow>
     Engine \<times> string list \<Rightarrow> Engine \<times> string list" where
  "source_scan provider source wanted at cid s =
     (case s of (e, affected) \<Rightarrow>
       let connection = connectionID provider source in
       (case map_of (e_clients e) cid of
          None \<Rightarrow> s
        | Some c \<Rightarrow>
            if map_of (c_Connections c) connection = None then s
            else if cid \<in> set wanted then s
            else if e_reconnectGrace e > 0 \<and> isWiFiProvider e provider \<and>
                    c_State c = StatePresent \<and> isLastNonStaleLocked c connection
            then (ensurePendingLocked cid provider source at e, affected)
            else (put_client cid
                    (c\<lparr>c_Connections := AList.delete connection (c_Connections c)\<rparr>) e,
                  List.insert cid affected)))"

definition source_want ::
    "string \<Rightarrow> string \<Rightarrow> time \<Rightarrow> string \<Rightarrow> Engine \<times> string list \<Rightarrow> Engine \<times> string list" where
  "source_want provider source at cid s =
     (case s of (e, affected) \<Rightarrow>
       let connection = connectionID provider source;
           e1 = e\<lparr>e_pending := AList.delete cid (e_pending e)\<rparr>;
           c = (case map_of (e_clients e1) cid of Some c \<Rightarrow> c | None \<Rightarrow> new_client cid at)
       in (case map_of (c_Connections c) connection of
             Some conn \<Rightarrow>
               (put_client cid
                  (c\<lparr>c_Connections := AList.update connection
                       (conn\<lparr>conn_LastSeenAt := at, conn_Stale := False\<rparr>) (c_Connections c)\<rparr>) e1,
                if conn_Stale conn then List.insert cid affected else affected)
           | None \<Rightarrow>
               (put_client cid
                  (c\<lparr>c_Connections := AList.update connection
                       (new_conn provider source at at) (c_Connections c)\<rparr>) e1,
                List.insert cid affected)))"

definition source_publish :: "Env \<Rightarrow> time \<Rightarrow> string \<Rightarrow> Engine \<Rightarrow> Engine" where
  "source_publish env at cid e =
     (case map_of (e_clients e) cid of
        None \<Rightarrow> e
      | Some c \<Rightarrow>
          let old = c_State c;
              c1 = c\<lparr>c_State := reducedState c StateAbsent\<rparr>
          in if c_State c1 \<noteq> old
             then let c2 = c1\<lparr>c_LastSeenAt := at\<rparr> in
                  emitLocked env ''client.presence_changed'' ''source_reconciliation''
                    (ClientData (publicClientLocked c2)) (put_client cid c2 e)
             else emitLocked env ''client.updated'' ''source_reconciliation''
                    (ClientData (publicClientLocked c1)) (put_client cid c1 e))"

definition source_apply ::
    "Env \<Rightarrow> string \<Rightarrow> string \<Rightarrow> string list \<Rightarrow> time \<Rightarrow> Engine \<Rightarrow> Engine" where
  "source_apply env provider source wanted at e =
     (let s1 = fold (source_scan provider source wanted at) (map fst (e_clients e)) (e, []);
          (e2, affected) = fold (source_want provider source at) wanted s1;
          e3 = fold (source_publish env at) (env_order env SourceEmitSite affected) e2
      in emitLocked env ''state.resynchronized'' ''authoritative_source_snapshot''
           (MapData [(''provider'', AnyString provider), (''source_instance'', AnyString source)]) e3)"

definition ReconcileSource ::
    "Env \<Rightarrow> string \<Rightarrow> string \<Rightarrow> string list \<Rightarrow> time \<Rightarrow> Engine \<Rightarrow>
     (engine_err option \<times> Engine) option" where
  "ReconcileSource env provider source clientIDs at e =
     (let wanted = remdups clientIDs in
      case evict_loop env wanted (count_new wanted e) e of
        None \<Rightarrow> None
      | Some (False, e1) \<Rightarrow> Some (Some SourceSnapshotExceedsLimit, e1)
      | Some (True, e1) \<Rightarrow> Some (None, source_apply env provider source wanted at e1))"

section \<open>Providers\<close>

definition stale_one :: "Env \<Rightarrow> string \<Rightarrow> string \<Rightarrow> Engine \<Rightarrow> Engine" where
  "stale_one env pid cid e =
     (case map_of (e_clients e) cid of
        None \<Rightarrow> e
      | Some c \<Rightarrow>
          let hit = (\<lambda>conn. conn_Provider conn = pid \<and> \<not> conn_Stale conn);
              changed = list_ex (\<lambda>(_, conn). hit conn) (c_Connections c);
              c1 = c\<lparr>c_Connections := map (\<lambda>(i, conn). (i, if hit conn
                         then conn\<lparr>conn_Stale := True\<rparr> else conn)) (c_Connections c)\<rparr>
          in if \<not> changed then e
             else let e1 = (put_client cid c1 e)\<lparr>e_pending := AList.delete (c_ID c1) (e_pending e)\<rparr>;
                      state = reducedState c1 StateUnknown
                  in if c_State c1 \<noteq> state
                     then let c2 = c1\<lparr>c_State := state\<rparr> in
                          emitLocked env ''client.presence_changed'' ''provider_unavailable''
                            (ClientData (publicClientLocked c2)) (put_client cid c2 e1)
                     else emitLocked env ''client.updated'' ''provider_unavailable''
                            (ClientData (publicClientLocked c1)) e1)"

definition SetProvider :: "Env \<Rightarrow> Provider \<Rightarrow> Engine \<Rightarrow> Engine" where
  "SetProvider env p e =
     (let old = map_of (e_providers e) (pr_ID p);
          e1 = e\<lparr>e_providers := AList.update (pr_ID p) p (e_providers e)\<rparr>;
          e2 = (if (case old of None \<Rightarrow> True
                    | Some o' \<Rightarrow> pr_Status o' \<noteq> pr_Status p \<or> pr_LastError o' \<noteq> pr_LastError p)
                then emitLocked env ''provider.status'' ''provider_lifecycle'' (ProviderData p) e1
                else e1)
      in if pr_Status p = ''unavailable''
         then fold (stale_one env (pr_ID p))
                (env_order env SetProviderSite (map fst (e_clients e2))) e2
         else e2)"

definition HasAuthoritativeSnapshot :: "string \<Rightarrow> Engine \<Rightarrow> bool" where
  "HasAuthoritativeSnapshot kind e =
     list_ex (\<lambda>(_, p). pr_Kind p = kind \<and> pr_LastSnapshotAt p \<noteq> 0) (e_providers e)"

definition lookupProvider :: "string \<Rightarrow> Engine \<Rightarrow> Provider option" where
  "lookupProvider i e = map_of (e_providers e) i"

definition Providers :: "Engine \<Rightarrow> Provider list" where
  "Providers e = sort_key pr_ID (map snd (e_providers e))"

section \<open>The observation sink\<close>

definition Apply :: "Env \<Rightarrow> Observation \<Rightarrow> Engine \<Rightarrow> engine_err option \<times> Engine" where
  "Apply env v e =
     (case ob_Kind v of
        WiFiAssociated \<Rightarrow> Associate env (ob_Provider v) (ob_SourceInstance v) (ob_ClientID v)
                             (ob_ReceivedAt v) ''provider_event'' e
      | WiredReachable \<Rightarrow> Associate env (ob_Provider v) (ob_SourceInstance v) (ob_ClientID v)
                             (ob_ReceivedAt v) ''provider_event'' e
      | WiFiDisassociated \<Rightarrow>
          (None, Disassociate env (ob_Provider v) (ob_SourceInstance v) (ob_ClientID v)
                   (ob_ReceivedAt v) ''provider_event'' e)
      | OtherKind k \<Rightarrow> (Some (UnsupportedKind (OtherKind k)), e))"

definition ApplySnapshot ::
    "Env \<Rightarrow> ObsSnapshot \<Rightarrow> Engine \<Rightarrow> (engine_err option \<times> Engine) option" where
  "ApplySnapshot env v = Reconcile env (os_Provider v) (os_Stations v) (os_ReceivedAt v)"

definition ApplySourceSnapshot ::
    "Env \<Rightarrow> SourceSnapshot \<Rightarrow> Engine \<Rightarrow> (engine_err option \<times> Engine) option" where
  "ApplySourceSnapshot env v =
     ReconcileSource env (ss_Provider v) (ss_SourceInstance v) (ss_Clients v) (ss_ReceivedAt v)"

definition provider_of_status :: "ProviderStatus \<Rightarrow> Provider" where
  "provider_of_status v =
     \<lparr>pr_ID = ps_ID v, pr_Kind = ps_Kind v, pr_Status = ps_Status v,
      pr_SnapshotSupported = ps_SnapshotSupported v, pr_Sources = ps_Sources v,
      pr_LastSnapshotAt = ps_LastSnapshotAt v, pr_LastEventAt = ps_LastEventAt v,
      pr_LastError = ps_LastError v, pr_SnapshotSource = ps_SnapshotSource v,
      pr_EventSource = ps_EventSource v\<rparr>"

definition SetProviderStatus :: "Env \<Rightarrow> ProviderStatus \<Rightarrow> Engine \<Rightarrow> Engine" where
  "SetProviderStatus env v = SetProvider env (provider_of_status v)"

section \<open>Reads, subscription, statistics\<close>

definition snapshotLocked :: "time \<Rightarrow> Engine \<Rightarrow> Snapshot" where
  "snapshotLocked now e =
     \<lparr>snap_StreamEpoch = e_epoch e, snap_Sequence = e_sequence e, snap_GeneratedAt = now,
      snap_Clients = sort_key cl_ID (map (\<lambda>(_, c). publicClientLocked c) (e_clients e))\<rparr>"

definition lookupClient :: "string \<Rightarrow> Engine \<Rightarrow> Client option" where
  "lookupClient i e = map_option publicClientLocked (map_of (e_clients e) i)"

text \<open>
  \<^verbatim>\<open>Subscribe\<close> returns the snapshot, the subscriber number the closure \<^verbatim>\<open>cancel\<close> captures, and the
  channel.
\<close>

definition Subscribe :: "time \<Rightarrow> Engine \<Rightarrow> (engine_err + Snapshot \<times> uint64 \<times> nat) \<times> Engine" where
  "Subscribe now e =
     (if int (length (e_subscribers e)) \<ge> MaxSubscribers (e_limits e)
      then (Inl StreamLimitReached, e)
      else let i = e_nextSub e;
               r = length (e_heap e);
               e1 = e\<lparr>e_nextSub := e_nextSub e + 1,
                      e_heap := e_heap e @ [chan_make (nat (QueueSize (e_limits e))) (length (e_log e))],
                      e_subscribers := AList.update i r (e_subscribers e)\<rparr>
           in (Inr (snapshotLocked now e1, i, r), e1))"

definition cancel :: "uint64 \<Rightarrow> Engine \<Rightarrow> Engine" where
  "cancel i e =
     (case map_of (e_subscribers e) i of
        None \<Rightarrow> e
      | Some r \<Rightarrow> close_chan r (e\<lparr>e_subscribers := AList.delete i (e_subscribers e)\<rparr>))"

text \<open>
  \<^verbatim>\<open>next, ok := <-events\<close> by the stream handler: \<open>None\<close> blocks, \<open>Some None\<close> is \<^verbatim>\<open>ok == false\<close>.
\<close>

definition receive :: "nat \<Rightarrow> Engine \<Rightarrow> Event option option \<times> Engine" where
  "receive r e =
     (case ch_buf (e_heap e ! r) of
        [] \<Rightarrow> (if ch_closed (e_heap e ! r) then Some None else None, e)
      | ev # evs \<Rightarrow>
          (Some (Some ev),
           e\<lparr>e_heap := (e_heap e)[r := (e_heap e ! r)\<lparr>ch_buf := evs,
                                    ch_taken := ch_taken (e_heap e ! r) @ [ev]\<rparr>]\<rparr>))"

record EngineStats =
  st_clients :: nat
  st_connections :: nat
  st_stream_clients :: nat
  st_dropped_stream_clients :: uint64
  st_sequence :: uint64
  st_reconciliations :: uint64
  st_pending_departures :: nat

definition Stats :: "Engine \<Rightarrow> EngineStats" where
  "Stats e =
     \<lparr>st_clients = length (e_clients e),
      st_connections = sum_list (map (\<lambda>(_, c). length (c_Connections c)) (e_clients e)),
      st_stream_clients = length (e_subscribers e), st_dropped_stream_clients = e_dropped e,
      st_sequence = e_sequence e, st_reconciliations = e_reconciliations e,
      st_pending_departures = length (e_pending e)\<rparr>"

end
