(* ===== verification/Engine_Stream.thy ===== *)
theory Engine_Stream
  imports Engine "HOL-Library.Sublist"
begin

text \<open>
  The event stream: what \<^verbatim>\<open>emitLocked\<close> leaves alone, the invariant that ties every subscriber
  channel to the log of emitted events, and the view of the clients that a consumer rebuilds from a
  snapshot and the events after it.
\<close>

section \<open>Definitions\<close>

text \<open>
  \<open>stream_inv\<close>: no panic; the log is numbered 1, 2, 3, ... (modulo \<open>2 ^ 64\<close>); subscribers own
  distinct open channels that hold or have handed over everything logged since they were made; any
  other channel holds a prefix of it; no channel is over its capacity.
\<close>

definition log_ok :: "Engine \<Rightarrow> bool" where
  "log_ok e \<longleftrightarrow> e_sequence e = of_nat (length (e_log e)) \<and>
     (\<forall>n < length (e_log e). ev_Sequence (e_log e ! n) = of_nat (Suc n) \<and>
                              ev_StreamEpoch (e_log e ! n) = e_epoch e)"

definition chan_stream :: "chan \<Rightarrow> Event list" where
  "chan_stream ch = ch_taken ch @ ch_buf ch"

definition chan_ok :: "nat \<Rightarrow> Event list \<Rightarrow> chan \<Rightarrow> bool" where
  "chan_ok cap log ch \<longleftrightarrow> ch_cap ch = cap \<and> length (ch_buf ch) \<le> ch_cap ch \<and>
     ch_opened ch \<le> length log \<and> prefix (chan_stream ch) (drop (ch_opened ch) log)"

definition sub_ok :: "Engine \<Rightarrow> nat \<Rightarrow> bool" where
  "sub_ok e r \<longleftrightarrow> r < length (e_heap e) \<and> \<not> ch_closed (e_heap e ! r) \<and>
     chan_stream (e_heap e ! r) = drop (ch_opened (e_heap e ! r)) (e_log e)"

definition stream_inv :: "Engine \<Rightarrow> bool" where
  "stream_inv e \<longleftrightarrow> \<not> e_panicked e \<and> log_ok e \<and>
     dkeys (e_subscribers e) \<and> distinct (map snd (e_subscribers e)) \<and>
     (\<forall>r \<in> snd ` set (e_subscribers e). sub_ok e r) \<and>
     (\<forall>ch \<in> set (e_heap e). chan_ok (nat (QueueSize (e_limits e))) (e_log e) ch) \<and>
     int (length (e_subscribers e)) \<le> MaxSubscribers (e_limits e)"

text \<open>
  The part of a client that the stream announces: its state, its first-seen time and, of every
  connection, everything but the time it was last seen and the stale flag.
\<close>

type_synonym conn_view = "string \<times> string \<times> string \<times> time"
type_synonym view = "string \<rightharpoonup> PresenceState \<times> time \<times> conn_view set"

definition conn_view :: "Connection \<Rightarrow> conn_view" where
  "conn_view n = (conn_ID n, conn_Provider n, conn_SourceInstance n, conn_ConnectedAt n)"

definition client_view :: "client \<Rightarrow> PresenceState \<times> time \<times> conn_view set" where
  "client_view c = (c_State c, c_FirstSeenAt c, conn_view ` snd ` set (c_Connections c))"

definition engine_view :: "Engine \<Rightarrow> view" where
  "engine_view e k = map_option client_view (map_of (e_clients e) k)"

definition public_view :: "Client \<Rightarrow> PresenceState \<times> time \<times> conn_view set" where
  "public_view p = (cl_State p, cl_FirstSeenAt p, conn_view ` set (cl_Connections p))"

definition consume :: "Event \<Rightarrow> view \<Rightarrow> view" where
  "consume ev v =
     (case ev_Data ev of
        ClientData p \<Rightarrow> if ev_Type ev = ''client.removed'' then v(cl_ID p := None)
                        else v(cl_ID p \<mapsto> public_view p)
      | _ \<Rightarrow> v)"

definition replay :: "Event list \<Rightarrow> view" where
  "replay evs = fold consume evs Map.empty"

definition snapshot_view :: "Snapshot \<Rightarrow> view" where
  "snapshot_view s = map_of (map (\<lambda>p. (cl_ID p, public_view p)) (snap_Clients s))"

text \<open>What one delivery does to a channel with room, and to a full one.\<close>

definition full :: "chan \<Rightarrow> bool" where
  "full ch \<longleftrightarrow> \<not> length (ch_buf ch) < ch_cap ch"

definition push :: "Event \<Rightarrow> chan \<Rightarrow> chan" where
  "push ev ch = (if full ch then ch\<lparr>ch_closed := True\<rparr> else ch\<lparr>ch_buf := ch_buf ch @ [ev]\<rparr>)"

section \<open>Frame of \<^verbatim>\<open>emitLocked\<close>\<close>

lemma deliver_frame [frame]:
  "e_epoch (deliver ev s e) = e_epoch e"
  "e_sequence (deliver ev s e) = e_sequence e"
  "e_clients (deliver ev s e) = e_clients e"
  "e_providers (deliver ev s e) = e_providers e"
  "e_nextSub (deliver ev s e) = e_nextSub e"
  "e_limits (deliver ev s e) = e_limits e"
  "e_reconciliations (deliver ev s e) = e_reconciliations e"
  "e_reconnectGrace (deliver ev s e) = e_reconnectGrace e"
  "e_pending (deliver ev s e) = e_pending e"
  "e_stopSweeper (deliver ev s e) = e_stopSweeper e"
  "e_stopOnce (deliver ev s e) = e_stopOnce e"
  "e_log (deliver ev s e) = e_log e"
  by (auto simp: deliver_def close_chan_def split: prod.splits send_result.splits)

lemma fold_deliver_frame [frame]:
  "e_epoch (fold (deliver ev) ss e) = e_epoch e"
  "e_sequence (fold (deliver ev) ss e) = e_sequence e"
  "e_clients (fold (deliver ev) ss e) = e_clients e"
  "e_providers (fold (deliver ev) ss e) = e_providers e"
  "e_nextSub (fold (deliver ev) ss e) = e_nextSub e"
  "e_limits (fold (deliver ev) ss e) = e_limits e"
  "e_reconciliations (fold (deliver ev) ss e) = e_reconciliations e"
  "e_reconnectGrace (fold (deliver ev) ss e) = e_reconnectGrace e"
  "e_pending (fold (deliver ev) ss e) = e_pending e"
  "e_stopSweeper (fold (deliver ev) ss e) = e_stopSweeper e"
  "e_stopOnce (fold (deliver ev) ss e) = e_stopOnce e"
  "e_log (fold (deliver ev) ss e) = e_log e"
  by (rule fold_same, simp add: frame)+

lemma emitLocked_frame [simp]:
  "e_epoch (emitLocked env kind reason d e) = e_epoch e"
  "e_sequence (emitLocked env kind reason d e) = e_sequence e + 1"
  "e_clients (emitLocked env kind reason d e) = e_clients e"
  "e_providers (emitLocked env kind reason d e) = e_providers e"
  "e_nextSub (emitLocked env kind reason d e) = e_nextSub e"
  "e_limits (emitLocked env kind reason d e) = e_limits e"
  "e_reconciliations (emitLocked env kind reason d e) = e_reconciliations e"
  "e_reconnectGrace (emitLocked env kind reason d e) = e_reconnectGrace e"
  "e_pending (emitLocked env kind reason d e) = e_pending e"
  "e_stopSweeper (emitLocked env kind reason d e) = e_stopSweeper e"
  "e_stopOnce (emitLocked env kind reason d e) = e_stopOnce e"
  by (simp_all add: emitLocked_def Let_def frame)

lemma emitLocked_log:
  "e_log (emitLocked env kind reason d e) =
     e_log e @ [mk_event env kind reason d (e\<lparr>e_sequence := e_sequence e + 1\<rparr>)]"
  by (simp add: emitLocked_def Let_def frame)

section \<open>Delivery\<close>

lemma deliver_open:
  assumes "\<not> ch_closed (e_heap e ! r)"
  shows "e_heap (deliver ev (i, r) e) = (e_heap e)[r := push ev (e_heap e ! r)]"
    and "e_subscribers (deliver ev (i, r) e) =
           (if full (e_heap e ! r) then AList.delete i (e_subscribers e) else e_subscribers e)"
    and "e_panicked (deliver ev (i, r) e) = e_panicked e"
  using assms by (simp_all add: deliver_def chan_send_def close_chan_def push_def full_def)

lemma fold_deliver:
  assumes "distinct (map snd xs)"
    and "\<forall>(i, r) \<in> set xs. r < length (e_heap e) \<and> \<not> ch_closed (e_heap e ! r)"
  shows "length (e_heap (fold (deliver ev) xs e)) = length (e_heap e) \<and>
    (\<forall>r < length (e_heap e). e_heap (fold (deliver ev) xs e) ! r =
       (if r \<in> snd ` set xs then push ev (e_heap e ! r) else e_heap e ! r)) \<and>
    e_subscribers (fold (deliver ev) xs e) =
       filter (\<lambda>(i, _). \<not> (\<exists>r. (i, r) \<in> set xs \<and> full (e_heap e ! r))) (e_subscribers e) \<and>
    e_panicked (fold (deliver ev) xs e) = e_panicked e"
  using assms
proof (induction xs arbitrary: e)
  case Nil
  then show ?case by simp
next
  case (Cons x xs)
  obtain i r where x: "x = (i, r)" by fastforce
  define e1 where "e1 = deliver ev (i, r) e"
  have r: "r < length (e_heap e)" "\<not> ch_closed (e_heap e ! r)" using Cons.prems(2) x by auto
  note d = deliver_open [OF r(2), of ev i, folded e1_def]
  have fresh: "r \<notin> snd ` set xs" using Cons.prems(1) x by simp
  have other: "e_heap e1 ! r' = e_heap e ! r'" if "(j, r') \<in> set xs" for j r'
  proof -
    have "r \<noteq> r'" using that fresh by (force simp: image_iff)
    then show ?thesis by (simp add: d(1))
  qed
  then have same: "(\<exists>r'. (j, r') \<in> set xs \<and> full (e_heap e1 ! r')) \<longleftrightarrow>
      (\<exists>r'. (j, r') \<in> set xs \<and> full (e_heap e ! r'))" for j by metis
  have hyp: "\<forall>(j, r') \<in> set xs. r' < length (e_heap e1) \<and> \<not> ch_closed (e_heap e1 ! r')"
    using Cons.prems(2) other by (force simp: d(1))
  have IH: "length (e_heap (fold (deliver ev) xs e1)) = length (e_heap e1)"
      "\<forall>r < length (e_heap e1). e_heap (fold (deliver ev) xs e1) ! r =
         (if r \<in> snd ` set xs then push ev (e_heap e1 ! r) else e_heap e1 ! r)"
      "e_subscribers (fold (deliver ev) xs e1) =
         filter (\<lambda>(i, _). \<not> (\<exists>r. (i, r) \<in> set xs \<and> full (e_heap e ! r))) (e_subscribers e1)"
      "e_panicked (fold (deliver ev) xs e1) = e_panicked e1"
    using Cons.IH [OF _ hyp] Cons.prems(1) by (simp_all add: same)
  have heap: "\<forall>q < length (e_heap e). e_heap (fold (deliver ev) xs e1) ! q =
       (if q \<in> insert r (snd ` set xs) then push ev (e_heap e ! q) else e_heap e ! q)"
    using IH(2) fresh by (force simp: d(1) nth_list_update image_iff)
  have subs: "e_subscribers (fold (deliver ev) xs e1) =
       filter (\<lambda>(j, _). \<not> (\<exists>q. (j, q) \<in> insert (i, r) (set xs) \<and> full (e_heap e ! q)))
         (e_subscribers e)"
    by (auto simp: IH(3) d(2) AList.delete_eq intro!: filter_cong)
  show ?case
    using IH(1,4) heap subs by (simp add: x e1_def [symmetric] d(1,3))
qed

lemma emit_subs_perm:
  assumes "good_env env" and "stream_inv e"
  shows "set (env_subs env q (e_subscribers e)) = set (e_subscribers e)"
    and "distinct (map snd (env_subs env q (e_subscribers e)))"
proof -
  have m: "mset (env_subs env q (e_subscribers e)) = mset (e_subscribers e)"
    using assms(1) by (simp add: good_env_def)
  then show "set (env_subs env q (e_subscribers e)) = set (e_subscribers e)" by (rule perm_set)
  have "mset (map snd (env_subs env q (e_subscribers e))) = mset (map snd (e_subscribers e))"
    using m by (simp add: mset_map)
  then show "distinct (map snd (env_subs env q (e_subscribers e)))"
    using assms(2) perm_distinct unfolding stream_inv_def by blast
qed

text \<open>The heap and the subscribers after one event, whatever order the subscribers came in.\<close>

lemma emit_effect:
  fixes kind reason d
  assumes "good_env env" and "stream_inv e"
  defines "e' \<equiv> emitLocked env kind reason d e"
  defines "ev \<equiv> mk_event env kind reason d (e\<lparr>e_sequence := e_sequence e + 1\<rparr>)"
  shows "length (e_heap e') = length (e_heap e)"
    and "\<And>r. r < length (e_heap e) \<Longrightarrow> e_heap e' ! r =
           (if r \<in> snd ` set (e_subscribers e) then push ev (e_heap e ! r) else e_heap e ! r)"
    and "e_subscribers e' = filter (\<lambda>(_, r). \<not> full (e_heap e ! r)) (e_subscribers e)"
    and "e_panicked e' = e_panicked e"
proof -
  let ?xs = "env_subs env (e_sequence e + 1) (e_subscribers e)"
  let ?e1 = "e\<lparr>e_sequence := e_sequence e + 1, e_log := e_log e @ [ev]\<rparr>"
  note p = emit_subs_perm [OF assms(1,2), of "e_sequence e + 1"]
  have e': "e' = fold (deliver ev) ?xs ?e1"
    by (simp add: e'_def emitLocked_def Let_def ev_def)
  have ok: "\<forall>(i, r) \<in> set ?xs. r < length (e_heap ?e1) \<and> \<not> ch_closed (e_heap ?e1 ! r)"
    using assms(2) by (force simp: p(1) stream_inv_def sub_ok_def)
  note f = fold_deliver [OF p(2) ok, of ev, folded e', simplified p(1)]
  from f show "length (e_heap e') = length (e_heap e)" and "e_panicked e' = e_panicked e"
    by simp_all
  from f show "\<And>r. r < length (e_heap e) \<Longrightarrow> e_heap e' ! r =
      (if r \<in> snd ` set (e_subscribers e) then push ev (e_heap e ! r) else e_heap e ! r)"
    by simp
  have "dkeys (e_subscribers e)" using assms(2) by (simp add: stream_inv_def)
  then have "(\<exists>q. (i, q) \<in> set (e_subscribers e) \<and> full (e_heap e ! q)) \<longleftrightarrow> full (e_heap e ! r)"
    if "(i, r) \<in> set (e_subscribers e)" for i r
    using that by (metis eq_key_imp_eq_value)
  with f show "e_subscribers e' = filter (\<lambda>(_, r). \<not> full (e_heap e ! r)) (e_subscribers e)"
    by (auto intro!: filter_cong)
qed

section \<open>The stream invariant is kept\<close>

lemma stream_invD:
  assumes "stream_inv e"
  shows "\<not> e_panicked e" and "log_ok e"
    and "r \<in> snd ` set (e_subscribers e) \<Longrightarrow> sub_ok e r"
    and "\<forall>ch \<in> set (e_heap e). chan_ok (nat (QueueSize (e_limits e))) (e_log e) ch"
    and "int (length (e_subscribers e)) \<le> MaxSubscribers (e_limits e)"
  using assms by (auto simp: stream_inv_def)

lemma chan_ok_push:
  assumes "chan_ok cap log ch" and "chan_stream ch = drop (ch_opened ch) log"
  shows "chan_ok cap (log @ [ev]) (push ev ch)"
  using assms by (auto simp: chan_ok_def push_def full_def chan_stream_def)

lemma chan_ok_later: "chan_ok cap log ch \<Longrightarrow> chan_ok cap (log @ [ev]) ch"
  by (auto simp: chan_ok_def)

lemma chan_ok_close: "chan_ok cap log ch \<Longrightarrow> chan_ok cap log (ch\<lparr>ch_closed := True\<rparr>)"
  by (simp add: chan_ok_def chan_stream_def)

lemma log_ok_emit:
  assumes "log_ok e"
  shows "log_ok (emitLocked env kind reason d e)"
  using assms by (auto simp: log_ok_def emitLocked_log nth_append mk_event_def less_Suc_eq)

lemma stream_inv_emit:
  assumes "good_env env" and "stream_inv e"
  shows "stream_inv (emitLocked env kind reason d e)"
proof -
  define e' where "e' = emitLocked env kind reason d e"
  define ev where "ev = mk_event env kind reason d (e\<lparr>e_sequence := e_sequence e + 1\<rparr>)"
  note eff = emit_effect [OF assms, where kind = kind and reason = reason and d = d, folded e'_def ev_def]
  have log: "e_log e' = e_log e @ [ev]" by (simp add: e'_def ev_def emitLocked_log)
  have sub: "sub_ok e r" if "r \<in> snd ` set (e_subscribers e)" for r
    using that assms(2) by (auto simp: stream_inv_def)
  have ok: "chan_ok (nat (QueueSize (e_limits e))) (e_log e) (e_heap e ! r)"
    if "r < length (e_heap e)" for r
    using that assms(2) by (simp add: stream_inv_def)
  have "chan_ok (nat (QueueSize (e_limits e))) (e_log e') (e_heap e' ! r)"
    if r: "r < length (e_heap e')" for r
    using ok [of r] sub [of r] r eff(1)
    by (auto simp: eff(2) log sub_ok_def intro: chan_ok_push chan_ok_later)
  then have heap: "\<forall>ch \<in> set (e_heap e'). chan_ok (nat (QueueSize (e_limits e))) (e_log e') ch"
    by (metis in_set_conv_nth)
  have subs: "sub_ok e' r" if "r \<in> snd ` set (e_subscribers e')" for r
  proof -
    from that have r: "r \<in> snd ` set (e_subscribers e)" "\<not> full (e_heap e ! r)"
      by (force simp: eff(3) image_iff)+
    with sub [OF r(1)] ok [of r] show ?thesis
      by (auto simp: sub_ok_def eff(1,2) log push_def chan_stream_def chan_ok_def)
  qed
  have "log_ok e'" using assms(2) by (simp add: e'_def stream_inv_def log_ok_emit)
  moreover have "int (length (e_subscribers e')) \<le> MaxSubscribers (e_limits e)"
    unfolding eff(3)
    using stream_invD(5) [OF assms(2)] length_filter_le [of _ "e_subscribers e"]
    by (meson of_nat_le_iff order_trans)
  moreover have "e_limits e' = e_limits e" by (simp add: e'_def)
  ultimately show ?thesis
    using assms(2) heap subs
    by (auto simp: stream_inv_def eff(3,4) distinct_map_filter e'_def [symmetric])
qed

lemma stream_inv_core [simp]:
  "stream_inv (e\<lparr>e_clients := x\<rparr>) = stream_inv e"
  "stream_inv (e\<lparr>e_pending := y\<rparr>) = stream_inv e"
  "stream_inv (e\<lparr>e_providers := z\<rparr>) = stream_inv e"
  "stream_inv (e\<lparr>e_reconciliations := n\<rparr>) = stream_inv e"
  "stream_inv (e\<lparr>e_stopSweeper := o1\<rparr>) = stream_inv e"
  "stream_inv (e\<lparr>e_stopOnce := b\<rparr>) = stream_inv e"
  by (simp_all add: stream_inv_def log_ok_def sub_ok_def)

lemma length_alist_update_le: "length (AList.update k v m) \<le> Suc (length m)"
  by (induction m) auto

lemma snd_alist_update: "snd ` set (AList.update k v m) \<subseteq> insert v (snd ` set m)"
  by (induction m) auto

lemma distinct_snd_update:
  "distinct (map snd m) \<Longrightarrow> v \<notin> snd ` set m \<Longrightarrow> distinct (map snd (AList.update k v m))"
proof (induction m)
  case Nil
  then show ?case by simp
next
  case (Cons p m)
  then show ?case using snd_alist_update [of k v m] by (cases p) auto
qed

lemma stream_inv_subscribe:
  assumes "stream_inv e" and "Subscribe now e = (res, e')"
  shows "stream_inv e'"
proof (cases "int (length (e_subscribers e)) \<ge> MaxSubscribers (e_limits e)")
  case True
  with assms show ?thesis by (simp add: Subscribe_def)
next
  case False
  define ch where "ch = chan_make (nat (QueueSize (e_limits e))) (length (e_log e))"
  from False assms(2) have e': "e' = e\<lparr>e_nextSub := e_nextSub e + 1, e_heap := e_heap e @ [ch],
      e_subscribers := AList.update (e_nextSub e) (length (e_heap e)) (e_subscribers e)\<rparr>"
    by (auto simp: Subscribe_def Let_def ch_def)
  have old: "sub_ok e r" if "r \<in> snd ` set (e_subscribers e)" for r
    using that assms(1) by (auto simp: stream_inv_def)
  have "sub_ok e' r" if "r \<in> snd ` set (e_subscribers e')" for r
  proof (cases "r = length (e_heap e)")
    case True
    then show ?thesis by (simp add: e' sub_ok_def ch_def chan_make_def chan_stream_def)
  next
    case False
    then have "sub_ok e r"
      using that snd_alist_update [of "e_nextSub e" "length (e_heap e)" "e_subscribers e"]
      by (intro old) (auto simp: e')
    then show ?thesis by (simp add: e' sub_ok_def nth_append)
  qed
  moreover have "distinct (map snd (e_subscribers e'))"
    using assms(1) old by (force simp: e' stream_inv_def sub_ok_def intro!: distinct_snd_update)
  moreover have "chan_ok (nat (QueueSize (e_limits e))) (e_log e) ch"
    by (simp add: chan_ok_def ch_def chan_make_def chan_stream_def)
  moreover have "int (length (e_subscribers e')) \<le> MaxSubscribers (e_limits e)"
    using False length_alist_update_le [of "e_nextSub e" "length (e_heap e)" "e_subscribers e"]
    by (simp add: e')
  moreover have "log_ok e'" using assms(1) by (simp add: e' stream_inv_def log_ok_def)
  ultimately show ?thesis using assms(1) by (auto simp: stream_inv_def e')
qed

lemma all_list_update:
  "\<forall>y \<in> set ys. P y \<Longrightarrow> P x \<Longrightarrow> \<forall>y \<in> set (ys[i := x]). P y"
  using set_update_subset_insert [of ys i x] by auto

lemma stream_inv_cancel:
  assumes "stream_inv e"
  shows "stream_inv (cancel i e)"
proof (cases "map_of (e_subscribers e) i")
  case None
  with assms show ?thesis by (simp add: cancel_def)
next
  case (Some r)
  then have mem: "(i, r) \<in> set (e_subscribers e)" by (rule map_of_mem)
  then have r: "r < length (e_heap e)" "\<not> ch_closed (e_heap e ! r)"
    using assms by (force simp: stream_inv_def sub_ok_def)+
  have c: "cancel i e = e\<lparr>e_subscribers := AList.delete i (e_subscribers e),
      e_heap := (e_heap e)[r := (e_heap e ! r)\<lparr>ch_closed := True\<rparr>]\<rparr>"
    using Some r(2) by (simp add: cancel_def close_chan_def)
  have "q \<noteq> r" if "(j, q) \<in> set (e_subscribers e)" "j \<noteq> i" for j q
    using that mem assms
    by (auto simp: stream_inv_def distinct_map dest: inj_onD [of snd _ "(j, q)" "(i, r)"])
  then have "sub_ok (cancel i e) q" if "q \<in> snd ` set (e_subscribers (cancel i e))" for q
    using that assms by (force simp: c mem_delete stream_inv_def sub_ok_def)
  moreover have "\<forall>ch \<in> set (e_heap (cancel i e)).
      chan_ok (nat (QueueSize (e_limits e))) (e_log e) ch"
  proof -
    have "chan_ok (nat (QueueSize (e_limits e))) (e_log e) (e_heap e ! r)"
      using stream_invD(4) [OF assms] r(1) by simp
    from all_list_update [OF stream_invD(4) [OF assms] chan_ok_close [OF this], of r]
    show ?thesis by (simp add: c)
  qed
  moreover have "length (AList.delete i (e_subscribers e)) \<le> length (e_subscribers e)"
    by (rule length_delete_le)
  moreover have "distinct (map snd (AList.delete i (e_subscribers e)))"
    using assms by (simp add: stream_inv_def AList.delete_eq distinct_map_filter)
  ultimately show ?thesis
    using assms by (auto simp: stream_inv_def c log_ok_def)
qed

lemma stream_inv_receive:
  assumes "stream_inv e" and "r < length (e_heap e)"
  shows "stream_inv (snd (receive r e))"
proof (cases "ch_buf (e_heap e ! r)")
  case Nil
  with assms show ?thesis by (simp add: receive_def)
next
  case (Cons ev evs)
  define ch where "ch = (e_heap e ! r)\<lparr>ch_buf := evs, ch_taken := ch_taken (e_heap e ! r) @ [ev]\<rparr>"
  have e': "snd (receive r e) = e\<lparr>e_heap := (e_heap e)[r := ch]\<rparr>"
    using Cons by (simp add: receive_def ch_def)
  have st: "chan_stream ch = chan_stream (e_heap e ! r)" "ch_opened ch = ch_opened (e_heap e ! r)"
      "ch_closed ch = ch_closed (e_heap e ! r)"
    using Cons by (simp_all add: ch_def chan_stream_def)
  have "chan_ok (nat (QueueSize (e_limits e))) (e_log e) (e_heap e ! r)"
    using assms by (simp add: stream_inv_def)
  then have "chan_ok (nat (QueueSize (e_limits e))) (e_log e) ch"
    using Cons by (simp add: chan_ok_def st) (simp add: ch_def)
  then have "\<forall>c \<in> set ((e_heap e)[r := ch]). chan_ok (nat (QueueSize (e_limits e))) (e_log e) c"
    by (rule all_list_update [OF stream_invD(4) [OF assms(1)]])
  moreover have "sub_ok (e\<lparr>e_heap := (e_heap e)[r := ch]\<rparr>) q" if "sub_ok e q" for q
    using that st assms(2) by (cases "q = r") (simp_all add: sub_ok_def)
  ultimately show ?thesis
    using assms(1) by (auto simp: stream_inv_def e' log_ok_def)
qed

section \<open>Replaying the log\<close>

lemma public_view_client [simp]: "public_view (publicClientLocked c) = client_view c"
  by (simp add: public_view_def publicClientLocked_def client_view_def)

lemma public_ID [simp]: "cl_ID (publicClientLocked c) = c_ID c"
  by (simp add: publicClientLocked_def)

lemma replay_Nil [simp]: "replay [] = Map.empty"
  by (simp add: replay_def)

lemma replay_emit_client:
  "replay (e_log (emitLocked env kind reason (ClientData (publicClientLocked c)) e)) =
     (if kind = ''client.removed'' then (replay (e_log e))(c_ID c := None)
      else (replay (e_log e))(c_ID c \<mapsto> client_view c))"
  by (simp add: emitLocked_log replay_def consume_def mk_event_def)

lemma replay_emit_other:
  assumes "\<And>p. d \<noteq> ClientData p"
  shows "replay (e_log (emitLocked env kind reason d e)) = replay (e_log e)"
proof (cases d)
  case (ClientData p)
  with assms show ?thesis by blast
qed (simp_all add: emitLocked_log replay_def consume_def mk_event_def)

lemma snapshot_view_engine:
  assumes "dkeys (e_clients e)" and "\<And>k c. map_of (e_clients e) k = Some c \<Longrightarrow> c_ID c = k"
  shows "snapshot_view (snapshotLocked now e) = engine_view e"
proof -
  let ?ps = "map (\<lambda>(_, c). publicClientLocked c) (e_clients e)"
  have ids: "map cl_ID ?ps = map fst (e_clients e)"
    using assms by auto
  have d: "distinct (map cl_ID ?ps)" unfolding ids by (rule assms(1))
  moreover have "mset (map cl_ID (sort_key cl_ID ?ps)) = mset (map cl_ID ?ps)"
    by (simp only: mset_map mset_sort)
  ultimately have d': "distinct (map cl_ID (sort_key cl_ID ?ps))" using perm_distinct by blast
  let ?kv = "\<lambda>p. (cl_ID p, public_view p)"
  have "map_of (map ?kv (sort_key cl_ID ?ps)) = map_of (map ?kv ?ps)"
    using d d' by (subst map_of_inject_set) (simp_all add: comp_def image_comp)
  also have "map ?kv ?ps = map (\<lambda>(k, c). (k, client_view c)) (e_clients e)"
    using assms by auto
  finally show ?thesis
    by (simp add: fun_eq_iff snapshot_view_def snapshotLocked_def engine_view_def map_of_map_values)
qed

end
