(* ===== verification/Engine_Inv.thy ===== *)
theory Engine_Inv
  imports Engine_Stream
begin

text \<open>
  The invariant of the engine and the proof that every operation keeps it.  Inside an operation a
  client may be out of step with its state field or with what has been announced;
  \<open>inv_but S V\<close> is the invariant that allows this for the clients in \<open>S\<close> (state) and \<open>V\<close> (view), and
  the lemmas of the section \<open>Steps\<close> say how each elementary action moves \<open>S\<close> and \<open>V\<close>.
\<close>

section \<open>Definitions\<close>

definition live :: "client \<Rightarrow> bool" where
  "live c \<longleftrightarrow> (\<exists>(i, n) \<in> set (c_Connections c). \<not> conn_Stale n)"

definition wf_client :: "string \<Rightarrow> client \<Rightarrow> bool" where
  "wf_client k c \<longleftrightarrow> c_ID c = k \<and> dkeys (c_Connections c) \<and>
     (\<forall>(i, n) \<in> set (c_Connections c).
        conn_ID n = i \<and> i = connectionID (conn_Provider n) (conn_SourceInstance n))"

definition state_ok :: "client \<Rightarrow> bool" where
  "state_ok c \<longleftrightarrow>
     (if live c then c_State c = StatePresent
      else if c_Connections c \<noteq> [] then c_State c = StateUnknown
      else c_State c = StateAbsent \<or> c_State c = StateUnknown)"

definition clients_wf :: "Engine \<Rightarrow> bool" where
  "clients_wf e \<longleftrightarrow> dkeys (e_clients e) \<and>
     (\<forall>k c. map_of (e_clients e) k = Some c \<longrightarrow> wf_client k c)"

definition pend_ok :: "Engine \<Rightarrow> bool" where
  "pend_ok e \<longleftrightarrow> dkeys (e_pending e) \<and> keyset (e_pending e) \<subseteq> keyset (e_clients e) \<and>
     (e_reconnectGrace e \<le> 0 \<longrightarrow> e_pending e = [])"

definition inv_but :: "string set \<Rightarrow> string set \<Rightarrow> Engine \<Rightarrow> bool" where
  "inv_but S V e \<longleftrightarrow> clients_wf e \<and> pend_ok e \<and> stream_inv e \<and>
     (\<forall>k c. map_of (e_clients e) k = Some c \<longrightarrow> k \<notin> S \<longrightarrow> state_ok c) \<and>
     (\<forall>k. k \<notin> V \<longrightarrow> replay (e_log e) k = engine_view e k)"

definition within_limit :: "Engine \<Rightarrow> bool" where
  "within_limit e \<longleftrightarrow> int (length (e_clients e)) \<le> MaxClients (e_limits e)"

definition engine_inv :: "Engine \<Rightarrow> bool" where
  "engine_inv e \<longleftrightarrow> inv_but {} {} e \<and> within_limit e \<and> MaxClients (e_limits e) \<ge> 1"

section \<open>States\<close>

lemma list_ex_live: "list_ex (\<lambda>(_, conn). \<not> conn_Stale conn) (c_Connections c) = live c"
  by (auto simp: live_def list_ex_iff)

lemma reducedState_eq:
  "reducedState c s = (if live c then StatePresent
     else if c_Connections c \<noteq> [] then StateUnknown else s)"
  by (simp add: reducedState_def list_ex_live)

lemma live_upd [simp]:
  "live (c\<lparr>c_State := s\<rparr>) = live c"
  "live (c\<lparr>c_LastSeenAt := t\<rparr>) = live c"
  by (simp_all add: live_def)

lemma reducedState_upd [simp]:
  "reducedState (c\<lparr>c_State := s'\<rparr>) s = reducedState c s"
  "reducedState (c\<lparr>c_LastSeenAt := t\<rparr>) s = reducedState c s"
  by (simp_all add: reducedState_def)

lemma state_ok_reduced:
  "s = StateAbsent \<or> s = StateUnknown \<Longrightarrow> state_ok (c\<lparr>c_State := reducedState c s\<rparr>)"
  by (auto simp: state_ok_def reducedState_eq)

lemma state_ok_upd [simp]: "state_ok (c\<lparr>c_LastSeenAt := t\<rparr>) = state_ok c"
  by (simp add: state_ok_def)

lemma state_ok_present: "state_ok c \<Longrightarrow> c_State c = StatePresent \<longleftrightarrow> live c"
  by (auto simp: state_ok_def split: if_splits)

lemma isLast_iff:
  "isLastNonStaleLocked c i \<longleftrightarrow> (\<forall>(j, n) \<in> set (c_Connections c). j \<noteq> i \<longrightarrow> conn_Stale n)"
  by (auto simp: isLastNonStaleLocked_def list_all_iff)

section \<open>Well-formed clients\<close>

lemma wf_client_upd [simp]:
  "wf_client k (c\<lparr>c_State := s\<rparr>) = wf_client k c"
  "wf_client k (c\<lparr>c_LastSeenAt := t\<rparr>) = wf_client k c"
  by (simp_all add: wf_client_def)

lemma wf_client_new [simp]: "wf_client k (new_client k at)"
  by (simp add: wf_client_def new_client_def)

lemma wf_client_delete:
  "wf_client k c \<Longrightarrow> wf_client k (c\<lparr>c_Connections := AList.delete i (c_Connections c)\<rparr>)"
  by (auto simp: wf_client_def mem_delete)

lemma wf_client_update:
  assumes "wf_client k c" and "conn_ID n = i"
    and "i = connectionID (conn_Provider n) (conn_SourceInstance n)"
  shows "wf_client k (c\<lparr>c_Connections := AList.update i n (c_Connections c)\<rparr>)"
  using assms by (auto simp: wf_client_def mem_update split: if_splits)

lemma wf_client_conn:
  assumes "wf_client k c" and "map_of (c_Connections c) i = Some n"
  shows "conn_ID n = i" and "i = connectionID (conn_Provider n) (conn_SourceInstance n)"
  using assms by (auto simp: wf_client_def dest!: map_of_SomeD)

lemma client_view_upd [simp]:
  "client_view (c\<lparr>c_LastSeenAt := t\<rparr>) = client_view c"
  by (simp add: client_view_def)

lemma client_view_refresh:
  assumes "wf_client k c" and "map_of (c_Connections c) i = Some n"
    and "conn_view n' = conn_view n"
  shows "client_view (c\<lparr>c_Connections := AList.update i n' (c_Connections c)\<rparr>) = client_view c"
proof -
  have d: "dkeys (c_Connections c)" using assms(1) by (simp add: wf_client_def)
  have n: "(i, x) \<in> set (c_Connections c) \<longleftrightarrow> x = n" for x
    using assms(2) by (auto simp: mem_map_of [OF d])
  have "conn_view ` snd ` set (AList.update i n' (c_Connections c)) =
      conn_view ` snd ` set (c_Connections c)" (is "?L = ?R")
  proof (rule set_eqI)
    fix y
    have "y \<in> ?L \<longleftrightarrow> (\<exists>j x. (if j = i then x = n' else (j, x) \<in> set (c_Connections c)) \<and> y = conn_view x)"
      by (force simp: mem_update [OF d, symmetric] image_iff)
    also have "\<dots> \<longleftrightarrow> (\<exists>j x. (j, x) \<in> set (c_Connections c) \<and> y = conn_view x)"
      using n assms(3) by (metis (full_types))
    also have "\<dots> \<longleftrightarrow> y \<in> ?R" by (force simp: image_iff)
    finally show "y \<in> ?L \<longleftrightarrow> y \<in> ?R" .
  qed
  then show ?thesis by (simp add: client_view_def)
qed

section \<open>Steps\<close>

lemma clients_wf_put: "clients_wf e \<Longrightarrow> wf_client k c \<Longrightarrow> clients_wf (put_client k c e)"
  by (auto simp: clients_wf_def)

lemma clients_wf_look: "clients_wf e \<Longrightarrow> map_of (e_clients e) k = Some c \<Longrightarrow> wf_client k c"
  by (simp add: clients_wf_def)

lemma clients_wf_ID: "clients_wf e \<Longrightarrow> map_of (e_clients e) k = Some c \<Longrightarrow> c_ID c = k"
  by (simp add: clients_wf_def wf_client_def)

lemma clients_wf_simps [simp]:
  "clients_wf (e\<lparr>e_pending := y\<rparr>) = clients_wf e"
  "clients_wf (e\<lparr>e_providers := z\<rparr>) = clients_wf e"
  "clients_wf (e\<lparr>e_reconciliations := n\<rparr>) = clients_wf e"
  "clients_wf (emitLocked env kind reason d e) = clients_wf e"
  by (simp_all add: clients_wf_def)

lemma pend_ok_simps [simp]:
  "pend_ok (e\<lparr>e_providers := z\<rparr>) = pend_ok e"
  "pend_ok (e\<lparr>e_reconciliations := n\<rparr>) = pend_ok e"
  "pend_ok (emitLocked env kind reason d e) = pend_ok e"
  by (simp_all add: pend_ok_def)

lemma engine_view_simps [simp]:
  "engine_view (e\<lparr>e_pending := y\<rparr>) = engine_view e"
  "engine_view (e\<lparr>e_providers := z\<rparr>) = engine_view e"
  "engine_view (e\<lparr>e_reconciliations := n\<rparr>) = engine_view e"
  "engine_view (emitLocked env kind reason d e) = engine_view e"
  "engine_view (put_client k c e) = (engine_view e)(k \<mapsto> client_view c)"
  by (auto simp: engine_view_def)

lemma inv_but_mono: "inv_but S V e \<Longrightarrow> S \<subseteq> S' \<Longrightarrow> V \<subseteq> V' \<Longrightarrow> inv_but S' V' e"
  by (auto simp: inv_but_def)

lemma inv_butD:
  assumes "inv_but S V e"
  shows "clients_wf e" and "pend_ok e" and "stream_inv e" and "dkeys (e_clients e)"
  using assms by (simp_all add: inv_but_def clients_wf_def)

lemma inv_but_put:
  assumes "inv_but S V e" and "wf_client k c"
  shows "inv_but (insert k S) (insert k V) (put_client k c e)"
  using assms by (auto simp: inv_but_def clients_wf_put pend_ok_def)

lemma inv_but_put_ok:
  assumes "inv_but S V e" and "wf_client k c" and "state_ok c"
  shows "inv_but (S - {k}) (insert k V) (put_client k c e)"
  using assms by (auto simp: inv_but_def clients_wf_put pend_ok_def)

lemma inv_but_put_same:
  assumes "inv_but S V e" and "wf_client k c" and "engine_view e k = Some (client_view c)"
  shows "inv_but (insert k S) V (put_client k c e)"
  using assms by (auto simp: inv_but_def clients_wf_put pend_ok_def)

lemma inv_but_put_quiet:
  assumes "inv_but S V e" and "wf_client k c" and "state_ok c"
    and "engine_view e k = Some (client_view c)"
  shows "inv_but (S - {k}) V (put_client k c e)"
  using assms by (auto simp: inv_but_def clients_wf_put pend_ok_def)

lemma inv_but_announce:
  assumes "good_env env" and "inv_but S V e" and "map_of (e_clients e) k = Some c"
    and "kind \<noteq> ''client.removed''"
  shows "inv_but S (V - {k}) (emitLocked env kind reason (ClientData (publicClientLocked c)) e)"
proof -
  have "c_ID c = k" using assms(2,3) inv_butD(1) clients_wf_ID by blast
  moreover have "engine_view e k = Some (client_view c)" using assms(3) by (simp add: engine_view_def)
  ultimately show ?thesis
    using assms by (auto simp: inv_but_def replay_emit_client stream_inv_emit)
qed

lemma inv_but_emit_other:
  assumes "good_env env" and "inv_but S V e" and "\<And>p. d \<noteq> ClientData p"
  shows "inv_but S V (emitLocked env kind reason d e)"
  using assms by (simp add: inv_but_def replay_emit_other stream_inv_emit)

lemma inv_but_unpend:
  assumes "inv_but S V e"
  shows "inv_but S V (e\<lparr>e_pending := AList.delete k (e_pending e)\<rparr>)"
  using assms by (auto simp: inv_but_def pend_ok_def)

lemma inv_but_pend:
  assumes "inv_but S V e" and "k \<in> keyset (e_clients e)" and "e_reconnectGrace e > 0"
  shows "inv_but S V (ensurePendingLocked k p s at e)"
  using assms by (auto simp: ensurePendingLocked_def inv_but_def pend_ok_def split: option.splits)

lemma inv_but_misc [simp]:
  "inv_but S V (e\<lparr>e_providers := z\<rparr>) = inv_but S V e"
  "inv_but S V (e\<lparr>e_reconciliations := n\<rparr>) = inv_but S V e"
  by (simp_all add: inv_but_def)

lemma inv_but_keys:
  assumes "inv_but S V e"
  shows "inv_but (S \<inter> keyset (e_clients e)) V e"
  using assms by (auto simp: inv_but_def dest: map_of_mem_keys)

text \<open>Write a client whose state is settled and announce it.\<close>

lemma inv_but_publish:
  assumes "good_env env" and "inv_but S V e" and "wf_client k c" and "state_ok c"
    and "kind \<noteq> ''client.removed''"
  shows "inv_but (S - {k}) (V - {k})
           (emitLocked env kind reason (ClientData (publicClientLocked c)) (put_client k c e))"
proof -
  have "inv_but (S - {k}) (insert k V) (put_client k c e)"
    using assms(2,3,4) by (rule inv_but_put_ok)
  then have "inv_but (S - {k}) (insert k V - {k})
      (emitLocked env kind reason (ClientData (publicClientLocked c)) (put_client k c e))"
    by (rule inv_but_announce [OF assms(1)]) (simp_all add: assms(5))
  then show ?thesis by simp
qed

end
