(* ===== verification/Engine_Evict.thy ===== *)
theory Engine_Evict
  imports Engine_Inv
begin

text \<open>
  Eviction: which client \<^verbatim>\<open>evictOldestNonPresentLocked\<close> removes, that it keeps the invariant, and that
  the loop around it always returns.
\<close>

section \<open>Definitions\<close>

definition evictable :: "Engine \<Rightarrow> string list \<Rightarrow> string \<Rightarrow> client \<Rightarrow> nat \<Rightarrow> bool" where
  "evictable e exclude k c r \<longleftrightarrow>
     map_of (e_clients e) k = Some c \<and> evict_rank c = Some r \<and> k \<notin> set exclude"

text \<open>The eviction order: absent before unknown, then least recently seen.\<close>

definition evict_before :: "client \<times> nat \<Rightarrow> client \<times> nat \<Rightarrow> bool" where
  "evict_before a b \<longleftrightarrow> snd a < snd b \<or>
     snd a = snd b \<and> c_LastSeenAt (fst a) \<le> c_LastSeenAt (fst b)"

text \<open>What the loop around the eviction guarantees when it stops, with success or without.\<close>

definition evicted :: "string list \<Rightarrow> nat \<Rightarrow> Engine \<Rightarrow> bool \<Rightarrow> Engine \<Rightarrow> bool" where
  "evicted ex n e ok e' \<longleftrightarrow>
     e_limits e' = e_limits e \<and> e_reconnectGrace e' = e_reconnectGrace e \<and>
     e_providers e' = e_providers e \<and>
     keyset (e_clients e') \<subseteq> keyset (e_clients e) \<and>
     length (e_clients e') \<le> length (e_clients e) \<and>
     (\<forall>k \<in> set ex. map_of (e_clients e') k = map_of (e_clients e) k) \<and>
     (\<forall>k c. map_of (e_clients e') k = Some c \<longrightarrow> map_of (e_clients e) k = Some c) \<and>
     (int (length (e_clients e')) + int n \<le> MaxClients (e_limits e) \<longleftrightarrow> ok) \<and>
     (\<not> ok \<longrightarrow> (\<forall>k c r. \<not> evictable e' ex k c r))"

section \<open>The scan\<close>

lemma evict_before_trans: "evict_before a b \<Longrightarrow> evict_before b c \<Longrightarrow> evict_before a c"
  by (auto simp: evict_before_def)

lemma evict_consider_skip:
  "\<forall>c r. \<not> evictable e ex k c r \<Longrightarrow> evict_consider e ex k cand = cand"
  by (auto simp: evict_consider_def evictable_def split: option.splits)

lemma evict_scan:
  "case fold (evict_consider e ex) ks cand of
     None \<Rightarrow> cand = None \<and> (\<forall>k \<in> set ks. \<forall>c r. \<not> evictable e ex k c r)
   | Some b \<Rightarrow> (cand = Some b \<or> (\<exists>k \<in> set ks. evictable e ex k (fst b) (snd b))) \<and>
       (\<forall>k \<in> set ks. \<forall>c r. evictable e ex k c r \<longrightarrow> evict_before b (c, r)) \<and>
       (\<forall>b0. cand = Some b0 \<longrightarrow> evict_before b b0)"
proof (induction ks arbitrary: cand)
  case Nil
  then show ?case by (auto simp: evict_before_def split: option.splits)
next
  case (Cons k ks)
  show ?case
  proof (cases "\<exists>c r. evictable e ex k c r")
    case False
    then have "evict_consider e ex k cand = cand" by (simp add: evict_consider_skip)
    then show ?thesis using Cons.IH [of cand] False by (auto split: option.splits)
  next
    case True
    then obtain c r where cr: "evictable e ex k c r" by blast
    then have u: "evictable e ex k c' r' \<longleftrightarrow> c' = c \<and> r' = r" for c' r'
      by (auto simp: evictable_def)
    have new: "evict_consider e ex k cand =
        (if \<forall>b. cand = Some b \<longrightarrow> \<not> evict_before b (c, r) then Some (c, r) else cand)"
      using cr by (auto simp: evict_consider_def evictable_def evict_before_def split: option.splits)
    have total: "\<not> evict_before b (c, r) \<Longrightarrow> evict_before (c, r) b" for b
      by (auto simp: evict_before_def)
    show ?thesis
      using Cons.IH [of "evict_consider e ex k cand"]
      by (auto simp: new u split: option.splits if_splits
          dest: total intro: evict_before_trans)
  qed
qed

lemma evict_order_keys: "good_env env \<Longrightarrow> set (env_order env s ks) = set ks"
  by (rule perm_set) (simp add: good_env_def)

lemma evict_order_distinct: "good_env env \<Longrightarrow> distinct (env_order env s ks) = distinct ks"
  by (rule perm_distinct) (simp add: good_env_def)

lemma evictable_key: "evictable e ex k c r \<Longrightarrow> k \<in> keyset (e_clients e)"
  by (auto simp: evictable_def dest: map_of_mem_keys)

text \<open>Both outcomes: nothing to evict, or the victim is a least evictable client.\<close>

lemma evict_False:
  assumes "good_env env" and "evictOldestNonPresentLocked env ex e = (False, e')"
  shows "e' = e" and "\<not> evictable e ex k c r"
proof -
  have *: "fold (evict_consider e ex) (env_order env EvictSite (map fst (e_clients e))) None = None"
    using assms(2) by (auto simp: evictOldestNonPresentLocked_def split: option.splits)
  with assms(2) show "e' = e" by (simp add: evictOldestNonPresentLocked_def)
  show "\<not> evictable e ex k c r"
    using evict_scan [where e = e and ex = ex and cand = None and
      ks = "env_order env EvictSite (map fst (e_clients e))"]
    using evictable_key [of e ex k c r] by (auto simp: * evict_order_keys [OF assms(1)])
qed

lemma evict_True:
  assumes "good_env env" and "clients_wf e" and "evictOldestNonPresentLocked env ex e = (True, e')"
  obtains k c r where "evictable e ex k c r"
    and "\<And>k' c' r'. evictable e ex k' c' r' \<Longrightarrow> evict_before (c, r) (c', r')"
    and "e' = emitLocked env ''client.removed'' ''retention_limit'' (ClientData (publicClientLocked c))
           (e\<lparr>e_clients := AList.delete k (e_clients e), e_pending := AList.delete k (e_pending e)\<rparr>)"
proof -
  let ?f = "fold (evict_consider e ex) (env_order env EvictSite (map fst (e_clients e))) None"
  obtain c r where b: "?f = Some (c, r)"
    using assms(3) by (auto simp: evictOldestNonPresentLocked_def split: option.splits)
  note scan = evict_scan [where e = e and ex = ex and cand = None and
      ks = "env_order env EvictSite (map fst (e_clients e))"]
  from scan b obtain k where k: "evictable e ex k c r" by auto
  have "evict_before (c, r) (c', r')" if "evictable e ex k' c' r'" for k' c' r'
  proof -
    have "k' \<in> set (env_order env EvictSite (map fst (e_clients e)))"
      using evictable_key [OF that] by (simp add: evict_order_keys [OF assms(1)])
    with scan b that show ?thesis by auto
  qed
  moreover have "c_ID c = k" using k assms(2) by (auto simp: evictable_def intro: clients_wf_ID)
  ultimately show thesis
    using that [OF k] assms(3) b by (simp add: evictOldestNonPresentLocked_def)
qed

lemma evictable_state:
  assumes "evictable e ex k c r"
  shows "c_State c = StateAbsent \<or> c_State c = StateUnknown" and "\<not> live c"
  using assms by (auto simp: evictable_def evict_rank_def reducedState_eq live_def split: if_splits)

section \<open>Eviction keeps the invariant\<close>

lemma inv_but_remove:
  assumes "good_env env" and "inv_but S V e" and "map_of (e_clients e) k = Some c"
  shows "inv_but S V (emitLocked env ''client.removed'' reason (ClientData (publicClientLocked c))
           (e\<lparr>e_clients := AList.delete k (e_clients e), e_pending := AList.delete k (e_pending e)\<rparr>))"
proof -
  have "c_ID c = k" using assms(2,3) inv_butD(1) clients_wf_ID by blast
  then show ?thesis
    using assms
    by (auto simp: inv_but_def clients_wf_def pend_ok_def replay_emit_client engine_view_def
        intro!: stream_inv_emit)
qed

lemma evict_keeps:
  assumes "good_env env" and "inv_but S V e" and "evictOldestNonPresentLocked env ex e = (ok, e')"
  shows "inv_but S V e'" and "e_limits e' = e_limits e"
    and "keyset (e_clients e') \<subseteq> keyset (e_clients e)"
    and "k \<in> set ex \<Longrightarrow> map_of (e_clients e') k = map_of (e_clients e) k"
    and "ok \<Longrightarrow> length (e_clients e) = Suc (length (e_clients e'))"
    and "e_reconnectGrace e' = e_reconnectGrace e" and "e_providers e' = e_providers e"
    and "\<forall>k c. map_of (e_clients e') k = Some c \<longrightarrow> map_of (e_clients e) k = Some c"
proof -
  note wf = inv_butD(1) [OF assms(2)]
  have "inv_but S V e' \<and> e_limits e' = e_limits e \<and> keyset (e_clients e') \<subseteq> keyset (e_clients e) \<and>
      (k \<in> set ex \<longrightarrow> map_of (e_clients e') k = map_of (e_clients e) k) \<and>
      (ok \<longrightarrow> length (e_clients e) = Suc (length (e_clients e'))) \<and>
      e_reconnectGrace e' = e_reconnectGrace e \<and> e_providers e' = e_providers e \<and>
      (\<forall>k c. map_of (e_clients e') k = Some c \<longrightarrow> map_of (e_clients e) k = Some c)"
  proof (cases ok)
    case False
    with evict_False(1) [OF assms(1), of ex e e'] assms show ?thesis by simp
  next
    case True
    with assms(3) have "evictOldestNonPresentLocked env ex e = (True, e')" by simp
    from evict_True [OF assms(1) wf this] obtain j c r where j: "evictable e ex j c r"
      and e': "e' = emitLocked env ''client.removed'' ''retention_limit''
           (ClientData (publicClientLocked c))
           (e\<lparr>e_clients := AList.delete j (e_clients e), e_pending := AList.delete j (e_pending e)\<rparr>)"
      by metis
    from j have look: "map_of (e_clients e) j = Some c" and "j \<notin> set ex"
      by (simp_all add: evictable_def)
    moreover have "inv_but S V e'" unfolding e' using assms(1,2) look by (rule inv_but_remove)
    moreover have "Suc (length (AList.delete j (e_clients e))) = length (e_clients e)"
      using map_of_mem_keys [OF look] inv_butD(4) [OF assms(2)]
      by (auto simp: length_delete intro: Suc_pred length_pos_if_in_set)
    ultimately show ?thesis by (auto simp: e' simp del: map_of_eq_Some_iff split: if_splits)
  qed
  then show "inv_but S V e'" and "e_limits e' = e_limits e"
    and "keyset (e_clients e') \<subseteq> keyset (e_clients e)"
    and "k \<in> set ex \<Longrightarrow> map_of (e_clients e') k = map_of (e_clients e) k"
    and "ok \<Longrightarrow> length (e_clients e) = Suc (length (e_clients e'))"
    and "e_reconnectGrace e' = e_reconnectGrace e" and "e_providers e' = e_providers e"
    and "\<forall>k c. map_of (e_clients e') k = Some c \<longrightarrow> map_of (e_clients e) k = Some c"
    by blast+
qed

text \<open>The loop returns; \<open>Q\<close> is any property of the state that single evictions keep.\<close>

lemma evict_loop_unfold:
  assumes "evictOldestNonPresentLocked env ex e = (ok, e1)"
  shows "evict_loop env ex n e =
     (if int (length (e_clients e)) + int n > MaxClients (e_limits e)
      then if ok then evict_loop env ex n e1 else Some (False, e1) else Some (True, e))"
  by (subst evict_loop.simps) (simp add: assms)

lemma evicted_self:
  assumes "good_env env"
    and "int (length (e_clients e)) + int n \<le> MaxClients (e_limits e) \<longleftrightarrow> ok"
    and "\<not> ok \<Longrightarrow> evictOldestNonPresentLocked env ex e = (False, e)"
  shows "evicted ex n e ok e"
  using assms evict_False(2) [OF assms(1)] by (force simp: evicted_def)

lemma evictedD:
  assumes "evicted ex n e ok e'"
  shows "e_limits e' = e_limits e" and "e_reconnectGrace e' = e_reconnectGrace e"
    and "e_providers e' = e_providers e" and "length (e_clients e') \<le> length (e_clients e)"
    and "k \<in> set ex \<Longrightarrow> map_of (e_clients e') k = map_of (e_clients e) k"
    and "map_of (e_clients e') k = Some c \<Longrightarrow> map_of (e_clients e) k = Some c"
    and "int (length (e_clients e')) + int n \<le> MaxClients (e_limits e) \<longleftrightarrow> ok"
    and "\<not> ok \<Longrightarrow> \<not> evictable e' ex k c r"
  using assms unfolding evicted_def by blast+

lemma evicted_step:
  assumes "good_env env" and "inv_but S V e"
    and "evictOldestNonPresentLocked env ex e = (True, e1)" and "evicted ex n e1 ok e'"
  shows "evicted ex n e ok e'"
proof -
  note k = evict_keeps [OF assms(1-3)] and d = evictedD [OF assms(4)]
  have "keyset (e_clients e') \<subseteq> keyset (e_clients e)"
    using assms(4) k(3) unfolding evicted_def by blast
  moreover have "length (e_clients e') \<le> length (e_clients e)" using d(4) k(5) by simp
  moreover have "\<forall>k \<in> set ex. map_of (e_clients e') k = map_of (e_clients e) k"
    using d(5) k(4) by simp
  moreover have "\<forall>k c. map_of (e_clients e') k = Some c \<longrightarrow> map_of (e_clients e) k = Some c"
    using d(6) k(8) by blast
  moreover have "\<not> ok \<longrightarrow> (\<forall>k c r. \<not> evictable e' ex k c r)" using d(8) by blast
  moreover have "int (length (e_clients e')) + int n \<le> MaxClients (e_limits e) \<longleftrightarrow> ok"
    using d(7) k(2) by simp
  ultimately show ?thesis
    unfolding evicted_def d(1-3) k(2,6,7) by - (intro conjI refl; assumption)
qed

lemma evict_loop_returns:
  assumes "good_env env" and "inv_but S V e" and "Q e"
    and step: "\<And>e e'. inv_but S V e \<Longrightarrow> Q e \<Longrightarrow>
               evictOldestNonPresentLocked env ex e = (True, e') \<Longrightarrow> Q e'"
  shows "\<exists>ok e'. evict_loop env ex n e = Some (ok, e') \<and> inv_but S V e' \<and> Q e' \<and> evicted ex n e ok e'"
  using assms(2,3)
proof (induction "length (e_clients e)" arbitrary: e rule: less_induct)
  case less
  obtain ok e1 where ev: "evictOldestNonPresentLocked env ex e = (ok, e1)" by fastforce
  note unf = evict_loop_unfold [OF ev, of n]
  show ?case
  proof (cases "int (length (e_clients e)) + int n > MaxClients (e_limits e)")
    case False
    then show ?thesis using less.prems evicted_self [OF assms(1), of e n True ex] by (auto simp: unf)
  next
    case over: True
    show ?thesis
    proof (cases ok)
      case True
      with ev have ev': "evictOldestNonPresentLocked env ex e = (True, e1)" by simp
      note k = evict_keeps [OF assms(1) less.prems(1) ev]
      have "length (e_clients e1) < length (e_clients e)" using k(5) True by simp
      from less.hyps [OF this k(1) step [OF less.prems ev']]
      obtain ok' e' where "evict_loop env ex n e1 = Some (ok', e')" "inv_but S V e'" "Q e'"
          "evicted ex n e1 ok' e'" by blast
      with evicted_step [OF assms(1) less.prems(1) ev'] over True show ?thesis by (simp add: unf)
    next
      case False
      with ev have ev': "evictOldestNonPresentLocked env ex e = (False, e1)" by simp
      with evict_False(1) [OF assms(1) ev'] evicted_self [OF assms(1), of e n False ex] over
      show ?thesis using less.prems False by (auto simp: unf)
    qed
  qed
qed

end
