(* ===== verification/Engine_Events.thy ===== *)
theory Engine_Events
  imports Engine_Evict
begin

text \<open>Every operation of the engine keeps the invariant.\<close>

section \<open>Departures\<close>

lemma inv_but_frame_put:
  assumes "map_of (e_clients e) k = Some c0" and "dkeys (e_clients e)"
  shows "length (AList.update k c (e_clients e)) = length (e_clients e)"
  using assms by (simp add: length_update keys_map_of)

lemma dropConnection_keeps:
  assumes "good_env env" and "inv_but {} {} e" and "map_of (e_clients e) cid = Some c"
  shows "inv_but {} {} (dropConnection env cid c i at reason e)"
proof -
  define c1 where "c1 = c\<lparr>c_Connections := AList.delete i (c_Connections c), c_LastSeenAt := at\<rparr>"
  define c2 where "c2 = c1\<lparr>c_State := reducedState c1 StateUnknown\<rparr>"
  have "wf_client cid c" using assms(2,3) inv_butD(1) clients_wf_look by blast
  then have wf: "wf_client cid c2" by (simp add: c2_def c1_def wf_client_delete)
  have ok: "state_ok c2" by (simp add: c2_def state_ok_reduced)
  have "inv_but {} {} (emitLocked env kind reason (ClientData (publicClientLocked c2))
      (put_client cid c2 e))" if "kind \<noteq> ''client.removed''" for kind
    using inv_but_publish [OF assms(1,2) wf ok that] by simp
  then show ?thesis
    unfolding dropConnection_def Let_def c1_def [symmetric] c2_def [symmetric] by simp
qed

lemma dropConnection_frame:
  assumes "map_of (e_clients e) cid = Some c" and "dkeys (e_clients e)"
  shows "e_limits (dropConnection env cid c i at reason e) = e_limits e"
    and "length (e_clients (dropConnection env cid c i at reason e)) = length (e_clients e)"
    and "e_pending (dropConnection env cid c i at reason e) = e_pending e"
    and "e_providers (dropConnection env cid c i at reason e) = e_providers e"
    and "e_reconnectGrace (dropConnection env cid c i at reason e) = e_reconnectGrace e"
  using assms by (simp_all add: dropConnection_def Let_def inv_but_frame_put)

lemma engine_inv_drop:
  assumes "good_env env" and "engine_inv e" and "map_of (e_clients e) cid = Some c"
  shows "engine_inv (dropConnection env cid c i at reason e)"
  using assms dropConnection_keeps [OF assms(1) _ assms(3)]
    dropConnection_frame [OF assms(3), of env i at reason]
  by (simp add: engine_inv_def within_limit_def inv_but_def clients_wf_def)

lemma engine_inv_unpend:
  "engine_inv e \<Longrightarrow> engine_inv (e\<lparr>e_pending := AList.delete k (e_pending e)\<rparr>)"
  by (simp add: engine_inv_def inv_but_unpend within_limit_def)

lemma engine_inv_pend:
  assumes "engine_inv e" and "map_of (e_clients e) k = Some c" and "e_reconnectGrace e > 0"
  shows "engine_inv (ensurePendingLocked k p s at e)"
proof -
  have "e_clients (ensurePendingLocked k p s at e) = e_clients e"
    "e_limits (ensurePendingLocked k p s at e) = e_limits e"
    by (simp_all add: ensurePendingLocked_def split: option.splits)
  then show ?thesis
    using assms by (simp add: engine_inv_def within_limit_def inv_but_pend map_of_mem_keys)
qed

lemma Disassociate_keeps:
  assumes "good_env env" and "engine_inv e"
  shows "engine_inv (Disassociate env provider source cid at reason e)"
  using assms
  by (auto simp: Disassociate_def Let_def engine_inv_drop engine_inv_pend split: option.splits)

lemma sweep_one_keeps:
  assumes "good_env env" and "engine_inv e"
  shows "engine_inv (sweep_one env now cid e)"
  using assms
  by (auto simp: sweep_one_def applyPendingDepartureLocked_def Let_def engine_inv_unpend
      intro!: engine_inv_drop split: option.splits)

lemma sweepPending_keeps:
  assumes "good_env env" and "engine_inv e"
  shows "engine_inv (sweepPending env now e)"
  unfolding sweepPending_def
  by (rule fold_invariant) (simp_all add: assms sweep_one_keeps)

section \<open>Arrivals\<close>

lemma put_unpend: "(put_client k c e)\<lparr>e_pending := y\<rparr> = put_client k c (e\<lparr>e_pending := y\<rparr>)"
  by (cases e) simp

text \<open>
  The client written by \<^verbatim>\<open>Associate\<close>: well formed, live and present, so its state is settled; where
  nothing is announced its view has not changed.
\<close>

lemma associate_client_keeps:
  assumes "good_env env" and "inv_but {} {} e" and "wf_client cid c"
    and "map_of (e_clients e) cid = Some c \<or>
         map_of (e_clients e) cid = None \<and> c_State c \<noteq> StatePresent"
  shows "inv_but {} {} (associate_client env provider source cid at reason c e)"
proof -
  let ?i = "connectionID provider source"
  define n where "n = (case map_of (c_Connections c) ?i of Some n \<Rightarrow> n
                       | None \<Rightarrow> new_conn provider source at 0)"
  define n1 where "n1 = n\<lparr>conn_LastSeenAt := at, conn_Stale := False\<rparr>"
  define c0 where "c0 = c\<lparr>c_Connections := AList.update ?i n1 (c_Connections c)\<rparr>"
  define c1 where "c1 = c0\<lparr>c_State := StatePresent, c_LastSeenAt := at\<rparr>"
  define e0 where "e0 = e\<lparr>e_pending := AList.delete cid (e_pending e)\<rparr>"
  have n: "conn_ID n1 = ?i" "?i = connectionID (conn_Provider n1) (conn_SourceInstance n1)"
    using wf_client_conn [OF assms(3)]
    by (auto simp: n1_def n_def new_conn_def split: option.splits)
  have wf0: "wf_client cid c0" unfolding c0_def using assms(3) n by (rule wf_client_update)
  then have wf: "wf_client cid c1" by (simp add: c1_def)
  have "(?i, n1) \<in> set (c_Connections c0)"
    using assms(3) by (simp add: c0_def wf_client_def mem_update)
  moreover have "\<not> conn_Stale n1" by (simp add: n1_def)
  ultimately have "live c0" unfolding live_def by blast
  then have ok: "state_ok c1" by (simp add: c1_def state_ok_def)
  have inv0: "inv_but {} {} e0" unfolding e0_def using assms(2) by (rule inv_but_unpend)
  have pub: "inv_but {} {} (emitLocked env kind reason (ClientData (publicClientLocked c1))
      (put_client cid c1 e0))" if "kind \<noteq> ''client.removed''" for kind
    using inv_but_publish [OF assms(1) inv0 wf ok that] by simp
  have quiet: "inv_but {} {} (put_client cid c1 e0)"
    if "c_State c = StatePresent" and "map_of (c_Connections c) ?i = Some m" for m
  proof -
    have "client_view c0 = client_view c"
      unfolding c0_def using assms(3) that(2)
      by (rule client_view_refresh) (simp add: n1_def n_def that(2) conn_view_def)
    then have "engine_view e0 cid = Some (client_view c1)"
      using assms(4) that(1)
      by (auto simp: engine_view_def e0_def c1_def c0_def client_view_def)
    with inv_but_put_quiet [OF inv0 wf ok] show ?thesis by simp
  qed
  have "associate_client env provider source cid at reason c e =
     (if c_State c \<noteq> StatePresent
      then emitLocked env ''client.presence_changed'' reason (ClientData (publicClientLocked c1))
             (put_client cid c1 e0)
      else if map_of (c_Connections c) ?i = None
      then emitLocked env ''client.updated'' reason (ClientData (publicClientLocked c1))
             (put_client cid c1 e0)
      else put_client cid c1 e0)"
    unfolding associate_client_def Let_def
    by (simp add: put_unpend e0_def c1_def c0_def n1_def n_def)
  then show ?thesis using pub quiet by auto
qed

lemma associate_client_frame [simp]:
  "e_limits (associate_client env provider source cid at reason c e) = e_limits e"
  "keyset (e_clients (associate_client env provider source cid at reason c e)) =
     insert cid (keyset (e_clients e))"
  by (simp_all add: associate_client_def Let_def)

lemma associate_client_length:
  "dkeys (e_clients e) \<Longrightarrow>
   length (e_clients (associate_client env provider source cid at reason c e)) =
     (if cid \<in> keyset (e_clients e) then length (e_clients e) else Suc (length (e_clients e)))"
  by (simp add: associate_client_def Let_def length_update)

lemma Associate_keeps:
  assumes "good_env env" and "engine_inv e"
  shows "engine_inv (snd (Associate env provider source cid at reason e))"
proof -
  have inv: "inv_but {} {} e" and lim: "int (length (e_clients e)) \<le> MaxClients (e_limits e)"
      "MaxClients (e_limits e) \<ge> 1"
    using assms(2) by (simp_all add: engine_inv_def within_limit_def)
  note wf = inv_butD(1) [OF inv] and d = inv_butD(4) [OF inv]
  show ?thesis
  proof (cases "map_of (e_clients e) cid")
    case (Some c)
    with associate_client_keeps [OF assms(1) inv clients_wf_look [OF wf Some]] lim show ?thesis
      by (simp add: Associate_def engine_inv_def within_limit_def associate_client_length d
          map_of_mem_keys)
  next
    case None
    have new: "engine_inv (associate_client env provider source cid at reason (new_client cid at) e')"
      if "inv_but {} {} e'" and "int (length (e_clients e')) < MaxClients (e_limits e')"
        and "map_of (e_clients e') cid = None" for e'
      using that associate_client_keeps [OF assms(1) that(1) wf_client_new] inv_butD(4) [OF that(1)]
      by (simp add: engine_inv_def within_limit_def associate_client_length new_client_def)
    show ?thesis
    proof (cases "int (length (e_clients e)) \<ge> MaxClients (e_limits e)")
      case False
      with new [OF inv] None show ?thesis by (simp add: Associate_def)
    next
      case True
      obtain ok e' where ev: "evictOldestNonPresentLocked env [] e = (ok, e')" by fastforce
      note k = evict_keeps [OF assms(1) inv ev]
      have "map_of (e_clients e') cid = None" using k(3) None by (auto simp: map_of_eq_None_iff)
      with new [OF k(1)] k(1,2,5) evict_False(1) [OF assms(1), of "[]" e e'] True None lim ev assms(2)
      show ?thesis by (cases ok) (auto simp: Associate_def)
    qed
  qed
qed

end
