(* ===== verification/Engine_Snapshots.thy ===== *)
theory Engine_Snapshots
  imports Engine_Events
begin

text \<open>The snapshot operations and \<^verbatim>\<open>SetProvider\<close> keep the invariant.\<close>

section \<open>\<^verbatim>\<open>SetProvider\<close>\<close>

lemma wf_client_map:
  assumes "wf_client k c"
    and "\<And>n. conn_ID (f n) = conn_ID n" "\<And>n. conn_Provider (f n) = conn_Provider n"
      "\<And>n. conn_SourceInstance (f n) = conn_SourceInstance n"
  shows "wf_client k (c\<lparr>c_Connections := map (\<lambda>(i, n). (i, f n)) (c_Connections c)\<rparr>)"
  using assms by (force simp: wf_client_def comp_def case_prod_beta)

lemma stale_one_keeps:
  assumes "good_env env" and "engine_inv e"
  shows "engine_inv (stale_one env pid cid e)"
proof (cases "map_of (e_clients e) cid")
  case None
  with assms(2) show ?thesis by (simp add: stale_one_def)
next
  case (Some c)
  define f :: "Connection \<Rightarrow> Connection" where "f = (\<lambda>n. if conn_Provider n = pid \<and> \<not> conn_Stale n
                           then n\<lparr>conn_Stale := True\<rparr> else n)"
  define c1 where "c1 = c\<lparr>c_Connections := map (\<lambda>(i, n). (i, f n)) (c_Connections c)\<rparr>"
  define e1 where "e1 = put_client cid c1 (e\<lparr>e_pending := AList.delete (c_ID c1) (e_pending e)\<rparr>)"
  define c2 where "c2 = c1\<lparr>c_State := reducedState c1 StateUnknown\<rparr>"
  have inv: "inv_but {} {} e" and d: "dkeys (e_clients e)"
    using assms(2) inv_butD(4) by (auto simp: engine_inv_def)
  have "wf_client cid c" using inv inv_butD(1) clients_wf_look Some by blast
  then have wf: "wf_client cid c1" unfolding c1_def by (rule wf_client_map) (simp_all add: f_def)
  have ok: "state_ok c2" by (simp add: c2_def state_ok_reduced)
  have e1: "inv_but {cid} {cid} e1"
    unfolding e1_def using inv_but_put [OF inv_but_unpend [OF inv] wf] by simp
  have fin: "engine_inv (emitLocked env kind reason (ClientData (publicClientLocked c2))
      (put_client cid c2 e1))" if "kind \<noteq> ''client.removed''" for kind reason
  proof -
    have "wf_client cid c2" using wf by (simp add: c2_def)
    from inv_but_publish [OF assms(1) e1 this ok that]
    have "inv_but {} {} (emitLocked env kind reason (ClientData (publicClientLocked c2))
        (put_client cid c2 e1))" by simp
    moreover have "length (AList.update cid c2 (e_clients e)) = length (e_clients e)"
      using Some d by (rule inv_but_frame_put)
    ultimately show ?thesis
      using assms(2) by (simp add: engine_inv_def within_limit_def e1_def)
  qed
  have same: "c2 = c1" "put_client cid c2 e1 = e1" if "c_State c1 = reducedState c1 StateUnknown"
  proof -
    show "c2 = c1" using that by (simp add: c2_def)
    then show "put_client cid c2 e1 = e1" by (simp add: e1_def)
  qed
  have "stale_one env pid cid e =
     (if \<not> list_ex (\<lambda>(_, n). conn_Provider n = pid \<and> \<not> conn_Stale n) (c_Connections c) then e
      else if c_State c1 \<noteq> reducedState c1 StateUnknown
      then emitLocked env ''client.presence_changed'' ''provider_unavailable''
             (ClientData (publicClientLocked c2)) (put_client cid c2 e1)
      else emitLocked env ''client.updated'' ''provider_unavailable''
             (ClientData (publicClientLocked c1)) e1)"
    unfolding stale_one_def Let_def put_unpend
    by (simp add: Some c1_def f_def e1_def c2_def)
  then show ?thesis
    using fin [of "''client.presence_changed''"] fin [of "''client.updated''"] assms(2) same by auto
qed

lemma SetProvider_keeps:
  assumes "good_env env" and "engine_inv e"
  shows "engine_inv (SetProvider env p e)"
proof -
  have 1: "engine_inv (e\<lparr>e_providers := z\<rparr>)" for z
    using assms(2) by (simp add: engine_inv_def within_limit_def)
  have 2: "engine_inv (emitLocked env kind reason (ProviderData p) (e\<lparr>e_providers := z\<rparr>))"
    for kind reason z
    using 1 inv_but_emit_other [OF assms(1)] by (simp add: engine_inv_def within_limit_def)
  have "engine_inv (fold (stale_one env q) ks e')" if "engine_inv e'" for q ks e'
    using that by (rule fold_invariant) (rule stale_one_keeps [OF assms(1)])
  with 1 2 show ?thesis by (simp add: SetProvider_def Let_def)
qed

section \<open>What a snapshot asks for\<close>

lemma is_wanted_add:
  "is_wanted (wanted_add s c w) c' s' \<longleftrightarrow> c' = c \<and> s' = s \<or> is_wanted w c' s'"
  by (auto simp: is_wanted_def wanted_add_def split: option.splits)

lemma wanted_add_nonempty:
  "\<forall>k ss. map_of w k = Some ss \<longrightarrow> ss \<noteq> [] \<Longrightarrow> \<forall>k ss. map_of (wanted_add s c w) k = Some ss \<longrightarrow> ss \<noteq> []"
  by (auto simp: wanted_add_def List.insert_def split: option.splits)

lemma fold_wanted_add:
  "is_wanted (fold (wanted_add s) ids w) c' s' \<longleftrightarrow> c' \<in> set ids \<and> s' = s \<or> is_wanted w c' s'"
  by (induction ids arbitrary: w) (auto simp: is_wanted_add)

lemma is_wanted_build:
  "is_wanted (build_wanted stations) c s \<longleftrightarrow> (\<exists>ids. (s, ids) \<in> set stations \<and> c \<in> set ids)"
proof -
  have "is_wanted (fold (\<lambda>(s, ids). fold (wanted_add s) ids) stations w) c s \<longleftrightarrow>
      (\<exists>ids. (s, ids) \<in> set stations \<and> c \<in> set ids) \<or> is_wanted w c s" for w
    by (induction stations arbitrary: w) (auto simp: fold_wanted_add)
  moreover have "\<not> is_wanted [] c s" by (simp add: is_wanted_def)
  ultimately show ?thesis unfolding build_wanted_def by blast
qed

lemma build_wanted_wf:
  "dkeys (build_wanted stations)"
  "\<forall>k ss. map_of (build_wanted stations) k = Some ss \<longrightarrow> ss \<noteq> []"
proof -
  let ?P = "\<lambda>w. dkeys w \<and> (\<forall>k ss. map_of w k = Some ss \<longrightarrow> ss \<noteq> [])"
  have add: "?P w \<Longrightarrow> ?P (wanted_add s c w)" for s c w
    using wanted_add_nonempty [of w s c] by (simp add: wanted_add_def)
  have ids: "?P w \<Longrightarrow> ?P (fold (wanted_add s) ids w)" for s ids w
    by (rule fold_invariant [where P = ?P]) (use add in blast)+
  have "?P (fold (\<lambda>(s, ids). fold (wanted_add s) ids) stations [])"
    by (rule fold_invariant [where P = ?P]) (use ids in \<open>simp_all del: map_of_eq_Some_iff split: prod.split\<close>)
  then show "dkeys (build_wanted stations)"
    and "\<forall>k ss. map_of (build_wanted stations) k = Some ss \<longrightarrow> ss \<noteq> []"
    by (simp_all add: build_wanted_def)
qed

section \<open>The loops of a snapshot\<close>

text \<open>
  Between the loops of a snapshot every state field may be out of date, the clients in \<^verbatim>\<open>changed\<close> may
  be out of step with the log, and the frame of the operation is kept.
\<close>

definition scanning :: "Engine \<Rightarrow> Engine \<times> string list \<Rightarrow> bool" where
  "scanning e0 s \<longleftrightarrow> inv_but UNIV (set (snd s)) (fst s) \<and>
     set (snd s) \<subseteq> keyset (e_clients (fst s)) \<and> distinct (snd s) \<and>
     e_limits (fst s) = e_limits e0 \<and> e_reconnectGrace (fst s) = e_reconnectGrace e0 \<and>
     e_providers (fst s) = e_providers e0"

lemma scanning_put:
  assumes "scanning e0 (e, ch)" and "wf_client k c"
  shows "scanning e0 (put_client k c e, List.insert k ch)"
  using assms inv_but_put [of UNIV "set ch" e k c] by (auto simp: scanning_def)

lemma scanning_put_same:
  assumes "scanning e0 (e, ch)" and "wf_client k c" and "engine_view e k = Some (client_view c)"
  shows "scanning e0 (put_client k c e, ch)"
  using assms inv_but_put_same [of UNIV "set ch" e k c] by (auto simp: scanning_def)

lemma scanning_pend:
  assumes "scanning e0 (e, ch)" and "k \<in> keyset (e_clients e)" and "e_reconnectGrace e > 0"
  shows "scanning e0 (ensurePendingLocked k p s at e, ch)"
proof -
  have "e_clients (ensurePendingLocked k p s at e) = e_clients e"
    "e_limits (ensurePendingLocked k p s at e) = e_limits e"
    "e_reconnectGrace (ensurePendingLocked k p s at e) = e_reconnectGrace e"
    "e_providers (ensurePendingLocked k p s at e) = e_providers e"
    by (simp_all add: ensurePendingLocked_def split: option.splits)
  then show ?thesis using assms by (simp add: scanning_def inv_but_pend)
qed

lemma scanning_unpend:
  assumes "scanning e0 (e, ch)"
  shows "scanning e0 (e\<lparr>e_pending := AList.delete k (e_pending e)\<rparr>, ch)"
  using assms by (simp add: scanning_def inv_but_unpend)

lemma scanning_look:
  assumes "scanning e0 (e, ch)" and "map_of (e_clients e) k = Some c"
  shows "wf_client k c"
  using assms by (auto simp: scanning_def dest: inv_butD(1) intro: clients_wf_look)

lemma scan_conn_keeps:
  assumes "scanning e0 s"
  shows "scanning e0 (scan_conn provider wanted at cid i s)"
  using assms
  by (cases s)
     (auto simp: scan_conn_def split: option.splits
       intro!: scanning_put scanning_pend wf_client_delete dest: scanning_look map_of_mem_keys)

lemma scan_conn_keys:
  "keyset (e_clients (fst (scan_conn provider wanted at cid i s))) = keyset (e_clients (fst s))"
  by (cases s) (auto simp: scan_conn_def ensurePendingLocked_def split: option.splits
      dest: map_of_mem_keys)

lemma reconcile_scan_keeps:
  assumes "scanning e0 s"
  shows "scanning e0 (reconcile_scan env provider wanted at cid s)"
  using assms
  by (auto simp: reconcile_scan_def split: option.splits intro!: fold_invariant scan_conn_keeps)

lemma reconcile_scan_keys:
  "keyset (e_clients (fst (reconcile_scan env provider wanted at cid s))) = keyset (e_clients (fst s))"
  by (simp add: reconcile_scan_def scan_conn_keys
      fold_same [where g = "\<lambda>s. keyset (e_clients (fst s))"] split: option.splits)

lemma want_source_keeps:
  assumes "wf_client k c" and "want_source provider at source (c, chg) = (c', chg')"
  shows "wf_client k c'" and "chg \<longrightarrow> chg'" and "\<not> chg' \<longrightarrow> client_view c' = client_view c"
    and "c_Connections c = [] \<longrightarrow> chg'"
proof -
  let ?i = "connectionID provider source"
  have "wf_client k c' \<and> (chg \<longrightarrow> chg') \<and> (\<not> chg' \<longrightarrow> client_view c' = client_view c) \<and>
      (c_Connections c = [] \<longrightarrow> chg')"
  proof (cases "map_of (c_Connections c) ?i")
    case None
    with assms show ?thesis
      by (auto simp: want_source_def Let_def new_conn_def intro!: wf_client_update)
  next
    case (Some n)
    with assms(2) have c': "c' = c\<lparr>c_Connections := AList.update ?i
        (n\<lparr>conn_LastSeenAt := at, conn_Stale := False\<rparr>) (c_Connections c)\<rparr>" "chg' = chg"
      by (simp_all add: want_source_def Let_def)
    have "client_view c' = client_view c"
      unfolding c' using assms(1) Some by (rule client_view_refresh) (simp add: conn_view_def)
    moreover have "wf_client k c'"
      unfolding c' using assms(1) wf_client_conn [OF assms(1) Some] by (intro wf_client_update) simp_all
    moreover have "c_Connections c \<noteq> []" using Some by auto
    ultimately show ?thesis by (simp add: c'(2))
  qed
  then show "wf_client k c'" and "chg \<longrightarrow> chg'" and "\<not> chg' \<longrightarrow> client_view c' = client_view c"
    and "c_Connections c = [] \<longrightarrow> chg'" by blast+
qed

lemma fold_want_source_keeps:
  assumes "wf_client k c" and "fold (want_source provider at) sources (c, chg) = (c', chg')"
  shows "wf_client k c' \<and> (chg \<longrightarrow> chg') \<and> (\<not> chg' \<longrightarrow> client_view c' = client_view c) \<and>
    (c_Connections c = [] \<and> sources \<noteq> [] \<longrightarrow> chg')"
  using assms
proof (induction sources arbitrary: c chg)
  case Nil
  then show ?case by simp
next
  case (Cons s ss)
  obtain c1 chg1 where 1: "want_source provider at s (c, chg) = (c1, chg1)" by fastforce
  note w = want_source_keeps [OF Cons.prems(1) 1]
  from Cons.prems(2) 1 have "fold (want_source provider at) ss (c1, chg1) = (c', chg')" by simp
  with Cons.IH [OF w(1)] w show ?case by auto
qed

lemma reconcile_want_keeps:
  assumes "scanning e0 s" and "sources \<noteq> []"
  shows "scanning e0 (reconcile_want provider at (cid, sources) s)"
proof -
  obtain e ch where s: "s = (e, ch)" by fastforce
  define e1 where "e1 = e\<lparr>e_pending := AList.delete cid (e_pending e)\<rparr>"
  define c where "c = (case map_of (e_clients e1) cid of Some c \<Rightarrow> c | None \<Rightarrow> new_client cid at)"
  obtain c' chg where f: "fold (want_source provider at) sources (c, False) = (c', chg)" by fastforce
  have 1: "scanning e0 (e1, ch)" using assms(1) s by (simp add: e1_def scanning_unpend)
  have "wf_client cid c" by (auto simp: c_def split: option.splits dest: scanning_look [OF 1])
  note w = fold_want_source_keeps [OF this f]
  have view: "engine_view e1 cid = Some (client_view c')" if "\<not> chg"
  proof (cases "map_of (e_clients e1) cid")
    case None
    then have "c_Connections c = []" by (simp add: c_def new_client_def)
    with w that assms(2) show ?thesis by simp
  next
    case (Some d)
    with w that show ?thesis by (simp add: engine_view_def c_def)
  qed
  have "reconcile_want provider at (cid, sources) s =
      (put_client cid c' e1, if chg then List.insert cid ch else ch)"
    using f by (simp add: reconcile_want_def s Let_def e1_def c_def)
  then show ?thesis using w view 1 by (auto intro: scanning_put scanning_put_same)
qed

lemma reconcile_want_keys:
  "keyset (e_clients (fst (reconcile_want provider at w s))) = insert (fst w) (keyset (e_clients (fst s)))"
  by (cases w; cases s) (auto simp: reconcile_want_def Let_def split: prod.splits)

lemma reconcile_publish_keeps:
  assumes "good_env env" and "inv_but S V e" and "V \<subseteq> set changed"
    and Some: "map_of (e_clients e) cid = Some c"
  shows "inv_but (S - {cid}) (V - {cid}) (reconcile_publish env changed at cid e)"
proof -
  define c1 where "c1 = c\<lparr>c_State := reducedState c StateAbsent\<rparr>"
  define c2 where "c2 = c1\<lparr>c_LastSeenAt := at\<rparr>"
  have "wf_client cid c" using assms(2) Some inv_butD(1) clients_wf_look by blast
  then have wf: "wf_client cid c1" "wf_client cid c2" by (simp_all add: c1_def c2_def)
  have ok: "state_ok c1" "state_ok c2" by (simp_all add: c1_def c2_def state_ok_reduced)
  note pub = inv_but_publish [OF assms(1,2)]
  have quiet: "inv_but (S - {cid}) (V - {cid}) (put_client cid c1 e)"
    if "c_State c1 = c_State c" and "cid \<notin> V"
  proof -
    have "c1 = c" using that(1) by (simp add: c1_def)
    then have "engine_view e cid = Some (client_view c1)" using Some by (simp add: engine_view_def)
    with inv_but_put_quiet [OF assms(2) wf(1) ok(1)] that(2) show ?thesis by simp
  qed
  have "c_ID c1 = cid" using wf(1) by (simp add: wf_client_def)
  moreover have "cid \<notin> set changed \<Longrightarrow> cid \<notin> V" using assms(3) by blast
  ultimately show ?thesis
    using pub [OF wf(1) ok(1)] pub [OF wf(2) ok(2)] quiet
    unfolding reconcile_publish_def Let_def Some option.case c1_def [symmetric] c2_def [symmetric]
    by simp
qed

lemma reconcile_publish_frame [simp]:
  "e_limits (reconcile_publish env changed at cid e) = e_limits e"
  "keyset (e_clients (reconcile_publish env changed at cid e)) = keyset (e_clients e)"
  by (auto simp: reconcile_publish_def Let_def split: option.splits dest: map_of_mem_keys)

text \<open>The same for the loop over \<^verbatim>\<open>affected\<close>, which always announces.\<close>

lemma source_publish_keeps:
  assumes "good_env env" and "inv_but S V e" and Some: "map_of (e_clients e) cid = Some c"
  shows "inv_but (S - {cid}) (V - {cid}) (source_publish env at cid e)"
proof -
  define c1 where "c1 = c\<lparr>c_State := reducedState c StateAbsent\<rparr>"
  define c2 where "c2 = c1\<lparr>c_LastSeenAt := at\<rparr>"
  have "wf_client cid c" using assms(2) Some inv_butD(1) clients_wf_look by blast
  then have wf: "wf_client cid c1" "wf_client cid c2" by (simp_all add: c1_def c2_def)
  have ok: "state_ok c1" "state_ok c2" by (simp_all add: c1_def c2_def state_ok_reduced)
  note pub = inv_but_publish [OF assms(1,2)]
  show ?thesis
    using pub [OF wf(1) ok(1)] pub [OF wf(2) ok(2)]
    unfolding source_publish_def Let_def Some option.case c1_def [symmetric] c2_def [symmetric]
    by simp
qed

lemma source_publish_frame [simp]:
  "e_limits (source_publish env at cid e) = e_limits e"
  "keyset (e_clients (source_publish env at cid e)) = keyset (e_clients e)"
  by (auto simp: source_publish_def Let_def split: option.splits dest: map_of_mem_keys)

text \<open>Publishing every key of a list settles exactly those clients.\<close>

lemma publish_loop:
  assumes "inv_but S V e" and "set ks \<subseteq> keyset (e_clients e)"
    and step: "\<And>S V e k c. inv_but S V e \<Longrightarrow> V \<subseteq> W \<Longrightarrow> map_of (e_clients e) k = Some c \<Longrightarrow>
               inv_but (S - {k}) (V - {k}) (f k e)"
    and keys: "\<And>k e. keyset (e_clients (f k e)) = keyset (e_clients e)" and "V \<subseteq> W"
  shows "inv_but (S - set ks) (V - set ks) (fold f ks e)"
  using assms(1,2,5)
proof (induction ks arbitrary: S V e)
  case Nil
  then show ?case by simp
next
  case (Cons k ks)
  obtain c where "map_of (e_clients e) k = Some c"
    using Cons.prems(2) keys_map_of [of k "e_clients e"] by auto
  from step [OF Cons.prems(1,3) this] Cons.IH [of "S - {k}" "V - {k}" "f k e"] Cons.prems(2,3)
  have "inv_but (S - {k} - set ks) (V - {k} - set ks) (fold f ks (f k e))"
    by (auto simp: keys)
  then show ?case by (simp add: Diff_insert2 [symmetric] Diff_insert [symmetric])
qed

lemma inv_but_settled:
  assumes "inv_but (S - K) (V - K) e" and "V \<subseteq> K" and "keyset (e_clients e) \<subseteq> K"
  shows "inv_but {} {} e"
proof -
  have "(S - K) \<inter> keyset (e_clients e) = {}" and "V - K = {}" using assms(2,3) by auto
  with inv_but_keys [OF assms(1)] show ?thesis by simp
qed

section \<open>\<^verbatim>\<open>Reconcile\<close>\<close>

lemma reconcile_apply_keeps:
  assumes "good_env env" and "inv_but {} {} e" and "dkeys wanted"
    and "\<forall>k ss. map_of wanted k = Some ss \<longrightarrow> ss \<noteq> []"
  shows "inv_but {} {} (reconcile_apply env provider wanted at e)"
    and "keyset (e_clients (reconcile_apply env provider wanted at e)) =
           keyset (e_clients e) \<union> keyset wanted"
    and "e_limits (reconcile_apply env provider wanted at e) = e_limits e"
proof -
  define e1 where "e1 = e\<lparr>e_reconciliations := e_reconciliations e + 1\<rparr>"
  define s2 where "s2 = fold (reconcile_scan env provider wanted at) (map fst (e_clients e1)) (e1, [])"
  obtain e3 changed where s3: "fold (reconcile_want provider at) wanted s2 = (e3, changed)" by fastforce
  define ks where "ks = env_order env ReconcileEmitSite (map fst (e_clients e3))"
  define e4 where "e4 = fold (reconcile_publish env changed at) ks e3"
  have eq: "reconcile_apply env provider wanted at e =
      emitLocked env ''state.resynchronized'' ''authoritative_snapshot''
        (MapData [(''provider'', AnyString provider)]) e4"
    unfolding reconcile_apply_def Let_def e1_def [symmetric] s2_def [symmetric] s3 prod.case
      ks_def [symmetric] e4_def [symmetric] ..
  have "scanning e (e1, [])"
    using inv_but_mono [OF assms(2), of UNIV "{}"] by (simp add: scanning_def e1_def)
  then have sc2: "scanning e s2"
    unfolding s2_def by (rule fold_invariant) (rule reconcile_scan_keeps)
  have k2: "keyset (e_clients (fst s2)) = keyset (e_clients e)"
    unfolding s2_def
    by (subst fold_same [where g = "\<lambda>s. keyset (e_clients (fst s))"])
       (simp_all add: reconcile_scan_keys e1_def)
  have "scanning e (fold (reconcile_want provider at) wanted s2)"
  proof (rule fold_invariant [where P = "scanning e", OF sc2])
    fix w s
    assume w: "w \<in> set wanted" and s: "scanning e s"
    obtain k ss where kss: "w = (k, ss)" by fastforce
    have "map_of wanted k = Some ss" using w assms(3) by (simp add: kss)
    with assms(4) have "ss \<noteq> []" by blast
    with s show "scanning e (reconcile_want provider at w s)"
      by (simp add: kss reconcile_want_keeps)
  qed
  then have sc3: "scanning e (e3, changed)" by (simp add: s3)
  have "keyset (e_clients (fst (fold (reconcile_want provider at) ws s))) =
      keyset (e_clients (fst s)) \<union> keyset ws" for ws s
    by (induction ws arbitrary: s) (auto simp: reconcile_want_keys)
  then have k3: "keyset (e_clients e3) = keyset (e_clients e) \<union> keyset wanted"
    using k2 s3 by (metis fst_conv)
  have ks: "set ks = keyset (e_clients e3)" by (simp add: ks_def evict_order_keys [OF assms(1)])
  have "inv_but (UNIV - set ks) (set changed - set ks) e4"
    unfolding e4_def using sc3
    by (intro publish_loop [where W = "set changed"])
       (auto simp: ks scanning_def intro!: reconcile_publish_keeps [OF assms(1)])
  moreover have k4: "keyset (e_clients e4) = keyset (e_clients e3)"
    unfolding e4_def by (rule fold_same) simp
  ultimately have "inv_but {} {} e4"
    using sc3 by (intro inv_but_settled [of UNIV "set ks" "set changed"]) (auto simp: ks scanning_def)
  then show "inv_but {} {} (reconcile_apply env provider wanted at e)"
    unfolding eq by (rule inv_but_emit_other [OF assms(1)]) simp
  show "keyset (e_clients (reconcile_apply env provider wanted at e)) =
      keyset (e_clients e) \<union> keyset wanted"
    using k3 k4 by (simp add: eq)
  have "e_limits e4 = e_limits e3" unfolding e4_def by (rule fold_same) simp
  then show "e_limits (reconcile_apply env provider wanted at e) = e_limits e"
    using sc3 by (simp add: eq scanning_def)
qed

end
