(* ===== verification/Engine_Reach.thy ===== *)
theory Engine_Reach
  imports Engine_Snapshots
begin

text \<open>
  Both snapshot operations keep the invariant and return, and the engine as a state machine: one rule
  per public operation, the sweeper and the readers of the streams, and the invariant of every
  reachable state.
\<close>

section \<open>The client limit\<close>

lemma card_union_le:
  "card (A \<union> set ks) \<le> card A + length (filter (\<lambda>k. k \<notin> A) ks)" if "finite A"
proof -
  have "A \<union> set ks = A \<union> set (filter (\<lambda>k. k \<notin> A) ks)" by auto
  then have "card (A \<union> set ks) \<le> card A + card (set (filter (\<lambda>k. k \<notin> A) ks))"
    by (metis card_Un_le)
  with card_length [of "filter (\<lambda>k. k \<notin> A) ks"] show ?thesis by linarith
qed

lemma limit_after:
  assumes "evicted ws (count_new ws e) e True e1" and "dkeys (e_clients e1)" and "dkeys (e_clients e2)"
    and "keyset (e_clients e2) = keyset (e_clients e1) \<union> set ws" and "e_limits e2 = e_limits e1"
  shows "within_limit e2"
proof -
  have "filter (\<lambda>k. map_of (e_clients e) k = None) ws = filter (\<lambda>k. k \<notin> keyset (e_clients e1)) ws"
    by (rule filter_cong) (simp_all add: evictedD(5) [OF assms(1), symmetric] map_of_eq_None_iff)
  moreover have "length (e_clients e2) \<le> length (e_clients e1) + length (filter (\<lambda>k. k \<notin> keyset (e_clients e1)) ws)"
    unfolding length_keys [OF assms(3)] length_keys [OF assms(2)] assms(4) by (rule card_union_le) simp
  ultimately show ?thesis
    using evictedD(1,7) [OF assms(1)] assms(5) by (simp add: within_limit_def count_new_def)
qed

section \<open>\<^verbatim>\<open>Reconcile\<close> and \<^verbatim>\<open>ReconcileSource\<close>\<close>

lemma snapshot_evicts:
  assumes "good_env env" and "engine_inv e"
  obtains ok e1 where "evict_loop env ws n e = Some (ok, e1)" and "engine_inv e1"
    and "evicted ws n e ok e1"
proof -
  have "inv_but {} {} e" using assms(2) by (simp add: engine_inv_def)
  from evict_loop_returns [OF assms(1) this, where Q = "\<lambda>_. True" and ex = ws and n = n]
  obtain ok e1 where 1: "evict_loop env ws n e = Some (ok, e1)" "inv_but {} {} e1" "evicted ws n e ok e1"
    by blast
  then have "engine_inv e1"
    using assms(2) evictedD(1,4) [OF 1(3)] by (simp add: engine_inv_def within_limit_def)
  with 1 that show thesis by blast
qed

lemma Reconcile_keeps:
  assumes "good_env env" and "engine_inv e"
  shows "\<exists>err e'. Reconcile env provider stations at e = Some (err, e') \<and> engine_inv e'"
proof -
  let ?w = "build_wanted stations"
  obtain ok e1 where 1: "evict_loop env (map fst ?w) (count_new (map fst ?w) e) e = Some (ok, e1)"
    "engine_inv e1" "evicted (map fst ?w) (count_new (map fst ?w) e) e ok e1"
    by (rule snapshot_evicts [OF assms])
  note k = reconcile_apply_keeps [OF assms(1) _ build_wanted_wf, where e = e1 and provider = provider and at = at]
  have "engine_inv (reconcile_apply env provider ?w at e1)" if ok
  proof -
    have inv: "inv_but {} {} e1" using 1(2) by (simp add: engine_inv_def)
    have "within_limit (reconcile_apply env provider ?w at e1)"
      using 1(3) that inv_butD(4) [OF inv] inv_butD(4) [OF k(1) [OF inv]] k(2,3) [OF inv]
      by (intro limit_after [of "map fst ?w" e e1]) simp_all
    with k(1,3) [OF inv] 1(2) show ?thesis by (simp add: engine_inv_def)
  qed
  with 1(1,2) show ?thesis by (cases ok) (simp_all add: Reconcile_def Let_def)
qed

lemma source_scan_keeps:
  assumes "scanning e0 s"
  shows "scanning e0 (source_scan provider source wanted at cid s)"
  using assms
  by (cases s)
     (auto simp: source_scan_def Let_def split: option.splits
       intro!: scanning_put scanning_pend wf_client_delete dest: scanning_look map_of_mem_keys)

lemma source_scan_keys:
  "keyset (e_clients (fst (source_scan provider source wanted at cid s))) = keyset (e_clients (fst s))"
  by (cases s) (auto simp: source_scan_def Let_def ensurePendingLocked_def split: option.splits
      dest: map_of_mem_keys)

text \<open>One wanted client is one source of \<^verbatim>\<open>Reconcile\<close>'s inner loop, plus the stale flag.\<close>

lemma source_want_eq:
  "source_want provider source at cid (e, ch) =
     (let e1 = e\<lparr>e_pending := AList.delete cid (e_pending e)\<rparr>;
          c = (case map_of (e_clients e) cid of Some c \<Rightarrow> c | None \<Rightarrow> new_client cid at);
          s = want_source provider at source (c, False)
      in (put_client cid (fst s) e1,
          if snd s \<or> (\<exists>n. map_of (c_Connections c) (connectionID provider source) = Some n \<and> conn_Stale n)
          then List.insert cid ch else ch))"
  by (auto simp: source_want_def want_source_def Let_def split: option.split)

lemma source_want_keeps:
  assumes "scanning e0 s"
  shows "scanning e0 (source_want provider source at cid s)"
proof -
  obtain e ch where s: "s = (e, ch)" by fastforce
  define e1 where "e1 = e\<lparr>e_pending := AList.delete cid (e_pending e)\<rparr>"
  define c where "c = (case map_of (e_clients e1) cid of Some c \<Rightarrow> c | None \<Rightarrow> new_client cid at)"
  obtain c' chg where f: "want_source provider at source (c, False) = (c', chg)" by fastforce
  have 1: "scanning e0 (e1, ch)" using assms s by (simp add: e1_def scanning_unpend)
  have "wf_client cid c" by (auto simp: c_def split: option.splits dest: scanning_look [OF 1])
  note w = want_source_keeps [OF this f]
  have "source_want provider source at cid s = (put_client cid c' e1, List.insert cid ch) \<or>
      \<not> chg \<and> source_want provider source at cid s = (put_client cid c' e1, ch)"
    using source_want_eq [of provider source at cid e ch, folded e1_def] f
    by (auto simp: s c_def e1_def)
  moreover have "engine_view e1 cid = Some (client_view c')" if "\<not> chg"
    using that w(3,4) by (auto simp: c_def new_client_def engine_view_def split: option.splits)
  ultimately show ?thesis using 1 w(1) by (auto intro: scanning_put scanning_put_same)
qed

lemma source_want_keys:
  "keyset (e_clients (fst (source_want provider source at cid s))) =
     insert cid (keyset (e_clients (fst s)))"
  by (cases s) (auto simp: source_want_def Let_def split: option.splits)

text \<open>
  A client outside \<^verbatim>\<open>affected\<close> keeps its state: its live connections have not changed.
\<close>

definition settled :: "Engine \<times> string list \<Rightarrow> bool" where
  "settled s \<longleftrightarrow>
     (\<forall>k c. map_of (e_clients (fst s)) k = Some c \<longrightarrow> k \<notin> set (snd s) \<longrightarrow> state_ok c)"

lemma settled_put: "settled (e, ch) \<Longrightarrow> settled (put_client k c e, List.insert k ch)"
  by (simp add: settled_def)

lemma source_scan_settled:
  assumes "settled s"
  shows "settled (source_scan provider source wanted at cid s)"
proof -
  obtain e ch where s: "s = (e, ch)" by fastforce
  have "settled (ensurePendingLocked cid provider source at e, ch)"
    using assms s by (simp add: settled_def ensurePendingLocked_def split: option.splits)
  then show ?thesis
    using assms s by (auto simp: source_scan_def Let_def settled_put split: option.splits)
qed

lemma state_ok_refresh:
  assumes "wf_client k c" and "state_ok c" and "map_of (c_Connections c) i = Some n"
    and "conn_Stale n' = conn_Stale n"
  shows "state_ok (c\<lparr>c_Connections := AList.update i n' (c_Connections c)\<rparr>)"
proof -
  have d: "dkeys (c_Connections c)" using assms(1) by (simp add: wf_client_def)
  have "(\<exists>j m. (if j = i then m = n' else (j, m) \<in> set (c_Connections c)) \<and> \<not> conn_Stale m) \<longleftrightarrow>
      (\<exists>j m. (j, m) \<in> set (c_Connections c) \<and> \<not> conn_Stale m)"
    using assms(3,4) mem_map_of [OF d] by (metis option.inject)
  then have "live (c\<lparr>c_Connections := AList.update i n' (c_Connections c)\<rparr>) = live c"
    by (simp add: live_def mem_update [OF d] split_beta Bex_def)
  moreover have "c_Connections c \<noteq> []" using assms(3) by auto
  moreover have "AList.update i n' (c_Connections c) \<noteq> []" by (simp add: update_nonempty)
  ultimately show ?thesis using assms(2) by (simp add: state_ok_def)
qed

lemma source_want_settled:
  assumes "scanning e0 s" and "settled s"
  shows "settled (source_want provider source at cid s)"
proof -
  obtain e ch where s: "s = (e, ch)" by fastforce
  let ?i = "connectionID provider source"
  define e1 where "e1 = e\<lparr>e_pending := AList.delete cid (e_pending e)\<rparr>"
  have 1: "settled (e1, ch)" "scanning e0 (e1, ch)"
    using assms s by (simp_all add: settled_def e1_def scanning_unpend)
  show ?thesis
  proof (cases "\<exists>c n. map_of (e_clients e1) cid = Some c \<and> map_of (c_Connections c) ?i = Some n \<and>
      \<not> conn_Stale n \<and> cid \<notin> set ch")
    case False
    then have "\<exists>c'. source_want provider source at cid s = (put_client cid c' e1, List.insert cid ch)"
      by (auto simp: source_want_def s Let_def e1_def new_client_def List.insert_def
          split: option.splits)
    with settled_put [OF 1(1)] show ?thesis by auto
  next
    case True
    then obtain c n where c: "map_of (e_clients e1) cid = Some c" "map_of (c_Connections c) ?i = Some n"
      "\<not> conn_Stale n" "cid \<notin> set ch" by blast
    have "state_ok c" using 1(1) c(1,4) by (simp add: settled_def)
    from state_ok_refresh [OF scanning_look [OF 1(2) c(1)] this c(2),
        of "n\<lparr>conn_LastSeenAt := at, conn_Stale := False\<rparr>"] c 1(1)
    show ?thesis
      by (auto simp: source_want_def s Let_def e1_def settled_def)
  qed
qed

lemma source_apply_keeps:
  assumes "good_env env" and "inv_but {} {} e"
  shows "inv_but {} {} (source_apply env provider source wanted at e)"
    and "keyset (e_clients (source_apply env provider source wanted at e)) =
           keyset (e_clients e) \<union> set wanted"
    and "e_limits (source_apply env provider source wanted at e) = e_limits e"
proof -
  define s1 where "s1 = fold (source_scan provider source wanted at) (map fst (e_clients e)) (e, [])"
  obtain e2 affected where s2: "fold (source_want provider source at) wanted s1 = (e2, affected)"
    by fastforce
  define ks where "ks = env_order env SourceEmitSite affected"
  define e3 where "e3 = fold (source_publish env at) ks e2"
  have eq: "source_apply env provider source wanted at e =
      emitLocked env ''state.resynchronized'' ''authoritative_source_snapshot''
        (MapData [(''provider'', AnyString provider), (''source_instance'', AnyString source)]) e3"
    unfolding source_apply_def Let_def s1_def [symmetric] s2 prod.case
      ks_def [symmetric] e3_def [symmetric] ..
  let ?P = "\<lambda>s. scanning e s \<and> settled s"
  have "?P (e, [])"
    using assms(2) inv_but_mono [OF assms(2), of UNIV "{}"] by (auto simp: scanning_def settled_def inv_but_def)
  then have "?P s1"
    unfolding s1_def
    by (rule fold_invariant [where P = ?P]) (simp add: source_scan_keeps source_scan_settled)
  then have "?P (fold (source_want provider source at) wanted s1)"
    by (rule fold_invariant [where P = ?P]) (auto intro: source_want_keeps source_want_settled)
  then have P2: "?P (e2, affected)" by (simp add: s2)
  have k1: "keyset (e_clients (fst s1)) = keyset (e_clients e)"
    unfolding s1_def
    by (subst fold_same [where g = "\<lambda>s. keyset (e_clients (fst s))"]) (simp_all add: source_scan_keys)
  have "keyset (e_clients (fst (fold (source_want provider source at) ws s))) =
      keyset (e_clients (fst s)) \<union> set ws" for ws s
    by (induction ws arbitrary: s) (auto simp: source_want_keys)
  then have k2: "keyset (e_clients e2) = keyset (e_clients e) \<union> set wanted"
    using k1 s2 by (metis fst_conv)
  have ks: "set ks = set affected" by (simp add: ks_def evict_order_keys [OF assms(1)])
  have "inv_but (set affected) (set affected) e2"
    using P2 by (auto simp: scanning_def settled_def inv_but_def)
  then have "inv_but (set affected - set ks) (set affected - set ks) e3"
    unfolding e3_def using P2
    by (intro publish_loop [where W = UNIV])
       (auto simp: ks scanning_def intro!: source_publish_keeps [OF assms(1)])
  then show "inv_but {} {} (source_apply env provider source wanted at e)"
    unfolding eq ks by (simp add: inv_but_emit_other [OF assms(1)])
  have "keyset (e_clients e3) = keyset (e_clients e2)" and "e_limits e3 = e_limits e2"
    unfolding e3_def by (rule fold_same, simp)+
  then show "keyset (e_clients (source_apply env provider source wanted at e)) =
      keyset (e_clients e) \<union> set wanted"
    and "e_limits (source_apply env provider source wanted at e) = e_limits e"
    using k2 P2 by (simp_all add: eq scanning_def)
qed

lemma ReconcileSource_keeps:
  assumes "good_env env" and "engine_inv e"
  shows "\<exists>err e'. ReconcileSource env provider source ids at e = Some (err, e') \<and> engine_inv e'"
proof -
  let ?w = "remdups ids"
  obtain ok e1 where 1: "evict_loop env ?w (count_new ?w e) e = Some (ok, e1)"
    "engine_inv e1" "evicted ?w (count_new ?w e) e ok e1"
    by (rule snapshot_evicts [OF assms])
  note k = source_apply_keeps [OF assms(1), of e1 provider source ?w at]
  have "engine_inv (source_apply env provider source ?w at e1)" if ok
  proof -
    have inv: "inv_but {} {} e1" using 1(2) by (simp add: engine_inv_def)
    have "within_limit (source_apply env provider source ?w at e1)"
      using 1(3) that inv_butD(4) [OF inv] inv_butD(4) [OF k(1) [OF inv]] k(2,3) [OF inv]
      by (intro limit_after [of ?w e e1]) simp_all
    with k(1,3) [OF inv] 1(2) show ?thesis by (simp add: engine_inv_def)
  qed
  with 1(1,2) show ?thesis by (cases ok) (simp_all add: ReconcileSource_def Let_def)
qed

section \<open>The engine as a state machine\<close>

inductive engine_step :: "Engine \<Rightarrow> Engine \<Rightarrow> bool" where
  apply_obs: "good_env env \<Longrightarrow> engine_step e (snd (Apply env v e))"
| apply_snapshot: "good_env env \<Longrightarrow> ApplySnapshot env s e = Some (err, e') \<Longrightarrow> engine_step e e'"
| apply_source: "good_env env \<Longrightarrow> ApplySourceSnapshot env ss e = Some (err, e') \<Longrightarrow> engine_step e e'"
| set_status: "good_env env \<Longrightarrow> engine_step e (SetProviderStatus env st e)"
| sweep: "good_env env \<Longrightarrow> e_stopSweeper e = Some False \<Longrightarrow> engine_step e (sweepPending env now e)"
| subscribe: "engine_step e (snd (Subscribe now e))"
| cancel: "engine_step e (Engine.cancel i e)"
| receive: "r < length (e_heap e) \<Longrightarrow> engine_step e (snd (Engine.receive r e))"
| stop: "engine_step e (Stop e)"

inductive engine_reach :: "Engine \<Rightarrow> bool" where
  start: "New raw l = Inr e \<Longrightarrow> engine_reach e"
| step: "engine_reach e \<Longrightarrow> engine_step e e' \<Longrightarrow> engine_reach e'"

lemma New_inv:
  assumes "New raw l = Inr e"
  shows "engine_inv e"
proof -
  have "\<not> (MaxClients l < 1 \<or> MaxSubscribers l < 1 \<or> QueueSize l < 1)"
    using assms by (auto simp: New_def)
  with assms show ?thesis
    by (auto simp: New_def Let_def startSweeper_def engine_inv_def inv_but_def clients_wf_def
        pend_ok_def stream_inv_def log_ok_def within_limit_def engine_view_def
        split: option.splits if_splits)
qed

lemma engine_inv_stream:
  assumes "engine_inv e" and "stream_inv e'" and "e_clients e' = e_clients e"
    and "e_pending e' = e_pending e" and "e_limits e' = e_limits e" and "e_log e' = e_log e"
    and "e_reconnectGrace e' = e_reconnectGrace e"
  shows "engine_inv e'"
  using assms
  by (simp add: engine_inv_def inv_but_def clients_wf_def pend_ok_def within_limit_def engine_view_def)

lemma Subscribe_frame [simp]:
  "e_clients (snd (Subscribe now e)) = e_clients e"
  "e_pending (snd (Subscribe now e)) = e_pending e"
  "e_limits (snd (Subscribe now e)) = e_limits e"
  "e_log (snd (Subscribe now e)) = e_log e"
  "e_reconnectGrace (snd (Subscribe now e)) = e_reconnectGrace e"
  by (simp_all add: Subscribe_def Let_def)

lemma engine_step_keeps:
  assumes "engine_step e e'" and "engine_inv e"
  shows "engine_inv e'"
  using assms
proof (induction rule: engine_step.induct)
  case (apply_obs env e v)
  then show ?case
    by (cases "ob_Kind v") (simp_all add: Apply_def Associate_keeps Disassociate_keeps)
next
  case (apply_snapshot env s e err e')
  then show ?case
    using Reconcile_keeps [of env e "os_Provider s" "os_Stations s" "os_ReceivedAt s"]
    by (auto simp: ApplySnapshot_def)
next
  case (apply_source env ss e err e')
  then show ?case
    using ReconcileSource_keeps [of env e "ss_Provider ss" "ss_SourceInstance ss" "ss_Clients ss"
        "ss_ReceivedAt ss"]
    by (auto simp: ApplySourceSnapshot_def)
next
  case (set_status env e st)
  then show ?case by (simp add: SetProviderStatus_def SetProvider_keeps)
next
  case (sweep env e now)
  then show ?case by (simp add: sweepPending_keeps)
next
  case (subscribe e now)
  obtain res e' where r: "Subscribe now e = (res, e')" by fastforce
  have "stream_inv e" using subscribe by (simp add: engine_inv_def inv_but_def)
  from stream_inv_subscribe [OF this r] have "stream_inv (snd (Subscribe now e))" by (simp add: r)
  then show ?case by (rule engine_inv_stream [OF subscribe]) simp_all
next
  case (cancel e i)
  then have "stream_inv (Engine.cancel i e)"
    by (intro stream_inv_cancel) (simp add: engine_inv_def inv_but_def)
  then show ?case
    by (rule engine_inv_stream [OF cancel]) (auto simp: cancel_def close_chan_def split: option.splits)
next
  case (receive r e)
  then have "stream_inv (snd (Engine.receive r e))"
    by (intro stream_inv_receive) (simp_all add: engine_inv_def inv_but_def)
  then show ?case
    by (rule engine_inv_stream [OF receive(2)]) (auto simp: receive_def split: list.splits)
next
  case (stop e)
  have "stream_inv (Stop e)" using stop by (simp add: Stop_def engine_inv_def inv_but_def)
  then show ?case by (rule engine_inv_stream [OF stop]) (simp_all add: Stop_def)
qed

lemma engine_reach_inv: "engine_reach e \<Longrightarrow> engine_inv e"
proof (induction rule: engine_reach.induct)
  case (start raw l e)
  then show ?case by (rule New_inv)
next
  case (step e e')
  then show ?case by (blast intro: engine_step_keeps)
qed

end
