(* ===== verification/Engine_History.thy ===== *)
theory Engine_History
  imports Engine_Reach
begin

text \<open>
  Runs of the engine only ever extend its history: the log grows at its end, channels are never
  reused and never registered again, and the life-cycle parameters stay what \<^verbatim>\<open>New\<close> made them.  This is what makes a snapshot
  taken at subscription time and the stream that follows it fit together.
\<close>

section \<open>Definitions\<close>

definition ext :: "Engine \<Rightarrow> Engine \<Rightarrow> bool" where
  "ext e e' \<longleftrightarrow> prefix (e_log e) (e_log e') \<and> length (e_heap e) \<le> length (e_heap e') \<and>
     (\<forall>r < length (e_heap e). ch_opened (e_heap e' ! r) = ch_opened (e_heap e ! r)) \<and>
     (\<forall>s \<in> set (e_subscribers e'). snd s < length (e_heap e) \<longrightarrow> s \<in> set (e_subscribers e)) \<and>
     e_epoch e' = e_epoch e \<and> e_limits e' = e_limits e \<and> e_reconnectGrace e' = e_reconnectGrace e"

section \<open>Elementary extensions\<close>

lemma ext_refl [simp]: "ext e e"
  by (simp add: ext_def)

lemma ext_trans: "ext e e' \<Longrightarrow> ext e' e'' \<Longrightarrow> ext e e''"
  by (auto simp: ext_def dest: order_less_le_trans prefix_order.order_trans)

lemma ext_core [simp]:
  "ext e0 (e\<lparr>e_clients := x\<rparr>) = ext e0 e"
  "ext e0 (e\<lparr>e_pending := y\<rparr>) = ext e0 e"
  "ext e0 (e\<lparr>e_providers := z\<rparr>) = ext e0 e"
  "ext e0 (e\<lparr>e_reconciliations := n\<rparr>) = ext e0 e"
  "ext e0 (e\<lparr>e_dropped := u\<rparr>) = ext e0 e"
  "ext e0 (e\<lparr>e_nextSub := u\<rparr>) = ext e0 e"
  "ext e0 (e\<lparr>e_sequence := u\<rparr>) = ext e0 e"
  "ext e0 (e\<lparr>e_panicked := b\<rparr>) = ext e0 e"
  "ext e0 (e\<lparr>e_stopOnce := b\<rparr>) = ext e0 e"
  "ext e0 (e\<lparr>e_stopSweeper := w\<rparr>) = ext e0 e"
  by (simp_all add: ext_def)

lemma ext_set_chan:
  "ext e0 e \<Longrightarrow> ch_opened ch = ch_opened (e_heap e ! r) \<Longrightarrow> ext e0 (e\<lparr>e_heap := (e_heap e)[r := ch]\<rparr>)"
proof -
  assume a: "ext e0 e" and o: "ch_opened ch = ch_opened (e_heap e ! r)"
  have "ch_opened ((e_heap e)[r := ch] ! q) = ch_opened (e_heap e ! q)" if "q < length (e_heap e)" for q
    using that o by (cases "q = r") simp_all
  then show ?thesis using a by (simp add: ext_def)
qed

lemma ext_close: "ext e0 e \<Longrightarrow> ext e0 (close_chan r e)"
  by (simp add: close_chan_def ext_set_chan)

lemma ext_delete: "ext e0 e \<Longrightarrow> ext e0 (e\<lparr>e_subscribers := AList.delete i (e_subscribers e)\<rparr>)"
  by (auto simp: ext_def mem_delete)

lemma ext_deliver: "ext e0 e \<Longrightarrow> ext e0 (deliver ev s e)"
  by (auto simp: deliver_def chan_send_def intro!: ext_set_chan ext_close ext_delete split: prod.split)

lemma ext_emit: "ext e0 e \<Longrightarrow> ext e0 (emitLocked env kind reason d e)"
proof -
  assume "ext e0 e"
  then have "ext e0 (e\<lparr>e_sequence := e_sequence e + 1, e_log := e_log e @ [ev]\<rparr>)" for ev
    by (auto simp: ext_def)
  then show ?thesis
    unfolding emitLocked_def Let_def
    by (intro fold_invariant [where P = "ext e0"]) (simp_all add: ext_deliver)
qed

lemma ext_pend: "ext e0 e \<Longrightarrow> ext e0 (ensurePendingLocked k p s at e)"
  by (simp add: ensurePendingLocked_def split: option.split)

section \<open>Operations\<close>

lemma ext_drop: "ext e0 e \<Longrightarrow> ext e0 (dropConnection env cid c i at reason e)"
  by (simp add: dropConnection_def Let_def ext_emit)

lemma ext_evict: "ext e0 e \<Longrightarrow> ext e0 (snd (evictOldestNonPresentLocked env ex e))"
  by (auto simp: evictOldestNonPresentLocked_def ext_emit split: option.split)

lemma ext_associate: "ext e0 e \<Longrightarrow> ext e0 (associate_client env provider source cid at reason c e)"
  by (simp add: associate_client_def Let_def ext_emit)

lemma ext_Associate: "ext e0 e \<Longrightarrow> ext e0 (snd (Associate env provider source cid at reason e))"
  using ext_evict [of e0 e env "[]"]
  by (auto simp: Associate_def ext_associate split: option.split prod.split bool.split)

lemma ext_Disassociate: "ext e0 e \<Longrightarrow> ext e0 (Disassociate env provider source cid at reason e)"
  by (simp add: Disassociate_def Let_def ext_pend ext_drop split: option.split)

lemma ext_sweep: "ext e0 e \<Longrightarrow> ext e0 (sweepPending env now e)"
  unfolding sweepPending_def
  by (rule fold_invariant)
     (auto simp: sweep_one_def applyPendingDepartureLocked_def Let_def ext_drop split: option.split)

lemma ext_SetProvider: "ext e0 e \<Longrightarrow> ext e0 (SetProvider env p e)"
proof -
  assume "ext e0 e"
  moreover have "ext e0 x \<Longrightarrow> ext e0 (stale_one env q k x)" for q k x
    by (auto simp: stale_one_def Let_def ext_emit split: option.split)
  then have "ext e0 x \<Longrightarrow> ext e0 (fold (stale_one env q) ks x)" for q ks x
    by (rule_tac fold_invariant) simp_all
  ultimately show ?thesis by (simp add: SetProvider_def Let_def ext_emit)
qed

lemma ext_evict_loop:
  assumes "good_env env" and "engine_inv e" and "ext e0 e"
    and "evict_loop env ex n e = Some (ok, e')"
  shows "ext e0 e'"
proof -
  have "inv_but {} {} e" using assms(2) by (simp add: engine_inv_def)
  from evict_loop_returns [OF assms(1) this, of "ext e0" ex n] assms(3,4) ext_evict [of e0 _ env ex]
  show ?thesis by (metis Pair_inject option.inject snd_conv)
qed

lemma ext_pair_fold:
  assumes "\<And>x s. ext e0 (fst s) \<Longrightarrow> ext e0 (fst (f x s))" and "ext e0 (fst s)"
  shows "ext e0 (fst (fold f xs s))"
  using assms by (rule_tac fold_invariant [where P = "\<lambda>s. ext e0 (fst s)"]) auto

lemma ext_scan_conn: "ext e0 (fst s) \<Longrightarrow> ext e0 (fst (scan_conn provider w at cid i s))"
  by (cases s) (auto simp: scan_conn_def ext_pend split: option.split)

lemma ext_reconcile_apply:
  assumes "ext e0 e"
  shows "ext e0 (reconcile_apply env provider wanted at e)"
proof -
  have 1: "ext e0 (fst (reconcile_scan env provider wanted at cid s))" if "ext e0 (fst s)" for cid s
    using that by (auto simp: reconcile_scan_def intro: ext_pair_fold ext_scan_conn split: option.split)
  have 2: "ext e0 (fst (reconcile_want provider at w s))" if "ext e0 (fst s)" for w s
    using that by (cases w; cases s) (auto simp: reconcile_want_def Let_def split: prod.split)
  have 3: "ext e0 (fold (reconcile_publish env ch at) ks e1)" if "ext e0 e1" for ch ks e1
    using that by (rule fold_invariant)
      (auto simp: reconcile_publish_def Let_def ext_emit split: option.split)
  let ?s = "fold (reconcile_want provider at) wanted
    (fold (reconcile_scan env provider wanted at) (map fst (e_clients e))
      (e\<lparr>e_reconciliations := e_reconciliations e + 1\<rparr>, []))"
  have "ext e0 (fst ?s)" by (intro ext_pair_fold) (simp_all add: 1 2 assms)
  then show ?thesis
    by (cases ?s) (simp add: reconcile_apply_def Let_def ext_emit 3)
qed

lemma ext_source_apply:
  assumes "ext e0 e"
  shows "ext e0 (source_apply env provider source wanted at e)"
proof -
  have 1: "ext e0 (fst (source_scan provider source wanted at cid s))" if "ext e0 (fst s)" for cid s
    using that by (cases s) (auto simp: source_scan_def Let_def ext_pend split: option.split)
  have 2: "ext e0 (fst (source_want provider source at cid s))" if "ext e0 (fst s)" for cid s
    using that by (cases s) (auto simp: source_want_def Let_def split: option.split)
  have 3: "ext e0 (fold (source_publish env at) ks e1)" if "ext e0 e1" for ks e1
    using that by (rule fold_invariant)
      (auto simp: source_publish_def Let_def ext_emit split: option.split)
  let ?s = "fold (source_want provider source at) wanted
    (fold (source_scan provider source wanted at) (map fst (e_clients e)) (e, []))"
  have "ext e0 (fst ?s)" by (intro ext_pair_fold) (simp_all add: 1 2 assms)
  then show ?thesis by (cases ?s) (simp add: source_apply_def Let_def ext_emit 3)
qed

lemma engine_step_ext:
  assumes "engine_step e e'" and "engine_inv e"
  shows "ext e e'"
  using assms
proof (induction rule: engine_step.induct)
  case (apply_obs env e v)
  then show ?case by (cases "ob_Kind v") (simp_all add: Apply_def ext_Associate ext_Disassociate)
next
  case (apply_snapshot env s e err e')
  then show ?case
    by (auto simp: ApplySnapshot_def Reconcile_def Let_def
        split: option.splits prod.splits bool.splits intro!: ext_reconcile_apply intro: ext_evict_loop)
next
  case (apply_source env ss e err e')
  then show ?case
    by (auto simp: ApplySourceSnapshot_def ReconcileSource_def Let_def
        split: option.splits prod.splits bool.splits intro!: ext_source_apply intro: ext_evict_loop)
next
  case (subscribe e now)
  have "s \<in> set (AList.update i r m) \<Longrightarrow> s = (i, r) \<or> s \<in> set m" for s i r and m :: "(uint64 \<times> nat) list"
    by (induction m) (auto split: if_splits)
  from this [of _ "e_nextSub e" "length (e_heap e)" "e_subscribers e"]
  show ?case by (fastforce simp: Subscribe_def Let_def ext_def nth_append split: if_splits)
next
  case (receive r e)
  then show ?case by (auto simp: receive_def intro!: ext_set_chan split: list.split)
qed (simp_all add: SetProviderStatus_def ext_SetProvider ext_sweep cancel_def ext_close ext_delete Stop_def
    split: option.split)

lemma engine_steps:
  assumes "engine_step\<^sup>*\<^sup>* e e'" and "engine_inv e"
  shows "engine_inv e' \<and> ext e e'"
  using assms(1)
proof (induction rule: rtranclp_induct)
  case base
  with assms(2) show ?case by simp
next
  case (step y z)
  then show ?case by (blast intro: engine_step_keeps engine_step_ext ext_trans)
qed

end
