(* ===== verification/Engine_Props.thy ===== *)
theory Engine_Props
  imports Engine_History
begin

text \<open>
  What the engine promises in every state it can reach: it does not panic, a client is \<^verbatim>\<open>present\<close>
  exactly while a provider vouches for it, the configured limits hold, and a consumer that follows
  the stream from a snapshot has the engine's own view.  The definitions at the start are the
  concrete runs on which the theorems are evaluated.
\<close>

section \<open>Concrete runs\<close>

definition demo_env :: Env where
  "demo_env = \<lparr>env_order = \<lambda>_ ks. ks, env_subs = \<lambda>_ ss. ss, env_clock = \<lambda>q. 1000 + uint q\<rparr>"

definition demo_limits :: "duration \<Rightarrow> Limits" where
  "demo_limits g = \<lparr>MaxClients = 2, MaxSubscribers = 1, QueueSize = 2, ReconnectGrace = g\<rparr>"

definition demo_engine :: "duration \<Rightarrow> Engine" where
  "demo_engine g = (case New (Some (\<lambda>_. 0xab)) (demo_limits g) of Inr e \<Rightarrow> e | Inl _ \<Rightarrow> undefined)"

definition demo_obs :: "Kind \<Rightarrow> string \<Rightarrow> string \<Rightarrow> time \<Rightarrow> Observation" where
  "demo_obs k s c t = \<lparr>ob_Provider = ''ubus'', ob_SourceInstance = s, ob_ObservedAt = None,
     ob_ReceivedAt = t, ob_ClientID = c, ob_Kind = k, ob_Confidence = Authoritative\<rparr>"

definition demo_status :: "string \<Rightarrow> ProviderStatus" where
  "demo_status s = \<lparr>ps_ID = ''ubus'', ps_Kind = ''wifi'', ps_Status = s, ps_SnapshotSupported = True,
     ps_Sources = [''w0''], ps_LastSnapshotAt = 1, ps_LastEventAt = 0, ps_LastError = '''',
     ps_SnapshotSource = ''hostapd'', ps_EventSource = ''ubus''\<rparr>"

text \<open>A ready Wi-Fi provider and one station associated with it.\<close>

definition demo_present :: "duration \<Rightarrow> Engine" where
  "demo_present g = snd (Apply demo_env (demo_obs WiFiAssociated ''w0'' ''m'' 5)
     (SetProviderStatus demo_env (demo_status ''ready'') (demo_engine g)))"

text \<open>A consumer subscribes, then a second station arrives.\<close>

definition demo_stream :: Engine where
  "demo_stream = snd (Subscribe 6 (demo_present 0))"

definition demo_streamed :: Engine where
  "demo_streamed = snd (Apply demo_env (demo_obs WiFiAssociated ''w0'' ''n'' 7) demo_stream)"

section \<open>Lemmas\<close>

lemma demo_env_good [simp]: "good_env demo_env"
  by (simp add: good_env_def demo_env_def)

lemma demo_engine_reach: "engine_reach (demo_engine g)"
  by (rule engine_reach.start [of "Some (\<lambda>_. 0xab)" "demo_limits g"])
     (simp add: demo_engine_def New_def demo_limits_def Let_def)

lemma demo_present_reach: "engine_reach (demo_present g)"
  unfolding demo_present_def
  by (intro engine_reach.step [OF engine_reach.step [OF demo_engine_reach engine_step.set_status]
        engine_step.apply_obs]) simp_all

lemma demo_streamed_steps: "engine_step\<^sup>*\<^sup>* demo_stream demo_streamed"
  unfolding demo_streamed_def by (intro r_into_rtranclp engine_step.apply_obs) simp

lemma demo_streamed_reach: "engine_reach demo_streamed"
  unfolding demo_streamed_def demo_stream_def
  by (intro engine_reach.step [OF engine_reach.step [OF demo_present_reach engine_step.subscribe]
        engine_step.apply_obs]) simp

lemma engine_steps_reach: "engine_step\<^sup>*\<^sup>* e e' \<Longrightarrow> engine_reach e \<Longrightarrow> engine_reach e'"
  by (induction rule: rtranclp_induct) (auto intro: engine_reach.step)

lemma engine_reachD:
  assumes "engine_reach e"
  shows "stream_inv e" and "clients_wf e" and "pend_ok e" and "within_limit e"
    and "map_of (e_clients e) k = Some c \<Longrightarrow> state_ok c"
    and "map_of (e_clients e) k = Some c \<Longrightarrow> wf_client k c"
    and "replay (e_log e) = engine_view e"
  using engine_reach_inv [OF assms] by (auto simp: engine_inv_def inv_but_def clients_wf_def)

section \<open>Safety and invariants\<close>

text \<open>C3. No reachable engine has panicked: it never sends on, or closes, a closed channel.\<close>

theorem engine_never_panics:
  assumes "engine_reach e"
  shows "\<not> e_panicked e"
  using engine_reachD(1) [OF assms] by (simp add: stream_inv_def)

theorem engine_never_panics_witness: "\<not> e_panicked demo_streamed"
  by (rule engine_never_panics [OF demo_streamed_reach])

text \<open>
  C2. In every reachable state a client is \<^verbatim>\<open>present\<close> exactly when one of its connections is not stale,
  \<^verbatim>\<open>unknown\<close> whenever it only has stale connections, and \<^verbatim>\<open>absent\<close> only with no connection at all.
\<close>

theorem client_state_sound:
  assumes "engine_reach e" and "map_of (e_clients e) k = Some c"
  shows "(c_State c = StatePresent \<longleftrightarrow> (\<exists>(i, n) \<in> set (c_Connections c). \<not> conn_Stale n)) \<and>
    (c_Connections c \<noteq> [] \<and> c_State c \<noteq> StatePresent \<longrightarrow> c_State c = StateUnknown) \<and>
    (c_State c = StateAbsent \<longrightarrow> c_Connections c = []) \<and> c_State c \<noteq> StateZero"
  using engine_reachD(5) [OF assms] by (auto simp: state_ok_def live_def split: if_splits)

definition demo_m :: client where
  "demo_m = the (map_of (e_clients demo_streamed) ''m'')"

theorem client_state_sound_witness:
  "c_State demo_m = StatePresent \<and> (\<exists>(i, n) \<in> set (c_Connections demo_m). \<not> conn_Stale n)"
proof -
  have m: "map_of (e_clients demo_streamed) ''m'' = Some demo_m" by code_simp
  have "c_State demo_m = StatePresent" by code_simp
  with client_state_sound [OF demo_streamed_reach m] show ?thesis by simp
qed

text \<open>
  C4. The limits of the configuration hold in every reachable state: clients, subscribers and the
  queue of every stream, and no pending departure exists without a client.
\<close>

theorem engine_limits:
  assumes "engine_reach e"
  shows "int (length (e_clients e)) \<le> MaxClients (e_limits e) \<and>
    int (length (e_subscribers e)) \<le> MaxSubscribers (e_limits e) \<and>
    (\<forall>ch \<in> set (e_heap e). length (ch_buf ch) \<le> nat (QueueSize (e_limits e))) \<and>
    length (e_pending e) \<le> length (e_clients e)"
proof -
  have "length (e_pending e) \<le> length (e_clients e)"
  proof -
    have "card (keyset (e_pending e)) \<le> card (keyset (e_clients e))"
      using engine_reachD(3) [OF assms] by (intro card_mono) (auto simp: pend_ok_def)
    then show ?thesis
      using engine_reachD(2,3) [OF assms]
      by (metis clients_wf_def pend_ok_def length_keys)
  qed
  then show ?thesis
    using engine_reachD(1,4) [OF assms] by (auto simp: stream_inv_def within_limit_def chan_ok_def)
qed

theorem engine_limits_witness:
  "length (e_clients demo_streamed) = 2 \<and> int (length (e_clients demo_streamed)) \<le> 2"
proof -
  have "MaxClients (e_limits demo_streamed) = 2" and "length (e_clients demo_streamed) = 2"
    by code_simp+
  with engine_limits [OF demo_streamed_reach] show ?thesis by simp
qed

section \<open>The stream\<close>

text \<open>
  C1. Snapshot and stream fit together: for a subscriber that is still registered, applying the
  events it has been handed or has queued to the snapshot it got from \<^verbatim>\<open>Subscribe\<close> gives the
  engine's current view of every client, and those events carry the sequence numbers that follow the
  snapshot's without a gap.
\<close>

theorem stream_rebuilds_engine:
  assumes "engine_reach e0" and "Subscribe now e0 = (Inr (snap, i, r), e1)"
    and "engine_step\<^sup>*\<^sup>* e1 e" and "r \<in> snd ` set (e_subscribers e)"
  shows "fold consume (chan_stream (e_heap e ! r)) (snapshot_view snap) = engine_view e \<and>
    map ev_Sequence (chan_stream (e_heap e ! r)) =
      map (\<lambda>n. snap_Sequence snap + of_nat (Suc n)) [0..<length (chan_stream (e_heap e ! r))]"
proof -
  have inv1: "engine_inv e1"
    using engine_reach_inv [OF engine_reach.step [OF assms(1) engine_step.subscribe [of e0 now]]]
    by (simp add: assms(2))
  have r: "r = length (e_heap e0)" and q: "snap_Sequence snap = e_sequence e0"
    and snap: "snapshot_view snap = snapshot_view (snapshotLocked now e1)"
    and log1: "e_log e1 = e_log e0" and heap1: "length (e_heap e1) = Suc r"
    and opened1: "ch_opened (e_heap e1 ! r) = length (e_log e0)"
    using assms(2) by (auto simp: Subscribe_def Let_def snapshotLocked_def chan_make_def split: if_splits)
  from engine_steps [OF assms(3) inv1] have inv: "engine_inv e" and x: "ext e1 e" by auto
  let ?n = "length (e_log e0)"
  have "sub_ok e r" using inv assms(4) by (auto simp: engine_inv_def inv_but_def stream_inv_def)
  moreover have "ch_opened (e_heap e ! r) = ?n" using x heap1 opened1 by (simp add: ext_def)
  ultimately have stream: "chan_stream (e_heap e ! r) = drop ?n (e_log e)"
    by (simp add: sub_ok_def)
  have log: "e_log e = e_log e0 @ drop ?n (e_log e)"
    using x log1 by (auto simp: ext_def prefix_def)
  have view1: "snapshot_view snap = replay (e_log e0)"
    using inv1 log1 unfolding snap
    by (subst snapshot_view_engine) (auto simp: engine_inv_def inv_but_def clients_wf_def wf_client_def)
  have "replay (e_log e) = fold consume (drop ?n (e_log e)) (replay (e_log e0))"
    by (subst log) (simp add: replay_def)
  then have view: "fold consume (drop ?n (e_log e)) (snapshot_view snap) = engine_view e"
    using inv view1 by (auto simp: engine_inv_def inv_but_def)
  have ok: "log_ok e" and ok0: "log_ok e0"
    using inv engine_reachD(1) [OF assms(1)] by (auto simp: engine_inv_def inv_but_def stream_inv_def)
  have "map ev_Sequence (drop ?n (e_log e)) =
      map (\<lambda>n. snap_Sequence snap + of_nat (Suc n)) [0..<length (drop ?n (e_log e))]"
    using ok ok0 by (intro nth_equalityI) (auto simp: log_ok_def q algebra_simps)
  then show ?thesis using view by (simp add: stream)
qed

theorem stream_rebuilds_engine_witness:
  "fold consume (chan_stream (e_heap demo_streamed ! 0)) (snapshot_view (snapshotLocked 6 (demo_present 0)))
     = engine_view demo_streamed \<and>
   map ev_Sequence (chan_stream (e_heap demo_streamed ! 0)) = [3]"
proof -
  have s: "Subscribe 6 (demo_present 0) = (Inr (snapshotLocked 6 demo_stream, 0, 0), demo_stream)"
    by code_simp
  have r: "(0::nat) \<in> snd ` set (e_subscribers demo_streamed)" by code_simp
  have "snapshotLocked 6 demo_stream = snapshotLocked 6 (demo_present 0)"
    and "map ev_Sequence (chan_stream (e_heap demo_streamed ! 0)) = [3]" by code_simp+
  with stream_rebuilds_engine [OF demo_present_reach s demo_streamed_steps r] show ?thesis by simp
qed

text \<open>
  What a consumer reads is never reordered, duplicated or skipped: the events received from and
  queued on any channel the engine ever made, open or closed, form a contiguous segment of the
  engine's log that starts where the channel was made.
\<close>

theorem stream_is_contiguous:
  assumes "engine_reach e" and "r < length (e_heap e)"
  shows "\<exists>rest. e_log e = take (ch_opened (e_heap e ! r)) (e_log e) @
    ch_taken (e_heap e ! r) @ ch_buf (e_heap e ! r) @ rest"
proof -
  have "chan_ok (nat (QueueSize (e_limits e))) (e_log e) (e_heap e ! r)"
    using engine_reachD(1) [OF assms(1)] nth_mem [OF assms(2)] by (auto simp: stream_inv_def)
  then obtain rest where
    "drop (ch_opened (e_heap e ! r)) (e_log e) = chan_stream (e_heap e ! r) @ rest"
    by (auto simp: chan_ok_def prefix_def)
  then have "e_log e = take (ch_opened (e_heap e ! r)) (e_log e) @
    ch_taken (e_heap e ! r) @ ch_buf (e_heap e ! r) @ rest"
    by (metis append_take_drop_id append_assoc chan_stream_def)
  then show ?thesis by blast
qed

theorem stream_is_contiguous_witness:
  "\<exists>rest. e_log demo_streamed = take 2 (e_log demo_streamed) @
     ch_taken (e_heap demo_streamed ! 0) @ ch_buf (e_heap demo_streamed ! 0) @ rest"
proof -
  have "0 < length (e_heap demo_streamed)" and "ch_opened (e_heap demo_streamed ! 0) = 2"
    by code_simp+
  with stream_is_contiguous [OF demo_streamed_reach, of 0] show ?thesis by simp
qed

end
