(* ===== verification/Engine_Behaviour.thy ===== *)
theory Engine_Behaviour
  imports Engine_Props
begin

text \<open>
  What each single operation of the engine does, on every branch: delivery and the dropping of slow
  consumers, the choice of the client to evict, and arrivals.  Departures are in
  \<^verbatim>\<open>Engine_Departures\<close>.
\<close>

section \<open>Definitions\<close>

text \<open>The connections of client \<open>k\<close>; a client that is not known has none.\<close>

definition conns :: "Engine \<Rightarrow> string \<Rightarrow> string \<Rightarrow> Connection option" where
  "conns e k i = (case map_of (e_clients e) k of None \<Rightarrow> None | Some c \<Rightarrow> map_of (c_Connections c) i)"

section \<open>Delivery\<close>

lemma fold_deliver_dropped:
  assumes "distinct (map snd xs)"
    and "\<forall>(i, r) \<in> set xs. r < length (e_heap e) \<and> \<not> ch_closed (e_heap e ! r)"
  shows "e_dropped (fold (deliver ev) xs e) =
    e_dropped e + of_nat (length (filter (\<lambda>(_, r). full (e_heap e ! r)) xs))"
  using assms
proof (induction xs arbitrary: e)
  case Nil
  then show ?case by simp
next
  case (Cons x xs)
  obtain i r where x: "x = (i, r)" by fastforce
  define e1 where "e1 = deliver ev (i, r) e"
  have r: "r < length (e_heap e)" "\<not> ch_closed (e_heap e ! r)" using Cons.prems(2) x by auto
  note d = deliver_open [OF r(2), of ev i, folded e1_def]
  have fresh: "r \<notin> snd ` set xs" using Cons.prems(1) x by simp
  have other: "e_heap e1 ! r' = e_heap e ! r'" if "(j, r') \<in> set xs" for j r'
    using that fresh by (cases "r = r'") (force simp: image_iff, simp add: d(1))
  have hyp: "\<forall>(j, r') \<in> set xs. r' < length (e_heap e1) \<and> \<not> ch_closed (e_heap e1 ! r')"
    using Cons.prems(2) other by (force simp: d(1))
  have "filter (\<lambda>(_, r). full (e_heap e1 ! r)) xs = filter (\<lambda>(_, r). full (e_heap e ! r)) xs"
    using other by (auto intro!: filter_cong)
  then have "e_dropped (fold (deliver ev) xs e1) =
      e_dropped e1 + of_nat (length (filter (\<lambda>(_, r). full (e_heap e ! r)) xs))"
    using Cons.IH [OF _ hyp] Cons.prems(1) by simp
  moreover have "e_dropped e1 = e_dropped e + (if full (e_heap e ! r) then 1 else 0)"
    using r(2) by (simp add: e1_def deliver_def chan_send_def close_chan_def full_def)
  ultimately show ?case by (simp add: x e1_def [symmetric])
qed

lemma emit_dropped:
  assumes "good_env env" and "stream_inv e"
  shows "e_dropped (emitLocked env kind reason d e) =
    e_dropped e + of_nat (length (filter (\<lambda>(_, r). full (e_heap e ! r)) (e_subscribers e)))"
proof -
  let ?xs = "env_subs env (e_sequence e + 1) (e_subscribers e)"
  define ev where "ev = mk_event env kind reason d (e\<lparr>e_sequence := e_sequence e + 1\<rparr>)"
  let ?e1 = "e\<lparr>e_sequence := e_sequence e + 1, e_log := e_log e @ [ev]\<rparr>"
  note p = emit_subs_perm [OF assms, of "e_sequence e + 1"]
  have ok: "\<forall>(i, r) \<in> set ?xs. r < length (e_heap ?e1) \<and> \<not> ch_closed (e_heap ?e1 ! r)"
    using assms(2) by (force simp: p(1) stream_inv_def sub_ok_def)
  have "mset ?xs = mset (e_subscribers e)" using assms(1) by (simp add: good_env_def)
  then have "length (filter P ?xs) = length (filter P (e_subscribers e))" for P
    by (metis mset_filter size_mset)
  then show ?thesis
    using fold_deliver_dropped [OF p(2) ok, of ev] by (simp add: emitLocked_def Let_def ev_def)
qed

text \<open>
  C5. One event reaches every subscriber whose queue has room, and the emitter never waits: a
  subscriber whose queue is full is removed, its channel is closed with its queue left as it was, and
  the counter of dropped stream clients goes up by the number of those removed.
\<close>

theorem slow_consumers_dropped:
  assumes "good_env env" and "engine_reach e" and "e' = emitLocked env kind reason d e"
    and "ev = mk_event env kind reason d (e\<lparr>e_sequence := e_sequence e + 1\<rparr>)"
  shows "(\<forall>(i, r) \<in> set (e_subscribers e).
      if length (ch_buf (e_heap e ! r)) < ch_cap (e_heap e ! r)
      then (i, r) \<in> set (e_subscribers e') \<and>
           e_heap e' ! r = (e_heap e ! r)\<lparr>ch_buf := ch_buf (e_heap e ! r) @ [ev]\<rparr>
      else (i, r) \<notin> set (e_subscribers e') \<and>
           e_heap e' ! r = (e_heap e ! r)\<lparr>ch_closed := True\<rparr>) \<and>
    e_dropped e' = e_dropped e + of_nat (length (e_subscribers e) - length (e_subscribers e'))"
proof -
  have inv: "stream_inv e" by (rule engine_reachD(1) [OF assms(2)])
  note eff = emit_effect [OF assms(1) inv, where kind = kind and reason = reason and d = d,
      folded assms(3,4)]
  have "length (filter (\<lambda>(_, r). full (e_heap e ! r)) (e_subscribers e)) =
      length (e_subscribers e) - length (e_subscribers e')"
    using sum_length_filter_compl [of "\<lambda>(_, r). full (e_heap e ! r)" "e_subscribers e"]
    by (simp add: eff(3) case_prod_unfold)
  then have "e_dropped e' = e_dropped e + of_nat (length (e_subscribers e) - length (e_subscribers e'))"
    using emit_dropped [OF assms(1) inv, of kind reason d] by (simp add: assms(3))
  moreover have "r < length (e_heap e)" if "(i, r) \<in> set (e_subscribers e)" for i r
    using stream_invD(3) [OF inv] that by (force simp: sub_ok_def)
  ultimately show ?thesis
    by (force simp: eff(2,3) push_def full_def)
qed

text \<open>Two events fill the queue of the only subscriber; the third finds it full.\<close>

definition demo_full :: Engine where
  "demo_full = snd (Apply demo_env (demo_obs WiFiAssociated ''w1'' ''n'' 8) demo_streamed)"

theorem slow_consumers_dropped_witness:
  "(\<lambda>e'. (0, 0) \<notin> set (e_subscribers e') \<and> ch_closed (e_heap e' ! 0) \<and> e_dropped e' = 1)
     (emitLocked demo_env ''x'' ''y'' (MapData []) demo_full)"
proof -
  have reach: "engine_reach demo_full"
    unfolding demo_full_def by (intro engine_reach.step [OF demo_streamed_reach engine_step.apply_obs]) simp
  have subs: "e_subscribers demo_full = [(0, 0)]" "e_dropped demo_full = 0"
    and full: "\<not> length (ch_buf (e_heap demo_full ! 0)) < ch_cap (e_heap demo_full ! 0)"
    and after: "e_subscribers (emitLocked demo_env ''x'' ''y'' (MapData []) demo_full) = []"
    by code_simp+
  from slow_consumers_dropped [OF demo_env_good reach refl refl, of "''x''" "''y''" "MapData []"]
  show ?thesis by (simp add: subs full after)
qed

section \<open>Eviction\<close>

lemma evict_rank_state:
  assumes "state_ok c"
  shows "evict_rank c = (case c_State c of StateAbsent \<Rightarrow> Some 1 | StateUnknown \<Rightarrow> Some 2 | _ \<Rightarrow> None)"
  using assms by (auto simp: evict_rank_def state_ok_def reducedState_eq split: if_splits PresenceState.splits)

lemma evictable_reach:
  assumes "engine_inv e"
  shows "(\<exists>r. evictable e ex k c r) \<longleftrightarrow>
    map_of (e_clients e) k = Some c \<and> k \<notin> set ex \<and> c_State c \<noteq> StatePresent"
proof -
  have "state_ok c" if "map_of (e_clients e) k = Some c"
    using assms that by (auto simp: engine_inv_def inv_but_def)
  then show ?thesis
    by (auto simp: evictable_def evict_rank_state state_ok_def split: PresenceState.splits if_splits)
qed

text \<open>
  C6. The eviction fails only when every client outside the excluded ones is present; otherwise it
  removes exactly one client, never a present or an excluded one, an absent client before an unknown
  one and, among clients of one state, one that was seen least recently, and it announces the removal.
\<close>

theorem evicts_least_wanted:
  assumes "good_env env" and "engine_reach e"
    and "evictOldestNonPresentLocked env ex e = (ok, e')"
  shows "if ok then (\<exists>k c. map_of (e_clients e) k = Some c \<and> k \<notin> set ex \<and> c_State c \<noteq> StatePresent \<and>
      map_of (e_clients e') = (map_of (e_clients e))(k := None) \<and>
      map_of (e_pending e') = (map_of (e_pending e))(k := None) \<and>
      (\<exists>ev. e_log e' = e_log e @ [ev] \<and> ev_Type ev = ''client.removed'' \<and>
            ev_Data ev = ClientData (publicClientLocked c)) \<and>
      (\<forall>k' c'. map_of (e_clients e) k' = Some c' \<and> k' \<notin> set ex \<and> c_State c' \<noteq> StatePresent \<longrightarrow>
         (c_State c = StateAbsent \<or> c_State c' = StateUnknown) \<and>
         (c_State c = c_State c' \<longrightarrow> c_LastSeenAt c \<le> c_LastSeenAt c')))
    else e' = e \<and> (\<forall>k c. map_of (e_clients e) k = Some c \<and> k \<notin> set ex \<longrightarrow> c_State c = StatePresent)"
proof (cases ok)
  case False
  with assms(3) have ev: "evictOldestNonPresentLocked env ex e = (False, e')" by simp
  have "\<not> evictable e ex k c r" for k c r by (rule evict_False(2) [OF assms(1) ev])
  then show ?thesis
    using False evict_False(1) [OF assms(1) ev] evictable_reach [OF engine_reach_inv [OF assms(2)]]
    by (metis (full_types))
next
  case True
  with assms(3) have ev: "evictOldestNonPresentLocked env ex e = (True, e')" by simp
  have inv: "engine_inv e" by (rule engine_reach_inv [OF assms(2)])
  obtain k c r where v: "evictable e ex k c r"
    and least: "\<And>k' c' r'. evictable e ex k' c' r' \<Longrightarrow> evict_before (c, r) (c', r')"
    and e': "e' = emitLocked env ''client.removed'' ''retention_limit'' (ClientData (publicClientLocked c))
         (e\<lparr>e_clients := AList.delete k (e_clients e), e_pending := AList.delete k (e_pending e)\<rparr>)"
    using evict_True [OF assms(1) engine_reachD(2) [OF assms(2)] ev] by blast
  have rank: "evict_rank c' = (case c_State c' of StateAbsent \<Rightarrow> Some 1 | StateUnknown \<Rightarrow> Some 2 | _ \<Rightarrow> None)"
    if "map_of (e_clients e) k' = Some c'" for k' c'
    using evict_rank_state engine_reachD(5) [OF assms(2) that] by blast
  have min: "(c_State c = StateAbsent \<or> c_State c' = StateUnknown) \<and>
      (c_State c = c_State c' \<longrightarrow> c_LastSeenAt c \<le> c_LastSeenAt c')"
    if "map_of (e_clients e) k' = Some c'" "k' \<notin> set ex" "c_State c' \<noteq> StatePresent" for k' c'
  proof -
    have "\<exists>r'. evictable e ex k' c' r'" by (rule evictable_reach [OF inv, THEN iffD2]) (simp add: that)
    then obtain r' where v': "evictable e ex k' c' r'" ..
    show ?thesis
      using least [OF v'] v v' rank [of k' c'] rank [of k c]
      by (auto simp: evictable_def evict_before_def split: PresenceState.splits)
  qed
  have "map_of (e_clients e) k = Some c \<and> k \<notin> set ex \<and> c_State c \<noteq> StatePresent"
    by (rule evictable_reach [OF inv, THEN iffD1]) (use v in blast)
  moreover have "map_of (e_clients e') = (map_of (e_clients e))(k := None)"
    and "map_of (e_pending e') = (map_of (e_pending e))(k := None)" by (simp_all add: e')
  moreover have "\<exists>ev. e_log e' = e_log e @ [ev] \<and> ev_Type ev = ''client.removed'' \<and>
      ev_Data ev = ClientData (publicClientLocked c)"
    by (simp add: e' emitLocked_log mk_event_def)
  ultimately show ?thesis using True min by auto
qed

definition demo_gone :: Engine where
  "demo_gone = snd (Apply demo_env (demo_obs WiFiDisassociated ''w0'' ''m'' 9) (demo_present 0))"

theorem evicts_least_wanted_witness:
  "fst (evictOldestNonPresentLocked demo_env [] demo_gone) \<and>
   e_clients (snd (evictOldestNonPresentLocked demo_env [] demo_gone)) = []"
proof -
  have reach: "engine_reach demo_gone"
    unfolding demo_gone_def by (intro engine_reach.step [OF demo_present_reach engine_step.apply_obs]) simp
  obtain ok e' where o: "evictOldestNonPresentLocked demo_env [] demo_gone = (ok, e')" by fastforce
  have c: "map_of (e_clients demo_gone) ''m'' = Some (snd (e_clients demo_gone ! 0))"
    and s: "c_State (snd (e_clients demo_gone ! 0)) \<noteq> StatePresent"
    and k: "keyset (e_clients demo_gone) = {''m''}" by code_simp+
  note r = evicts_least_wanted [OF demo_env_good reach o]
  have ok using r c s by (auto split: if_splits)
  then obtain v w where v: "map_of (e_clients demo_gone) v = Some w"
    "map_of (e_clients e') = (map_of (e_clients demo_gone))(v := None)" using r by (simp only: if_True) blast
  have "v = ''m''" using map_of_mem_keys [OF v(1)] k by simp
  moreover have "dom (map_of (e_clients demo_gone)) = {''m''}" using k by (simp add: dom_map_of_conv_image_fst)
  ultimately have "dom (map_of (e_clients e')) = {}" by (simp add: v(2))
  then show ?thesis using \<open>ok\<close> o by simp
qed

section \<open>Arrivals\<close>

lemma associate_client_effect:
  assumes "i = connectionID provider source"
    and "e' = associate_client env provider source cid at reason c e"
  obtains c' n where "map_of (e_clients e') = (map_of (e_clients e))(cid \<mapsto> c')"
    and "map_of (e_pending e') = (map_of (e_pending e))(cid := None)"
    and "c_State c' = StatePresent" and "c_LastSeenAt c' = at" and "c_FirstSeenAt c' = c_FirstSeenAt c"
    and "map_of (c_Connections c') = (map_of (c_Connections c))(i \<mapsto> n)"
    and "\<not> conn_Stale n" and "conn_LastSeenAt n = at"
    and "conn_ConnectedAt n = (case map_of (c_Connections c) i of None \<Rightarrow> at | Some o' \<Rightarrow> conn_ConnectedAt o')"
proof -
  define n where "n = (case map_of (c_Connections c) i of Some o' \<Rightarrow> o' | None \<Rightarrow> new_conn provider source at 0)
    \<lparr>conn_LastSeenAt := at, conn_Stale := False\<rparr>"
  define c' where "c' = c\<lparr>c_Connections := AList.update i n (c_Connections c),
    c_State := StatePresent, c_LastSeenAt := at\<rparr>"
  show ?thesis
  proof (rule that)
    show "map_of (e_clients e') = (map_of (e_clients e))(cid \<mapsto> c')"
      and "map_of (e_pending e') = (map_of (e_pending e))(cid := None)"
      using assms by (simp_all add: associate_client_def Let_def c'_def n_def)
    show "conn_ConnectedAt n =
        (case map_of (c_Connections c) i of None \<Rightarrow> at | Some o' \<Rightarrow> conn_ConnectedAt o')"
      by (simp add: n_def new_conn_def split: option.split)
  qed (simp_all add: c'_def n_def)
qed

text \<open>
  A successful arrival, seen from the engine before an eviction: the state of the client, its new or
  refreshed connection, and what is announced of it (type and reason), which is nothing when a present
  client is seen again through the same connection.
\<close>

definition arrived :: "string \<Rightarrow> string \<Rightarrow> string \<Rightarrow> time \<Rightarrow> Engine \<Rightarrow> Engine \<Rightarrow> bool" where
  "arrived provider source cid at e e' \<longleftrightarrow>
     (let i = connectionID provider source in
      (\<exists>c'. map_of (e_clients e') cid = Some c' \<and> c_ID c' = cid \<and> c_State c' = StatePresent \<and> c_LastSeenAt c' = at \<and>
         c_FirstSeenAt c' = (case map_of (e_clients e) cid of None \<Rightarrow> at | Some c \<Rightarrow> c_FirstSeenAt c)) \<and>
      conns e' cid i = Some (case conns e cid i of
          None \<Rightarrow> \<lparr>conn_ID = i, conn_Provider = provider, conn_SourceInstance = source,
                   conn_ConnectedAt = at, conn_LastSeenAt = at, conn_Stale = False\<rparr>
        | Some n \<Rightarrow> n\<lparr>conn_LastSeenAt := at, conn_Stale := False\<rparr>) \<and>
      (\<forall>j. j \<noteq> i \<longrightarrow> conns e' cid j = conns e cid j) \<and>
      map_of (e_pending e') cid = None)"

definition arrival_news :: "string \<Rightarrow> string \<Rightarrow> string \<Rightarrow> string \<Rightarrow> Engine \<Rightarrow> (string \<times> string) list" where
  "arrival_news provider source cid reason e =
     (case map_of (e_clients e) cid of
        None \<Rightarrow> [(''client.presence_changed'', reason)]
      | Some c \<Rightarrow>
          if c_State c \<noteq> StatePresent then [(''client.presence_changed'', reason)]
          else if conns e cid (connectionID provider source) = None then [(''client.updated'', reason)]
          else [])"

definition said :: "Event \<Rightarrow> string \<times> string \<times> EventData" where
  "said v = (ev_Type v, ev_Reason v, ev_Data v)"

lemma said_mk_event [simp]: "said (mk_event env kind reason data e) = (kind, reason, data)"
  by (simp add: said_def mk_event_def)

lemma associate_client_arrived:
  assumes "map_of (e_clients e) cid = map_of (e_clients e0) cid"
    and "c = (case map_of (e_clients e0) cid of None \<Rightarrow> new_client cid at | Some c \<Rightarrow> c)"
    and "\<And>c. map_of (e_clients e0) cid = Some c \<Longrightarrow> c_ID c = cid"
    and "e' = associate_client env provider source cid at reason c e"
  shows "arrived provider source cid at e0 e' \<and>
    (\<exists>c' evs. map_of (e_clients e') cid = Some c' \<and> e_log e' = e_log e @ evs \<and>
       map said evs = map (\<lambda>(t, r). (t, r, ClientData (publicClientLocked c'))) (arrival_news provider source cid reason e0))"
proof -
  define i where "i = connectionID provider source"
  define n where "n = (case map_of (c_Connections c) i of Some o' \<Rightarrow> o' | None \<Rightarrow> new_conn provider source at 0)
    \<lparr>conn_LastSeenAt := at, conn_Stale := False\<rparr>"
  define c' where "c' = c\<lparr>c_Connections := AList.update i n (c_Connections c),
    c_State := StatePresent, c_LastSeenAt := at\<rparr>"
  have c: "map_of (c_Connections c) j = conns e0 cid j" for j
    by (simp add: assms(2) conns_def new_client_def split: option.split)
  have n: "n = (case conns e0 cid i of
          None \<Rightarrow> \<lparr>conn_ID = i, conn_Provider = provider, conn_SourceInstance = source,
                   conn_ConnectedAt = at, conn_LastSeenAt = at, conn_Stale = False\<rparr>
        | Some n \<Rightarrow> n\<lparr>conn_LastSeenAt := at, conn_Stale := False\<rparr>)"
    by (simp add: n_def c new_conn_def i_def split: option.split)
  have eff: "map_of (e_clients e') = (map_of (e_clients e))(cid \<mapsto> c')"
    "map_of (e_pending e') = (map_of (e_pending e))(cid := None)"
    unfolding assms(4) by (simp_all add: associate_client_def Let_def c'_def n_def i_def)
  have "conns e' cid j = (if j = i then Some n else conns e0 cid j)" for j
    by (simp add: conns_def [of e'] eff c'_def c)
  moreover have "c_ID c' = cid"
    using assms(2,3) by (simp add: c'_def new_client_def split: option.splits)
  moreover have "c_FirstSeenAt c' = (case map_of (e_clients e0) cid of None \<Rightarrow> at | Some c \<Rightarrow> c_FirstSeenAt c)"
    by (simp add: c'_def assms(2) new_client_def split: option.split)
  ultimately have "arrived provider source cid at e0 e'"
    unfolding arrived_def Let_def i_def [symmetric] using eff n by (simp add: c'_def)
  moreover have st: "c_State c = StatePresent \<longleftrightarrow> (\<exists>o'. map_of (e_clients e0) cid = Some o' \<and> c_State o' = StatePresent)"
    by (simp add: assms(2) new_client_def split: option.split)
  have "\<exists>evs. e_log e' = e_log e @ evs \<and>
      map said evs = map (\<lambda>(t, r). (t, r, ClientData (publicClientLocked c'))) (arrival_news provider source cid reason e0)"
  proof (cases "c_State c = StatePresent")
    case False
    then have "e_log e' = e_log e @ [mk_event env ''client.presence_changed'' reason (ClientData (publicClientLocked c'))
        ((put_client cid c' e)\<lparr>e_pending := AList.delete cid (e_pending e), e_sequence := e_sequence e + 1\<rparr>)]"
      unfolding assms(4) by (simp add: associate_client_def Let_def c'_def n_def i_def emitLocked_log)
    moreover have "arrival_news provider source cid reason e0 = [(''client.presence_changed'', reason)]"
      using False st by (simp add: arrival_news_def split: option.split)
    ultimately show ?thesis by simp
  next
    case True
    then obtain o' where o: "map_of (e_clients e0) cid = Some o'" "c_State o' = StatePresent" using st by blast
    show ?thesis
    proof (cases "conns e0 cid i")
      case None
      then have "e_log e' = e_log e @ [mk_event env ''client.updated'' reason (ClientData (publicClientLocked c'))
          ((put_client cid c' e)\<lparr>e_pending := AList.delete cid (e_pending e), e_sequence := e_sequence e + 1\<rparr>)]"
        unfolding assms(4) using True c [of i]
        by (simp add: associate_client_def Let_def c'_def n_def i_def emitLocked_log)
      moreover have "arrival_news provider source cid reason e0 = [(''client.updated'', reason)]"
        using o None by (simp add: arrival_news_def i_def)
      ultimately show ?thesis by simp
    next
      case (Some o2)
      then have "e_log e' = e_log e"
        unfolding assms(4) using True c [of i] by (simp add: associate_client_def Let_def i_def)
      moreover have "arrival_news provider source cid reason e0 = []"
        using o Some by (simp add: arrival_news_def i_def)
      ultimately show ?thesis by simp
    qed
  qed
  ultimately show ?thesis using eff by auto
qed

lemma associate_client_other:
  "k \<noteq> cid \<Longrightarrow> map_of (e_clients (associate_client env provider source cid at reason c e)) k =
     map_of (e_clients e) k"
  by (simp add: associate_client_def Let_def)

text \<open>
  All of a success: \<open>gone\<close> are the clients that made room, at most one and none that was present.
\<close>

definition arrival_done ::
    "string \<Rightarrow> string \<Rightarrow> string \<Rightarrow> time \<Rightarrow> string \<Rightarrow> (string \<times> client) list \<Rightarrow> Engine \<Rightarrow> Engine \<Rightarrow> bool" where
  "arrival_done provider source cid at reason gone e e' \<longleftrightarrow>
     arrived provider source cid at e e' \<and>
     (\<forall>k. k \<noteq> cid \<longrightarrow> map_of (e_clients e') k = (if k \<in> fst ` set gone then None else map_of (e_clients e) k)) \<and>
     (\<exists>c' evs. map_of (e_clients e') cid = Some c' \<and> e_log e' = e_log e @ evs \<and>
        map said evs =
          map (\<lambda>(v, w). (''client.removed'', ''retention_limit'', ClientData (publicClientLocked w))) gone @
          map (\<lambda>(t, r). (t, r, ClientData (publicClientLocked c'))) (arrival_news provider source cid reason e))"

text \<open>The case that the client is new and the limit is reached.\<close>

lemma associate_full:
  assumes "good_env env" and "engine_reach e"
    and "Associate env provider source cid at reason e = (err, e')"
    and "map_of (e_clients e) cid = None"
    and "int (length (e_clients e)) \<ge> MaxClients (e_limits e)"
  shows "err = Some ClientLimitReached \<and> e' = e \<and>
        (\<forall>k c. map_of (e_clients e) k = Some c \<longrightarrow> c_State c = StatePresent) \<or>
    err = None \<and> (\<exists>v w. map_of (e_clients e) v = Some w \<and> c_State w \<noteq> StatePresent \<and>
        arrival_done provider source cid at reason [(v, w)] e e')"
proof -
  note reach = evictable_reach [OF engine_reach_inv [OF assms(2)], of "[]"]
  obtain ok e1 where ev: "evictOldestNonPresentLocked env [] e = (ok, e1)" by fastforce
  show ?thesis
  proof (cases ok)
    case False
    then have ev': "evictOldestNonPresentLocked env [] e = (False, e1)" using ev by simp
    have e': "err = Some ClientLimitReached" "e' = e"
      using assms(3-5) evict_False(1) [OF assms(1) ev'] ev' by (simp_all add: Associate_def)
    have "c_State c = StatePresent" if "map_of (e_clients e) k = Some c" for k c
      using evict_False(2) [OF assms(1) ev'] reach [of k c] that by auto
    then show ?thesis using e' by simp
  next
    case True
    then have ev': "evictOldestNonPresentLocked env [] e = (True, e1)" using ev by simp
    obtain k c r where k: "evictable e [] k c r" and
      e1: "e1 = emitLocked env ''client.removed'' ''retention_limit'' (ClientData (publicClientLocked c))
        (e\<lparr>e_clients := AList.delete k (e_clients e), e_pending := AList.delete k (e_pending e)\<rparr>)"
      using evict_True [OF assms(1) engine_reachD(2) [OF assms(2)] ev'] by blast
    have c: "map_of (e_clients e) k = Some c" "c_State c \<noteq> StatePresent"
      using reach [of k c, THEN iffD1] k by auto
    have e': "err = None" "e' = associate_client env provider source cid at reason (new_client cid at) e1"
      using assms(3-5) ev' by (simp_all add: Associate_def)
    obtain v1 where log: "e_log e1 = e_log e @ [v1]"
      "said v1 = (''client.removed'', ''retention_limit'', ClientData (publicClientLocked c))"
      by (simp add: e1 emitLocked_log)
    have a: "arrived provider source cid at e e' \<and>
      (\<exists>c' evs. map_of (e_clients e') cid = Some c' \<and> e_log e' = e_log e1 @ evs \<and>
       map said evs = map (\<lambda>(t, r). (t, r, ClientData (publicClientLocked c'))) (arrival_news provider source cid reason e))"
      by (rule associate_client_arrived [OF _ _ _ e'(2)]) (simp_all add: e1 assms(4))
    then obtain c' evs where x: "map_of (e_clients e') cid = Some c'" "e_log e' = e_log e @ v1 # evs"
      "map said evs = map (\<lambda>(t, r). (t, r, ClientData (publicClientLocked c'))) (arrival_news provider source cid reason e)"
      by (auto simp: log(1))
    have "\<forall>q. q \<noteq> cid \<longrightarrow> map_of (e_clients e') q = (if q \<in> {k} then None else map_of (e_clients e) q)"
      by (simp add: e'(2) associate_client_other e1)
    then have "arrival_done provider source cid at reason [(k, c)] e e'"
      unfolding arrival_done_def using a x log(2) by (intro conjI exI [of _ c'] exI [of _ "v1 # evs"]) auto
    then show ?thesis using c e'(1) by blast
  qed
qed

text \<open>The other case: the client is known, or there is room for it.\<close>

lemma associate_room:
  assumes "engine_reach e" and "Associate env provider source cid at reason e = (err, e')"
    and "map_of (e_clients e) cid \<noteq> None \<or> int (length (e_clients e)) < MaxClients (e_limits e)"
  shows "err = None \<and> arrival_done provider source cid at reason [] e e'"
proof -
  let ?c = "case map_of (e_clients e) cid of None \<Rightarrow> new_client cid at | Some c \<Rightarrow> c"
  have e': "err = None" "e' = associate_client env provider source cid at reason ?c e"
    using assms(2,3) by (auto simp: Associate_def split: option.splits)
  have "c_ID c = cid" if "map_of (e_clients e) cid = Some c" for c
    using engine_reachD(2) [OF assms(1)] map_of_SomeD [OF that] by (auto simp: clients_wf_def wf_client_def)
  from associate_client_arrived [OF refl refl this e'(2)] show ?thesis
    unfolding arrival_done_def by (simp add: e'(1)) (simp add: e'(2) associate_client_other)
qed

text \<open>
  C7. An arrival fails exactly when the client is unknown, the limit is reached and every client is
  present, and then it changes nothing.  Otherwise it makes the client present through a live connection
  of that provider and source, keeps its first-seen time, its other connections and the time the
  connection was made, cancels a pending departure and leaves the other clients alone, except that one
  client that is not present is removed exactly when an unknown client arrives at the limit.  What is
  announced is that removal, and then the change of presence, or a new connection of a client that was
  present, or nothing when it was seen again.
\<close>

theorem associate_outcome:
  assumes "good_env env" and "engine_reach e"
    and "Associate env provider source cid at reason e = (err, e')"
  shows "(err \<noteq> None \<longleftrightarrow> map_of (e_clients e) cid = None \<and> int (length (e_clients e)) = MaxClients (e_limits e) \<and>
        (\<forall>k c. map_of (e_clients e) k = Some c \<longrightarrow> c_State c = StatePresent)) \<and>
    (err \<noteq> None \<longrightarrow> err = Some ClientLimitReached \<and> e' = e) \<and>
    (err = None \<longrightarrow> (\<exists>gone. arrival_done provider source cid at reason gone e e' \<and>
        (if map_of (e_clients e) cid = None \<and> int (length (e_clients e)) = MaxClients (e_limits e)
         then \<exists>v w. gone = [(v, w)] \<and> map_of (e_clients e) v = Some w \<and> c_State w \<noteq> StatePresent
         else gone = [])))"
proof (cases "map_of (e_clients e) cid = None \<and> int (length (e_clients e)) = MaxClients (e_limits e)")
  case True
  then have "int (length (e_clients e)) \<ge> MaxClients (e_limits e)" by simp
  from associate_full [OF assms conjunct1 [OF True] this] show ?thesis
  proof (elim disjE conjE exE)
    fix v w
    assume "err = None" "map_of (e_clients e) v = Some w" "c_State w \<noteq> StatePresent"
      "arrival_done provider source cid at reason [(v, w)] e e'"
    then show ?thesis using True by auto
  qed (use True in auto)
next
  case False
  have "int (length (e_clients e)) \<le> MaxClients (e_limits e)"
    using engine_reachD(4) [OF assms(2)] by (simp add: within_limit_def)
  with False have "map_of (e_clients e) cid \<noteq> None \<or> int (length (e_clients e)) < MaxClients (e_limits e)" by auto
  from associate_room [OF assms(2,3) this] False show ?thesis by auto
qed

theorem associate_outcome_witness:
  "arrived ''ubus'' ''w1'' ''m'' 9 (demo_present 0)
     (snd (Associate demo_env ''ubus'' ''w1'' ''m'' 9 ''x'' (demo_present 0)))"
proof -
  obtain err e' where o: "Associate demo_env ''ubus'' ''w1'' ''m'' 9 ''x'' (demo_present 0) = (err, e')"
    by fastforce
  have "fst (Associate demo_env ''ubus'' ''w1'' ''m'' 9 ''x'' (demo_present 0)) = None" by code_simp
  then show ?thesis using associate_outcome [OF demo_env_good demo_present_reach o] o by (auto simp: arrival_done_def)
qed

end
