(* ===== verification/Engine_Departures.thy ===== *)
theory Engine_Departures
  imports Engine_Behaviour
begin

text \<open>
  Departures: a disassociation with and without a reconnect grace, the expiry of the grace, and the
  loss of a whole provider.
\<close>

section \<open>Definitions\<close>

text \<open>A departure that has been applied to one client, and an outage of one provider.\<close>

definition departed :: "string \<Rightarrow> time \<Rightarrow> client \<Rightarrow> client" where
  "departed connID at c =
     (let c1 = c\<lparr>c_Connections := AList.delete connID (c_Connections c), c_LastSeenAt := at\<rparr>
      in c1\<lparr>c_State := reducedState c1 StateUnknown\<rparr>)"

definition stale_client :: "string \<Rightarrow> client \<Rightarrow> client" where
  "stale_client pid c =
     (let hit = (\<lambda>conn. conn_Provider conn = pid \<and> \<not> conn_Stale conn);
          c1 = c\<lparr>c_Connections := map (\<lambda>(i, conn). (i, if hit conn then conn\<lparr>conn_Stale := True\<rparr> else conn))
                  (c_Connections c)\<rparr>
      in if list_ex (\<lambda>(_, conn). hit conn) (c_Connections c)
         then c1\<lparr>c_State := reducedState c1 StateUnknown\<rparr> else c)"

text \<open>Whether client \<open>k\<close> is vouched for by a connection other than \<open>i\<close>.\<close>

definition live_without :: "Engine \<Rightarrow> string \<Rightarrow> string \<Rightarrow> bool" where
  "live_without e k i \<longleftrightarrow> (\<exists>j n. j \<noteq> i \<and> conns e k j = Some n \<and> \<not> conn_Stale n)"

section \<open>One departure\<close>

lemma live_map_of:
  "wf_client k c \<Longrightarrow> live c \<longleftrightarrow> (\<exists>j n. map_of (c_Connections c) j = Some n \<and> \<not> conn_Stale n)"
  by (auto simp: live_def wf_client_def)

lemma departed_client:
  assumes "wf_client k c" and "map_of (e_clients e) k = Some c"
  shows "c_State (departed i at c) = (if live_without e k i then StatePresent else StateUnknown)"
    and "map_of (c_Connections (departed i at c)) = (map_of (c_Connections c))(i := None)"
    and "c_LastSeenAt (departed i at c) = at" and "c_FirstSeenAt (departed i at c) = c_FirstSeenAt c"
proof -
  let ?c1 = "c\<lparr>c_Connections := AList.delete i (c_Connections c), c_LastSeenAt := at\<rparr>"
  have "wf_client k ?c1" using wf_client_delete [OF assms(1)] by simp
  then have "live ?c1 \<longleftrightarrow> live_without e k i"
    using assms(2) by (auto simp: live_map_of live_without_def conns_def)
  then show "c_State (departed i at c) = (if live_without e k i then StatePresent else StateUnknown)"
    by (simp add: departed_def Let_def reducedState_eq)
qed (simp_all add: departed_def Let_def)

lemma dropConnection_effect:
  shows "e_clients (dropConnection env cid c i at reason e) =
      AList.update cid (departed i at c) (e_clients e)"
    and "e_pending (dropConnection env cid c i at reason e) = e_pending e"
    and "\<exists>ev. e_log (dropConnection env cid c i at reason e) = e_log e @ [ev] \<and>
      ev_Type ev = (if c_State (departed i at c) = c_State c
        then ''client.updated'' else ''client.presence_changed'') \<and>
      ev_Reason ev = reason \<and> ev_Data ev = ClientData (publicClientLocked (departed i at c))"
  by (simp_all add: dropConnection_def departed_def Let_def emitLocked_log mk_event_def)

lemma last_live:
  assumes "state_ok c" and "wf_client k c" and "map_of (e_clients e) k = Some c"
    and "map_of (c_Connections c) i = Some n"
  shows "c_State c = StatePresent \<and> isLastNonStaleLocked c i \<longleftrightarrow> \<not> conn_Stale n \<and> \<not> live_without e k i"
proof -
  have "dkeys (c_Connections c)" using assms(2) by (simp add: wf_client_def)
  then have "isLastNonStaleLocked c i \<longleftrightarrow> \<not> live_without e k i"
    using assms(3) by (auto simp: isLast_iff live_without_def conns_def)
  moreover have "c_State c = StatePresent \<longleftrightarrow> \<not> conn_Stale n \<or> live_without e k i"
    unfolding state_ok_present [OF assms(1)] live_map_of [OF assms(2)]
    using assms(3,4) by (simp add: live_without_def conns_def) (metis option.inject)
  ultimately show ?thesis by blast
qed

text \<open>
  C8. A disassociation concerns one connection of one client.  If that connection does not exist,
  nothing happens.  If a grace is configured and it is the client's last live connection, the client
  stays as it is, nothing is announced, and a departure is pending, with a deadline that a repeated
  disassociation does not extend.  Otherwise the connection goes, the client is present or unknown
  according to its other connections, and exactly one event says so.
\<close>

theorem disassociate_outcome:
  assumes "engine_reach e" and "i = connectionID provider source"
    and "e' = Disassociate env provider source cid at reason e"
  shows "case conns e cid i of
      None \<Rightarrow> e' = e
    | Some n \<Rightarrow>
        if e_reconnectGrace e > 0 \<and> \<not> conn_Stale n \<and> \<not> live_without e cid i
        then e_clients e' = e_clients e \<and> e_log e' = e_log e \<and> e_heap e' = e_heap e \<and>
          map_of (e_pending e') = (if map_of (e_pending e) cid \<noteq> None then map_of (e_pending e)
            else (map_of (e_pending e))(cid \<mapsto>
              \<lparr>pd_provider = provider, pd_source = source, pd_deadline = at + e_reconnectGrace e\<rparr>))
        else \<exists>c c' ev. map_of (e_clients e) cid = Some c \<and>
          map_of (e_clients e') = (map_of (e_clients e))(cid \<mapsto> c') \<and>
          conns e' cid = (conns e cid)(i := None) \<and> c_LastSeenAt c' = at \<and>
          c_State c' = (if live_without e cid i then StatePresent else StateUnknown) \<and>
          e_pending e' = e_pending e \<and> e_log e' = e_log e @ [ev] \<and>
          ev_Type ev = (if c_State c' = c_State c then ''client.updated'' else ''client.presence_changed'') \<and>
          ev_Data ev = ClientData (publicClientLocked c')"
proof (cases "conns e cid i")
  case None
  then show ?thesis
    by (auto simp: assms(2,3) Disassociate_def Let_def conns_def split: option.splits)
next
  case (Some n)
  then obtain c where c: "map_of (e_clients e) cid = Some c" "map_of (c_Connections c) i = Some n"
    by (auto simp: conns_def split: option.splits)
  note wf = engine_reachD(6) [OF assms(1) c(1)]
  note last = last_live [OF engine_reachD(5) [OF assms(1) c(1)] wf c]
  show ?thesis
  proof (cases "e_reconnectGrace e > 0 \<and> \<not> conn_Stale n \<and> \<not> live_without e cid i")
    case True
    then have "e' = ensurePendingLocked cid provider source at e"
      using last c by (simp add: assms(2,3) Disassociate_def Let_def)
    then show ?thesis using Some True by (auto simp: ensurePendingLocked_def split: option.splits)
  next
    case False
    then have e': "e' = dropConnection env cid c i at reason e"
      using last c by (auto simp: assms(2,3) Disassociate_def Let_def)
    have "conns e' cid = (conns e cid)(i := None)"
      using departed_client(2) [OF wf c(1), of i at] c(1)
      by (simp add: conns_def [abs_def] e' dropConnection_effect fun_eq_iff)
    then show ?thesis
      using Some False c(1) dropConnection_effect [of env cid c i at reason e] departed_client [OF wf c(1), of i at]
      by (auto simp: e')
  qed
qed

theorem disassociate_outcome_witness:
  "e_clients (Disassociate demo_env ''ubus'' ''w0'' ''m'' 9 ''x'' (demo_present 30)) =
     e_clients (demo_present 30) \<and>
   map_of (e_pending (Disassociate demo_env ''ubus'' ''w0'' ''m'' 9 ''x'' (demo_present 30))) ''m'' =
     Some \<lparr>pd_provider = ''ubus'', pd_source = ''w0'', pd_deadline = 39\<rparr>"
proof -
  have c: "e_clients (demo_present 30) = [(''m'', snd (e_clients (demo_present 30) ! 0))]"
    and n: "c_Connections (snd (e_clients (demo_present 30) ! 0)) =
        [(''ubus:w0'', new_conn ''ubus'' ''w0'' 5 5)]"
    and g: "e_reconnectGrace (demo_present 30) = 30" "e_pending (demo_present 30) = []" by code_simp+
  have i: "''ubus:w0'' = connectionID ''ubus'' ''w0''" by code_simp
  have k: "conns (demo_present 30) ''m'' j =
      (if j = ''ubus:w0'' then Some (new_conn ''ubus'' ''w0'' 5 5) else None)" for j
    unfolding conns_def by (subst c) (simp add: n)
  show ?thesis
    using disassociate_outcome [OF demo_present_reach i refl, of demo_env "''m''" 9 "''x''" 30]
    by (simp add: k g live_without_def new_conn_def)
qed

section \<open>Expiry of the grace\<close>

text \<open>What a sweep does to the pair of a client and its pending departure.\<close>

definition swept ::
    "time \<Rightarrow> client option \<times> pendingDeparture option \<Rightarrow> client option \<times> pendingDeparture option" where
  "swept now s =
     (case s of (co, po) \<Rightarrow>
       (case po of
          None \<Rightarrow> (co, None)
        | Some p \<Rightarrow>
            if now < pd_deadline p then (co, Some p)
            else (map_option (\<lambda>c. let i = connectionID (pd_provider p) (pd_source p) in
                    if map_of (c_Connections c) i = None then c else departed i now c) co, None)))"

lemma sweep_pointwise:
  assumes "good_env env" and "dkeys (e_pending e)"
  shows "(map_of (e_clients (sweepPending env now e)) k, map_of (e_pending (sweepPending env now e)) k) =
    swept now (map_of (e_clients e) k, map_of (e_pending e) k)"
proof -
  let ?look = "\<lambda>e k. (map_of (e_clients e) k, map_of (e_pending e) k)"
  let ?ks = "env_order env SweepSite (map fst (e_pending e))"
  have here: "?look (sweep_one env now x s) x = swept now (?look s x)" for x s
    by (simp add: sweep_one_def swept_def applyPendingDepartureLocked_def Let_def
        dropConnection_effect split: option.splits)
  have there: "?look (sweep_one env now x s) y = ?look s y" if "y \<noteq> x" for x y s
    using that by (simp add: sweep_one_def applyPendingDepartureLocked_def Let_def
        dropConnection_effect split: option.splits)
  have d: "distinct ?ks" using assms by (simp add: evict_order_distinct)
  have "?look (fold (sweep_one env now) ?ks e) k =
      (if k \<in> set ?ks then swept now (?look e k) else ?look e k)"
    by (rule fold_pointwise [where look = ?look and upd = "\<lambda>_. swept now", OF d here there])
  moreover have "swept now (?look e k) = ?look e k" if "k \<notin> keyset (e_pending e)"
    using that by (simp add: swept_def keys_map_of split: option.split)
  ultimately show ?thesis
    unfolding sweepPending_def by (simp add: evict_order_keys [OF assms(1)])
qed

text \<open>
  C9. A sweep applies exactly the departures whose deadline has passed, in whatever order it meets
  them: a client with no due departure is untouched, and a client with one loses the connection it was
  held for and is present or unknown according to its other connections.
\<close>

theorem sweep_outcome:
  assumes "good_env env" and "engine_reach e" and "e' = sweepPending env now e"
  shows "case map_of (e_pending e) k of
      None \<Rightarrow> map_of (e_clients e') k = map_of (e_clients e) k \<and> map_of (e_pending e') k = None
    | Some p \<Rightarrow>
        if now < pd_deadline p
        then map_of (e_clients e') k = map_of (e_clients e) k \<and> map_of (e_pending e') k = Some p
        else map_of (e_pending e') k = None \<and>
          (let i = connectionID (pd_provider p) (pd_source p) in
           conns e' k = (conns e k)(i := None) \<and>
           (conns e k i \<noteq> None \<longrightarrow> (\<exists>c'. map_of (e_clients e') k = Some c' \<and> c_LastSeenAt c' = now \<and>
              c_State c' = (if live_without e k i then StatePresent else StateUnknown))))"
proof (cases "map_of (e_pending e) k")
  case None
  have "(map_of (e_clients e') k, map_of (e_pending e') k) = (map_of (e_clients e) k, None)"
    unfolding assms(3) using sweep_pointwise [OF assms(1), of e now k] engine_reachD(3) [OF assms(2)] None
    by (simp add: swept_def pend_ok_def)
  then show ?thesis by (simp add: None)
next
  case (Some p)
  let ?i = "connectionID (pd_provider p) (pd_source p)"
  have "(map_of (e_clients e') k, map_of (e_pending e') k) = swept now (map_of (e_clients e) k, Some p)"
    unfolding assms(3) using sweep_pointwise [OF assms(1), of e now k] engine_reachD(3) [OF assms(2)] Some
    by (simp add: pend_ok_def)
  moreover have "k \<in> keyset (e_clients e)"
    using engine_reachD(3) [OF assms(2)] map_of_mem_keys [OF Some] by (auto simp: pend_ok_def)
  then obtain c where c: "map_of (e_clients e) k = Some c" by (auto simp: keys_map_of)
  ultimately have eff: "now < pd_deadline p \<Longrightarrow> map_of (e_clients e') k = Some c \<and> map_of (e_pending e') k = Some p"
    "\<not> now < pd_deadline p \<Longrightarrow> map_of (e_pending e') k = None \<and> map_of (e_clients e') k =
       Some (if map_of (c_Connections c) ?i = None then c else departed ?i now c)"
    by (simp_all add: swept_def Let_def)
  note d = departed_client [OF engine_reachD(6) [OF assms(2) c] c, of ?i now]
  show ?thesis
  proof (cases "now < pd_deadline p")
    case True
    with eff(1) c show ?thesis by (simp add: Some)
  next
    case False
    note e2 = eff(2) [OF False]
    have "conns e' k = (conns e k)(?i := None)"
      using e2 c d(2) by (auto simp: conns_def fun_eq_iff)
    then show ?thesis using False Some e2 c d(1,3) by (simp add: Let_def) (simp add: conns_def)
  qed
qed

definition demo_held :: Engine where
  "demo_held = snd (Apply demo_env (demo_obs WiFiDisassociated ''w0'' ''m'' 9) (demo_present 30))"

theorem sweep_outcome_witness:
  "map_option c_State (map_of (e_clients (sweepPending demo_env 38 demo_held)) ''m'') = Some StatePresent \<and>
   map_option c_State (map_of (e_clients (sweepPending demo_env 39 demo_held)) ''m'') = Some StateUnknown"
proof -
  have reach: "engine_reach demo_held"
    unfolding demo_held_def by (intro engine_reach.step [OF demo_present_reach engine_step.apply_obs]) simp
  have p: "map_of (e_pending demo_held) ''m'' =
      Some \<lparr>pd_provider = ''ubus'', pd_source = ''w0'', pd_deadline = 39\<rparr>"
    and s: "map_option c_State (map_of (e_clients demo_held) ''m'') = Some StatePresent"
    and c: "e_clients demo_held = [(''m'', snd (e_clients demo_held ! 0))]"
    and n: "c_Connections (snd (e_clients demo_held ! 0)) = [(''ubus:w0'', new_conn ''ubus'' ''w0'' 5 5)]"
    and i: "connectionID ''ubus'' ''w0'' = ''ubus:w0''" by code_simp+
  have k: "conns demo_held ''m'' j =
      (if j = ''ubus:w0'' then Some (new_conn ''ubus'' ''w0'' 5 5) else None)" for j
    unfolding conns_def by (subst c) (simp add: n)
  show ?thesis
    using sweep_outcome [OF demo_env_good reach refl, of 38 "''m''"]
      sweep_outcome [OF demo_env_good reach refl, of 39 "''m''"] s
    by (auto simp: p i k live_without_def Let_def)
qed

section \<open>Loss of a provider\<close>

lemma stale_client_effect:
  assumes "state_ok c" and "wf_client k c" and "map_of (e_clients e) k = Some c"
  shows "map_of (c_Connections (stale_client pid c)) i =
      map_option (\<lambda>n. if conn_Provider n = pid then n\<lparr>conn_Stale := True\<rparr> else n) (map_of (c_Connections c) i)"
    and "c_State (stale_client pid c) =
      (if \<exists>i n. conns e k i = Some n \<and> \<not> conn_Stale n \<and> conn_Provider n \<noteq> pid then StatePresent
       else if c_State c = StatePresent then StateUnknown else c_State c)"
proof -
  let ?hit = "\<lambda>conn. conn_Provider conn = pid \<and> \<not> conn_Stale conn"
  let ?f = "\<lambda>_ conn. if ?hit conn then conn\<lparr>conn_Stale := True\<rparr> else conn"
  let ?c1 = "c\<lparr>c_Connections := map (\<lambda>(i, conn). (i, ?f i conn)) (c_Connections c)\<rparr>"
  have m: "map_of (c_Connections ?c1) i = map_option (?f i) (map_of (c_Connections c) i)" for i
    using map_of_map_values [of ?f] by simp
  have d: "dkeys (c_Connections c)" using assms(2) by (simp add: wf_client_def)
  have hit: "list_ex (\<lambda>(_, conn). ?hit conn) (c_Connections c) \<longleftrightarrow>
      (\<exists>i n. map_of (c_Connections c) i = Some n \<and> ?hit n)"
    using d by (auto simp: list_ex_iff)
  have same: "(if conn_Provider n = pid then n\<lparr>conn_Stale := True\<rparr> else n) = ?f i n" for i n
    by (cases n) simp
  have "\<not> (\<exists>i n. map_of (c_Connections c) i = Some n \<and> ?hit n) \<Longrightarrow>
      map_option (?f i) (map_of (c_Connections c) i) = map_of (c_Connections c) i"
    by (auto simp: map_option_case split: option.split)
  then show "map_of (c_Connections (stale_client pid c)) i =
      map_option (\<lambda>n. if conn_Provider n = pid then n\<lparr>conn_Stale := True\<rparr> else n) (map_of (c_Connections c) i)"
    unfolding same stale_client_def Let_def using m [of i] hit by auto
  have "live ?c1 \<longleftrightarrow> (\<exists>i n. map_of (c_Connections c) i = Some n \<and> \<not> conn_Stale n \<and> conn_Provider n \<noteq> pid)"
  proof -
    have "wf_client k ?c1"
      using assms(2) by (auto simp: wf_client_def case_prod_unfold comp_def split: if_splits)
    note l = live_map_of [OF this, unfolded m map_option_eq_Some]
    have "\<not> conn_Stale (?f i n) \<longleftrightarrow> \<not> conn_Stale n \<and> conn_Provider n \<noteq> pid" for i n by auto
    then show ?thesis unfolding l by blast
  qed
  note L = this
  let ?H = "list_ex (\<lambda>(_, conn). ?hit conn) (c_Connections c)"
  have lc: "live c \<longleftrightarrow> live ?c1 \<or> ?H"
    unfolding L hit live_map_of [OF assms(2)] by blast
  have ne: "?H \<Longrightarrow> c_Connections c \<noteq> []" by auto
  have s: "c_State (stale_client pid c) = (if ?H then reducedState ?c1 StateUnknown else c_State c)"
    by (simp add: stale_client_def Let_def)
  show "c_State (stale_client pid c) =
      (if \<exists>i n. conns e k i = Some n \<and> \<not> conn_Stale n \<and> conn_Provider n \<noteq> pid then StatePresent
       else if c_State c = StatePresent then StateUnknown else c_State c)"
    unfolding conns_def assms(3) option.case L [symmetric] s
    using state_ok_present [OF assms(1)] lc ne by (cases ?H; cases "live ?c1") (simp_all add: reducedState_eq)
qed

lemma stale_one_effect:
  "map_of (e_clients (stale_one env pid x s)) y =
     (if y = x then map_option (stale_client pid) (map_of (e_clients s) y) else map_of (e_clients s) y)"
  by (auto simp: stale_one_def stale_client_def Let_def split: option.split)

lemma SetProvider_unavailable:
  assumes "pr_Status p = ''unavailable''"
  obtains e2 where "e_clients e2 = e_clients e"
    and "SetProvider env p e = fold (stale_one env (pr_ID p))
           (env_order env SetProviderSite (map fst (e_clients e2))) e2"
proof -
  define e1 where "e1 = e\<lparr>e_providers := AList.update (pr_ID p) p (e_providers e)\<rparr>"
  define e2 where "e2 = (if (case map_of (e_providers e) (pr_ID p) of None \<Rightarrow> True
      | Some o' \<Rightarrow> pr_Status o' \<noteq> pr_Status p \<or> pr_LastError o' \<noteq> pr_LastError p)
    then emitLocked env ''provider.status'' ''provider_lifecycle'' (ProviderData p) e1 else e1)"
  have "e_clients e2 = e_clients e" by (simp add: e2_def e1_def)
  moreover have "SetProvider env p e = fold (stale_one env (pr_ID p))
      (env_order env SetProviderSite (map fst (e_clients e2))) e2"
    unfolding SetProvider_def Let_def e1_def [symmetric] e2_def [symmetric] by (simp only: assms if_True simp_thms)
  ultimately show ?thesis by (rule that)
qed

lemma outage_effect:
  assumes "good_env env" and "engine_reach e" and "ps_Status st = ''unavailable''"
    and "e' = SetProviderStatus env st e"
  shows "(\<forall>i. conns e' k i = map_option (\<lambda>n. if conn_Provider n = ps_ID st
        then n\<lparr>conn_Stale := True\<rparr> else n) (conns e k i)) \<and>
    map_option c_State (map_of (e_clients e') k) = map_option (\<lambda>c.
       if \<exists>i n. conns e k i = Some n \<and> \<not> conn_Stale n \<and> conn_Provider n \<noteq> ps_ID st then StatePresent
       else if c_State c = StatePresent then StateUnknown else c_State c) (map_of (e_clients e) k)"
proof -
  obtain e2 where e2: "e_clients e2 = e_clients e"
    and e': "e' = fold (stale_one env (ps_ID st)) (env_order env SetProviderSite (map fst (e_clients e2))) e2"
    using SetProvider_unavailable [of "provider_of_status st" e env] assms(3)
    by (auto simp: assms(4) SetProviderStatus_def provider_of_status_def)
  let ?ks = "env_order env SetProviderSite (map fst (e_clients e2))"
  have "distinct ?ks"
    using engine_reachD(2) [OF assms(2)] by (simp add: e2 evict_order_distinct [OF assms(1)] clients_wf_def)
  from fold_pointwise [OF this, where look = "\<lambda>e k. map_of (e_clients e) k" and
      upd = "\<lambda>_. map_option (stale_client (ps_ID st))" and f = "stale_one env (ps_ID st)" and s = e2 and y = k]
  have cl: "map_of (e_clients e') k = map_option (stale_client (ps_ID st)) (map_of (e_clients e) k)"
    by (simp add: stale_one_effect e' e2 evict_order_keys [OF assms(1)] keys_map_of)
  show ?thesis
  proof (cases "map_of (e_clients e) k")
    case None
    then show ?thesis using cl by (simp add: conns_def)
  next
    case (Some c)
    note f = stale_client_effect [OF engine_reachD(5,6) [OF assms(2) Some] Some, of "ps_ID st"]
    show ?thesis using Some cl f by (simp add: conns_def [of e'] conns_def [of e])
  qed
qed

lemma outage_stales:
  assumes "good_env env" and "engine_reach e" and "ps_Status st = ''unavailable''"
    and "conns (SetProviderStatus env st e) k i = Some n" and "conn_Provider n = ps_ID st"
  shows "conn_Stale n"
proof -
  have "conns (SetProviderStatus env st e) k i =
      map_option (\<lambda>n. if conn_Provider n = ps_ID st then n\<lparr>conn_Stale := True\<rparr> else n) (conns e k i)"
    using outage_effect [OF assms(1-3) refl] by blast
  with assms(4) obtain m where "n = (if conn_Provider m = ps_ID st then m\<lparr>conn_Stale := True\<rparr> else m)"
    by (auto simp only: map_option_eq_Some)
  with assms(5) show ?thesis by (cases "conn_Provider m = ps_ID st") simp_all
qed

text \<open>
  C10. When a provider becomes unavailable, every connection it reported becomes stale and no other
  connection changes; a client stays present only if another provider still vouches for it, turns
  unknown if it was present through this provider alone, and is never reported absent for it.
\<close>

theorem provider_outage:
  assumes "good_env env" and "engine_reach e" and "ps_Status st = ''unavailable''"
    and "e' = SetProviderStatus env st e"
  shows "(\<forall>i. conns e' k i = map_option (\<lambda>n. if conn_Provider n = ps_ID st
        then n\<lparr>conn_Stale := True\<rparr> else n) (conns e k i)) \<and>
    map_option c_State (map_of (e_clients e') k) = map_option (\<lambda>c.
       if \<exists>i n. conns e k i = Some n \<and> \<not> conn_Stale n \<and> conn_Provider n \<noteq> ps_ID st then StatePresent
       else if c_State c = StatePresent then StateUnknown else c_State c) (map_of (e_clients e) k)"
  by (rule outage_effect [OF assms])

theorem provider_outage_witness:
  "map_option c_State (map_of (e_clients (SetProviderStatus demo_env (demo_status ''unavailable'')
     (demo_present 0))) ''m'') = Some StateUnknown"
proof -
  have u: "ps_Status (demo_status ''unavailable'') = ''unavailable''" "ps_ID (demo_status ''unavailable'') = ''ubus''"
    by (simp_all add: demo_status_def)
  have c: "e_clients (demo_present 0) = [(''m'', snd (e_clients (demo_present 0) ! 0))]"
    and s: "c_State (snd (e_clients (demo_present 0) ! 0)) = StatePresent"
    and n: "c_Connections (snd (e_clients (demo_present 0) ! 0)) = [(''ubus:w0'', new_conn ''ubus'' ''w0'' 5 5)]"
    by code_simp+
  have m: "map_of (e_clients (demo_present 0)) ''m'' = Some (snd (e_clients (demo_present 0) ! 0))"
    by (subst c) simp
  have k: "conns (demo_present 0) ''m'' j =
      (if j = ''ubus:w0'' then Some (new_conn ''ubus'' ''w0'' 5 5) else None)" for j
    unfolding conns_def m by (simp add: n)
  have no: "\<not> (\<exists>i n. conns (demo_present 0) ''m'' i = Some n \<and> \<not> conn_Stale n \<and> conn_Provider n \<noteq> ''ubus'')"
    by (simp add: k new_conn_def)
  note r = provider_outage [OF demo_env_good demo_present_reach u(1) refl, of 0 "''m''", THEN conjunct2,
      unfolded u(2) m if_not_P [OF no]]
  then show ?thesis by (simp add: s)
qed

end
