(* ===== verification/Engine_Exact.thy ===== *)
theory Engine_Exact
  imports Engine_Departures
begin

text \<open>
  Authoritative snapshots are exact: after \<^verbatim>\<open>Reconcile\<close> a client has, of the provider that sent the
  snapshot, exactly the connections the snapshot lists, and after \<^verbatim>\<open>ReconcileSource\<close> the same holds of
  one source of it; nothing that other providers or sources reported changes.  Where a reconnect
  grace applies, the loss of a last connection is deferred instead, so the exact statements are for
  the other cases.
\<close>

section \<open>Definitions\<close>

text \<open>No grace applies to departures that \<open>provider\<close> reports.\<close>

definition no_hold :: "string \<Rightarrow> Engine \<Rightarrow> bool" where
  "no_hold provider e \<longleftrightarrow> e_reconnectGrace e \<le> 0 \<or> \<not> isWiFiProvider e provider"

definition prune :: "string \<Rightarrow> (string \<Rightarrow> bool) \<Rightarrow> Connection option \<Rightarrow> Connection option" where
  "prune provider keep n =
     (case n of None \<Rightarrow> None
      | Some n \<Rightarrow> if conn_Provider n = provider \<and> \<not> keep (conn_SourceInstance n) then None else Some n)"

definition refresh :: "string \<Rightarrow> time \<Rightarrow> string \<Rightarrow> Connection option \<Rightarrow> Connection" where
  "refresh provider at source n =
     (case n of None \<Rightarrow> new_conn provider source at at
      | Some n \<Rightarrow> n\<lparr>conn_LastSeenAt := at, conn_Stale := False\<rparr>)"

text \<open>The connections of one client after a snapshot of \<open>provider\<close> that lists it at the sources \<open>want\<close>.\<close>

definition resynced ::
    "string \<Rightarrow> time \<Rightarrow> (string \<Rightarrow> bool) \<Rightarrow> (string \<Rightarrow> Connection option) \<Rightarrow> (string \<Rightarrow> Connection option) \<Rightarrow> bool" where
  "resynced provider at want old new \<longleftrightarrow>
     (\<forall>s. want s \<longrightarrow> new (connectionID provider s) =
        Some (refresh provider at s (old (connectionID provider s)))) \<and>
     (\<forall>i. (\<forall>s. want s \<longrightarrow> i \<noteq> connectionID provider s) \<longrightarrow> new i = prune provider want (old i))"

section \<open>Loops\<close>

text \<open>Iterations that each act on the entry \<open>key x\<close>, under a loop invariant.\<close>

lemma fold_keyed:
  assumes "distinct (map key xs)" and "I s" and "\<And>x s. x \<in> set xs \<Longrightarrow> I s \<Longrightarrow> I (f x s)"
    and "\<And>x s. x \<in> set xs \<Longrightarrow> I s \<Longrightarrow> look (f x s) (key x) = upd x (look s (key x))"
    and "\<And>x y s. x \<in> set xs \<Longrightarrow> I s \<Longrightarrow> y \<noteq> key x \<Longrightarrow> look (f x s) y = look s y"
  shows "(\<forall>x \<in> set xs. look (fold f xs s) (key x) = upd x (look s (key x))) \<and>
    (\<forall>y. y \<notin> key ` set xs \<longrightarrow> look (fold f xs s) y = look s y)"
  using assms
proof (induction xs arbitrary: s)
  case Nil
  then show ?case by simp
next
  case (Cons a xs)
  have "(\<forall>x \<in> set xs. look (fold f xs (f a s)) (key x) = upd x (look (f a s) (key x))) \<and>
      (\<forall>y. y \<notin> key ` set xs \<longrightarrow> look (fold f xs (f a s)) y = look (f a s) y)"
    using Cons.prems by (intro Cons.IH) auto
  moreover have "look (f a s) (key a) = upd a (look s (key a))"
    and "\<And>y. y \<noteq> key a \<Longrightarrow> look (f a s) y = look s y" using Cons.prems by simp_all
  moreover have "key a \<notin> key ` set xs" using Cons.prems(1) by simp
  ultimately show ?case by (auto simp: image_iff)
qed

text \<open>The same without distinctness, for an action that is idempotent.\<close>

lemma fold_idem:
  assumes "I s" and "\<And>x s. I s \<Longrightarrow> I (f x s)" and "\<And>x v. upd x (upd x v) = upd x v"
    and "\<And>x s. I s \<Longrightarrow> look (f x s) x = upd x (look s x)"
    and "\<And>x y s. I s \<Longrightarrow> y \<noteq> x \<Longrightarrow> look (f x s) y = look s y"
  shows "look (fold f xs s) y = (if y \<in> set xs then upd y (look s y) else look s y)"
  using assms(1)
proof (induction xs arbitrary: s)
  case Nil
  then show ?case by simp
next
  case (Cons x xs)
  show ?case
    using Cons.IH [OF assms(2) [OF Cons.prems], of x] assms(3-5) Cons.prems by (cases "y = x") auto
qed

lemma connectionID_inj [simp]: "connectionID p s = connectionID p s' \<longleftrightarrow> s = s'"
  by (simp add: connectionID_def)

section \<open>The scan\<close>

lemma prune_idem [simp]: "prune p keep (prune p keep v) = prune p keep v"
  by (simp add: prune_def split: option.split)

lemma no_hold_frame:
  "e_reconnectGrace e' = e_reconnectGrace e \<Longrightarrow> e_providers e' = e_providers e \<Longrightarrow> no_hold p e' = no_hold p e"
  by (simp add: no_hold_def isWiFiProvider_def)

lemma scan_conn_effect:
  assumes "no_hold p (fst s)"
  shows "conns (fst (scan_conn p w at cid i s)) k j =
      (if k = cid \<and> j = i then prune p (is_wanted w cid) (conns (fst s) k j) else conns (fst s) k j)"
    and "no_hold p (fst (scan_conn p w at cid i s))"
  using assms
  by (auto simp: scan_conn_def conns_def prune_def no_hold_def isWiFiProvider_def ensurePendingLocked_def
      split: prod.splits option.splits)

lemma reconcile_scan_effect:
  assumes "good_env env" and "no_hold p (fst s)"
  shows "conns (fst (reconcile_scan env p w at cid s)) k j =
      (if k = cid then prune p (is_wanted w cid) (conns (fst s) k j) else conns (fst s) k j)"
    and "no_hold p (fst (reconcile_scan env p w at cid s))"
proof -
  let ?I = "\<lambda>s. no_hold p (fst s)"
  have "?I (fold (scan_conn p w at cid) ks s)" for ks
    by (rule fold_invariant [where P = ?I]) (simp_all add: assms scan_conn_effect)
  then show "no_hold p (fst (reconcile_scan env p w at cid s))"
    using assms(2) by (simp add: reconcile_scan_def split: option.split)
  have idem: "conns (fst (fold (scan_conn p w at cid) ks s)) cid j =
      (if j \<in> set ks then prune p (is_wanted w cid) (conns (fst s) cid j) else conns (fst s) cid j)" for ks
    by (rule fold_idem [where look = "\<lambda>s j. conns (fst s) cid j" and I = ?I and upd = "\<lambda>_. prune p (is_wanted w cid)"])
      (simp_all add: assms scan_conn_effect)
  let ?K = "\<lambda>t. ?I t \<and> (k \<noteq> cid \<longrightarrow> conns (fst t) k j = conns (fst s) k j)"
  have other: "?K (fold (scan_conn p w at cid) ks s)" for ks
    by (rule fold_invariant [where P = ?K]) (simp_all add: assms scan_conn_effect)
  show "conns (fst (reconcile_scan env p w at cid s)) k j =
      (if k = cid then prune p (is_wanted w cid) (conns (fst s) k j) else conns (fst s) k j)"
  proof (cases "map_of (e_clients (fst s)) cid")
    case None
    then show ?thesis by (simp add: reconcile_scan_def conns_def prune_def)
  next
    case (Some c)
    have "j \<notin> keyset (c_Connections c) \<Longrightarrow> prune p (is_wanted w cid) (conns (fst s) cid j) = conns (fst s) cid j"
      by (simp add: conns_def Some prune_def keys_map_of)
    then show ?thesis
      using other idem by (simp add: reconcile_scan_def Some evict_order_keys [OF assms(1)])
  qed
qed

lemma scan_effect:
  fixes ks w at
  assumes "good_env env" and "no_hold p (fst s)"
  defines "t \<equiv> fold (reconcile_scan env p w at) ks s"
  shows "conns (fst t) k = (if k \<in> set ks then \<lambda>j. prune p (is_wanted w k) (conns (fst s) k j) else conns (fst s) k)"
    and "no_hold p (fst t)"
proof -
  let ?I = "\<lambda>s. no_hold p (fst s)"
  show "no_hold p (fst t)" unfolding t_def
    by (rule fold_invariant [where P = ?I]) (simp_all add: assms reconcile_scan_effect)
  show "conns (fst t) k = (if k \<in> set ks then \<lambda>j. prune p (is_wanted w k) (conns (fst s) k j) else conns (fst s) k)"
    unfolding t_def
    by (rule fold_idem [where look = "\<lambda>s k. conns (fst s) k" and I = ?I and
          upd = "\<lambda>k g j. prune p (is_wanted w k) (g j)"])
      (simp_all add: assms reconcile_scan_effect fun_eq_iff)
qed

section \<open>The wanted connections\<close>

lemma refresh_idem: "refresh p at s (Some (refresh p at s v)) = refresh p at s v"
  by (simp add: refresh_def new_conn_def split: option.split)

lemma want_source_effect:
  "map_of (c_Connections (fst (want_source p at s cb))) =
     (map_of (c_Connections (fst cb)))(connectionID p s \<mapsto>
        refresh p at s (map_of (c_Connections (fst cb)) (connectionID p s)))"
  by (auto simp: want_source_def refresh_def Let_def split: prod.splits option.splits)

lemma want_sources_effect:
  "map_of (c_Connections (fst (fold (want_source p at) ss cb))) i =
     (if \<exists>s \<in> set ss. i = connectionID p s
      then Some (refresh p at (THE s. i = connectionID p s) (map_of (c_Connections (fst cb)) i))
      else map_of (c_Connections (fst cb)) i)"
proof (induction ss arbitrary: cb)
  case Nil
  then show ?case by simp
next
  case (Cons a ss)
  have t: "(THE s'. connectionID p s = connectionID p s') = s" for s by auto
  show ?case
    by (auto simp: Cons.IH want_source_effect refresh_idem t)
qed

text \<open>One wanted client.\<close>

lemma reconcile_want_effect:
  "conns (fst (reconcile_want p at (cid, ss) s)) k i =
     (if k = cid \<and> (\<exists>s \<in> set ss. i = connectionID p s)
      then Some (refresh p at (THE s. i = connectionID p s) (conns (fst s) k i)) else conns (fst s) k i)"
  by (auto simp: reconcile_want_def Let_def conns_def want_sources_effect new_client_def
      split: prod.splits option.splits dest!: arg_cong [where f = fst])

lemma is_wanted_entry:
  assumes "dkeys w" and "(k, ss) \<in> set w"
  shows "is_wanted w k s \<longleftrightarrow> s \<in> set ss"
  using assms by (simp add: is_wanted_def)

lemma want_effect:
  assumes "dkeys w"
  shows "conns (fst (fold (reconcile_want p at) w t)) k i =
     (if \<exists>s. is_wanted w k s \<and> i = connectionID p s
      then Some (refresh p at (THE s. i = connectionID p s) (conns (fst t) k i)) else conns (fst t) k i)"
proof -
  let ?upd = "\<lambda>(cid, ss) g i. if \<exists>s \<in> set ss. i = connectionID p s
      then Some (refresh p at (THE s. i = connectionID p s) (g i)) else g i"
  have *: "(\<forall>x \<in> set w. conns (fst (fold (reconcile_want p at) w t)) (fst x) = ?upd x (conns (fst t) (fst x))) \<and>
      (\<forall>y. y \<notin> fst ` set w \<longrightarrow> conns (fst (fold (reconcile_want p at) w t)) y = conns (fst t) y)"
    by (rule fold_keyed [where look = "\<lambda>s k. conns (fst s) k" and I = "\<lambda>_. True" and upd = ?upd])
      (use assms in \<open>auto simp: fun_eq_iff reconcile_want_effect\<close>)
  show ?thesis
  proof (cases "k \<in> fst ` set w")
    case True
    then obtain ss where m: "(k, ss) \<in> set w" by force
    have "conns (fst (fold (reconcile_want p at) w t)) k = ?upd (k, ss) (conns (fst t) k)"
      using *[THEN conjunct1, rule_format, OF m] by simp
    then show ?thesis by (auto simp: is_wanted_entry [OF assms m])
  next
    case False
    then have "\<not> is_wanted w k s" for s by (simp add: is_wanted_def keys_map_of)
    moreover have "conns (fst (fold (reconcile_want p at) w t)) k = conns (fst t) k" using * False by blast
    ultimately show ?thesis by simp
  qed
qed

section \<open>Publication\<close>

definition settle :: "time \<Rightarrow> client \<Rightarrow> client" where
  "settle at c =
     (let c1 = c\<lparr>c_State := reducedState c StateAbsent\<rparr>
      in if c_State c1 \<noteq> c_State c then c1\<lparr>c_LastSeenAt := at\<rparr> else c1)"

lemma settle_keeps [simp]:
  "c_Connections (settle at c) = c_Connections c" "c_State (settle at c) = reducedState c StateAbsent"
  "reducedState (settle at c) s = reducedState c s"
  by (simp_all add: settle_def Let_def)

lemma settle_idem [simp]: "settle at (settle at c) = settle at c"
  by (subst settle_def) (simp add: Let_def, cases c, simp add: settle_def Let_def reducedState_def)

lemma publish_effect:
  "map_of (e_clients (reconcile_publish env ch at x e)) y =
     (if y = x then map_option (settle at) (map_of (e_clients e) y) else map_of (e_clients e) y)"
  "map_of (e_clients (source_publish env at x e)) y =
     (if y = x then map_option (settle at) (map_of (e_clients e) y) else map_of (e_clients e) y)"
  by (simp_all add: reconcile_publish_def source_publish_def settle_def Let_def split: option.split)

text \<open>A connection that a snapshot lists survives the removal of the others.\<close>

lemma prune_wanted:
  assumes "inv_but {} {} e" and "is_wanted w k s"
  shows "prune p (is_wanted w k) (conns e k (connectionID p s)) = conns e k (connectionID p s)"
proof -
  have "conn_SourceInstance n = s" if n: "conns e k (connectionID p s) = Some n" "conn_Provider n = p" for n
  proof -
    obtain c where c: "map_of (e_clients e) k = Some c" "map_of (c_Connections c) (connectionID p s) = Some n"
      using n(1) by (auto simp: conns_def split: option.splits)
    have "wf_client k c" using assms(1) c(1) by (auto simp: inv_but_def clients_wf_def)
    from wf_client_conn(2) [OF this c(2)] show ?thesis using n(2) by simp
  qed
  with assms(2) show ?thesis by (auto simp: prune_def split: option.split)
qed

lemma reconcile_apply_effect:
  fixes p w at
  assumes "good_env env" and "inv_but {} {} e" and "dkeys w" "\<forall>k ss. map_of w k = Some ss \<longrightarrow> ss \<noteq> []"
    and "no_hold p e"
  defines "e' \<equiv> reconcile_apply env p w at e"
  shows "resynced p at (is_wanted w k) (conns e k) (conns e' k)"
    and "map_of (e_clients e') k = Some c' \<Longrightarrow> c_State c' = reducedState c' StateAbsent"
proof -
  define e1 where "e1 = e\<lparr>e_reconciliations := e_reconciliations e + 1\<rparr>"
  define s2 where "s2 = fold (reconcile_scan env p w at) (map fst (e_clients e1)) (e1, [])"
  obtain e3 changed where s3: "fold (reconcile_want p at) w s2 = (e3, changed)" by fastforce
  define ks where "ks = env_order env ReconcileEmitSite (map fst (e_clients e3))"
  define e4 where "e4 = fold (reconcile_publish env changed at) ks e3"
  have e': "e' = emitLocked env ''state.resynchronized'' ''authoritative_snapshot''
      (MapData [(''provider'', AnyString p)]) e4"
    unfolding e'_def reconcile_apply_def Let_def e1_def [symmetric] s2_def [symmetric] s3 prod.case
      ks_def [symmetric] e4_def [symmetric] ..
  have cl: "map_of (e_clients e') k = map_option (settle at) (map_of (e_clients e3) k)" for k
  proof -
    have "map_of (e_clients e4) k =
        (if k \<in> set ks then map_option (settle at) (map_of (e_clients e3) k) else map_of (e_clients e3) k)"
      unfolding e4_def
      by (rule fold_idem [where look = "\<lambda>e k. map_of (e_clients e) k" and I = "\<lambda>_. True" and
            upd = "\<lambda>_. map_option (settle at)"])
        (simp_all add: publish_effect option.map_comp comp_def)
    then show ?thesis
      by (auto simp: e' ks_def evict_order_keys [OF assms(1)] keys_map_of)
  qed
  have "no_hold p (fst (e1, []))" using assms(5) by (simp add: no_hold_def isWiFiProvider_def e1_def)
  note scan = scan_effect [OF assms(1) this, of w at "map fst (e_clients e1)", folded s2_def]
  have "conns (fst s2) k j = prune p (is_wanted w k) (conns e k j)" for k j
    by (auto simp: scan e1_def conns_def prune_def keys_map_of split: option.split)
  note 2 = this
  have "conns e' k j = conns e3 k j" for j
    by (cases "map_of (e_clients e3) k") (simp_all add: conns_def cl)
  moreover have "conns e3 k j = (if \<exists>s. is_wanted w k s \<and> j = connectionID p s
      then Some (refresh p at (THE s. j = connectionID p s) (prune p (is_wanted w k) (conns e k j)))
      else prune p (is_wanted w k) (conns e k j))" for j
    using want_effect [OF assms(3), of p at s2 k j] unfolding s3 2 fst_conv .
  ultimately have new: "conns e' k j = (if \<exists>s. is_wanted w k s \<and> j = connectionID p s
      then Some (refresh p at (THE s. j = connectionID p s) (prune p (is_wanted w k) (conns e k j)))
      else prune p (is_wanted w k) (conns e k j))" for j by simp
  note keep = prune_wanted [OF assms(2)]
  have the: "(THE s'. connectionID p s = connectionID p s') = s" for s by auto
  show "resynced p at (is_wanted w k) (conns e k) (conns e' k)"
    unfolding resynced_def by (auto simp: new keep the)
  show "map_of (e_clients e') k = Some c' \<Longrightarrow> c_State c' = reducedState c' StateAbsent"
    by (auto simp: cl)
qed

lemma evict_spares_present:
  assumes "good_env env" and "engine_inv e" and "evict_loop env ws n e = Some (ok, e1)"
    and "map_of (e_clients e) k = Some c" and "c_State c = StatePresent"
  shows "map_of (e_clients e1) k = Some c"
proof -
  have step: "map_of (e_clients e'') k = Some c"
    if i: "inv_but {} {} e'" and m: "map_of (e_clients e') k = Some c"
      and ev: "evictOldestNonPresentLocked env ws e' = (True, e'')" for e' e''
  proof -
    obtain v cv r where v: "evictable e' ws v cv r" and e'': "e'' = emitLocked env ''client.removed''
        ''retention_limit'' (ClientData (publicClientLocked cv))
        (e'\<lparr>e_clients := AList.delete v (e_clients e'), e_pending := AList.delete v (e_pending e')\<rparr>)"
      using evict_True [OF assms(1) inv_butD(1) [OF i] ev] by blast
    have "v \<noteq> k" using v evictable_state(1) [OF v] m assms(5) by (auto simp: evictable_def)
    then show ?thesis using m by (simp add: e'')
  qed
  have "inv_but {} {} e" using assms(2) by (simp add: engine_inv_def)
  from evict_loop_returns [OF assms(1) this, where Q = "\<lambda>e. map_of (e_clients e) k = Some c" and
      ex = ws and n = n, OF assms(4) step] assms(3)
  show ?thesis by auto
qed

section \<open>Snapshots of a provider\<close>

definition listed :: "(string, string list) gomap \<Rightarrow> string \<Rightarrow> string \<Rightarrow> bool" where
  "listed stations k s \<longleftrightarrow> (\<exists>ids. (s, ids) \<in> set stations \<and> k \<in> set ids)"

lemma Reconcile_exact:
  assumes "good_env env" and "engine_reach e" and "no_hold provider e"
    and "Reconcile env provider stations at e = Some (None, e')"
  shows "(\<forall>k s. listed stations k s \<longrightarrow> k \<in> keyset (e_clients e')) \<and>
    (\<forall>k c'. map_of (e_clients e') k = Some c' \<longrightarrow>
       resynced provider at (listed stations k) (conns e k) (conns e' k) \<and>
       c_State c' = reducedState c' StateAbsent) \<and>
    (\<forall>k c. map_of (e_clients e) k = Some c \<and> c_State c = StatePresent \<longrightarrow> k \<in> keyset (e_clients e'))"
proof -
  let ?w = "build_wanted stations"
  have listed: "is_wanted ?w k = listed stations k" for k
    by (simp add: fun_eq_iff is_wanted_build listed_def)
  have inv: "engine_inv e" by (rule engine_reach_inv [OF assms(2)])
  obtain ok e1 where 1: "evict_loop env (map fst ?w) (count_new (map fst ?w) e) e = Some (ok, e1)"
    "engine_inv e1" "evicted (map fst ?w) (count_new (map fst ?w) e) e ok e1"
    by (rule snapshot_evicts [OF assms(1) inv])
  with assms(4) have e': "e' = reconcile_apply env provider ?w at e1"
    by (cases ok) (simp_all add: Reconcile_def Let_def)
  have inv1: "inv_but {} {} e1" using 1(2) by (simp add: engine_inv_def)
  have "no_hold provider e1"
    using assms(3) no_hold_frame evictedD(2,3) [OF 1(3)] by blast
  note eff = reconcile_apply_effect [OF assms(1) inv1 build_wanted_wf [of stations] this, where at = at, folded e', unfolded listed]
  have keys: "keyset (e_clients e') = keyset (e_clients e1) \<union> keyset ?w"
    unfolding e' by (rule reconcile_apply_keeps(2) [OF assms(1) inv1 build_wanted_wf])
  have same: "conns e1 k = conns e k" if "map_of (e_clients e') k = Some c'" for k c'
  proof (cases "k \<in> keyset ?w")
    case True
    then show ?thesis using evictedD(5) [OF 1(3), of k] by (simp add: conns_def fun_eq_iff)
  next
    case False
    then have "k \<in> keyset (e_clients e1)" using map_of_mem_keys [OF that] keys by auto
    then obtain c where "map_of (e_clients e1) k = Some c" by (auto simp: keys_map_of)
    then show ?thesis using evictedD(6) [OF 1(3), of k c] by (simp add: conns_def fun_eq_iff)
  qed
  have "k \<in> keyset (e_clients e')" if "listed stations k s" for k s
    using that keys by (auto simp: listed [symmetric] is_wanted_def keys_map_of split: option.splits)
  moreover have "k \<in> keyset (e_clients e')" if "map_of (e_clients e) k = Some c" "c_State c = StatePresent" for k c
    using map_of_mem_keys [OF evict_spares_present [OF assms(1) inv 1(1) that]] keys by blast
  moreover have "resynced provider at (listed stations k) (conns e k) (conns e' k) \<and>
      c_State c' = reducedState c' StateAbsent" if "map_of (e_clients e') k = Some c'" for k c'
    using eff(1) [where k = k] eff(2) [OF that] same [OF that] by simp
  ultimately show ?thesis by blast
qed

text \<open>
  C11. \<^verbatim>\<open>Reconcile\<close> makes the engine agree with the snapshot.  Every client the snapshot lists is known
  afterwards; of each client that is known afterwards, the provider's connections are exactly those
  listed, live and just seen, with the connections of other providers as they were; its state is
  present, unknown or absent according to them; and no client that was present has been forgotten.
\<close>

theorem snapshot_exact:
  assumes "good_env env" and "engine_reach e" and "no_hold provider e"
    and "Reconcile env provider stations at e = Some (None, e')"
  shows "(\<forall>k s. listed stations k s \<longrightarrow> k \<in> keyset (e_clients e')) \<and>
    (\<forall>k c'. map_of (e_clients e') k = Some c' \<longrightarrow>
       resynced provider at (listed stations k) (conns e k) (conns e' k) \<and>
       c_State c' = reducedState c' StateAbsent) \<and>
    (\<forall>k c. map_of (e_clients e) k = Some c \<and> c_State c = StatePresent \<longrightarrow> k \<in> keyset (e_clients e'))"
  using Reconcile_exact [OF assms] .

definition demo_empty :: "(string, string list) gomap" where
  "demo_empty = [(''w0'', [])]"

theorem snapshot_exact_witness:
  "\<exists>e'. Reconcile demo_env ''ubus'' demo_empty 9 (demo_present 0) = Some (None, e') \<and>
     conns e' ''m'' ''ubus:w0'' = None"
proof -
  have "(case Reconcile demo_env ''ubus'' demo_empty 9 (demo_present 0) of Some (None, _) \<Rightarrow> True | _ \<Rightarrow> False)"
    by code_simp
  then have "\<exists>e'. Reconcile demo_env ''ubus'' demo_empty 9 (demo_present 0) = Some (None, e')"
    by (simp split: option.splits prod.splits)
  then obtain e' where o: "Reconcile demo_env ''ubus'' demo_empty 9 (demo_present 0) = Some (None, e')" ..
  have g: "e_reconnectGrace (demo_present 0) = 0" and i: "connectionID ''ubus'' ''w0'' = ''ubus:w0''"
    and n: "map_option (\<lambda>c. map_of (c_Connections c) ''ubus:w0'')
      (map_of (e_clients (demo_present 0)) ''m'') = Some (Some (new_conn ''ubus'' ''w0'' 5 5))" by code_simp+
  have h: "no_hold ''ubus'' (demo_present 0)" by (simp add: no_hold_def g)
  have k: "conns (demo_present 0) ''m'' ''ubus:w0'' = Some (new_conn ''ubus'' ''w0'' 5 5)"
    using n by (auto simp: conns_def)
  have l: "\<not> listed demo_empty k s" for k s by (simp add: listed_def demo_empty_def)
  have "conns e' ''m'' ''ubus:w0'' = None"
  proof (cases "map_of (e_clients e') ''m''")
    case None
    then show ?thesis by (simp add: conns_def)
  next
    case (Some c')
    then have "resynced ''ubus'' 9 (listed demo_empty ''m'') (conns (demo_present 0) ''m'') (conns e' ''m'')"
      using snapshot_exact [OF demo_env_good demo_present_reach h o] by blast
    then show ?thesis by (simp add: resynced_def l k prune_def new_conn_def)
  qed
  with o show ?thesis by blast
qed

end
