(* ===== verification/Engine_Source.thy ===== *)
theory Engine_Source
  imports Engine_Exact
begin

text \<open>
  Snapshots of one source: \<^verbatim>\<open>ReconcileSource\<close> is exact for that source and touches nothing else.
\<close>

section \<open>Scan, wanted clients, publication\<close>

text \<open>What the scan does to the connections of one client and to its mark in \<^verbatim>\<open>affected\<close>.\<close>

definition unlisted ::
    "string \<Rightarrow> string list \<Rightarrow> string \<Rightarrow> (string \<Rightarrow> Connection option) \<times> bool \<Rightarrow>
     (string \<Rightarrow> Connection option) \<times> bool" where
  "unlisted i wanted k s =
     (case s of (g, b) \<Rightarrow> if k \<notin> set wanted \<and> g i \<noteq> None then (g(i := None), True) else (g, b))"

lemma source_scan_effect:
  assumes "no_hold p (fst s)"
  shows "(conns (fst (source_scan p src w at cid s)) k, k \<in> set (snd (source_scan p src w at cid s))) =
      (if k = cid then unlisted (connectionID p src) w k (conns (fst s) k, k \<in> set (snd s))
       else (conns (fst s) k, k \<in> set (snd s)))"
    and "no_hold p (fst (source_scan p src w at cid s))"
  using assms
  by (auto simp: source_scan_def conns_def no_hold_def isWiFiProvider_def unlisted_def Let_def fun_eq_iff
      split: prod.splits option.splits)

lemma source_scans:
  assumes "no_hold p (fst s)"
  shows "(conns (fst (fold (source_scan p src w at) ks s)) k, k \<in> set (snd (fold (source_scan p src w at) ks s))) =
      (if k \<in> set ks then unlisted (connectionID p src) w k (conns (fst s) k, k \<in> set (snd s))
       else (conns (fst s) k, k \<in> set (snd s)))"
  by (rule fold_idem [where look = "\<lambda>s k. (conns (fst s) k, k \<in> set (snd s))" and
        I = "\<lambda>s. no_hold p (fst s)" and upd = "unlisted (connectionID p src) w"])
    (simp_all add: assms source_scan_effect, auto simp: unlisted_def split: prod.splits)

lemma source_want_effect:
  "conns (fst (source_want p src at cid s)) k =
     (if k = cid then (conns (fst s) k)(connectionID p src \<mapsto>
        refresh p at src (conns (fst s) k (connectionID p src))) else conns (fst s) k)"
  "set (snd s) \<subseteq> set (snd (source_want p src at cid s))"
  by (auto simp: source_want_def conns_def refresh_def Let_def new_client_def fun_eq_iff
      split: prod.splits option.splits)

lemma source_wants:
  "conns (fst (fold (source_want p src at) ws s)) k =
     (if k \<in> set ws then (conns (fst s) k)(connectionID p src \<mapsto>
        refresh p at src (conns (fst s) k (connectionID p src))) else conns (fst s) k)"
  "set (snd s) \<subseteq> set (snd (fold (source_want p src at) ws s))"
proof -
  show "conns (fst (fold (source_want p src at) ws s)) k =
     (if k \<in> set ws then (conns (fst s) k)(connectionID p src \<mapsto>
        refresh p at src (conns (fst s) k (connectionID p src))) else conns (fst s) k)"
    by (rule fold_idem [where look = "\<lambda>s k. conns (fst s) k" and I = "\<lambda>_. True" and
          upd = "\<lambda>_ g. g(connectionID p src \<mapsto> refresh p at src (g (connectionID p src)))"])
      (simp_all add: source_want_effect refresh_idem)
  show "set (snd s) \<subseteq> set (snd (fold (source_want p src at) ws s))"
    by (rule fold_invariant [where P = "\<lambda>t. set (snd s) \<subseteq> set (snd t)"])
      (use source_want_effect(2) in blast)+
qed

lemma source_apply_effect:
  fixes p src w at
  assumes "good_env env" and "no_hold p e"
  defines "e' \<equiv> source_apply env p src w at e" and "i \<equiv> connectionID p src"
  shows "conns e' k = (if k \<in> set w then (conns e k)(i \<mapsto> refresh p at src (conns e k i))
      else (conns e k)(i := None))"
    and "k \<notin> set w \<Longrightarrow> conns e k i \<noteq> None \<Longrightarrow> map_of (e_clients e') k = Some c' \<Longrightarrow>
      c_State c' = reducedState c' StateAbsent"
proof -
  define s1 where "s1 = fold (source_scan p src w at) (map fst (e_clients e)) (e, [])"
  obtain e2 affected where s2: "fold (source_want p src at) w s1 = (e2, affected)" by fastforce
  define ks where "ks = env_order env SourceEmitSite affected"
  define e3 where "e3 = fold (source_publish env at) ks e2"
  have e': "e' = emitLocked env ''state.resynchronized'' ''authoritative_source_snapshot''
      (MapData [(''provider'', AnyString p), (''source_instance'', AnyString src)]) e3"
    unfolding e'_def source_apply_def Let_def s1_def [symmetric] s2 prod.case
      ks_def [symmetric] e3_def [symmetric] ..
  have cl: "map_of (e_clients e') k =
      (if k \<in> set affected then map_option (settle at) (map_of (e_clients e2) k) else map_of (e_clients e2) k)"
  proof -
    have "map_of (e_clients e3) k =
        (if k \<in> set ks then map_option (settle at) (map_of (e_clients e2) k) else map_of (e_clients e2) k)"
      unfolding e3_def
      by (rule fold_idem [where look = "\<lambda>e k. map_of (e_clients e) k" and I = "\<lambda>_. True" and
            upd = "\<lambda>_. map_option (settle at)"])
        (simp_all add: publish_effect option.map_comp comp_def)
    then show ?thesis by (simp add: e' ks_def evict_order_keys [OF assms(1)])
  qed
  have "conns e' k = conns e2 k"
    by (cases "map_of (e_clients e2) k") (auto simp: conns_def cl fun_eq_iff)
  moreover have "conns e2 k = (if k \<in> set w then (conns (fst s1) k)(i \<mapsto> refresh p at src (conns (fst s1) k i))
      else conns (fst s1) k)"
    using source_wants(1) [of p src at w s1 k] by (simp add: s2 i_def)
  moreover have scan: "(conns (fst s1) k, k \<in> set (snd s1)) = unlisted i w k (conns e k, False)"
  proof (cases "k \<in> keyset (e_clients e)")
    case True
    then show ?thesis
      using source_scans [of p "(e, [])" src w at "map fst (e_clients e)" k] assms(2) by (simp add: s1_def i_def)
  next
    case False
    then have "conns e k j = None" for j by (simp add: conns_def keys_map_of)
    then show ?thesis
      using source_scans [of p "(e, [])" src w at "map fst (e_clients e)" k] assms(2) False
      by (simp add: s1_def unlisted_def)
  qed
  ultimately show "conns e' k = (if k \<in> set w then (conns e k)(i \<mapsto> refresh p at src (conns e k i))
      else (conns e k)(i := None))"
    by (auto simp: unlisted_def fun_eq_iff split: if_splits)
  show "c_State c' = reducedState c' StateAbsent"
    if "k \<notin> set w" "conns e k i \<noteq> None" "map_of (e_clients e') k = Some c'"
  proof -
    have "k \<in> set (snd s1)" using scan that(1,2) by (simp add: unlisted_def)
    then have "k \<in> set affected" using source_wants(2) [of s1 p src at w] by (auto simp: s2)
    then show ?thesis using that(3) by (auto simp: cl)
  qed
qed

section \<open>What becomes of the record of one client\<close>

text \<open>
  The effect of the scan and of the wanted clients on everything that is kept of one client: its record,
  its pending departure and its mark in \<^verbatim>\<open>affected\<close>.
\<close>

type_synonym kept = "client option \<times> pendingDeparture option \<times> bool"

definition kept_of :: "Engine \<times> string list \<Rightarrow> string \<Rightarrow> kept" where
  "kept_of s k = (map_of (e_clients (fst s)) k, map_of (e_pending (fst s)) k, k \<in> set (snd s))"

definition scan_kept :: "string \<Rightarrow> string list \<Rightarrow> string \<Rightarrow> kept \<Rightarrow> kept" where
  "scan_kept i w k v =
     (case v of (mc, pd, b) \<Rightarrow>
       (case mc of
          None \<Rightarrow> v
        | Some c \<Rightarrow>
            if map_of (c_Connections c) i = None \<or> k \<in> set w then v
            else (Some (c\<lparr>c_Connections := AList.delete i (c_Connections c)\<rparr>), pd, True)))"

definition want_kept :: "string \<Rightarrow> string \<Rightarrow> time \<Rightarrow> string \<Rightarrow> kept \<Rightarrow> kept" where
  "want_kept p src at k v =
     (case v of (mc, pd, b) \<Rightarrow>
       (let i = connectionID p src;
            c = (case mc of Some c \<Rightarrow> c | None \<Rightarrow> new_client k at)
        in (Some (c\<lparr>c_Connections := AList.update i (refresh p at src (map_of (c_Connections c) i)) (c_Connections c)\<rparr>), None,
            b \<or> (case map_of (c_Connections c) i of None \<Rightarrow> True | Some n \<Rightarrow> conn_Stale n))))"

lemma source_scan_kept:
  assumes "no_hold p (fst s)"
  shows "kept_of (source_scan p src w at cid s) k =
    (if k = cid then scan_kept (connectionID p src) w k (kept_of s k) else kept_of s k)"
  using assms
  by (auto simp: source_scan_def kept_of_def scan_kept_def no_hold_def isWiFiProvider_def Let_def
      split: prod.splits option.splits)

lemma source_want_kept:
  "kept_of (source_want p src at cid s) k = (if k = cid then want_kept p src at k (kept_of s k) else kept_of s k)"
  by (auto simp: source_want_def kept_of_def want_kept_def refresh_def Let_def split: prod.splits option.splits)

lemma want_kept_idem: "want_kept p src at k (want_kept p src at k v) = want_kept p src at k v"
  by (auto simp: want_kept_def Let_def refresh_idem split: prod.splits)
    (simp add: refresh_def new_conn_def split: option.splits)

lemma source_folds_kept:
  assumes "no_hold p e"
  shows "kept_of (fold (source_want p src at) w (fold (source_scan p src w at) (map fst (e_clients e)) (e, []))) k =
    (if k \<in> set w then want_kept p src at k (map_of (e_clients e) k, map_of (e_pending e) k, False)
     else scan_kept (connectionID p src) w k (map_of (e_clients e) k, map_of (e_pending e) k, False))"
proof -
  have "kept_of (fold (source_scan p src w at) (map fst (e_clients e)) (e, [])) k =
      (if k \<in> set (map fst (e_clients e)) then scan_kept (connectionID p src) w k (kept_of (e, []) k) else kept_of (e, []) k)"
    by (rule fold_idem [where look = kept_of and I = "\<lambda>s. no_hold p (fst s)" and upd = "scan_kept (connectionID p src) w"])
      (simp_all add: assms source_scan_effect source_scan_kept, auto simp: scan_kept_def split: prod.splits option.splits)
  also have "\<dots> = scan_kept (connectionID p src) w k (map_of (e_clients e) k, map_of (e_pending e) k, False)"
    by (auto simp: kept_of_def scan_kept_def keys_map_of split: option.splits)
  finally have scan: "kept_of (fold (source_scan p src w at) (map fst (e_clients e)) (e, [])) k = \<dots>" .
  have "kept_of (fold (source_want p src at) w s) k =
      (if k \<in> set w then want_kept p src at k (kept_of s k) else kept_of s k)" for s
    by (rule fold_idem [where look = kept_of and I = "\<lambda>_. True" and upd = "want_kept p src at"])
      (simp_all add: source_want_kept want_kept_idem)
  then show ?thesis by (auto simp: scan scan_kept_def split: option.split)
qed

lemma source_apply_kept:
  assumes "good_env env" and "no_hold p e" and "e' = source_apply env p src w at e"
  obtains mc pd b where
    "(mc, pd, b) = (if k \<in> set w then want_kept p src at k (map_of (e_clients e) k, map_of (e_pending e) k, False)
       else scan_kept (connectionID p src) w k (map_of (e_clients e) k, map_of (e_pending e) k, False))"
    "map_of (e_clients e') k = (if b then map_option (settle at) mc else mc)" "map_of (e_pending e') k = pd"
proof -
  obtain e2 affected where s2: "fold (source_want p src at) w (fold (source_scan p src w at) (map fst (e_clients e)) (e, []))
    = (e2, affected)" by fastforce
  define e3 where "e3 = fold (source_publish env at) (env_order env SourceEmitSite affected) e2"
  have e': "e' = emitLocked env ''state.resynchronized'' ''authoritative_source_snapshot''
      (MapData [(''provider'', AnyString p), (''source_instance'', AnyString src)]) e3"
    unfolding assms(3) source_apply_def Let_def s2 prod.case e3_def [symmetric] ..
  have cl: "map_of (e_clients e3) k = (if k \<in> set affected then map_option (settle at) (map_of (e_clients e2) k)
      else map_of (e_clients e2) k)"
    unfolding e3_def evict_order_keys [OF assms(1), symmetric, of affected SourceEmitSite]
    by (rule fold_idem [where look = "\<lambda>e k. map_of (e_clients e) k" and I = "\<lambda>_. True" and
          upd = "\<lambda>_. map_option (settle at)"])
      (simp_all add: publish_effect option.map_comp comp_def)
  have "e_pending (source_publish env at x e0) = e_pending e0" for x e0
    by (simp add: source_publish_def Let_def split: option.split)
  note pub = this
  have pd: "e_pending e3 = e_pending e2"
    unfolding e3_def
    by (rule fold_invariant [where P = "\<lambda>e0. e_pending e0 = e_pending e2"]) (simp_all add: pub)
  show thesis
    by (rule that) (use source_folds_kept [OF assms(2), of src at w k] cl pd in \<open>simp_all add: s2 kept_of_def e'\<close>)
qed

text \<open>The record of a client after the snapshot, in terms of the one before.\<close>

lemma source_apply_record:
  assumes "good_env env" and "no_hold p e" and "e' = source_apply env p src w at e" and "engine_inv e"
    and c': "map_of (e_clients e') k = Some c'"
  shows "k \<in> set w \<Longrightarrow> map_of (e_pending e') k = None \<and>
      (case map_of (e_clients e) k of
         None \<Rightarrow> c_FirstSeenAt c' = at \<and> c_LastSeenAt c' = at
       | Some c \<Rightarrow> c_FirstSeenAt c' = c_FirstSeenAt c \<and>
           c_LastSeenAt c' = (if c_State c = StatePresent then c_LastSeenAt c else at))"
    and "k \<notin> set w \<Longrightarrow> \<exists>c. map_of (e_clients e) k = Some c \<and>
      (if conns e k (connectionID p src) = None then c' = c
       else c_FirstSeenAt c' = c_FirstSeenAt c \<and>
         c_LastSeenAt c' = (if c_State c' = c_State c then c_LastSeenAt c else at))"
proof -
  let ?i = "connectionID p src"
  obtain mc pd b where x:
    "(mc, pd, b) = (if k \<in> set w then want_kept p src at k (map_of (e_clients e) k, map_of (e_pending e) k, False)
       else scan_kept ?i w k (map_of (e_clients e) k, map_of (e_pending e) k, False))"
    "map_of (e_clients e') k = (if b then map_option (settle at) mc else mc)" "map_of (e_pending e') k = pd"
    by (rule source_apply_kept [OF assms(1-3)])
  show "\<exists>c. map_of (e_clients e) k = Some c \<and>
      (if conns e k ?i = None then c' = c
       else c_FirstSeenAt c' = c_FirstSeenAt c \<and>
         c_LastSeenAt c' = (if c_State c' = c_State c then c_LastSeenAt c else at))" if "k \<notin> set w"
    using that x(1,2) c'
    by (cases "map_of (e_clients e) k") (auto simp: scan_kept_def conns_def settle_def Let_def split: if_splits)
  show "map_of (e_pending e') k = None \<and>
      (case map_of (e_clients e) k of
         None \<Rightarrow> c_FirstSeenAt c' = at \<and> c_LastSeenAt c' = at
       | Some c \<Rightarrow> c_FirstSeenAt c' = c_FirstSeenAt c \<and>
           c_LastSeenAt c' = (if c_State c = StatePresent then c_LastSeenAt c else at))" if w: "k \<in> set w"
  proof -
    define c where "c = (case map_of (e_clients e) k of Some c \<Rightarrow> c | None \<Rightarrow> new_client k at)"
    define c1 where "c1 = c\<lparr>c_Connections := AList.update ?i (refresh p at src (map_of (c_Connections c) ?i)) (c_Connections c)\<rparr>"
    have y: "mc = Some c1" "pd = None" "b \<longleftrightarrow> (case map_of (c_Connections c) ?i of None \<Rightarrow> True | Some n \<Rightarrow> conn_Stale n)"
      using x(1) w by (simp_all add: want_kept_def c_def c1_def Let_def)
    have "map_of (c_Connections c1) ?i = Some (refresh p at src (map_of (c_Connections c) ?i))" by (simp add: c1_def)
    moreover have "\<not> conn_Stale (refresh p at src v)" for v by (simp add: refresh_def new_conn_def split: option.split)
    ultimately have "live c1" unfolding live_def using map_of_SomeD by fastforce
    then have present: "reducedState c1 StateAbsent = StatePresent" by (simp add: reducedState_eq)
    have keep: "c_State c1 = c_State c" "c_FirstSeenAt c1 = c_FirstSeenAt c" "c_LastSeenAt c1 = c_LastSeenAt c"
      by (simp_all add: c1_def)
    show ?thesis
    proof (cases b)
      case True
      then have "c' = settle at c1" using x(2) c' y(1) by simp
      then show ?thesis
        using x(3) y(2) present keep
        by (simp add: settle_def Let_def c_def new_client_def split: option.splits if_splits)
    next
      case False
      then obtain n where n: "map_of (c_Connections c) ?i = Some n" "\<not> conn_Stale n"
        using y(3) by (auto split: option.splits)
      then obtain o' where o: "map_of (e_clients e) k = Some o'" "c = o'"
        by (cases "map_of (e_clients e) k") (auto simp: c_def new_client_def)
      have "live c" unfolding live_def using map_of_SomeD [OF n(1)] n(2) by fastforce
      moreover have "state_ok c" using assms(4) o by (auto simp: engine_inv_def inv_but_def)
      ultimately have "c_State c = StatePresent" by (simp add: state_ok_def)
      moreover have "c' = c1" using False x(2) c' y(1) by simp
      ultimately show ?thesis using x(3) y(2) keep o by simp
    qed
  qed
qed

section \<open>Snapshots of one source\<close>

text \<open>
  C12. \<^verbatim>\<open>ReconcileSource\<close> settles one source and nothing else: of each client known afterwards, the
  connection of that provider and source exists exactly if the client is listed, and is then live and
  just seen; every other connection is as it was.  Listed clients are known and present, first seen now
  if they are new, last seen now if they were not present, and no departure of theirs is pending.  A
  client that is not listed was known before: without a connection of this source its record is the very
  same, and one whose connection was withdrawn is present, unknown or absent according to what it has
  left, and last seen now exactly if that changed its state.  No client that was present is forgotten.
\<close>

theorem source_snapshot_exact:
  assumes "good_env env" and "engine_reach e" and "no_hold provider e"
    and "ReconcileSource env provider source ids at e = Some (None, e')"
    and "i = connectionID provider source"
  shows "(\<forall>k \<in> set ids. \<exists>c'. map_of (e_clients e') k = Some c' \<and> c_State c' = StatePresent \<and>
       map_of (e_pending e') k = None \<and>
       (case map_of (e_clients e) k of
          None \<Rightarrow> c_FirstSeenAt c' = at \<and> c_LastSeenAt c' = at
        | Some c \<Rightarrow> c_FirstSeenAt c' = c_FirstSeenAt c \<and>
            c_LastSeenAt c' = (if c_State c = StatePresent then c_LastSeenAt c else at))) \<and>
    (\<forall>k c'. map_of (e_clients e') k = Some c' \<longrightarrow>
       conns e' k = (if k \<in> set ids then (conns e k)(i \<mapsto> refresh provider at source (conns e k i))
                     else (conns e k)(i := None))) \<and>
    (\<forall>k c'. map_of (e_clients e') k = Some c' \<and> k \<notin> set ids \<longrightarrow>
       (\<exists>c. map_of (e_clients e) k = Some c \<and>
          (if conns e k i = None then c' = c
           else c_State c' = reducedState c' StateAbsent \<and> c_FirstSeenAt c' = c_FirstSeenAt c \<and>
             c_LastSeenAt c' = (if c_State c' = c_State c then c_LastSeenAt c else at)))) \<and>
    (\<forall>k c. map_of (e_clients e) k = Some c \<and> c_State c = StatePresent \<longrightarrow> k \<in> keyset (e_clients e'))"
proof -
  let ?w = "remdups ids"
  have inv: "engine_inv e" by (rule engine_reach_inv [OF assms(2)])
  obtain ok e1 where 1: "evict_loop env ?w (count_new ?w e) e = Some (ok, e1)"
    "engine_inv e1" "evicted ?w (count_new ?w e) e ok e1"
    by (rule snapshot_evicts [OF assms(1) inv])
  with assms(4) have e': "e' = source_apply env provider source ?w at e1"
    by (cases ok) (simp_all add: ReconcileSource_def Let_def)
  have inv1: "inv_but {} {} e1" using 1(2) by (simp add: engine_inv_def)
  have nh: "no_hold provider e1" using assms(3) no_hold_frame evictedD(2,3) [OF 1(3)] by blast
  note eff = source_apply_effect [OF assms(1) nh, where src = source and w = ?w and at = at, folded e' assms(5), unfolded set_remdups]
  note keep = source_apply_keeps [OF assms(1) inv1, of provider source ?w at, folded e', unfolded set_remdups]
  have same: "conns e1 k = conns e k" if "map_of (e_clients e') k = Some c'" for k c'
  proof (cases "k \<in> set ids")
    case True
    then show ?thesis using evictedD(5) [OF 1(3), of k] by (simp add: conns_def fun_eq_iff)
  next
    case False
    then have "k \<in> keyset (e_clients e1)" using map_of_mem_keys [OF that] keep(2) by auto
    then obtain c where "map_of (e_clients e1) k = Some c" by (auto simp: keys_map_of)
    then show ?thesis using evictedD(6) [OF 1(3), of k c] by (simp add: conns_def fun_eq_iff)
  qed
  have new: "\<exists>c'. map_of (e_clients e') k = Some c' \<and> c_State c' = StatePresent" if "k \<in> set ids" for k
  proof -
    have "k \<in> keyset (e_clients e')" using keep(2) that by simp
    then obtain c' where c': "map_of (e_clients e') k = Some c'" by (auto simp: keys_map_of)
    have ok: "state_ok c'" and wf: "wf_client k c'"
      using keep(1) c' by (auto simp: inv_but_def clients_wf_def)
    have "map_of (c_Connections c') i = Some (refresh provider at source (conns e1 k i))"
      using eff(1) [of k] that c' by (simp add: conns_def fun_eq_iff)
    moreover have "\<not> conn_Stale (refresh provider at source v)" for v
      by (simp add: refresh_def new_conn_def split: option.split)
    ultimately have "live c'" unfolding live_map_of [OF wf] by blast
    then show ?thesis using c' ok by (simp add: state_ok_present)
  qed
  have old: "k \<in> keyset (e_clients e')" if "map_of (e_clients e) k = Some c" "c_State c = StatePresent" for k c
    using map_of_mem_keys [OF evict_spares_present [OF assms(1) inv 1(1) that]] keep(2) by blast
  note rec = source_apply_record [OF assms(1) nh e' 1(2), unfolded set_remdups]
  have rec_in: "map_of (e_pending e') k = None \<and>
      (case map_of (e_clients e) k of
         None \<Rightarrow> c_FirstSeenAt c' = at \<and> c_LastSeenAt c' = at
       | Some c \<Rightarrow> c_FirstSeenAt c' = c_FirstSeenAt c \<and>
           c_LastSeenAt c' = (if c_State c = StatePresent then c_LastSeenAt c else at))"
    if "k \<in> set ids" "map_of (e_clients e') k = Some c'" for k c'
    using rec(1) [of k c'] evictedD(5) [OF 1(3), of k] that by simp
  have rec_out: "\<exists>c. map_of (e_clients e) k = Some c \<and>
      (if conns e k i = None then c' = c
       else c_State c' = reducedState c' StateAbsent \<and> c_FirstSeenAt c' = c_FirstSeenAt c \<and>
         c_LastSeenAt c' = (if c_State c' = c_State c then c_LastSeenAt c else at))"
    if "k \<notin> set ids" "map_of (e_clients e') k = Some c'" for k c'
  proof -
    note k = that
    obtain c where c: "map_of (e_clients e1) k = Some c" and
      y: "if conns e1 k i = None then c' = c
       else c_FirstSeenAt c' = c_FirstSeenAt c \<and>
         c_LastSeenAt c' = (if c_State c' = c_State c then c_LastSeenAt c else at)"
      using rec(2) [OF k(2,1)] assms(5) by blast
    have "conns e1 k = conns e k" using same that(2) by blast
    moreover have "map_of (e_clients e) k = Some c" using evictedD(6) [OF 1(3) c] .
    moreover have "conns e1 k i \<noteq> None \<Longrightarrow> c_State c' = reducedState c' StateAbsent"
      using eff(2) that by blast
    ultimately show ?thesis using y by auto
  qed
  have in_ids: "\<forall>k \<in> set ids. \<exists>c'. map_of (e_clients e') k = Some c' \<and> c_State c' = StatePresent \<and>
       map_of (e_pending e') k = None \<and>
       (case map_of (e_clients e) k of
          None \<Rightarrow> c_FirstSeenAt c' = at \<and> c_LastSeenAt c' = at
        | Some c \<Rightarrow> c_FirstSeenAt c' = c_FirstSeenAt c \<and>
            c_LastSeenAt c' = (if c_State c = StatePresent then c_LastSeenAt c else at))"
    using new rec_in by blast
  have conns: "conns e' k = (if k \<in> set ids then (conns e k)(i \<mapsto> refresh provider at source (conns e k i))
                     else (conns e k)(i := None))" if "map_of (e_clients e') k = Some c'" for k c'
    using eff(1) [of k] same [OF that] by simp
  show ?thesis
    by (intro conjI in_ids) (use conns rec_out old in blast)+
qed

theorem source_snapshot_exact_witness:
  "\<exists>e'. ReconcileSource demo_env ''ubus'' ''w0'' [''n''] 9 (demo_present 0) = Some (None, e') \<and>
     (\<exists>c'. map_of (e_clients e') ''n'' = Some c' \<and> c_State c' = StatePresent) \<and>
     conns e' ''m'' ''ubus:w0'' = None"
proof -
  have "(case ReconcileSource demo_env ''ubus'' ''w0'' [''n''] 9 (demo_present 0) of
      Some (None, _) \<Rightarrow> True | _ \<Rightarrow> False)" by code_simp
  then have "\<exists>e'. ReconcileSource demo_env ''ubus'' ''w0'' [''n''] 9 (demo_present 0) = Some (None, e')"
    by (simp split: option.splits prod.splits)
  then obtain e' where o: "ReconcileSource demo_env ''ubus'' ''w0'' [''n''] 9 (demo_present 0) = Some (None, e')" ..
  have g: "e_reconnectGrace (demo_present 0) = 0" and i: "''ubus:w0'' = connectionID ''ubus'' ''w0''"
    by code_simp+
  have h: "no_hold ''ubus'' (demo_present 0)" by (simp add: no_hold_def g)
  note r = source_snapshot_exact [OF demo_env_good demo_present_reach h o i]
  have "conns e' ''m'' ''ubus:w0'' = None"
  proof (cases "map_of (e_clients e') ''m''")
    case None
    then show ?thesis by (simp add: conns_def)
  next
    case (Some c')
    with r show ?thesis by simp
  qed
  with o r show ?thesis by auto
qed

section \<open>Both always return\<close>

text \<open>
  C13. Both reconciliations return, whatever the snapshot: the loop that evicts clients to make room
  ends.  If they report an error, the clients that were present or listed are untouched, no client
  has been added or changed, and every client left outside the snapshot is present.
\<close>

theorem reconciliation_returns:
  assumes "good_env env" and "engine_reach e"
    and "run = Reconcile env provider stations at e \<and> wanted = map fst (build_wanted stations) \<or>
         run = ReconcileSource env provider source wanted at e"
  shows "\<exists>err e'. run = Some (err, e') \<and> (err \<noteq> None \<longrightarrow>
    (\<forall>k c. map_of (e_clients e') k = Some c \<longrightarrow> map_of (e_clients e) k = Some c \<and>
       (k \<in> set wanted \<or> c_State c = StatePresent)) \<and>
    (\<forall>k c. map_of (e_clients e) k = Some c \<and> (k \<in> set wanted \<or> c_State c = StatePresent) \<longrightarrow>
       map_of (e_clients e') k = Some c))"
proof -
  have inv: "engine_inv e" by (rule engine_reach_inv [OF assms(2)])
  define w where "w = (if run = Reconcile env provider stations at e \<and> wanted = map fst (build_wanted stations)
    then wanted else remdups wanted)"
  obtain ok e1 where 1: "evict_loop env w (count_new w e) e = Some (ok, e1)"
    "engine_inv e1" "evicted w (count_new w e) e ok e1"
    by (rule snapshot_evicts [OF assms(1) inv])
  have w: "set w = set wanted" by (simp add: w_def)
  have "\<exists>err e'. run = Some (err, e') \<and> (err \<noteq> None \<longrightarrow> \<not> ok \<and> e' = e1)"
    using assms(3) 1(1)
    by (cases ok) (auto simp: Reconcile_def ReconcileSource_def Let_def w_def split: if_splits)
  then obtain err e' where r: "run = Some (err, e')" "err \<noteq> None \<longrightarrow> \<not> ok \<and> e' = e1" by blast
  have left: "k \<in> set wanted \<or> c_State c = StatePresent"
    if "\<not> ok" "map_of (e_clients e1) k = Some c" for k c
  proof (rule ccontr)
    assume "\<not> (k \<in> set wanted \<or> c_State c = StatePresent)"
    then have "\<exists>r. evictable e1 w k c r"
      by (intro evictable_reach [OF 1(2), THEN iffD2]) (simp add: that(2) w)
    with evictedD(8) [OF 1(3) that(1)] show False by blast
  qed
  have kept: "map_of (e_clients e1) k = Some c"
    if "map_of (e_clients e) k = Some c" "k \<in> set wanted \<or> c_State c = StatePresent" for k c
    using that(2)
  proof
    assume "k \<in> set wanted"
    then show ?thesis using evictedD(5) [OF 1(3), of k] that(1) w by simp
  next
    assume "c_State c = StatePresent"
    then show ?thesis by (rule evict_spares_present [OF assms(1) inv 1(1) that(1)])
  qed
  have "(\<forall>k c. map_of (e_clients e') k = Some c \<longrightarrow> map_of (e_clients e) k = Some c \<and>
       (k \<in> set wanted \<or> c_State c = StatePresent)) \<and>
    (\<forall>k c. map_of (e_clients e) k = Some c \<and> (k \<in> set wanted \<or> c_State c = StatePresent) \<longrightarrow>
       map_of (e_clients e') k = Some c)" if "err \<noteq> None"
  proof -
    from that r(2) have n: "\<not> ok" and x: "e' = e1" by simp_all
    show ?thesis unfolding x using evictedD(6) [OF 1(3)] left [OF n] kept by blast
  qed
  with r(1) show ?thesis by blast
qed

theorem reconciliation_returns_witness:
  "\<exists>err e'. Reconcile demo_env ''ubus'' [(''w0'', [''a'', ''b'', ''c''])] 9 (demo_present 0) = Some (err, e') \<and>
     err = Some SnapshotExceedsLimit \<and> ''m'' \<in> keyset (e_clients e')"
proof -
  let ?run = "Reconcile demo_env ''ubus'' [(''w0'', [''a'', ''b'', ''c''])] 9 (demo_present 0)"
  have e: "map_option fst ?run = Some (Some SnapshotExceedsLimit)" by code_simp
  have m: "map_option c_State (map_of (e_clients (demo_present 0)) ''m'') = Some StatePresent" by code_simp
  have "\<exists>err e'. ?run = Some (err, e') \<and> (err \<noteq> None \<longrightarrow>
      (\<forall>k c. map_of (e_clients (demo_present 0)) k = Some c \<and>
         (k \<in> set (map fst (build_wanted [(''w0'', [''a'', ''b'', ''c''])])) \<or> c_State c = StatePresent) \<longrightarrow>
         map_of (e_clients e') k = Some c))"
    using reconciliation_returns [OF demo_env_good demo_present_reach disjI1 [OF conjI [OF refl refl]],
        of "''ubus''" "[(''w0'', [''a'', ''b'', ''c''])]" 9 0] by blast
  then obtain err e' where r: "?run = Some (err, e')" and k: "err \<noteq> None \<longrightarrow>
      (\<forall>k c. map_of (e_clients (demo_present 0)) k = Some c \<and>
         (k \<in> set (map fst (build_wanted [(''w0'', [''a'', ''b'', ''c''])])) \<or> c_State c = StatePresent) \<longrightarrow>
         map_of (e_clients e') k = Some c)" by (elim exE conjE)
  have err: "err = Some SnapshotExceedsLimit" using e by (simp add: r)
  obtain c where "map_of (e_clients (demo_present 0)) ''m'' = Some c" "c_State c = StatePresent"
    using m by (auto simp only: map_option_eq_Some)
  with k err have "map_of (e_clients e') ''m'' = Some c" by blast
  then have "''m'' \<in> keyset (e_clients e')" by (rule map_of_mem_keys)
  with r err show ?thesis by blast
qed

end
