(* ===== verification/Identity.thy ===== *)
theory Identity
  imports Go_Strings
begin

text \<open>
  \<^verbatim>\<open>internal/identity\<close>: the canonical client identifier made from a MAC address, and the agent's own
  identity, which is read from a file or created in it.
\<close>

section \<open>MAC addresses\<close>

text \<open>\<^verbatim>\<open>xtoi2\<close> of the \<^verbatim>\<open>net\<close> package: two hexadecimal digits, then the separator or the end of the string.\<close>

definition xtoi2 :: "string \<Rightarrow> char option \<Rightarrow> byte option" where
  "xtoi2 s e =
     (case s of
        a # b # rest \<Rightarrow>
          if rest \<noteq> [] \<and> Some (hd rest) \<noteq> e then None
          else (case (hexval a, hexval b) of
                  (Some x, Some y) \<Rightarrow> Some (of_nat (16 * x + y))
                | _ \<Rightarrow> None)
      | _ \<Rightarrow> None)"

text \<open>The two loops of \<^verbatim>\<open>net.ParseMAC\<close>, over groups of one and of two octets.\<close>

fun parse_octets :: "nat \<Rightarrow> char \<Rightarrow> string \<Rightarrow> byte list option" where
  "parse_octets 0 sep s = Some []"
| "parse_octets (Suc n) sep s =
     (case xtoi2 s (Some sep) of
        None \<Rightarrow> None
      | Some b \<Rightarrow> map_option (Cons b) (parse_octets n sep (drop 3 s)))"

fun parse_pairs :: "nat \<Rightarrow> char \<Rightarrow> string \<Rightarrow> byte list option" where
  "parse_pairs 0 sep s = Some []"
| "parse_pairs (Suc n) sep s =
     (case (xtoi2 (take 2 s) None, xtoi2 (drop 2 s) (Some sep)) of
        (Some a, Some b) \<Rightarrow> map_option (\<lambda>bs. a # b # bs) (parse_pairs n sep (drop 5 s))
      | _ \<Rightarrow> None)"

definition ParseMAC :: "string \<Rightarrow> byte list option" where
  "ParseMAC s =
     (if length s < 14 then None
      else if s ! 2 = CHR '':'' \<or> s ! 2 = CHR ''-''
      then (if (length s + 1) mod 3 \<noteq> 0 then None
            else let n = (length s + 1) div 3 in
                 if n \<noteq> 6 \<and> n \<noteq> 8 \<and> n \<noteq> 20 then None else parse_octets n (s ! 2) s)
      else if s ! 4 = CHR ''.''
      then (if (length s + 1) mod 5 \<noteq> 0 then None
            else let n = 2 * (length s + 1) div 5 in
                 if n \<noteq> 6 \<and> n \<noteq> 8 \<and> n \<noteq> 20 then None else parse_pairs (n div 2) (s ! 4) s)
      else None)"

text \<open>\<^verbatim>\<open>HardwareAddr.String\<close>.\<close>

fun mac_string :: "byte list \<Rightarrow> string" where
  "mac_string [] = []"
| "mac_string [b] = hex_byte b"
| "mac_string (b # bs) = hex_byte b @ '':'' @ mac_string bs"

datatype identity_err = InvalidMAC

definition ClientID :: "string \<Rightarrow> identity_err + string" where
  "ClientID value =
     (case ParseMAC (TrimSpace value) of
        None \<Rightarrow> Inl InvalidMAC
      | Some hw \<Rightarrow>
          if length hw \<noteq> 6 then Inl InvalidMAC
          else Inr (''mac:'' @ lower_ascii (mac_string hw)))"

section \<open>Lemmas\<close>

lemma lower_mac [simp]: "lower_ascii (mac_string hw) = mac_string hw"
  by (induction hw rule: mac_string.induct)
     (simp_all add: lower_ascii_def hex_byte_def lower_hexDigit, simp_all add: lower_char_def)

lemma six_octets:
  "length hw = 6 \<longleftrightarrow> (\<exists>a b c d e f. hw = [a, b, c, d, e, f])"
  by (auto simp: eval_nat_numeral length_Suc_conv)

text \<open>Six octets written with any separator the parser takes and digits of either case.\<close>

lemma xtoi2_digits:
  assumes "hexval a = Some x" and "hexval b = Some y" and "rest = [] \<or> Some (hd rest) = e"
  shows "xtoi2 (a # b # rest) e = Some (of_nat (16 * x + y))"
  using assms by (auto simp: xtoi2_def)

lemma hexval_sep [simp]: "hexval (CHR '':'') = None" "hexval (CHR ''-'') = None" "hexval (CHR ''.'') = None"
  by (simp_all add: hexval_def)

definition octet :: "char \<times> char \<Rightarrow> byte" where
  "octet p = of_nat (16 * the (hexval (fst p)) + the (hexval (snd p)))"

definition is_octet :: "char \<times> char \<Rightarrow> bool" where
  "is_octet p \<longleftrightarrow> hexval (fst p) \<noteq> None \<and> hexval (snd p) \<noteq> None"

fun spell :: "char \<Rightarrow> (char \<times> char) list \<Rightarrow> string" where
  "spell sep [] = []"
| "spell sep [(a, b)] = [a, b]"
| "spell sep ((a, b) # ps) = a # b # sep # spell sep ps"

fun spell_dots :: "(char \<times> char) list \<Rightarrow> string" where
  "spell_dots ((a, b) # (c, d) # p # ps) = a # b # c # d # CHR ''.'' # spell_dots (p # ps)"
| "spell_dots ((a, b) # ps) = a # b # spell_dots ps"
| "spell_dots [] = []"

lemma xtoi2_octet:
  "is_octet (a, b) \<Longrightarrow> rest = [] \<or> Some (hd rest) = e \<Longrightarrow> xtoi2 (a # b # rest) e = Some (octet (a, b))"
  by (auto simp: is_octet_def octet_def xtoi2_digits)

lemma parse_octets_spell:
  "list_all is_octet ps \<Longrightarrow> parse_octets (length ps) sep (spell sep ps) = Some (map octet ps)"
  by (induction sep ps rule: spell.induct) (auto simp: xtoi2_octet)

lemma ParseMAC_octets:
  assumes "sep = CHR '':'' \<or> sep = CHR ''-''" and "length ps = 6" and "list_all is_octet ps"
  shows "ParseMAC (spell sep ps) = Some (map octet ps)"
proof -
  have "length (spell sep ps) = 17 \<and> spell sep ps ! 2 = sep"
    using assms(2) by (auto simp: eval_nat_numeral length_Suc_conv)
  then show ?thesis
    using assms(1) parse_octets_spell [OF assms(3), of sep]
    by (auto simp: ParseMAC_def assms(2))
qed

lemma parse_pairs_Cons:
  assumes "is_octet (a, b)" and "is_octet (c, d)" and "rest = [] \<or> hd rest = CHR ''.''"
  shows "parse_pairs (Suc n) (CHR ''.'') (a # b # c # d # rest) =
    map_option (\<lambda>bs. octet (a, b) # octet (c, d) # bs) (parse_pairs n (CHR ''.'') (drop 1 rest))"
  using assms xtoi2_octet [OF assms(1), of "[]" None] xtoi2_octet [OF assms(2), of rest "Some (CHR ''.'')"]
  by (auto simp: numeral_2_eq_2)

lemma ParseMAC_dots:
  assumes "length ps = 6" and "list_all is_octet ps"
  shows "ParseMAC (spell_dots ps) = Some (map octet ps)"
proof -
  obtain p1 p2 p3 p4 p5 p6 where ps: "ps = [p1, p2, p3, p4, p5, p6]"
    using assms(1) by (auto simp: eval_nat_numeral length_Suc_conv)
  obtain a b c d e f g h i j k l where
    p: "p1 = (a, b)" "p2 = (c, d)" "p3 = (e, f)" "p4 = (g, h)" "p5 = (i, j)" "p6 = (k, l)"
    by (cases p1; cases p2; cases p3; cases p4; cases p5; cases p6) auto
  have nc: "c \<noteq> CHR '':'' \<and> c \<noteq> CHR ''-''" using assms(2) by (auto simp: ps p is_octet_def)
  have s: "spell_dots ps = [a, b, c, d, CHR ''.'', e, f, g, h, CHR ''.'', i, j, k, l]"
    by (simp add: ps p)
  have "parse_pairs (Suc (Suc (Suc 0))) (CHR ''.'')
      [a, b, c, d, CHR ''.'', e, f, g, h, CHR ''.'', i, j, k, l] = Some (map octet ps)"
    using assms(2) unfolding ps p
    by (simp add: parse_pairs_Cons del: parse_pairs.simps(2))
  then have "parse_pairs 3 (CHR ''.'') (spell_dots ps) = Some (map octet ps)"
    unfolding s numeral_3_eq_3 .
  moreover have "length (spell_dots ps) = 14" "spell_dots ps ! 2 = c" "spell_dots ps ! 4 = CHR ''.''"
    by (simp_all add: s)
  ultimately show ?thesis using nc by (simp add: ParseMAC_def Let_def del: parse_pairs.simps)
qed

lemma spell_Cons: "spell sep (p # ps) = fst p # snd p # (if ps = [] then [] else sep # spell sep ps)"
  by (cases p; cases ps) simp_all

lemma spell_ends:
  "ps \<noteq> [] \<Longrightarrow> spell sep ps \<noteq> [] \<and> hd (spell sep ps) = fst (hd ps) \<and> last (spell sep ps) = snd (last ps)"
  by (induction ps) (auto simp: spell_Cons)

lemma spell_dots_ends:
  "ps \<noteq> [] \<Longrightarrow> spell_dots ps \<noteq> [] \<and> hd (spell_dots ps) = fst (hd ps) \<and> last (spell_dots ps) = snd (last ps)"
  by (induction ps rule: spell_dots.induct) auto

lemma spell_plain:
  assumes "length ps = 6" and "list_all is_octet ps"
  shows "spell sep ps \<noteq> [] \<and> plain (hd (spell sep ps)) \<and> plain (last (spell sep ps))"
    and "spell_dots ps \<noteq> [] \<and> plain (hd (spell_dots ps)) \<and> plain (last (spell_dots ps))"
proof -
  have ne: "ps \<noteq> []" using assms(1) by auto
  have "is_octet p \<Longrightarrow> plain (fst p) \<and> plain (snd p)" for p by (auto simp: is_octet_def hexval_plain)
  then have "plain (fst (hd ps)) \<and> plain (snd (last ps))"
    using ne assms(2) by (simp add: list_all_iff)
  then show "spell sep ps \<noteq> [] \<and> plain (hd (spell sep ps)) \<and> plain (last (spell sep ps))"
    and "spell_dots ps \<noteq> [] \<and> plain (hd (spell_dots ps)) \<and> plain (last (spell_dots ps))"
    using spell_ends [OF ne, of sep] spell_dots_ends [OF ne] by simp_all
qed

text \<open>The canonical spelling of octets is one of these spellings.\<close>

definition digits :: "byte \<Rightarrow> char \<times> char" where
  "digits b = (hexDigit (unat b div 16), hexDigit (unat b mod 16))"

lemma digits_octet [simp]: "is_octet (digits b)" "octet (digits b) = b"
  by (simp_all add: digits_def is_octet_def octet_def)

lemma mac_string_spell: "mac_string hw = spell (CHR '':'') (map digits hw)"
  by (induction hw rule: mac_string.induct) (simp_all add: hex_byte_def digits_def)

text \<open>
  All the usual spellings of an address name one client: six octets of hexadecimal digits of
  either case, separated by colons, by hyphens, or in dotted pairs, with ASCII spaces around them,
  all give \<^verbatim>\<open>mac:\<close> and the lower-case colon form of the same octets.
\<close>

theorem clientid_spellings:
  assumes "length ps = 6" and "list_all is_octet ps"
    and "list_all ascii_space ws" and "list_all ascii_space ws'"
    and "s = spell (CHR '':'') ps \<or> s = spell (CHR ''-'') ps \<or> s = spell_dots ps"
  shows "ClientID (ws @ s @ ws') = Inr (''mac:'' @ mac_string (map octet ps))"
proof -
  have "s \<noteq> [] \<and> plain (hd s) \<and> plain (last s)"
    using assms(5) spell_plain [OF assms(1,2)] by auto
  then have "TrimSpace (ws @ s @ ws') = s" using TrimSpace_around [OF assms(3,4), of s] by simp
  moreover have "ParseMAC s = Some (map octet ps)"
    using assms(5) ParseMAC_octets [OF _ assms(1,2)] ParseMAC_dots [OF assms(1,2)] by auto
  ultimately show ?thesis by (simp add: ClientID_def assms(1))
qed

theorem clientid_spellings_witness:
  "ClientID '' AA-bB-0c-DD-EE-ff '' = Inr ''mac:aa:bb:0c:dd:ee:ff''"
proof -
  let ?ps = "[(CHR ''A'', CHR ''A''), (CHR ''b'', CHR ''B''), (CHR ''0'', CHR ''c''),
    (CHR ''D'', CHR ''D''), (CHR ''E'', CHR ''E''), (CHR ''f'', CHR ''f'')]"
  have h: "list_all is_octet ?ps" and w: "list_all ascii_space '' ''" by code_simp+
  have s: "''AA-bB-0c-DD-EE-ff'' = spell (CHR ''-'') ?ps" and
    v: "''mac:'' @ mac_string (map octet ?ps) = ''mac:aa:bb:0c:dd:ee:ff''" by code_simp+
  have "ClientID ('' '' @ ''AA-bB-0c-DD-EE-ff'' @ '' '') = Inr (''mac:'' @ mac_string (map octet ?ps))"
    by (rule clientid_spellings [OF _ h w w]) (simp, rule disjI2, rule disjI1, rule s)
  then show ?thesis unfolding v by simp
qed

lemma spell_inj: "length ps = length qs \<Longrightarrow> spell sep ps = spell sep qs \<Longrightarrow> ps = qs"
proof (induction ps qs rule: list_induct2)
  case Nil
  then show ?case by simp
next
  case (Cons p ps q qs)
  then show ?case by (cases p; cases q) (auto simp: spell_Cons split: if_splits)
qed

text \<open>
  C15. Client identifiers are canonical: an accepted value gives \<^verbatim>\<open>mac:\<close> and the colon form of exactly
  six octets, 21 characters in all; feeding that form back gives the same identifier; and two
  different addresses never share one.
\<close>

theorem clientid_canonical:
  "(ClientID v = Inr cid \<longrightarrow> (\<exists>hw. length hw = 6 \<and> ParseMAC (TrimSpace v) = Some hw \<and>
      cid = ''mac:'' @ mac_string hw \<and> length cid = 21 \<and> ClientID (mac_string hw) = Inr cid)) \<and>
   (length hw = 6 \<and> length hw' = 6 \<and> mac_string hw = mac_string hw' \<longrightarrow> hw = hw')"
proof (intro conjI impI)
  assume "ClientID v = Inr cid"
  then obtain hw where hw: "ParseMAC (TrimSpace v) = Some hw" "length hw = 6" "cid = ''mac:'' @ mac_string hw"
    by (auto simp: ClientID_def split: option.splits if_splits)
  have d: "list_all is_octet (map digits hw)" by (simp add: list_all_iff)
  note sp = spell_plain(1) [of "map digits hw" "CHR '':''"]
  have "ClientID (mac_string hw) = Inr cid"
    using hw(2,3) d sp ParseMAC_octets [of "CHR '':''" "map digits hw"]
    by (simp add: ClientID_def mac_string_spell TrimSpace_id comp_def)
       (simp add: mac_string_spell [symmetric])
  moreover have "length cid = 21"
    using hw(2) by (auto simp: hw(3) six_octets hex_byte_def)
  ultimately show "\<exists>hw. length hw = 6 \<and> ParseMAC (TrimSpace v) = Some hw \<and>
      cid = ''mac:'' @ mac_string hw \<and> length cid = 21 \<and> ClientID (mac_string hw) = Inr cid"
    using hw by blast
next
  assume a: "length hw = 6 \<and> length hw' = 6 \<and> mac_string hw = mac_string hw'"
  then have "map digits hw = map digits hw'"
    by (intro spell_inj [where sep = "CHR '':''"]) (simp_all add: mac_string_spell)
  then have "map octet (map digits hw) = map octet (map digits hw')" by simp
  then show "hw = hw'" by (simp add: comp_def)
qed

theorem clientid_canonical_witness:
  "ClientID ''AA-BB-CC-DD-EE-FF'' = Inr ''mac:aa:bb:cc:dd:ee:ff'' \<and> length ''mac:aa:bb:cc:dd:ee:ff'' = 21"
proof -
  have "ClientID ''AA-BB-CC-DD-EE-FF'' = Inr ''mac:aa:bb:cc:dd:ee:ff''" by code_simp
  with clientid_canonical [of "''AA-BB-CC-DD-EE-FF''" "''mac:aa:bb:cc:dd:ee:ff''"] show ?thesis by blast
qed

section \<open>The agent's identity\<close>

text \<open>
  \<^verbatim>\<open>LoadOrCreateAgentID\<close> asks the operating system and calls itself again when another process created
  the file meanwhile.  A round holds the answers of one call; the result is \<open>None\<close> if the rounds end
  in the middle of that race, and otherwise comes with what was written to the file.
\<close>

datatype fs_read = FileData string | FileMissing | FileError

datatype fs_open = Opened | AlreadyExists | OpenError

record fs_round =
  fr_read :: fs_read
  fr_mkdir :: bool
  fr_rand :: "byte list option"
  fr_open :: fs_open
  fr_write :: bool
  fr_close :: bool

datatype agent_err =
    IdentityInvalid
  | ReadIdentity
  | CreateDirectory
  | GenerateIdentity
  | CreateIdentity
  | WriteIdentity
  | CloseIdentity

definition stored_identity :: "string \<Rightarrow> agent_err + string" where
  "stored_identity data =
     (let value = TrimSpace data in
      case DecodeString value of
        None \<Rightarrow> Inl IdentityInvalid
      | Some decoded \<Rightarrow> if length decoded \<noteq> 16 then Inl IdentityInvalid else Inr value)"

fun LoadOrCreateAgentID :: "fs_round list \<Rightarrow> ((agent_err + string) \<times> string option) option" where
  "LoadOrCreateAgentID [] = None"
| "LoadOrCreateAgentID (r # rounds) =
     (case fr_read r of
        FileData data \<Rightarrow> Some (stored_identity data, None)
      | FileError \<Rightarrow> Some (Inl ReadIdentity, None)
      | FileMissing \<Rightarrow>
          if \<not> fr_mkdir r then Some (Inl CreateDirectory, None)
          else (case fr_rand r of
                  None \<Rightarrow> Some (Inl GenerateIdentity, None)
                | Some raw \<Rightarrow>
                    let value = EncodeToString raw in
                    (case fr_open r of
                       AlreadyExists \<Rightarrow> LoadOrCreateAgentID rounds
                     | OpenError \<Rightarrow> Some (Inl CreateIdentity, None)
                     | Opened \<Rightarrow>
                         if \<not> fr_write r then Some (Inl WriteIdentity, None)
                         else if \<not> fr_close r then Some (Inl CloseIdentity, Some (value @ [CHR 0x0A]))
                         else Some (Inr value, Some (value @ [CHR 0x0A])))))"

lemma stored_identity_ok:
  "stored_identity data = Inr v \<Longrightarrow> \<exists>bs. DecodeString v = Some bs \<and> length bs = 16"
  by (auto simp: stored_identity_def Let_def split: option.splits if_splits)

lemma stored_identity_written:
  assumes "length raw = 16"
  shows "stored_identity (EncodeToString raw @ [CHR 0x0A]) = Inr (EncodeToString raw)"
proof -
  have len: "length (EncodeToString raw) = 32"
    using DecodeString_length [OF DecodeString_Encode, of raw] assms by simp
  then have ne: "EncodeToString raw \<noteq> []" by auto
  have "plain c" if "c \<in> set (EncodeToString raw)" for c
    using DecodeString_hex [OF DecodeString_Encode that] hexval_plain by blast
  then have "TrimSpace ([] @ EncodeToString raw @ [CHR 0x0A]) = EncodeToString raw"
    using ne by (intro TrimSpace_around) (simp_all add: ascii_space_def)
  then show ?thesis using assms by (simp add: stored_identity_def)
qed

text \<open>
  C16. The agent's identity is always 16 octets in hexadecimal, whether it is read or created, and it
  survives a restart: a complete write of the file is one from which the next start reads the same
  identity back.  The random source is assumed to fill its 16-byte buffer when it reports success.
\<close>

theorem agent_identity_stable:
  assumes "\<forall>r \<in> set rounds. \<forall>raw. fr_rand r = Some raw \<longrightarrow> length raw = 16"
    and "LoadOrCreateAgentID rounds = Some (Inr v, written)"
  shows "(\<exists>bs. DecodeString v = Some bs \<and> length bs = 16) \<and> length v = 32 \<and>
    (\<forall>content. written = Some content \<longrightarrow>
       LoadOrCreateAgentID (r\<lparr>fr_read := FileData content\<rparr> # later) = Some (Inr v, None))"
  using assms
proof (induction rounds)
  case Nil
  then show ?case by simp
next
  case (Cons q rounds)
  show ?case
  proof (cases "fr_read q = FileMissing \<and> fr_open q = AlreadyExists")
    case True
    with Cons show ?thesis by (auto simp: Let_def split: if_splits option.splits)
  next
    case False
    have "(\<exists>bs. DecodeString v = Some bs \<and> length bs = 16) \<and>
      (\<forall>content. written = Some content \<longrightarrow> stored_identity content = Inr v)"
      using False Cons.prems stored_identity_ok [of _ v]
      by (auto simp: Let_def stored_identity_written split: fs_read.splits fs_open.splits if_splits option.splits)
    then show ?thesis using DecodeString_length by fastforce
  qed
qed

definition demo_round :: fs_round where
  "demo_round = \<lparr>fr_read = FileMissing, fr_mkdir = True, fr_rand = Some (replicate 16 171),
     fr_open = Opened, fr_write = True, fr_close = True\<rparr>"

theorem agent_identity_stable_witness:
  "LoadOrCreateAgentID [demo_round\<lparr>fr_read := FileData (''abababababababababababababababab'' @ [CHR 0x0A])\<rparr>] =
     Some (Inr ''abababababababababababababababab'', None)"
proof -
  have h: "\<forall>r \<in> set [demo_round]. \<forall>raw. fr_rand r = Some raw \<longrightarrow> length raw = 16"
    by (simp add: demo_round_def)
  have r: "LoadOrCreateAgentID [demo_round] =
      Some (Inr ''abababababababababababababababab'', Some (''abababababababababababababababab'' @ [CHR 0x0A]))"
    by code_simp
  from agent_identity_stable [OF h r, of demo_round "[]"] show ?thesis by blast
qed

end
