(* ===== verification/Hostapd.thy ===== *)
theory Hostapd
  imports Protocol Identity
begin

text \<open>
  \<^verbatim>\<open>internal/providers/ubus/global.go\<close>: the events of hostapd's global control socket, from the text of
  one datagram to an observation on the provider's queue.
\<close>

section \<open>Parsing\<close>

definition providerID :: string where
  "providerID = ''ubus-hostapd''"

datatype hostapd_err = InvalidClientIdentifier

text \<open>\<open>Inr None\<close> is an event that is not relevant.\<close>

definition event_type :: "string \<Rightarrow> string" where
  "event_type f =
     (case IndexByte f (CHR ''>'') of
        Some n \<Rightarrow> if HasPrefix f ''<'' then drop (n + 1) f else f
      | None \<Rightarrow> f)"

definition parseHostapdEvent ::
    "string \<Rightarrow> string list \<Rightarrow> time \<Rightarrow> hostapd_err + Observation option" where
  "parseHostapdEvent data known received =
     (let fields = Fields (TrimSpace data) in
      if length fields < 3 \<or> \<not> HasPrefix (fields ! 0) ''IFNAME='' then Inr None
      else
        let source = ''hostapd.'' @ TrimPrefix (fields ! 0) ''IFNAME='';
            etype = event_type (fields ! 1)
        in if source \<notin> set known then Inr None
           else
             (case (if etype = ''AP-STA-CONNECTED'' then Some WiFiAssociated
                    else if etype = ''AP-STA-DISCONNECTED'' then Some WiFiDisassociated
                    else None) of
                None \<Rightarrow> Inr None
              | Some kind \<Rightarrow>
                  (case ClientID (fields ! 2) of
                     Inl _ \<Rightarrow> Inl InvalidClientIdentifier
                   | Inr cid \<Rightarrow>
                       Inr (Some \<lparr>ob_Provider = providerID, ob_SourceInstance = source, ob_ObservedAt = None,
                                  ob_ReceivedAt = received, ob_ClientID = cid, ob_Kind = kind,
                                  ob_Confidence = Authoritative\<rparr>))))"

section \<open>The subscription\<close>

text \<open>
  What one \<^verbatim>\<open>ReadMsgUnix\<close> gives: a datagram and whether it was truncated, or an error; after a timeout,
  whether a \<^verbatim>\<open>PING\<close> could be written then.  \<open>NoDeadline\<close> is a \<^verbatim>\<open>SetReadDeadline\<close> that fails before the read.
\<close>

datatype socket_read =
    Datagram string bool time
  | ReadTimeout time bool
  | ReadClosed
  | ReadFailed
  | NoDeadline
  | Taken

datatype subscribe_err =
    AttachFailed
  | AttachTooLong
  | AttachRejected
  | ProbeFailed
  | DeadlineError
  | ReadError
  | EventTooLong
  | InvalidEvent
  | QueueFull

record subscriptionEvent =
  se_generation :: uint64
  se_value :: Observation

text \<open>The answer to \<^verbatim>\<open>ATTACH\<close>.\<close>

definition attach_reply :: "socket_read \<Rightarrow> subscribe_err option" where
  "attach_reply r =
     (case r of
        Datagram data trunc _ \<Rightarrow>
          if trunc then Some AttachTooLong
          else if TrimSpace data \<noteq> ''OK'' then Some AttachRejected else None
      | _ \<Rightarrow> Some AttachFailed)"

text \<open>
  The loop of \<^verbatim>\<open>Subscribe\<close>, over the reads it makes, each with whether the context has ended by then.
  A deadline that cannot be set is an error even then.  \<open>lastKA\<close> is \<^verbatim>\<open>lastKeepalive\<close>, and the
  channel \<^verbatim>\<open>events\<close> is what has been sent on it and how much of that its reader has taken, which it may
  do between two reads (\<open>Taken\<close>).  The result \<open>None\<close> is a loop that waits for its next read.
\<close>

record subscription =
  sb_known :: "string list"
  sb_generation :: uint64
  sb_cap :: nat
  sb_interval :: duration

record event_queue =
  eq_sent :: "subscriptionEvent list"
  eq_taken :: nat

definition eq_room :: "nat \<Rightarrow> event_queue \<Rightarrow> bool" where
  "eq_room cap q \<longleftrightarrow> length (eq_sent q) - eq_taken q < cap"

fun subscribe_loop ::
    "subscription \<Rightarrow> time \<Rightarrow> event_queue \<Rightarrow> (socket_read \<times> bool) list \<Rightarrow>
     subscribe_err option option \<times> event_queue" where
  "subscribe_loop s lastKA q [] = (None, q)"
| "subscribe_loop s lastKA q ((r, ended) # rs) =
     (case r of
        Taken \<Rightarrow>
          subscribe_loop s lastKA
            (if eq_taken q < length (eq_sent q) then q\<lparr>eq_taken := eq_taken q + 1\<rparr> else q) rs
      | ReadClosed \<Rightarrow> (Some None, q)
      | ReadFailed \<Rightarrow> (Some (if ended then None else Some ReadError), q)
      | NoDeadline \<Rightarrow> (Some (Some DeadlineError), q)
      | ReadTimeout now ping \<Rightarrow>
          if ended then (Some None, q)
          else if now - lastKA \<ge> sb_interval s
          then (if \<not> ping then (Some (Some ProbeFailed), q)
                else subscribe_loop s now q rs)
          else subscribe_loop s lastKA q rs
      | Datagram data trunc now \<Rightarrow>
          if trunc then (Some (Some EventTooLong), q)
          else (case parseHostapdEvent data (sb_known s) now of
                  Inl _ \<Rightarrow> (Some (Some InvalidEvent), q)
                | Inr None \<Rightarrow> subscribe_loop s lastKA q rs
                | Inr (Some v) \<Rightarrow>
                    if eq_room (sb_cap s) q
                    then subscribe_loop s lastKA
                           (q\<lparr>eq_sent := eq_sent q @ [\<lparr>se_generation = sb_generation s, se_value = v\<rparr>]\<rparr>) rs
                    else (Some (Some QueueFull), q)))"

text \<open>\<^verbatim>\<open>Subscribe\<close> after the socket has been set up: the attachment, then the loop.\<close>

definition Subscribe_events ::
    "subscription \<Rightarrow> time \<Rightarrow> socket_read \<Rightarrow> event_queue \<Rightarrow> (socket_read \<times> bool) list \<Rightarrow>
     subscribe_err option option \<times> event_queue" where
  "Subscribe_events s now reply q rs =
     (case attach_reply reply of
        Some err \<Rightarrow> (Some (Some err), q)
      | None \<Rightarrow> subscribe_loop s now q rs)"

section \<open>Parsing is sound and complete\<close>

lemma HasPrefix_append [simp]: "HasPrefix (p @ s) p"
  by (simp add: HasPrefix_def)

lemma TrimPrefix_append [simp]: "TrimPrefix (p @ s) p = s"
  by (simp add: TrimPrefix_def)

lemma HasPrefix_split: "HasPrefix s p \<Longrightarrow> s = p @ TrimPrefix s p"
  unfolding HasPrefix_def TrimPrefix_def by (metis append_take_drop_id)

lemma event_type_priority:
  assumes "CHR ''>'' \<notin> set prio"
  shows "event_type (''<'' @ prio @ ''>'' @ e) = e"
  using assms IndexByte_append [of "CHR ''>''" "''<'' @ prio" e]
  by (simp add: event_type_def HasPrefix_def)

lemma clientid_ok: "ClientID v = Inr cid \<Longrightarrow> HasPrefix cid ''mac:'' \<and> length cid = 21"
  by (auto simp: ClientID_def six_octets hex_byte_def HasPrefix_def split: option.splits if_splits)

text \<open>
  The notices of hostapd's control interface: the interface, the event after an optional priority in
  angle brackets, the address of the station, and whatever follows.
\<close>

definition notice_name :: "Kind \<Rightarrow> string \<Rightarrow> bool" where
  "notice_name kind name \<longleftrightarrow>
     kind = WiFiAssociated \<and> name = ''AP-STA-CONNECTED'' \<or> kind = WiFiDisassociated \<and> name = ''AP-STA-DISCONNECTED''"

definition station_notice :: "string \<Rightarrow> string \<Rightarrow> Kind \<Rightarrow> string \<Rightarrow> bool" where
  "station_notice data ifname kind mac \<longleftrightarrow>
     (\<exists>event name rest. Fields (TrimSpace data) = (''IFNAME='' @ ifname) # event # mac # rest \<and> notice_name kind name \<and>
        (event = name \<or> (\<exists>prio. CHR ''>'' \<notin> set prio \<and> event = ''<'' @ prio @ ''>'' @ name)))"

lemma IndexByte_split:
  "IndexByte s c = Some n \<Longrightarrow> c \<notin> set (take n s) \<and> s = take n s @ c # drop (n + 1) s"
proof (induction s arbitrary: n)
  case (Cons x s)
  then show ?case by (cases "x = c") auto
qed simp

lemma event_type_notice:
  assumes "notice_name kind name"
  shows "event_type f = name \<longleftrightarrow> f = name \<or> (\<exists>prio. CHR ''>'' \<notin> set prio \<and> f = ''<'' @ prio @ ''>'' @ name)"
proof
  assume r: "f = name \<or> (\<exists>prio. CHR ''>'' \<notin> set prio \<and> f = ''<'' @ prio @ ''>'' @ name)"
  have "event_type name = name" using assms by (auto simp: notice_name_def event_type_def HasPrefix_def split: option.split)
  with r event_type_priority show "event_type f = name" by blast
next
  assume e: "event_type f = name"
  show "f = name \<or> (\<exists>prio. CHR ''>'' \<notin> set prio \<and> f = ''<'' @ prio @ ''>'' @ name)"
  proof (cases "\<exists>n. IndexByte f (CHR ''>'') = Some n \<and> HasPrefix f ''<''")
    case True
    then obtain n where n: "IndexByte f (CHR ''>'') = Some n" "HasPrefix f ''<''" by blast
    then have "drop (n + 1) f = name" using e by (simp add: event_type_def)
    moreover obtain t where t: "f = CHR ''<'' # t" using n(2) by (cases f) (auto simp: HasPrefix_def)
    moreover obtain m where m: "n = Suc m" using n(1) t by (cases n) (auto split: if_splits)
    moreover note IndexByte_split [OF n(1)]
    ultimately have "CHR ''>'' \<notin> set (take m t)" "f = ''<'' @ take m t @ ''>'' @ name" by auto
    then show ?thesis by blast
  next
    case False
    then show ?thesis using e by (auto simp: event_type_def split: option.splits if_splits)
  qed
qed

lemma fields_notice:
  "length fs \<ge> 3 \<and> HasPrefix (fs ! 0) ''IFNAME='' \<longleftrightarrow>
     (\<exists>ifname event mac rest. fs = (''IFNAME='' @ ifname) # event # mac # rest)"
proof
  assume l: "length fs \<ge> 3 \<and> HasPrefix (fs ! 0) ''IFNAME=''"
  then obtain f0 event mac rest where fs: "fs = f0 # event # mac # rest"
    by (cases fs; cases "tl fs"; cases "tl (tl fs)") auto
  then have "f0 = ''IFNAME='' @ TrimPrefix f0 ''IFNAME=''"
    using l HasPrefix_split [of f0 "''IFNAME=''"] by simp
  with fs show "\<exists>ifname event mac rest. fs = (''IFNAME='' @ ifname) # event # mac # rest" by blast
next
  assume "\<exists>ifname event mac rest. fs = (''IFNAME='' @ ifname) # event # mac # rest"
  then obtain ifname event mac rest where "fs = (''IFNAME='' @ ifname) # event # mac # rest" by blast
  then show "length fs \<ge> 3 \<and> HasPrefix (fs ! 0) ''IFNAME=''" using HasPrefix_append [of "''IFNAME=''" ifname] by simp
qed

text \<open>
  C17. Whatever bytes arrive on the control socket, an observation comes out exactly for a connect or a
  disconnect notice of an interface that the provider knows, with an address that is a client
  identifier: as an association or a disassociation of that client, in canonical form, at that interface
  and stamped with the time of receipt.  Such a notice with another address is refused; everything else
  is ignored.
\<close>

theorem hostapd_event_sound:
  "(parseHostapdEvent data known received = Inr (Some v) \<longleftrightarrow>
      (\<exists>ifname kind mac cid. station_notice data ifname kind mac \<and> ''hostapd.'' @ ifname \<in> set known \<and>
         ClientID mac = Inr cid \<and> HasPrefix cid ''mac:'' \<and> length cid = 21 \<and>
         v = \<lparr>ob_Provider = ''ubus-hostapd'', ob_SourceInstance = ''hostapd.'' @ ifname, ob_ObservedAt = None,
              ob_ReceivedAt = received, ob_ClientID = cid, ob_Kind = kind, ob_Confidence = Authoritative\<rparr>)) \<and>
   (parseHostapdEvent data known received = Inl InvalidClientIdentifier \<longleftrightarrow>
      (\<exists>ifname kind mac. station_notice data ifname kind mac \<and> ''hostapd.'' @ ifname \<in> set known \<and> isl (ClientID mac)))"
proof (cases "\<exists>ifname event mac rest. Fields (TrimSpace data) = (''IFNAME='' @ ifname) # event # mac # rest")
  case False
  then have "\<not> (length (Fields (TrimSpace data)) \<ge> 3 \<and> HasPrefix (Fields (TrimSpace data) ! 0) ''IFNAME='')"
    by (simp only: fields_notice not_False_eq_True)
  then have "parseHostapdEvent data known received = Inr None" by (auto simp: parseHostapdEvent_def Let_def)
  with False show ?thesis unfolding station_notice_def by (metis option.distinct(1) sum.inject(2) sum.distinct(1))
next
  case True
  then obtain ifname event mac rest where fs: "Fields (TrimSpace data) = (''IFNAME='' @ ifname) # event # mac # rest" by blast
  have notice: "station_notice data ifn kind m \<longleftrightarrow>
      ifn = ifname \<and> m = mac \<and> (\<exists>name. notice_name kind name \<and> event_type event = name)" for ifn kind m
  proof -
    have "station_notice data ifn kind m \<longleftrightarrow> ifn = ifname \<and> m = mac \<and> (\<exists>name. notice_name kind name \<and>
        (event = name \<or> (\<exists>prio. CHR ''>'' \<notin> set prio \<and> event = ''<'' @ prio @ ''>'' @ name)))"
      unfolding station_notice_def fs by auto
    then show ?thesis using event_type_notice [of kind _ event] by metis
  qed
  have "parseHostapdEvent data known received =
      (if ''hostapd.'' @ ifname \<notin> set known then Inr None
       else (case (if event_type event = ''AP-STA-CONNECTED'' then Some WiFiAssociated
                    else if event_type event = ''AP-STA-DISCONNECTED'' then Some WiFiDisassociated
                    else None) of
                None \<Rightarrow> Inr None
              | Some kind \<Rightarrow>
                  (case ClientID mac of
                     Inl _ \<Rightarrow> Inl InvalidClientIdentifier
                   | Inr cid \<Rightarrow>
                       Inr (Some \<lparr>ob_Provider = providerID, ob_SourceInstance = ''hostapd.'' @ ifname, ob_ObservedAt = None,
                                  ob_ReceivedAt = received, ob_ClientID = cid, ob_Kind = kind,
                                  ob_Confidence = Authoritative\<rparr>))))"
    using HasPrefix_append [of "''IFNAME=''" ifname] TrimPrefix_append [of "''IFNAME=''" ifname]
    by (simp add: parseHostapdEvent_def fs Let_def del: append.simps)
  then show ?thesis
    unfolding notice notice_name_def
    by (auto simp: providerID_def clientid_ok isl_def split: sum.splits option.splits)
qed

text \<open>The text hostapd sends for a station event.\<close>

definition hostapd_line :: "string \<Rightarrow> string \<Rightarrow> Kind \<Rightarrow> string \<Rightarrow> string" where
  "hostapd_line ifname prio kind mac =
     ''IFNAME='' @ ifname @ '' <'' @ prio @ ''>'' @
     (if kind = WiFiAssociated then ''AP-STA-CONNECTED'' else ''AP-STA-DISCONNECTED'') @ '' '' @ mac"

text \<open>
  Every station event of a known interface is understood: the line hostapd sends for a
  connection or a disconnection, with any priority and any spelling of the address, gives the
  observation of exactly that client, source and kind.
\<close>

theorem hostapd_event_complete:
  assumes "list_all plain ifname" and "list_all plain prio" and "CHR ''>'' \<notin> set prio"
    and "kind = WiFiAssociated \<or> kind = WiFiDisassociated"
    and "list_all plain mac" and "mac \<noteq> []" and "ClientID mac = Inr cid"
    and "''hostapd.'' @ ifname \<in> set known"
  shows "parseHostapdEvent (hostapd_line ifname prio kind mac) known at =
    Inr (Some \<lparr>ob_Provider = providerID, ob_SourceInstance = ''hostapd.'' @ ifname, ob_ObservedAt = None,
               ob_ReceivedAt = at, ob_ClientID = cid, ob_Kind = kind, ob_Confidence = Authoritative\<rparr>)"
proof -
  define etype where "etype = (if kind = WiFiAssociated then ''AP-STA-CONNECTED'' else ''AP-STA-DISCONNECTED'')"
  let ?f0 = "''IFNAME='' @ ifname" and ?f1 = "''<'' @ prio @ ''>'' @ etype"
  have pl: "list_all plain ?f0" "list_all plain ?f1"
    using assms(1,2) by (simp_all add: etype_def plain_def)
  have line: "hostapd_line ifname prio kind mac = concat (map (\<lambda>w. w @ '' '') [?f0, ?f1]) @ mac"
    by (simp add: hostapd_line_def etype_def)
  have "TrimSpace (hostapd_line ifname prio kind mac) = hostapd_line ifname prio kind mac"
  proof (rule TrimSpace_id)
    have "plain (last mac)" using assms(5,6) by (simp add: list_all_iff)
    then show "hostapd_line ifname prio kind mac = [] \<or>
        plain (hd (hostapd_line ifname prio kind mac)) \<and> plain (last (hostapd_line ifname prio kind mac))"
      using assms(6) by (simp add: hostapd_line_def plain_def)
  qed
  moreover have "Fields (hostapd_line ifname prio kind mac) = [?f0, ?f1, mac]"
    unfolding line using pl assms(5,6) by (subst Fields_words) auto
  ultimately show ?thesis
    using assms(4,7,8) event_type_priority [OF assms(3), of etype]
    by (auto simp: parseHostapdEvent_def Let_def etype_def simp del: append.simps)
qed

theorem hostapd_event_complete_witness:
  "parseHostapdEvent ''IFNAME=wlan0 <3>AP-STA-CONNECTED AA:BB:CC:00:11:22'' [''hostapd.wlan0''] 7 =
    Inr (Some \<lparr>ob_Provider = ''ubus-hostapd'', ob_SourceInstance = ''hostapd.wlan0'', ob_ObservedAt = None,
       ob_ReceivedAt = 7, ob_ClientID = ''mac:aa:bb:cc:00:11:22'', ob_Kind = WiFiAssociated,
       ob_Confidence = Authoritative\<rparr>)"
proof -
  have p: "list_all plain ''wlan0''" "list_all plain ''3''" "list_all plain ''AA:BB:CC:00:11:22''"
    and g: "CHR ''>'' \<notin> set ''3''" and c: "ClientID ''AA:BB:CC:00:11:22'' = Inr ''mac:aa:bb:cc:00:11:22''"
    by code_simp+
  from hostapd_event_complete [OF p(1,2) g _ p(3) _ c, of WiFiAssociated "[''hostapd.wlan0'']" 7]
  show ?thesis by (simp add: hostapd_line_def providerID_def)
qed

section \<open>No event is lost silently\<close>

text \<open>The events that a sequence of reads carries for this subscription.\<close>

fun carried :: "subscription \<Rightarrow> (socket_read \<times> bool) list \<Rightarrow> subscriptionEvent list" where
  "carried s [] = []"
| "carried s ((Datagram data trunc now, ended) # rs) =
     (case parseHostapdEvent data (sb_known s) now of
        Inr (Some v) \<Rightarrow> \<lparr>se_generation = sb_generation s, se_value = v\<rparr> # carried s rs
      | _ \<Rightarrow> carried s rs)"
| "carried s (_ # rs) = carried s rs"

text \<open>How a run of the loop relates to the reads it has not consumed.\<close>

definition sub_end :: "subscribe_err option option \<Rightarrow> (socket_read \<times> bool) list \<Rightarrow> bool" where
  "sub_end res post \<longleftrightarrow>
     (case res of
        None \<Rightarrow> post = []
      | Some None \<Rightarrow> \<exists>r ended more. post = (r, ended) # more \<and> (ended \<or> r = ReadClosed)
      | Some (Some err) \<Rightarrow> post \<noteq> [])"

lemma carried_Cons: "carried s ((r, ended) # pre) = carried s [(r, ended)] @ carried s pre"
  by (cases r) (auto split: sum.splits option.splits)

lemma subscribe_loop_sends:
  assumes "subscribe_loop s lastKA q rs = (res, q')"
    and "length (eq_sent q) - eq_taken q \<le> sb_cap s"
  shows "\<exists>pre post. rs = pre @ post \<and> eq_sent q' = eq_sent q @ carried s pre \<and>
    length (eq_sent q') - eq_taken q' \<le> sb_cap s \<and>
    sub_end res post"
  using assms
proof (induction s lastKA q rs arbitrary: q' rule: subscribe_loop.induct)
  case (1 s lastKA q)
  then show ?case by (simp add: sub_end_def)
next
  case (2 s lastKA q r ended rs)
  have step: "\<exists>pre post. (r, ended) # rs = pre @ post \<and> eq_sent q' = eq_sent q @ carried s pre \<and>
      length (eq_sent q') - eq_taken q' \<le> sb_cap s \<and> P post"
    if "\<exists>pre post. rs = pre @ post \<and> eq_sent q' = eq_sent q @ carried s [(r, ended)] @ carried s pre \<and>
      length (eq_sent q') - eq_taken q' \<le> sb_cap s \<and> P post" for P
  proof -
    from that obtain pre post where "rs = pre @ post" "eq_sent q' = eq_sent q @ carried s [(r, ended)] @ carried s pre"
      "length (eq_sent q') - eq_taken q' \<le> sb_cap s" "P post" by blast
    then show ?thesis
      by (intro exI [of _ "(r, ended) # pre"] exI [of _ post]) (simp add: carried_Cons [of s r ended pre] del: carried.simps)
  qed
  show ?case
  proof (cases r)
    case Taken
    then show ?thesis using 2 by (intro step) (auto split: if_splits)
  next
    case ReadClosed
    with "2.prems" show ?thesis by (intro exI [of _ "[]"] exI [of _ "(r, ended) # rs"]) (auto simp: sub_end_def)
  next
    case ReadFailed
    with "2.prems" show ?thesis by (intro exI [of _ "[]"] exI [of _ "(r, ended) # rs"]) (auto simp: sub_end_def split: if_splits)
  next
    case NoDeadline
    with "2.prems" show ?thesis by (intro exI [of _ "[]"] exI [of _ "(r, ended) # rs"]) (auto simp: sub_end_def)
  next
    case (ReadTimeout now ping)
    show ?thesis
    proof (cases "ended \<or> now - lastKA \<ge> sb_interval s \<and> \<not> ping")
      case True
      with ReadTimeout "2.prems" show ?thesis by (intro exI [of _ "[]"] exI [of _ "(r, ended) # rs"]) (auto simp: sub_end_def split: if_splits)
    next
      case False
      with ReadTimeout 2 show ?thesis by (intro step) (auto split: if_splits)
    qed
  next
    case (Datagram data trunc now)
    show ?thesis
    proof (cases "\<not> trunc \<and> (case parseHostapdEvent data (sb_known s) now of Inl _ \<Rightarrow> False
        | Inr None \<Rightarrow> True | Inr (Some v) \<Rightarrow> eq_room (sb_cap s) q)")
      case True
      with Datagram 2 show ?thesis
        by (intro step) (auto simp: eq_room_def split: if_splits sum.splits option.splits)
    next
      case False
      with Datagram "2.prems" show ?thesis
        by (intro exI [of _ "[]"] exI [of _ "(r, ended) # rs"]) (auto simp: sub_end_def split: if_splits sum.splits option.splits)
    qed
  qed
qed

text \<open>
  C19. Between hostapd and the provider no event is lost without notice.  While the subscription runs,
  exactly the relevant events of the reads so far have been sent, in order; the queue is never over
  its capacity; and when the subscription ends it ends with an error, which makes the provider
  resynchronise, unless its context ended or its socket was closed.
\<close>

theorem subscription_no_silent_loss:
  assumes "subscribe_loop s lastKA q rs = (res, q')"
    and "length (eq_sent q) - eq_taken q \<le> sb_cap s"
  shows "\<exists>pre post. rs = pre @ post \<and> eq_sent q' = eq_sent q @ carried s pre \<and>
    length (eq_sent q') - eq_taken q' \<le> sb_cap s \<and>
    (case res of
       None \<Rightarrow> post = []
     | Some None \<Rightarrow> \<exists>r ended more. post = (r, ended) # more \<and> (ended \<or> r = ReadClosed)
     | Some (Some err) \<Rightarrow> post \<noteq> [])"
  using subscribe_loop_sends [OF assms] unfolding sub_end_def .

definition demo_subscription :: subscription where
  "demo_subscription = \<lparr>sb_known = [''hostapd.wlan0''], sb_generation = 1, sb_cap = 1,
     sb_interval = 5 * Second\<rparr>"

definition demo_reads :: "(socket_read \<times> bool) list" where
  "demo_reads = [(Datagram ''IFNAME=wlan0 <3>AP-STA-CONNECTED AA:BB:CC:00:11:22'' False 1, False),
     (ReadTimeout 2 True, False), (Datagram ''IFNAME=wlan0 <3>AP-STA-CONNECTED AA:BB:CC:00:11:23'' False 3, False)]"

theorem subscription_no_silent_loss_witness:
  "fst (subscribe_loop demo_subscription 0 \<lparr>eq_sent = [], eq_taken = 0\<rparr> demo_reads) = Some (Some QueueFull) \<and>
   (\<exists>pre post. demo_reads = pre @ post \<and>
      eq_sent (snd (subscribe_loop demo_subscription 0 \<lparr>eq_sent = [], eq_taken = 0\<rparr> demo_reads)) =
        carried demo_subscription pre)"
proof -
  obtain res q' where r: "subscribe_loop demo_subscription 0 \<lparr>eq_sent = [], eq_taken = 0\<rparr> demo_reads = (res, q')"
    by fastforce
  have "fst (subscribe_loop demo_subscription 0 \<lparr>eq_sent = [], eq_taken = 0\<rparr> demo_reads) = Some (Some QueueFull)"
    by code_simp
  with subscription_no_silent_loss [OF r] show ?thesis by (auto simp: r)
qed

end
