(* ===== verification/Ubus_Lists.thy ===== *)
theory Ubus_Lists
  imports Hostapd "HOL-Library.Sublist"
begin

text \<open>
  The pure helpers of \<^verbatim>\<open>internal/providers/ubus\<close>: the bounded command output of \<^verbatim>\<open>runner.go\<close>, the list
  of hostapd objects, the binary search, and the text of error messages.
\<close>

section \<open>Bounded command output\<close>

record limitWriter =
  lw_buffer :: string
  lw_limit :: int
  lw_total :: int

text \<open>\<open>None\<close> is the panic of a slice \<^verbatim>\<open>p[:remaining]\<close> out of range; the flag says that \<^verbatim>\<open>errOutputLimit\<close> is returned.\<close>

definition lw_Write :: "string \<Rightarrow> limitWriter \<Rightarrow> (bool \<times> limitWriter) option" where
  "lw_Write p w =
     (let w1 = w\<lparr>lw_total := lw_total w + int (length p)\<rparr> in
      if lw_total w1 > lw_limit w1
      then let remaining = lw_limit w1 - int (length (lw_buffer w1)) in
           if remaining > 0
           then (if remaining > int (length p) then None
                 else Some (True, w1\<lparr>lw_buffer := lw_buffer w1 @ take (nat remaining) p\<rparr>))
           else Some (True, w1)
      else Some (False, w1\<lparr>lw_buffer := lw_buffer w1 @ p\<rparr>))"

fun lw_writes :: "string list \<Rightarrow> limitWriter \<Rightarrow> limitWriter option" where
  "lw_writes [] w = Some w"
| "lw_writes (p # ps) w = (case lw_Write p w of None \<Rightarrow> None | Some (_, w') \<Rightarrow> lw_writes ps w')"

text \<open>
  \<^verbatim>\<open>run\<close>: \<open>outs\<close> and \<open>errs\<close> are the chunks the command writes to its two streams, and \<open>failed\<close> the text
  of the error of \<^verbatim>\<open>cmd.Run\<close>, if any.
\<close>

datatype run_err = OutputLimit | CommandFailed string string

definition run_command :: "int \<Rightarrow> string list \<Rightarrow> string list \<Rightarrow> string option \<Rightarrow> (run_err + string) option" where
  "run_command maxOutput outs errs failed =
     (case (lw_writes outs \<lparr>lw_buffer = [], lw_limit = maxOutput, lw_total = 0\<rparr>,
            lw_writes errs \<lparr>lw_buffer = [], lw_limit = 16 * 1024, lw_total = 0\<rparr>) of
        (Some stdout, Some stderr) \<Rightarrow>
          Some (if lw_total stdout > maxOutput then Inl OutputLimit
                else (case failed of
                        Some err \<Rightarrow> Inl (CommandFailed err (TrimSpace (lw_buffer stderr)))
                      | None \<Rightarrow> Inr (lw_buffer stdout)))
      | _ \<Rightarrow> None)"

section \<open>The hostapd objects\<close>

definition compact :: "string list \<Rightarrow> string list" where
  "compact values =
     (case values of
        [] \<Rightarrow> []
      | v # vs \<Rightarrow> fold (\<lambda>value out. if value \<noteq> last out then out @ [value] else out) vs [v])"

definition maxSourceInstances :: nat where
  "maxSourceInstances = 128"

datatype discover_err = TooManyObjects nat

definition discover_objects :: "string \<Rightarrow> discover_err + string list" where
  "discover_objects output =
     (let objects = filter (\<lambda>line. HasPrefix line ''hostapd.'' \<and> length line \<le> 64)
                      (map TrimSpace (Split output (CHR 0x0A)));
          objects = compact (sort objects)
      in if length objects > maxSourceInstances then Inl (TooManyObjects (length objects))
         else Inr objects)"

definition equalStrings :: "string list \<Rightarrow> string list \<Rightarrow> bool" where
  "equalStrings a b = (if length a \<noteq> length b then False else list_all (\<lambda>i. a ! i = b ! i) [0..<length a])"

section \<open>Binary search\<close>

text \<open>\<^verbatim>\<open>sort.Search\<close>.\<close>

function search :: "(nat \<Rightarrow> bool) \<Rightarrow> nat \<Rightarrow> nat \<Rightarrow> nat" where
  "search f i j =
     (if i < j then let h = (i + j) div 2 in if \<not> f h then search f (h + 1) j else search f i h else i)"
  by auto
termination by (relation "measure (\<lambda>(_, i, j). j - i)") auto

declare search.simps [simp del]

definition containsSorted :: "string list \<Rightarrow> string \<Rightarrow> bool" where
  "containsSorted values wanted =
     (let index = search (\<lambda>i. values ! i \<ge> wanted) 0 (length values)
      in index < length values \<and> values ! index = wanted)"

section \<open>Error messages\<close>

text \<open>
  UTF-8 as Go decodes it: the length of the character at the head of a string, \<open>None\<close> for a byte that
  does not begin one.
\<close>

definition cont :: "nat \<Rightarrow> nat \<Rightarrow> char \<Rightarrow> bool" where
  "cont lo hi c \<longleftrightarrow> lo \<le> of_char c \<and> of_char c \<le> hi"

definition rune_len :: "string \<Rightarrow> nat option" where
  "rune_len s =
     (case s of
        [] \<Rightarrow> None
      | c # t \<Rightarrow>
          let b = (of_char c :: nat) in
          if b < 0x80 then Some 1
          else if 0xC2 \<le> b \<and> b \<le> 0xDF then
            (case t of c1 # _ \<Rightarrow> if cont 0x80 0xBF c1 then Some 2 else None | _ \<Rightarrow> None)
          else if 0xE0 \<le> b \<and> b \<le> 0xEF then
            (case t of
               c1 # c2 # _ \<Rightarrow>
                 if cont (if b = 0xE0 then 0xA0 else 0x80) (if b = 0xED then 0x9F else 0xBF) c1 \<and>
                    cont 0x80 0xBF c2 then Some 3 else None
             | _ \<Rightarrow> None)
          else if 0xF0 \<le> b \<and> b \<le> 0xF4 then
            (case t of
               c1 # c2 # c3 # _ \<Rightarrow>
                 if cont (if b = 0xF0 then 0x90 else 0x80) (if b = 0xF4 then 0x8F else 0xBF) c1 \<and>
                    cont 0x80 0xBF c2 \<and> cont 0x80 0xBF c3 then Some 4 else None
             | _ \<Rightarrow> None)
          else None)"

text \<open>\<^verbatim>\<open>strings.Map\<close> with the closure of \<^verbatim>\<open>sanitizeError\<close>: invalid bytes become U+FFFD.\<close>

function drop_controls :: "string \<Rightarrow> string" where
  "drop_controls s =
     (if s = [] then []
      else (case rune_len s of
              None \<Rightarrow> [CHR 0xEF, CHR 0xBF, CHR 0xBD] @ drop_controls (tl s)
            | Some n \<Rightarrow>
                if (of_char (hd s) :: nat) < 0x20 \<and> hd s \<noteq> CHR 0x09 then drop_controls (tl s)
                else take (max 1 n) s @ drop_controls (drop (max 1 n) s)))"
  by auto
termination by (relation "measure length") auto

declare drop_controls.simps [simp del]

definition sanitizeError :: "string \<Rightarrow> string" where
  "sanitizeError message =
     (let message = (if length message > 512 then take 512 message else message)
      in drop_controls message)"

section \<open>The command output stays within its limit\<close>

text \<open>One write to a buffer that holds the first bytes of \<open>all\<close>.\<close>

lemma lw_Write_step:
  assumes "0 \<le> lw_limit w" and "lw_total w = int (length all)"
    and "lw_buffer w = take (nat (lw_limit w)) all"
  shows "\<exists>flag w'. lw_Write p w = Some (flag, w') \<and> lw_limit w' = lw_limit w \<and>
    lw_total w' = int (length (all @ p)) \<and> lw_buffer w' = take (nat (lw_limit w)) (all @ p)"
proof -
  obtain L where L: "lw_limit w = int L" using assms(1) by (metis nonneg_int_cases)
  have len: "length (lw_buffer w) = min L (length all)" using assms(3) L by simp
  consider "length all + length p \<le> L" | "length all < L" "L < length all + length p" | "L \<le> length all" "L < length all + length p"
    by linarith
  then show ?thesis
  proof cases
    case 1
    then show ?thesis using assms L by (auto simp: lw_Write_def)
  next
    case 2
    have "int L - int (length (lw_buffer w)) = int (L - length all)" using 2 len by simp
    then show ?thesis using 2 assms L len by (auto simp: lw_Write_def nat_diff_distrib)
  next
    case 3
    then show ?thesis using assms L len by (auto simp: lw_Write_def)
  qed
qed

lemma lw_writes_buffer:
  assumes "0 \<le> lw_limit w" and "lw_total w = int (length all)"
    and "lw_buffer w = take (nat (lw_limit w)) all"
  shows "\<exists>w'. lw_writes ps w = Some w' \<and> lw_total w' = int (length (all @ concat ps)) \<and>
    lw_buffer w' = take (nat (lw_limit w)) (all @ concat ps)"
  using assms
proof (induction ps arbitrary: w all)
  case Nil
  then show ?case by simp
next
  case (Cons p ps)
  obtain flag w1 where w1: "lw_Write p w = Some (flag, w1)" "lw_limit w1 = lw_limit w"
    "lw_total w1 = int (length (all @ p))" "lw_buffer w1 = take (nat (lw_limit w)) (all @ p)"
    using lw_Write_step [OF Cons.prems, of p] by blast
  from Cons.IH [of w1 "all @ p"] w1 Cons.prems(1) show ?case by simp
qed

text \<open>
  The output of a command is kept whole or refused: no sequence of writes panics the bounded
  buffer, which always holds the first bytes up to its limit, and \<^verbatim>\<open>run\<close> hands out the complete output
  of a command that succeeded within the limit, an error in every other case.
\<close>

theorem command_output_bounded:
  assumes "0 \<le> maxOutput"
  shows "\<exists>r. run_command maxOutput outs errs failed = Some r \<and>
    (case r of
       Inr out \<Rightarrow> failed = None \<and> out = concat outs \<and> int (length out) \<le> maxOutput
     | Inl OutputLimit \<Rightarrow> int (length (concat outs)) > maxOutput
     | Inl (CommandFailed err text) \<Rightarrow> failed = Some err \<and> text = TrimSpace (take (16 * 1024) (concat errs)))"
proof -
  obtain o' where o: "lw_writes outs \<lparr>lw_buffer = [], lw_limit = maxOutput, lw_total = 0\<rparr> = Some o'"
    "lw_total o' = int (length (concat outs))" "lw_buffer o' = take (nat maxOutput) (concat outs)"
    using lw_writes_buffer [of "\<lparr>lw_buffer = [], lw_limit = maxOutput, lw_total = 0\<rparr>" "[]" outs] assms by auto
  obtain e' where e: "lw_writes errs \<lparr>lw_buffer = [], lw_limit = 16 * 1024, lw_total = 0\<rparr> = Some e'"
    "lw_buffer e' = take (16 * 1024) (concat errs)"
    using lw_writes_buffer [of "\<lparr>lw_buffer = [], lw_limit = 16 * 1024, lw_total = 0\<rparr>" "[]" errs] by auto
  show ?thesis
    unfolding run_command_def o(1) e(1) prod.case option.case by (cases failed) (auto simp: o(2,3) e(2))
qed

theorem command_output_bounded_witness:
  "run_command 4 [''ab'', ''cde''] [] None = Some (Inl OutputLimit) \<and> (4::int) < int (length (concat [''ab'', ''cde'']))"
proof -
  have r: "run_command 4 [''ab'', ''cde''] [] None = Some (Inl OutputLimit)" by code_simp
  with command_output_bounded [of 4 "[''ab'', ''cde'']" "[]" None] show ?thesis by simp
qed

section \<open>The objects are sorted, distinct and bounded\<close>

lemma sorted_last_max: "sorted xs \<Longrightarrow> x \<in> set xs \<Longrightarrow> x \<le> last xs"
  by (induction xs) auto

definition compact_step :: "string \<Rightarrow> string list \<Rightarrow> string list" where
  "compact_step value out = (if value \<noteq> last out then out @ [value] else out)"

lemma compact_fold:
  assumes "sorted (out @ vs)" and "out \<noteq> []" and "distinct out"
  shows "sorted (fold compact_step vs out) \<and> distinct (fold compact_step vs out) \<and>
    set (fold compact_step vs out) = set out \<union> set vs"
  using assms
proof (induction vs arbitrary: out)
  case Nil
  then show ?case by simp
next
  case (Cons v vs)
  have le: "\<forall>x \<in> set out. x \<le> v" and so: "sorted out" using Cons.prems(1) by (simp_all add: sorted_append)
  show ?case
  proof (cases "v = last out")
    case True
    then have "v \<in> set out" using Cons.prems(2) by simp
    moreover have "sorted (out @ vs)" using Cons.prems(1) by (simp add: sorted_append)
    ultimately show ?thesis
      using Cons.IH [of out] Cons.prems(2,3) True by (simp add: compact_step_def insert_absorb)
  next
    case False
    have "v \<notin> set out" using sorted_last_max [OF so] le Cons.prems(2) False by (metis last_in_set order_antisym)
    then show ?thesis using Cons.IH [of "out @ [v]"] Cons.prems False by (simp add: compact_step_def)
  qed
qed

lemma compact_fold_eq: "compact (v # vs) = fold compact_step vs [v]"
  by (simp add: compact_def compact_step_def [abs_def])

lemma compact_sorted:
  assumes "sorted vs"
  shows "sorted (compact vs)" and "distinct (compact vs)" and "set (compact vs) = set vs"
proof -
  have "sorted (compact vs) \<and> distinct (compact vs) \<and> set (compact vs) = set vs"
  proof (cases vs)
    case Nil
    then show ?thesis by (simp add: compact_def)
  next
    case (Cons u us)
    with assms compact_fold [of "[u]" us] show ?thesis by (simp add: compact_fold_eq)
  qed
  then show "sorted (compact vs)" and "distinct (compact vs)" and "set (compact vs) = set vs" by simp_all
qed

text \<open>
  The discovered objects are in ascending order without duplicates, each a \<^verbatim>\<open>hostapd.\<close> name of at
  most 64 bytes that the output lists on a line of its own, every such line is among them, and there
  are at most 128; more than that is an error and never a shorter list.
\<close>

theorem discovered_objects:
  "case discover_objects output of
     Inr objects \<Rightarrow> sorted objects \<and> distinct objects \<and> length objects \<le> 128 \<and>
       set objects = {line \<in> set (map TrimSpace (Split output (CHR 0x0A))).
         HasPrefix line ''hostapd.'' \<and> length line \<le> 64}
   | Inl (TooManyObjects n) \<Rightarrow> n > 128 \<and>
       n = card {line \<in> set (map TrimSpace (Split output (CHR 0x0A))).
         HasPrefix line ''hostapd.'' \<and> length line \<le> 64}"
proof -
  define raw where "raw = filter (\<lambda>line. HasPrefix line ''hostapd.'' \<and> length line \<le> 64)
    (map TrimSpace (Split output (CHR 0x0A)))"
  define objects where "objects = compact (sort raw)"
  have c: "sorted objects" "distinct objects" "set objects = set raw"
    using compact_sorted [OF sorted_sort [of raw]] by (simp_all add: objects_def)
  have n: "length objects = card (set raw)" using c(2,3) by (metis distinct_card)
  have raw: "{line \<in> set (map TrimSpace (Split output (CHR 0x0A))). HasPrefix line ''hostapd.'' \<and> length line \<le> 64} =
      set raw" unfolding raw_def set_filter ..
  have "discover_objects output = (if length objects > 128 then Inl (TooManyObjects (length objects)) else Inr objects)"
    unfolding discover_objects_def Let_def maxSourceInstances_def raw_def [symmetric] objects_def [symmetric] ..
  then show ?thesis unfolding raw using c n by simp
qed

section \<open>The binary search finds what is there\<close>

lemma search_bounds:
  assumes "i \<le> j" and "\<forall>a b. a \<le> b \<and> b < n \<and> f a \<longrightarrow> f b" and "j \<le> n"
    and "\<forall>a < i. \<not> f a" and "\<forall>a. j \<le> a \<and> a < n \<longrightarrow> f a"
  shows "i \<le> search f i j \<and> search f i j \<le> j \<and> (\<forall>a < search f i j. \<not> f a) \<and>
    (\<forall>a. search f i j \<le> a \<and> a < n \<longrightarrow> f a)"
  using assms
proof (induction f i j rule: search.induct)
  case (1 f i j)
  show ?case
  proof (cases "i < j")
    case False
    then have "search f i j = i" by (subst search.simps) simp
    moreover have "i = j" using False "1.prems"(1) by simp
    ultimately show ?thesis using "1.prems"(4,5) by simp
  next
    case True
    let ?h = "(i + j) div 2"
    show ?thesis
    proof (cases "f ?h")
      case fh: True
      have "search f i j = search f i ?h" using True fh by (simp add: search.simps [of f i j] Let_def)
      moreover have "\<forall>a. ?h \<le> a \<and> a < n \<longrightarrow> f a" using "1.prems"(2) fh by blast
      moreover have "i \<le> ?h" "?h \<le> n" "?h \<le> j" using True "1.prems"(3) by linarith+
      ultimately show ?thesis
        using "1.IH"(2) [OF True refl _ _ "1.prems"(2) _ "1.prems"(4)] fh by fastforce
    next
      case fh: False
      have "search f i j = search f (?h + 1) j" using True fh by (simp add: search.simps [of f i j] Let_def)
      moreover have "\<forall>a < ?h + 1. \<not> f a"
      proof (intro allI impI notI)
        fix a assume "a < ?h + 1" "f a"
        moreover have "?h < n" using True "1.prems"(3) by linarith
        ultimately show False using "1.prems"(2) fh by (metis Suc_eq_plus1 less_Suc_eq_le)
      qed
      moreover have "?h + 1 \<le> j" "i \<le> ?h + 1" using True by linarith+
      ultimately show ?thesis
        using "1.IH"(1) [OF True refl fh _ "1.prems"(2,3) _ "1.prems"(5)] by fastforce
    qed
  qed
qed

text \<open>
  On the sorted lists that snapshots produce, the binary search answers membership.
\<close>

lemma containsSorted_member:
  assumes "sorted values"
  shows "containsSorted values wanted \<longleftrightarrow> wanted \<in> set values"
proof -
  let ?f = "\<lambda>i. values ! i \<ge> wanted" and ?n = "length values"
  let ?r = "search ?f 0 ?n"
  have mono: "\<forall>a b. a \<le> b \<and> b < ?n \<and> ?f a \<longrightarrow> ?f b"
    using assms by (meson order_trans sorted_nth_mono)
  have b: "?r \<le> ?n \<and> (\<forall>a < ?r. \<not> ?f a) \<and> (\<forall>a. ?r \<le> a \<and> a < ?n \<longrightarrow> ?f a)"
  proof -
    have "\<forall>a < 0. \<not> ?f a" and "\<forall>a. ?n \<le> a \<and> a < ?n \<longrightarrow> ?f a" by auto
    from search_bounds [OF le0 mono order_refl this] show ?thesis by blast
  qed
  show ?thesis
  proof
    assume "containsSorted values wanted"
    then show "wanted \<in> set values" by (auto simp: containsSorted_def Let_def in_set_conv_nth)
  next
    assume "wanted \<in> set values"
    then obtain k where k: "k < ?n" "values ! k = wanted" by (auto simp: in_set_conv_nth)
    have "?r \<le> k" using b k(2) by (meson not_le order_refl)
    then have "?r < ?n" using k(1) by linarith
    moreover have "values ! ?r \<ge> wanted" using b \<open>?r < ?n\<close> by blast
    moreover have "values ! ?r \<le> values ! k" using assms \<open>?r \<le> k\<close> k(1) by (rule sorted_nth_mono)
    ultimately show "containsSorted values wanted" using k(2) by (simp add: containsSorted_def Let_def)
  qed
qed

lemma equalStrings_eq [simp]: "equalStrings a b \<longleftrightarrow> a = b"
  unfolding equalStrings_def list_all_iff using nth_equalityI [of a b] by auto

end
