(* ===== verification/Sink.thy ===== *)
theory Sink
  imports Protocol
begin

text \<open>
  The interface \<^verbatim>\<open>observation.Sink\<close> through which the providers report.  A Go interface value is a
  record of the methods it carries, each a function of the sink's state; the locale \<open>observation_sink\<close>
  states what a sink promises its callers.
\<close>

record ('e, 's) Sink =
  sk_Apply :: "Observation \<Rightarrow> 's \<Rightarrow> 'e option \<times> 's"
  sk_ApplySnapshot :: "ObsSnapshot \<Rightarrow> 's \<Rightarrow> ('e option \<times> 's) option"
  sk_ApplySourceSnapshot :: "SourceSnapshot \<Rightarrow> 's \<Rightarrow> ('e option \<times> 's) option"
  sk_SetProviderStatus :: "ProviderStatus \<Rightarrow> 's \<Rightarrow> 's"

text \<open>
  \<open>inv\<close> is the sink's invariant; \<open>vouches s provider source client\<close> says that the sink counts the client
  as seen by that provider at that source, and \<open>has_live s provider\<close> that it counts any client as
  connected on the word of that provider.
\<close>

locale observation_sink =
  fixes sink :: "('e, 's) Sink"
    and inv :: "'s \<Rightarrow> bool"
    and vouches :: "'s \<Rightarrow> string \<Rightarrow> string \<Rightarrow> string \<Rightarrow> bool"
    and has_live :: "'s \<Rightarrow> string \<Rightarrow> bool"
  assumes apply_inv: "inv s \<Longrightarrow> sk_Apply sink v s = (err, s') \<Longrightarrow> inv s'"
    and snapshot_inv: "inv s \<Longrightarrow> \<exists>err s'. sk_ApplySnapshot sink sn s = Some (err, s') \<and> inv s'"
    and source_inv: "inv s \<Longrightarrow> \<exists>err s'. sk_ApplySourceSnapshot sink ss s = Some (err, s') \<and> inv s'"
    and status_inv: "inv s \<Longrightarrow> inv (sk_SetProviderStatus sink st s)"
    and outage:
      "inv s \<Longrightarrow> ps_Status st = ''unavailable'' \<Longrightarrow> \<not> has_live (sk_SetProviderStatus sink st s) (ps_ID st)"
    and apply_vouches:
      "inv s \<Longrightarrow> sk_Apply sink v s = (None, s') \<Longrightarrow> ob_Kind v = WiFiAssociated \<or> ob_Kind v = WiredReachable \<Longrightarrow>
       vouches s' (ob_Provider v) (ob_SourceInstance v) (ob_ClientID v)"
    and snapshot_vouches:
      "inv s \<Longrightarrow> sk_ApplySnapshot sink sn s = Some (None, s') \<Longrightarrow> (src, ids) \<in> set (os_Stations sn) \<Longrightarrow>
       k \<in> set ids \<Longrightarrow> vouches s' (os_Provider sn) src k"
    and source_vouches:
      "inv s \<Longrightarrow> sk_ApplySourceSnapshot sink ss s = Some (None, s') \<Longrightarrow> k \<in> set (ss_Clients ss) \<Longrightarrow>
       vouches s' (ss_Provider ss) (ss_SourceInstance ss) k"
begin

lemma snapshot_keeps: "inv s \<Longrightarrow> sk_ApplySnapshot sink sn s = Some (err, s') \<Longrightarrow> inv s'"
  using snapshot_inv [of s sn] by auto

lemma source_keeps: "inv s \<Longrightarrow> sk_ApplySourceSnapshot sink ss s = Some (err, s') \<Longrightarrow> inv s'"
  using source_inv [of s ss] by auto

end

end
