(* ===== verification/Ubus_Provider.thy ===== *)
theory Ubus_Provider
  imports Ubus_Lists Sink
begin

text \<open>
  \<^verbatim>\<open>internal/providers/ubus/provider.go\<close>: the life cycle of the Wi-Fi provider as a state machine over
  an arbitrary sink.  The answers of the outside world (the \<^verbatim>\<open>ubus\<close> commands, the clock, the context)
  are arguments of each step; the subscription goroutine is known by the generation it was started
  with.  The fields \<open>us_started\<close>, \<open>us_cancelled\<close> and \<open>us_ended\<close> are history: no step reads them.
\<close>

section \<open>State\<close>

record 's ubus =
  us_sink :: 's
  us_status :: ProviderStatus
  us_objects :: "string list"
  us_subCancel :: "uint64 option"
  us_subResult :: "uint64 option"
  us_lastSnapshot :: time
  us_generation :: uint64
  us_started :: "(uint64 \<times> string list) list"
  us_cancelled :: "uint64 list"
  us_ended :: "uint64 list"

text \<open>\<^verbatim>\<open>newWithSubscriber\<close>, and the local variables with which \<^verbatim>\<open>Run\<close> starts.\<close>

definition ubus_New :: "'s \<Rightarrow> 's ubus" where
  "ubus_New s =
     \<lparr>us_sink = s,
      us_status = \<lparr>ps_ID = providerID, ps_Kind = ''wifi'', ps_Status = ''initializing'',
                   ps_SnapshotSupported = True, ps_Sources = [], ps_LastSnapshotAt = 0,
                   ps_LastEventAt = 0, ps_LastError = [], ps_SnapshotSource = ''ubus:get_clients'',
                   ps_EventSource = ''hostapd:global-control''\<rparr>,
      us_objects = [], us_subCancel = None, us_subResult = None, us_lastSnapshot = 0,
      us_generation = 0, us_started = [], us_cancelled = [], us_ended = []\<rparr>"

section \<open>Status\<close>

definition setStatus ::
    "('e, 's) Sink \<Rightarrow> string \<Rightarrow> string \<Rightarrow> string list \<Rightarrow> time \<Rightarrow> time \<Rightarrow> 's ubus \<Rightarrow> 's ubus" where
  "setStatus sink status message objects snapshot event u =
     (let st = (us_status u)\<lparr>ps_Status := status, ps_LastError := message, ps_Sources := objects\<rparr>;
          st = (if snapshot \<noteq> 0 then st\<lparr>ps_LastSnapshotAt := snapshot\<rparr> else st);
          st = (if event \<noteq> 0 then st\<lparr>ps_LastEventAt := event\<rparr> else st)
      in u\<lparr>us_status := st, us_sink := sk_SetProviderStatus sink st (us_sink u)\<rparr>)"

definition publishStatus :: "('e, 's) Sink \<Rightarrow> 's ubus \<Rightarrow> 's ubus" where
  "publishStatus sink u = u\<lparr>us_sink := sk_SetProviderStatus sink (us_status u) (us_sink u)\<rparr>"

definition healthy :: "('e, 's) Sink \<Rightarrow> string list \<Rightarrow> time \<Rightarrow> 's ubus \<Rightarrow> 's ubus" where
  "healthy sink objects snapshot = setStatus sink ''healthy'' [] objects snapshot 0"

definition fail :: "('e, 's) Sink \<Rightarrow> string \<Rightarrow> 's ubus \<Rightarrow> 's ubus" where
  "fail sink message u =
     setStatus sink ''unavailable'' message (ps_Sources (us_status u)) (ps_LastSnapshotAt (us_status u))
       (ps_LastEventAt (us_status u)) u"

definition noteEvent :: "('e, 's) Sink \<Rightarrow> time \<Rightarrow> 's ubus \<Rightarrow> 's ubus" where
  "noteEvent sink at u =
     (let st = (us_status u)\<lparr>ps_LastEventAt := at\<rparr>
      in u\<lparr>us_status := st, us_sink := sk_SetProviderStatus sink st (us_sink u)\<rparr>)"

section \<open>Snapshots\<close>

text \<open>
  \<^verbatim>\<open>snapshot\<close>: the results of the workers in the order of their arrival, each an error or the clients of
  one object.  The first error ends it without a call on the sink.  The outer option is that of the
  sink's call; the inner result is the error text, \<open>None\<close> for success.
\<close>

fun first_error :: "(string \<times> (string + string list)) list \<Rightarrow> string option" where
  "first_error [] = None"
| "first_error ((object, Inl err) # rs) = Some err"
| "first_error ((object, Inr ids) # rs) = first_error rs"

fun stations_of :: "(string \<times> (string + string list)) list \<Rightarrow> (string, string list) gomap" where
  "stations_of [] = []"
| "stations_of ((object, Inl err) # rs) = stations_of rs"
| "stations_of ((object, Inr ids) # rs) = AList.update object ids (stations_of rs)"

definition ubus_snapshot ::
    "('e, 's) Sink \<Rightarrow> ('e \<Rightarrow> string) \<Rightarrow> (string \<times> (string + string list)) list \<Rightarrow> time \<Rightarrow> 's ubus \<Rightarrow>
     (string option \<times> 's ubus) option" where
  "ubus_snapshot sink emsg results now u =
     (case first_error results of
        Some err \<Rightarrow> Some (Some err, u)
      | None \<Rightarrow>
          (case sk_ApplySnapshot sink
                  \<lparr>os_Provider = providerID, os_ReceivedAt = now, os_Stations = stations_of results\<rparr>
                  (us_sink u) of
             None \<Rightarrow> None
           | Some (err, s) \<Rightarrow> Some (map_option emsg err, u\<lparr>us_sink := s\<rparr>)))"

definition connectVerificationAttempts :: nat where
  "connectVerificationAttempts = 3"

text \<open>
  \<^verbatim>\<open>verifyEvent\<close>: \<open>answer n\<close> is what the \<open>n\<close>-th query of the source gives and \<open>cancelled n\<close> whether the
  context ends during the delay after it.
\<close>

fun verify_from ::
    "('e, 's) Sink \<Rightarrow> ('e \<Rightarrow> string) \<Rightarrow> Observation \<Rightarrow> (nat \<Rightarrow> string + string list) \<Rightarrow> (nat \<Rightarrow> bool) \<Rightarrow>
     time \<Rightarrow> nat \<Rightarrow> nat \<Rightarrow> 's ubus \<Rightarrow> (string option \<times> 's ubus) option" where
  "verify_from sink emsg event answer cancelled now attempt 0 u = Some (None, u)"
| "verify_from sink emsg event answer cancelled now attempt (Suc left) u =
     (case answer attempt of
        Inl err \<Rightarrow> Some (Some err, u)
      | Inr ids \<Rightarrow>
          let verified = (ob_Kind event \<noteq> WiFiAssociated \<or> containsSorted ids (ob_ClientID event))
          in if verified \<or> left = 0
             then (case sk_ApplySourceSnapshot sink
                          \<lparr>ss_Provider = providerID, ss_SourceInstance = ob_SourceInstance event,
                           ss_ReceivedAt = now, ss_Clients = ids\<rparr> (us_sink u) of
                     None \<Rightarrow> None
                   | Some (err, s) \<Rightarrow> Some (map_option emsg err, u\<lparr>us_sink := s\<rparr>))
             else if cancelled attempt then Some (Some ''context canceled'', u)
             else verify_from sink emsg event answer cancelled now (attempt + 1) left u)"

definition verifyEvent ::
    "('e, 's) Sink \<Rightarrow> ('e \<Rightarrow> string) \<Rightarrow> Observation \<Rightarrow> (nat \<Rightarrow> string + string list) \<Rightarrow> (nat \<Rightarrow> bool) \<Rightarrow>
     time \<Rightarrow> 's ubus \<Rightarrow> (string option \<times> 's ubus) option" where
  "verifyEvent sink emsg event answer cancelled now u =
     verify_from sink emsg event answer cancelled now 0
       (if ob_Kind event = WiFiAssociated then connectVerificationAttempts else 1) u"

section \<open>The loop\<close>

text \<open>The answers that one call of the closure \<^verbatim>\<open>refresh\<close> gets.\<close>

record answers =
  an_discover :: "string + string list"
  an_results :: "(string \<times> (string + string list)) list"
  an_received :: time
  an_snapshotAt :: time

definition cancel_subscription :: "'s ubus \<Rightarrow> 's ubus" where
  "cancel_subscription u =
     (case us_subCancel u of None \<Rightarrow> u | Some g \<Rightarrow> u\<lparr>us_cancelled := us_cancelled u @ [g]\<rparr>)"

definition start_subscription :: "'s ubus \<Rightarrow> 's ubus" where
  "start_subscription u =
     (case us_subResult u of
        Some _ \<Rightarrow> u
      | None \<Rightarrow>
          let g = us_generation u + 1 in
          u\<lparr>us_generation := g, us_subCancel := Some g, us_subResult := Some g,
            us_started := us_started u @ [(g, us_objects u)]\<rparr>)"

definition take_snapshot ::
    "('e, 's) Sink \<Rightarrow> ('e \<Rightarrow> string) \<Rightarrow> answers \<Rightarrow> 's ubus \<Rightarrow> 's ubus option" where
  "take_snapshot sink emsg a u =
     (case ubus_snapshot sink emsg (an_results a) (an_received a) u of
        None \<Rightarrow> None
      | Some (Some err, u1) \<Rightarrow> Some (fail sink (''snapshot failed: '' @ sanitizeError err) u1)
      | Some (None, u1) \<Rightarrow>
          Some (healthy sink (us_objects u1) (an_snapshotAt a) (u1\<lparr>us_lastSnapshot := an_snapshotAt a\<rparr>)))"

definition ubus_refresh_with ::
    "('e, 's) Sink \<Rightarrow> ('e \<Rightarrow> string) \<Rightarrow> bool \<Rightarrow> answers \<Rightarrow> string list \<Rightarrow> 's ubus \<Rightarrow> 's ubus option" where
  "ubus_refresh_with sink emsg forceSnapshot a found u =
     (let changed = (\<not> equalStrings found (us_objects u)) in
      if length found = 0
      then Some (fail sink ''no hostapd ubus objects discovered''
             (if us_subCancel u \<noteq> None
              then (cancel_subscription u)\<lparr>us_subCancel := None, us_subResult := None,
                      us_generation := us_generation u + 1\<rparr>
              else u))
      else
        let u1 = (if changed
                  then (cancel_subscription (u\<lparr>us_objects := found\<rparr>))\<lparr>us_subResult := None, us_subCancel := None\<rparr>
                  else u);
            u2 = start_subscription u1
        in if forceSnapshot \<or> changed \<or> us_lastSnapshot u2 = 0
           then take_snapshot sink emsg a u2
           else Some (healthy sink (us_objects u2) (us_lastSnapshot u2) u2))"

definition ubus_refresh ::
    "('e, 's) Sink \<Rightarrow> ('e \<Rightarrow> string) \<Rightarrow> bool \<Rightarrow> answers \<Rightarrow> 's ubus \<Rightarrow> 's ubus option" where
  "ubus_refresh sink emsg forceSnapshot a u =
     (case an_discover a of
        Inl err \<Rightarrow> Some (fail sink (''discovery failed: '' @ sanitizeError err) u)
      | Inr found \<Rightarrow> ubus_refresh_with sink emsg forceSnapshot a found u)"

text \<open>What the \<^verbatim>\<open>select\<close> of the loop receives.\<close>

datatype ubus_input =
    ContextDone
  | DiscoveryTick answers
  | ReconcileTick answers
  | EventReceived subscriptionEvent "nat \<Rightarrow> string + string list" "nat \<Rightarrow> bool" time time answers
  | SubscriptionEnded "string option" bool answers

text \<open>\<open>True\<close> in the result is the return of \<^verbatim>\<open>Run\<close>.\<close>

definition on_event ::
    "('e, 's) Sink \<Rightarrow> ('e \<Rightarrow> string) \<Rightarrow> subscriptionEvent \<Rightarrow> (nat \<Rightarrow> string + string list) \<Rightarrow> (nat \<Rightarrow> bool) \<Rightarrow>
     time \<Rightarrow> time \<Rightarrow> answers \<Rightarrow> 's ubus \<Rightarrow> 's ubus option" where
  "on_event sink emsg ev answer cancelled now at a u =
     (if se_generation ev \<noteq> us_generation u then Some u
      else
        let u1 = noteEvent sink (ob_ReceivedAt (se_value ev)) u in
        if ob_Kind (se_value ev) = WiFiAssociated \<or> ob_Kind (se_value ev) = WiFiDisassociated
        then (case verifyEvent sink emsg (se_value ev) answer cancelled now u1 of
                None \<Rightarrow> None
              | Some (Some err, u2) \<Rightarrow>
                  let u3 = fail sink (''post-event source snapshot failed: '' @ sanitizeError err) u2;
                      u4 = (cancel_subscription u3)\<lparr>us_subResult := None, us_subCancel := None\<rparr>
                  in ubus_refresh sink emsg True a u4
              | Some (None, u2) \<Rightarrow>
                  Some (healthy sink (us_objects u2) at (u2\<lparr>us_lastSnapshot := at\<rparr>)))
        else Some (u1\<lparr>us_sink := snd (sk_Apply sink (se_value ev) (us_sink u1))\<rparr>))"

definition on_ended ::
    "('e, 's) Sink \<Rightarrow> ('e \<Rightarrow> string) \<Rightarrow> string option \<Rightarrow> bool \<Rightarrow> answers \<Rightarrow> 's ubus \<Rightarrow> 's ubus option" where
  "on_ended sink emsg err ctxDone a u =
     (case us_subResult u of
        None \<Rightarrow> Some u
      | Some g \<Rightarrow>
          let u1 = u\<lparr>us_subResult := None, us_subCancel := None, us_ended := us_ended u @ [g]\<rparr> in
          if g \<noteq> us_generation u1 then Some u1
          else (case err of
                  Some e \<Rightarrow> if ctxDone then Some u1
                            else ubus_refresh sink emsg True a
                                   (fail sink (''subscription failed: '' @ sanitizeError e) u1)
                | None \<Rightarrow> Some u1))"

definition ubus_step ::
    "('e, 's) Sink \<Rightarrow> ('e \<Rightarrow> string) \<Rightarrow> ubus_input \<Rightarrow> 's ubus \<Rightarrow> ('s ubus \<times> bool) option" where
  "ubus_step sink emsg inp u =
     (case inp of
        ContextDone \<Rightarrow>
          Some (cancel_subscription (setStatus sink ''stopped'' [] (us_objects u) (us_lastSnapshot u) 0 u), True)
      | DiscoveryTick a \<Rightarrow> map_option (\<lambda>u. (u, False)) (ubus_refresh sink emsg False a u)
      | ReconcileTick a \<Rightarrow>
          map_option (\<lambda>u. (u, False))
            (if length (us_objects u) = 0 then ubus_refresh sink emsg True a u else take_snapshot sink emsg a u)
      | EventReceived ev answer cancelled now at a \<Rightarrow>
          map_option (\<lambda>u. (u, False)) (on_event sink emsg ev answer cancelled now at a u)
      | SubscriptionEnded err ctxDone a \<Rightarrow>
          map_option (\<lambda>u. (u, False)) (on_ended sink emsg err ctxDone a u))"

text \<open>\<^verbatim>\<open>Run\<close> up to some point: its start, then the inputs so far.\<close>

fun ubus_inputs ::
    "('e, 's) Sink \<Rightarrow> ('e \<Rightarrow> string) \<Rightarrow> ubus_input list \<Rightarrow> 's ubus \<Rightarrow> 's ubus option" where
  "ubus_inputs sink emsg [] u = Some u"
| "ubus_inputs sink emsg (i # is) u =
     (case ubus_step sink emsg i u of
        None \<Rightarrow> None
      | Some (u', returned) \<Rightarrow> if returned then Some u' else ubus_inputs sink emsg is u')"

definition ubus_Run ::
    "('e, 's) Sink \<Rightarrow> ('e \<Rightarrow> string) \<Rightarrow> answers \<Rightarrow> ubus_input list \<Rightarrow> 's \<Rightarrow> 's ubus option" where
  "ubus_Run sink emsg a inputs s =
     (case ubus_refresh sink emsg True a (publishStatus sink (ubus_New s)) of
        None \<Rightarrow> None
      | Some u \<Rightarrow> ubus_inputs sink emsg inputs u)"

end
