(* ===== verification/Engine_Sink.thy ===== *)
theory Engine_Sink
  imports Sink Engine_Source
begin

text \<open>The engine is an \<^verbatim>\<open>observation.Sink\<close>.\<close>

definition engine_sink :: "Env \<Rightarrow> (engine_err, Engine) Sink" where
  "engine_sink env =
     \<lparr>sk_Apply = Apply env, sk_ApplySnapshot = ApplySnapshot env,
      sk_ApplySourceSnapshot = ApplySourceSnapshot env, sk_SetProviderStatus = SetProviderStatus env\<rparr>"

definition engine_vouches :: "Engine \<Rightarrow> string \<Rightarrow> string \<Rightarrow> string \<Rightarrow> bool" where
  "engine_vouches e provider source k \<longleftrightarrow>
     (\<exists>n. conns e k (connectionID provider source) = Some n \<and> \<not> conn_Stale n)"

definition engine_has_live :: "Engine \<Rightarrow> string \<Rightarrow> bool" where
  "engine_has_live e provider \<longleftrightarrow>
     (\<exists>k i n. conns e k i = Some n \<and> conn_Provider n = provider \<and> \<not> conn_Stale n)"

section \<open>What the engine records, with or without a grace\<close>

lemma refresh_live: "\<not> conn_Stale (refresh p at s v)"
  by (simp add: refresh_def new_conn_def split: option.split)

lemma associate_client_vouches:
  "engine_vouches (associate_client env provider source cid at reason c e) provider source cid"
proof -
  obtain c' n where
    "map_of (e_clients (associate_client env provider source cid at reason c e)) = (map_of (e_clients e))(cid \<mapsto> c')"
    "map_of (c_Connections c') = (map_of (c_Connections c))(connectionID provider source \<mapsto> n)" "\<not> conn_Stale n"
    by (rule associate_client_effect [OF refl refl]) blast
  then show ?thesis by (simp add: engine_vouches_def conns_def)
qed

lemma Associate_vouches:
  assumes "Associate env provider source cid at reason e = (None, e')"
  shows "engine_vouches e' provider source cid"
  using assms
  by (auto simp: Associate_def associate_client_vouches split: option.splits if_splits prod.splits bool.splits)

lemma fold_publish_conns:
  "conns (fold (reconcile_publish env ch at) ks e) k = conns e k"
  "conns (fold (source_publish env at) ks e) k = conns e k"
proof -
  have one: "conns (reconcile_publish env ch at x e) k j = conns e k j"
    and two: "conns (source_publish env at x e) k j = conns e k j" for x e j
    by (cases "map_of (e_clients e) k"; cases "k = x"; simp add: conns_def publish_effect)+
  show "conns (fold (reconcile_publish env ch at) ks e) k = conns e k"
    by (rule fold_same [where g = "\<lambda>e. conns e k"]) (rule ext, rule one)
  show "conns (fold (source_publish env at) ks e) k = conns e k"
    by (rule fold_same [where g = "\<lambda>e. conns e k"]) (rule ext, rule two)
qed

lemma conns_emit [simp]: "conns (emitLocked env kind reason d e) k = conns e k"
  by (simp add: conns_def [abs_def])

lemma Reconcile_vouches:
  assumes "Reconcile env provider stations at e = Some (None, e')" and "listed stations k s"
  shows "engine_vouches e' provider s k"
proof -
  let ?w = "build_wanted stations"
  obtain e1 where e': "e' = reconcile_apply env provider ?w at e1"
    using assms(1) by (auto simp: Reconcile_def Let_def split: option.splits prod.splits bool.splits)
  define s2 where "s2 = fold (reconcile_scan env provider ?w at) (map fst (e_clients e1))
      (e1\<lparr>e_reconciliations := e_reconciliations e1 + 1\<rparr>, [])"
  obtain e3 changed where s3: "fold (reconcile_want provider at) ?w s2 = (e3, changed)" by fastforce
  have f: "conns e' k = conns e3 k"
    using s3 by (simp add: e' reconcile_apply_def Let_def s2_def fold_publish_conns)
  have "is_wanted ?w k s" using assms(2) by (simp add: is_wanted_build listed_def)
  then have "\<exists>v. conns e3 k (connectionID provider s) = Some (refresh provider at
      (THE s'. connectionID provider s = connectionID provider s') v)"
    using want_effect [OF build_wanted_wf(1) [of stations], of provider at s2 k "connectionID provider s"]
    by (auto simp: s3)
  then show ?thesis by (auto simp: engine_vouches_def f refresh_live)
qed

lemma ReconcileSource_vouches:
  assumes "ReconcileSource env provider source ids at e = Some (None, e')" and "k \<in> set ids"
  shows "engine_vouches e' provider source k"
proof -
  obtain e1 where e': "e' = source_apply env provider source (remdups ids) at e1"
    using assms(1) by (auto simp: ReconcileSource_def Let_def split: option.splits prod.splits bool.splits)
  define s1 where "s1 = fold (source_scan provider source (remdups ids) at) (map fst (e_clients e1)) (e1, [])"
  obtain e2 affected where s2: "fold (source_want provider source at) (remdups ids) s1 = (e2, affected)"
    by fastforce
  have f: "conns e' k = conns e2 k"
    using s2 by (simp add: e' source_apply_def Let_def s1_def fold_publish_conns)
  have "\<exists>v. conns e2 k (connectionID provider source) = Some (refresh provider at source v)"
    using source_wants(1) [of provider source at "remdups ids" s1 k] assms(2) by (simp add: s2) blast
  then show ?thesis by (auto simp: engine_vouches_def f refresh_live)
qed

interpretation engine_sink: observation_sink "engine_sink env" "\<lambda>e. good_env env \<and> engine_reach e"
  engine_vouches engine_has_live
  for env
proof
  show "good_env env \<and> engine_reach e'"
    if "good_env env \<and> engine_reach e" "sk_Apply (engine_sink env) v e = (err, e')" for e v err e'
    using that engine_reach.step [OF _ engine_step.apply_obs [of env e v]] by (simp add: engine_sink_def)
  show "\<exists>err e'. sk_ApplySnapshot (engine_sink env) sn e = Some (err, e') \<and> good_env env \<and> engine_reach e'"
    if a: "good_env env \<and> engine_reach e" for e sn
  proof -
    obtain err e' where r: "ApplySnapshot env sn e = Some (err, e')"
      using Reconcile_keeps engine_reach_inv a by (metis ApplySnapshot_def)
    with a engine_reach.step [OF _ engine_step.apply_snapshot [OF _ r]] show ?thesis
      by (simp add: engine_sink_def)
  qed
  show "\<exists>err e'. sk_ApplySourceSnapshot (engine_sink env) ss e = Some (err, e') \<and> good_env env \<and> engine_reach e'"
    if a: "good_env env \<and> engine_reach e" for e ss
  proof -
    obtain err e' where r: "ApplySourceSnapshot env ss e = Some (err, e')"
      using ReconcileSource_keeps engine_reach_inv a by (metis ApplySourceSnapshot_def)
    with a engine_reach.step [OF _ engine_step.apply_source [OF _ r]] show ?thesis
      by (simp add: engine_sink_def)
  qed
  show "good_env env \<and> engine_reach (sk_SetProviderStatus (engine_sink env) st e)"
    if "good_env env \<and> engine_reach e" for e st
    using that engine_reach.step [OF _ engine_step.set_status [of env e st]] by (simp add: engine_sink_def)
  show "\<not> engine_has_live (sk_SetProviderStatus (engine_sink env) st e) (ps_ID st)"
    if "good_env env \<and> engine_reach e" "ps_Status st = ''unavailable''" for e st
    using outage_stales [of env e st] that by (auto simp: engine_has_live_def engine_sink_def)
  show "engine_vouches e' (ob_Provider v) (ob_SourceInstance v) (ob_ClientID v)"
    if "sk_Apply (engine_sink env) v e = (None, e')" "ob_Kind v = WiFiAssociated \<or> ob_Kind v = WiredReachable"
    for e v e'
    using that Associate_vouches by (auto simp: engine_sink_def Apply_def)
  show "engine_vouches e' (os_Provider sn) src k"
    if "sk_ApplySnapshot (engine_sink env) sn e = Some (None, e')" "(src, ids) \<in> set (os_Stations sn)" "k \<in> set ids"
    for e sn e' src ids k
    using that by (intro Reconcile_vouches [of env _ "os_Stations sn" "os_ReceivedAt sn" e])
      (auto simp: engine_sink_def ApplySnapshot_def listed_def)
  show "engine_vouches e' (ss_Provider ss) (ss_SourceInstance ss) k"
    if "sk_ApplySourceSnapshot (engine_sink env) ss e = Some (None, e')" "k \<in> set (ss_Clients ss)"
    for e ss e' k
    using that ReconcileSource_vouches by (auto simp: engine_sink_def ApplySourceSnapshot_def)
qed

end
