(* ===== verification/WiFi_Associations.thy ===== *)
theory WiFi_Associations
  imports Engine_Sink
begin

text \<open>
  \<^verbatim>\<open>internal/providers/wifi_associations.go\<close>: a sink that forwards to another sink and mirrors which
  clients have a Wi-Fi association, and \<^verbatim>\<open>internal/providers/provider.go\<close>: the group of providers, of
  which the wired one waits for the mirror to be ready.
\<close>

section \<open>State and operations\<close>

text \<open>\<open>w_inner\<close> is the state of the sink that \<^verbatim>\<open>w.sink\<close> points to; \<open>w_ready\<close> says that the channel is closed.\<close>

record 's wifiAssociations =
  w_inner :: 's
  w_connections :: "(string, string list) gomap"
  w_ready :: bool
  w_readyOnce :: bool

definition newWiFiAssociations :: "'s \<Rightarrow> 's wifiAssociations" where
  "newWiFiAssociations s = \<lparr>w_inner = s, w_connections = [], w_ready = False, w_readyOnce = False\<rparr>"

definition markReady :: "'s wifiAssociations \<Rightarrow> 's wifiAssociations" where
  "markReady w = (if w_readyOnce w then w else w\<lparr>w_readyOnce := True, w_ready := True\<rparr>)"

definition Contains :: "string \<Rightarrow> 's wifiAssociations \<Rightarrow> bool" where
  "Contains k w =
     (length (case map_of (w_connections w) k of None \<Rightarrow> [] | Some ss \<Rightarrow> ss) \<noteq> 0)"

text \<open>\<^verbatim>\<open>delete(m[k], s); if len(m[k]) == 0 { delete(m, k) }\<close>.\<close>

definition wanted_remove ::
    "string \<Rightarrow> string \<Rightarrow> (string, string list) gomap \<Rightarrow> (string, string list) gomap" where
  "wanted_remove source cid m =
     (let m1 = (case map_of m cid of None \<Rightarrow> m | Some ss \<Rightarrow> AList.update cid (removeAll source ss) m)
      in if length (case map_of m1 cid of None \<Rightarrow> [] | Some ss \<Rightarrow> ss) = 0
         then AList.delete cid m1 else m1)"

definition wifi_Apply ::
    "('e, 's) Sink \<Rightarrow> Observation \<Rightarrow> 's wifiAssociations \<Rightarrow> 'e option \<times> 's wifiAssociations" where
  "wifi_Apply sink v w =
     (case sk_Apply sink v (w_inner w) of
        (Some err, s) \<Rightarrow> (Some err, w\<lparr>w_inner := s\<rparr>)
      | (None, s) \<Rightarrow>
          (None, w\<lparr>w_inner := s, w_connections :=
             (case ob_Kind v of
                WiFiAssociated \<Rightarrow> wanted_add (ob_SourceInstance v) (ob_ClientID v) (w_connections w)
              | WiFiDisassociated \<Rightarrow> wanted_remove (ob_SourceInstance v) (ob_ClientID v) (w_connections w)
              | _ \<Rightarrow> w_connections w)\<rparr>))"

definition wifi_ApplySnapshot ::
    "('e, 's) Sink \<Rightarrow> ObsSnapshot \<Rightarrow> 's wifiAssociations \<Rightarrow> ('e option \<times> 's wifiAssociations) option" where
  "wifi_ApplySnapshot sink v w =
     (case sk_ApplySnapshot sink v (w_inner w) of
        None \<Rightarrow> None
      | Some (Some err, s) \<Rightarrow> Some (Some err, w\<lparr>w_inner := s\<rparr>)
      | Some (None, s) \<Rightarrow>
          Some (None, markReady (w\<lparr>w_inner := s, w_connections := build_wanted (os_Stations v)\<rparr>)))"

definition wifi_ApplySourceSnapshot ::
    "('e, 's) Sink \<Rightarrow> SourceSnapshot \<Rightarrow> 's wifiAssociations \<Rightarrow> ('e option \<times> 's wifiAssociations) option" where
  "wifi_ApplySourceSnapshot sink v w =
     (case sk_ApplySourceSnapshot sink v (w_inner w) of
        None \<Rightarrow> None
      | Some (Some err, s) \<Rightarrow> Some (Some err, w\<lparr>w_inner := s\<rparr>)
      | Some (None, s) \<Rightarrow>
          let m1 = fold (wanted_remove (ss_SourceInstance v)) (map fst (w_connections w)) (w_connections w);
              m2 = fold (wanted_add (ss_SourceInstance v)) (ss_Clients v) m1
          in Some (None, w\<lparr>w_inner := s, w_connections := m2\<rparr>))"

definition wifi_SetProviderStatus ::
    "('e, 's) Sink \<Rightarrow> ProviderStatus \<Rightarrow> 's wifiAssociations \<Rightarrow> 's wifiAssociations" where
  "wifi_SetProviderStatus sink v w =
     (let w1 = w\<lparr>w_inner := sk_SetProviderStatus sink v (w_inner w)\<rparr>
      in if ps_Status v = ''unavailable'' then markReady w1 else w1)"

definition wifi_sink :: "('e, 's) Sink \<Rightarrow> ('e, 's wifiAssociations) Sink" where
  "wifi_sink sink =
     \<lparr>sk_Apply = wifi_Apply sink, sk_ApplySnapshot = wifi_ApplySnapshot sink,
      sk_ApplySourceSnapshot = wifi_ApplySourceSnapshot sink,
      sk_SetProviderStatus = wifi_SetProviderStatus sink\<rparr>"

text \<open>
  \<^verbatim>\<open>gatedProvider.Run\<close>: the \<^verbatim>\<open>select\<close> waits until the context is done or the gate is open, and takes
  either branch when both hold; \<open>None\<close> is still waiting.  \<open>pick\<close> is the choice of the runtime.
\<close>

datatype gate_outcome = GateCancelled | GateRuns

definition gated_Run :: "bool \<Rightarrow> bool \<Rightarrow> bool \<Rightarrow> gate_outcome option" where
  "gated_Run pick done ready =
     (if done \<and> ready then Some (if pick then GateCancelled else GateRuns)
      else if done then Some GateCancelled
      else if ready then Some GateRuns
      else None)"

text \<open>
  \<^verbatim>\<open>group.Run\<close>: the results in the order in which the goroutines deliver them, of which the loop takes
  at most one per provider; the second component is the cancellation of the group's context before
  the function returns (the deferred \<^verbatim>\<open>cancel\<close> follows in any case).
\<close>

fun group_Run :: "'e option list \<Rightarrow> 'e option \<times> bool" where
  "group_Run [] = (None, False)"
| "group_Run (Some err # rs) = (Some err, True)"
| "group_Run (None # rs) = group_Run rs"

section \<open>The mirror as a set of pairs\<close>

definition mirror :: "'s wifiAssociations \<Rightarrow> (string \<times> string) set" where
  "mirror w = {(k, s). is_wanted (w_connections w) k s}"

definition mirror_wf :: "'s wifiAssociations \<Rightarrow> bool" where
  "mirror_wf w \<longleftrightarrow> dkeys (w_connections w) \<and>
     (\<forall>k ss. map_of (w_connections w) k = Some ss \<longrightarrow> ss \<noteq> [])"

lemma is_wanted_remove:
  "is_wanted (wanted_remove s k m) k' s' \<longleftrightarrow> is_wanted m k' s' \<and> \<not> (k' = k \<and> s' = s)"
proof -
  have "removeAll s ss = [] \<Longrightarrow> s' \<in> set ss \<Longrightarrow> s' = s" for ss by (induction ss) (auto split: if_splits)
  then show ?thesis
    by (auto simp: is_wanted_def wanted_remove_def Let_def split: option.splits if_splits)
qed

lemma is_wanted_removes:
  "is_wanted (fold (wanted_remove s) ks m) k' s' \<longleftrightarrow> is_wanted m k' s' \<and> \<not> (k' \<in> set ks \<and> s' = s)"
  by (induction ks arbitrary: m) (auto simp: is_wanted_remove)

lemma is_wanted_key: "is_wanted m k s \<Longrightarrow> k \<in> keyset m"
  by (auto simp: is_wanted_def keys_map_of split: option.splits)

lemma mirror_upd [simp]:
  "mirror (w\<lparr>w_inner := x\<rparr>) = mirror w" "mirror (markReady w) = mirror w"
  "w_inner (markReady w) = w_inner w" "w_connections (markReady w) = w_connections w"
  by (simp_all add: mirror_def markReady_def)

text \<open>
  C14. The mirror is the set of associated (client, source) pairs.  Every report goes to the inner
  sink once; one that the inner sink refuses leaves the mirror alone; an accepted association or
  disassociation adds or removes one pair, an accepted snapshot replaces the set, a snapshot of one
  source replaces the pairs of that source, a status changes nothing; and \<^verbatim>\<open>Contains\<close> asks whether the
  client has a pair.
\<close>

theorem mirror_refines_pairs:
  "(case sk_Apply sink v (w_inner w) of (err, s) \<Rightarrow> \<exists>w'. wifi_Apply sink v w = (err, w') \<and> w_inner w' = s \<and>
      mirror w' = (if err \<noteq> None then mirror w else case ob_Kind v of
         WiFiAssociated \<Rightarrow> insert (ob_ClientID v, ob_SourceInstance v) (mirror w)
       | WiFiDisassociated \<Rightarrow> mirror w - {(ob_ClientID v, ob_SourceInstance v)}
       | _ \<Rightarrow> mirror w)) \<and>
   (case sk_ApplySnapshot sink sn (w_inner w) of None \<Rightarrow> wifi_ApplySnapshot sink sn w = None
    | Some (err, s) \<Rightarrow> \<exists>w'. wifi_ApplySnapshot sink sn w = Some (err, w') \<and> w_inner w' = s \<and>
      mirror w' = (if err \<noteq> None then mirror w
        else {(k, src). \<exists>ids. (src, ids) \<in> set (os_Stations sn) \<and> k \<in> set ids})) \<and>
   (case sk_ApplySourceSnapshot sink ss (w_inner w) of None \<Rightarrow> wifi_ApplySourceSnapshot sink ss w = None
    | Some (err, s) \<Rightarrow> \<exists>w'. wifi_ApplySourceSnapshot sink ss w = Some (err, w') \<and> w_inner w' = s \<and>
      mirror w' = (if err \<noteq> None then mirror w
        else {(k, src). (k, src) \<in> mirror w \<and> src \<noteq> ss_SourceInstance ss} \<union>
             set (ss_Clients ss) \<times> {ss_SourceInstance ss})) \<and>
   mirror (wifi_SetProviderStatus sink st w) = mirror w \<and>
   w_inner (wifi_SetProviderStatus sink st w) = sk_SetProviderStatus sink st (w_inner w) \<and>
   (Contains k w \<longleftrightarrow> (\<exists>src. (k, src) \<in> mirror w)) \<and>
   mirror (newWiFiAssociations s0) = {}"
proof (intro conjI)
  show "case sk_Apply sink v (w_inner w) of (err, s) \<Rightarrow> \<exists>w'. wifi_Apply sink v w = (err, w') \<and> w_inner w' = s \<and>
      mirror w' = (if err \<noteq> None then mirror w else case ob_Kind v of
         WiFiAssociated \<Rightarrow> insert (ob_ClientID v, ob_SourceInstance v) (mirror w)
       | WiFiDisassociated \<Rightarrow> mirror w - {(ob_ClientID v, ob_SourceInstance v)}
       | _ \<Rightarrow> mirror w)"
    by (auto simp: wifi_Apply_def mirror_def is_wanted_add is_wanted_remove split: prod.split option.split Kind.split)
  show "case sk_ApplySnapshot sink sn (w_inner w) of None \<Rightarrow> wifi_ApplySnapshot sink sn w = None
    | Some (err, s) \<Rightarrow> \<exists>w'. wifi_ApplySnapshot sink sn w = Some (err, w') \<and> w_inner w' = s \<and>
      mirror w' = (if err \<noteq> None then mirror w
        else {(k, src). \<exists>ids. (src, ids) \<in> set (os_Stations sn) \<and> k \<in> set ids})"
    by (auto simp: wifi_ApplySnapshot_def mirror_def is_wanted_build split: prod.split option.split)
  show "case sk_ApplySourceSnapshot sink ss (w_inner w) of None \<Rightarrow> wifi_ApplySourceSnapshot sink ss w = None
    | Some (err, s) \<Rightarrow> \<exists>w'. wifi_ApplySourceSnapshot sink ss w = Some (err, w') \<and> w_inner w' = s \<and>
      mirror w' = (if err \<noteq> None then mirror w
        else {(k, src). (k, src) \<in> mirror w \<and> src \<noteq> ss_SourceInstance ss} \<union>
             set (ss_Clients ss) \<times> {ss_SourceInstance ss})"
    using is_wanted_key [of "w_connections w"]
    by (auto simp: wifi_ApplySourceSnapshot_def mirror_def fold_wanted_add is_wanted_removes Let_def
        split: prod.split option.split)
  show "Contains k w \<longleftrightarrow> (\<exists>src. (k, src) \<in> mirror w)"
  proof -
    have "ss \<noteq> [] \<longleftrightarrow> (\<exists>s. s \<in> set ss)" for ss :: "string list" by (cases ss) auto
    then show ?thesis
      by (cases "map_of (w_connections w) k") (simp_all add: Contains_def mirror_def is_wanted_def)
  qed
qed (simp_all add: wifi_SetProviderStatus_def Let_def newWiFiAssociations_def mirror_def is_wanted_def)

section \<open>The mirror in front of a sink\<close>

context observation_sink
begin

text \<open>Whatever the mirror gains, the inner sink vouches for; its invariant is kept.\<close>

lemma wifi_apply_gains:
  assumes "inv (w_inner w)" and "wifi_Apply sink v w = (err, w')"
  shows "inv (w_inner w')"
    and "(k, s) \<in> mirror w' - mirror w \<Longrightarrow> vouches (w_inner w') (ob_Provider v) s k"
proof -
  obtain err' s' where a: "sk_Apply sink v (w_inner w) = (err', s')" by fastforce
  have w': "err = err'" "w_inner w' = s'"
    using assms(2) a by (auto simp: wifi_Apply_def split: option.splits)
  show "inv (w_inner w')" using apply_inv [OF assms(1) a] w' by simp
  assume g: "(k, s) \<in> mirror w' - mirror w"
  then have "err' = None \<and> ob_Kind v = WiFiAssociated \<and> k = ob_ClientID v \<and> s = ob_SourceInstance v"
    using assms(2) a
    by (auto simp: wifi_Apply_def mirror_def is_wanted_add is_wanted_remove split: option.splits Kind.splits)
  then show "vouches (w_inner w') (ob_Provider v) s k"
    using apply_vouches [OF assms(1), of v s'] a w' by auto
qed

lemma wifi_snapshot_gains:
  assumes "inv (w_inner w)"
  shows "\<exists>err w'. wifi_ApplySnapshot sink sn w = Some (err, w') \<and> inv (w_inner w') \<and>
    (\<forall>k s. (k, s) \<in> mirror w' - mirror w \<longrightarrow> vouches (w_inner w') (os_Provider sn) s k)"
proof -
  obtain err s' where a: "sk_ApplySnapshot sink sn (w_inner w) = Some (err, s')" "inv s'"
    using snapshot_inv [OF assms] by blast
  have "err = None \<Longrightarrow> is_wanted (build_wanted (os_Stations sn)) k s \<Longrightarrow> vouches s' (os_Provider sn) s k" for k s
    using snapshot_vouches [OF assms, of sn s'] a(1) by (auto simp: is_wanted_build)
  then show ?thesis
    using a by (cases err) (auto simp: wifi_ApplySnapshot_def mirror_def)
qed

lemma wifi_source_gains:
  assumes "inv (w_inner w)"
  shows "\<exists>err w'. wifi_ApplySourceSnapshot sink ss w = Some (err, w') \<and> inv (w_inner w') \<and>
    (\<forall>k s. (k, s) \<in> mirror w' - mirror w \<longrightarrow> vouches (w_inner w') (ss_Provider ss) s k)"
proof -
  obtain err s' where a: "sk_ApplySourceSnapshot sink ss (w_inner w) = Some (err, s')" "inv s'"
    using source_inv [OF assms] by blast
  have "err = None \<Longrightarrow> k \<in> set (ss_Clients ss) \<Longrightarrow> vouches s' (ss_Provider ss) (ss_SourceInstance ss) k" for k
    using source_vouches [OF assms, of ss s'] a(1) by auto
  then show ?thesis
    using a by (cases err) (auto simp: wifi_ApplySourceSnapshot_def mirror_def Let_def fold_wanted_add is_wanted_removes)
qed

text \<open>The wrapper keeps the contract of the sink it wraps, so the Wi-Fi provider can use it as one.\<close>

lemma wrapped_sink:
  "observation_sink (wifi_sink sink) (\<lambda>w. inv (w_inner w)) (\<lambda>w. vouches (w_inner w))
     (\<lambda>w. has_live (w_inner w))"
proof
  show "inv (w_inner w')" if "inv (w_inner w)" "sk_Apply (wifi_sink sink) v w = (err, w')" for w v err w'
    using that wifi_apply_gains(1) by (simp add: wifi_sink_def)
  show "\<exists>err w'. sk_ApplySnapshot (wifi_sink sink) sn w = Some (err, w') \<and> inv (w_inner w')"
    if "inv (w_inner w)" for w sn
    using wifi_snapshot_gains [OF that, of sn] by (auto simp: wifi_sink_def)
  show "\<exists>err w'. sk_ApplySourceSnapshot (wifi_sink sink) ss w = Some (err, w') \<and> inv (w_inner w')"
    if "inv (w_inner w)" for w ss
    using wifi_source_gains [OF that, of ss] by (auto simp: wifi_sink_def)
  show "inv (w_inner (sk_SetProviderStatus (wifi_sink sink) st w))" if "inv (w_inner w)" for w st
    using status_inv [OF that] by (simp add: wifi_sink_def wifi_SetProviderStatus_def Let_def)
  show "\<not> has_live (w_inner (sk_SetProviderStatus (wifi_sink sink) st w)) (ps_ID st)"
    if "inv (w_inner w)" "ps_Status st = ''unavailable''" for w st
    using outage [OF that] by (simp add: wifi_sink_def wifi_SetProviderStatus_def Let_def)
  show "vouches (w_inner w') (ob_Provider v) (ob_SourceInstance v) (ob_ClientID v)"
    if "inv (w_inner w)" "sk_Apply (wifi_sink sink) v w = (None, w')"
      "ob_Kind v = WiFiAssociated \<or> ob_Kind v = WiredReachable" for w v w'
    using that apply_vouches [of "w_inner w" v]
    by (auto simp: wifi_sink_def wifi_Apply_def split: prod.splits option.splits)
  show "vouches (w_inner w') (os_Provider sn) src k"
    if "inv (w_inner w)" "sk_ApplySnapshot (wifi_sink sink) sn w = Some (None, w')"
      "(src, ids) \<in> set (os_Stations sn)" "k \<in> set ids" for w sn w' src ids k
    using that snapshot_vouches [of "w_inner w" sn]
    by (auto simp: wifi_sink_def wifi_ApplySnapshot_def split: prod.splits option.splits)
  show "vouches (w_inner w') (ss_Provider ss) (ss_SourceInstance ss) k"
    if "inv (w_inner w)" "sk_ApplySourceSnapshot (wifi_sink sink) ss w = Some (None, w')"
      "k \<in> set (ss_Clients ss)" for w ss w' k
    using that source_vouches [of "w_inner w" ss]
    by (auto simp: wifi_sink_def wifi_ApplySourceSnapshot_def Let_def split: prod.splits option.splits)
qed

end

interpretation wifi_engine: observation_sink "wifi_sink (engine_sink env)"
  "\<lambda>w. good_env env \<and> engine_reach (w_inner w)" "\<lambda>w. engine_vouches (w_inner w)"
  "\<lambda>w. engine_has_live (w_inner w)"
  for env
  by (rule engine_sink.wrapped_sink)

text \<open>
  In front of the engine, the mirror never runs ahead: whenever a report adds a pair to the
  mirror, the engine has at that moment a live connection of that client at that source, so a client
  that the wired provider is told to skip is one the engine counts as connected; and the engine's
  invariant is kept and both snapshot calls return.
\<close>

theorem mirror_never_ahead:
  assumes "good_env env" and "engine_reach (w_inner w)"
  shows "(\<exists>err w'. wifi_Apply (engine_sink env) v w = (err, w') \<and> engine_reach (w_inner w') \<and>
      (\<forall>k s. (k, s) \<in> mirror w' - mirror w \<longrightarrow> engine_vouches (w_inner w') (ob_Provider v) s k)) \<and>
    (\<exists>err w'. wifi_ApplySnapshot (engine_sink env) sn w = Some (err, w') \<and> engine_reach (w_inner w') \<and>
      (\<forall>k s. (k, s) \<in> mirror w' - mirror w \<longrightarrow> engine_vouches (w_inner w') (os_Provider sn) s k)) \<and>
    (\<exists>err w'. wifi_ApplySourceSnapshot (engine_sink env) ss w = Some (err, w') \<and> engine_reach (w_inner w') \<and>
      (\<forall>k s. (k, s) \<in> mirror w' - mirror w \<longrightarrow> engine_vouches (w_inner w') (ss_Provider ss) s k))"
proof -
  have i: "good_env env \<and> engine_reach (w_inner w)" using assms by simp
  obtain err w' where a: "wifi_Apply (engine_sink env) v w = (err, w')" by fastforce
  show ?thesis
    using engine_sink.wifi_apply_gains [OF i a] a engine_sink.wifi_snapshot_gains [OF i, of sn]
      engine_sink.wifi_source_gains [OF i, of ss] by (intro conjI) blast+
qed

theorem mirror_never_ahead_witness:
  "\<exists>err w'. wifi_Apply (engine_sink demo_env) (demo_obs WiFiAssociated ''w0'' ''m'' 5)
       (newWiFiAssociations (demo_engine 0)) = (err, w') \<and>
     Contains ''m'' w' \<and> engine_vouches (w_inner w') ''ubus'' ''w0'' ''m''"
proof -
  let ?w = "newWiFiAssociations (demo_engine 0)" and ?v = "demo_obs WiFiAssociated ''w0'' ''m'' 5"
  have i: "engine_reach (w_inner ?w)"
    using demo_engine_reach by (simp add: newWiFiAssociations_def)
  obtain err w' where a: "wifi_Apply (engine_sink demo_env) ?v ?w = (err, w')"
    and g: "\<forall>k s. (k, s) \<in> mirror w' - mirror ?w \<longrightarrow> engine_vouches (w_inner w') (ob_Provider ?v) s k"
    using mirror_never_ahead [OF demo_env_good i] by blast
  have c: "Contains ''m'' (snd (wifi_Apply (engine_sink demo_env) ?v ?w))"
    "is_wanted (w_connections (snd (wifi_Apply (engine_sink demo_env) ?v ?w))) ''m'' ''w0''"
    by code_simp+
  have "(''m'', ''w0'') \<in> mirror w' - mirror ?w"
    using c(2) a by (simp add: mirror_def newWiFiAssociations_def is_wanted_def [of "[]"])
  then have "engine_vouches (w_inner w') ''ubus'' ''w0'' ''m''" using g by (simp add: demo_obs_def)
  then show ?thesis using a c(1) by auto
qed

section \<open>Readiness\<close>

lemma ready_upd [simp]: "w_ready (markReady w) \<longleftrightarrow> w_ready w \<or> \<not> w_readyOnce w"
  "w_readyOnce (markReady w)"
  by (simp_all add: markReady_def)

text \<open>One call on the wrapper, and whether it is one that opens the gate.\<close>

datatype sink_call =
    CallApply Observation
  | CallSnapshot ObsSnapshot
  | CallSource SourceSnapshot
  | CallStatus ProviderStatus

definition sink_run :: "('e, 's) Sink \<Rightarrow> sink_call \<Rightarrow> 's \<Rightarrow> ('e option \<times> 's) option" where
  "sink_run sink call s =
     (case call of
        CallApply v \<Rightarrow> Some (sk_Apply sink v s)
      | CallSnapshot v \<Rightarrow> sk_ApplySnapshot sink v s
      | CallSource v \<Rightarrow> sk_ApplySourceSnapshot sink v s
      | CallStatus v \<Rightarrow> Some (None, sk_SetProviderStatus sink v s))"

definition opens :: "sink_call \<Rightarrow> 'e option \<Rightarrow> bool" where
  "opens call err =
     (case call of CallSnapshot v \<Rightarrow> err = None | CallStatus v \<Rightarrow> ps_Status v = ''unavailable'' | _ \<Rightarrow> False)"

text \<open>Calls in a row; the second component says whether one of them has opened the gate.\<close>

fun sink_runs :: "('e, 's) Sink \<Rightarrow> sink_call list \<Rightarrow> 's \<times> bool \<Rightarrow> ('s \<times> bool) option" where
  "sink_runs sink [] s = Some s"
| "sink_runs sink (call # calls) (s, b) =
     (case sink_run sink call s of None \<Rightarrow> None
      | Some (err, s') \<Rightarrow> sink_runs sink calls (s', b \<or> opens call err))"

lemma sink_run_ready:
  assumes "sink_run (wifi_sink sink) call w = Some (err, w')" and "w_readyOnce w = w_ready w"
  shows "w_ready w' \<longleftrightarrow> w_ready w \<or> opens call err" and "w_readyOnce w' = w_ready w'"
proof -
  have "(w_ready w' \<longleftrightarrow> w_ready w \<or> opens call err) \<and> w_readyOnce w' = w_ready w'"
    using assms
    by (cases call)
       (auto simp: sink_run_def wifi_sink_def opens_def wifi_Apply_def wifi_ApplySnapshot_def
          wifi_ApplySourceSnapshot_def wifi_SetProviderStatus_def Let_def split: prod.splits option.splits if_splits)
  then show "w_ready w' \<longleftrightarrow> w_ready w \<or> opens call err" and "w_readyOnce w' = w_ready w'" by simp_all
qed

text \<open>
  The gate of the wired provider opens exactly when it should: after any sequence of reports the
  channel \<^verbatim>\<open>ready\<close> is closed if and only if a full Wi-Fi snapshot has been accepted or a provider has
  been reported unavailable; until then the gated provider does not run unless its context ends.
\<close>

theorem gate_opens_exactly:
  assumes "sink_runs (wifi_sink sink) calls (newWiFiAssociations s0, False) = Some (w, opened)"
  shows "(w_ready w \<longleftrightarrow> opened) \<and> (gated_Run pick False (w_ready w) = (if opened then Some GateRuns else None)) \<and>
    (gated_Run pick True (w_ready w) = Some GateRuns \<longrightarrow> opened)"
proof -
  have "w_readyOnce v = w_ready v \<Longrightarrow> w_ready v = b \<Longrightarrow>
      sink_runs (wifi_sink sink) calls (v, b) = Some (w, opened) \<Longrightarrow> w_ready w \<longleftrightarrow> opened" for v b
  proof (induction calls arbitrary: v b)
    case Nil
    then show ?case by simp
  next
    case (Cons call calls)
    from Cons.prems(3) obtain err v' where r: "sink_run (wifi_sink sink) call v = Some (err, v')"
      and s: "sink_runs (wifi_sink sink) calls (v', b \<or> opens call err) = Some (w, opened)"
      by (auto split: option.splits)
    from sink_run_ready [OF r Cons.prems(1)] Cons.prems(2) show ?case
      by (intro Cons.IH [OF _ _ s]) auto
  qed
  from this [of "newWiFiAssociations s0" False] assms have "w_ready w \<longleftrightarrow> opened"
    by (simp add: newWiFiAssociations_def)
  then show ?thesis by (simp add: gated_Run_def split: if_splits)
qed

definition demo_calls :: "sink_call list" where
  "demo_calls = [CallApply (demo_obs WiFiAssociated ''w0'' ''m'' 5), CallStatus (demo_status ''unavailable'')]"

theorem gate_opens_exactly_witness:
  "\<exists>w. sink_runs (wifi_sink (engine_sink demo_env)) demo_calls (newWiFiAssociations (demo_engine 0), False) =
     Some (w, True) \<and> gated_Run True False (w_ready w) = Some GateRuns"
proof -
  let ?r = "sink_runs (wifi_sink (engine_sink demo_env)) demo_calls (newWiFiAssociations (demo_engine 0), False)"
  have "map_option snd ?r = Some True" by code_simp
  then obtain w where r: "?r = Some (w, True)" by auto
  have "gated_Run True False (w_ready w) = Some GateRuns"
    using gate_opens_exactly [OF r, of True, unfolded if_True] by blast
  with r show ?thesis by blast
qed

end
