(* ===== verification/Ubus_Props.thy ===== *)
theory Ubus_Props
  imports Ubus_Provider WiFi_Associations
begin

text \<open>
  Properties of the Wi-Fi provider's life cycle: its subscriptions are accounted for, it makes
  progress and keeps the invariant of whatever sink it reports to, and it never leaves clients
  present while it cannot see them.
\<close>

section \<open>Subscriptions\<close>

text \<open>The live subscription is the last one started, for the current objects and generation.\<close>

definition ubus_inv :: "'s ubus \<Rightarrow> bool" where
  "ubus_inv u \<longleftrightarrow> us_subCancel u = us_subResult u \<and>
     (\<forall>g. us_subResult u = Some g \<longrightarrow> g = us_generation u \<and> us_started u \<noteq> [] \<and>
        last (us_started u) = (g, us_objects u)) \<and>
     fst ` set (us_started u) \<subseteq> set (us_cancelled u) \<union> set (us_ended u) \<union> set_option (us_subCancel u) \<and>
     ps_ID (us_status u) = providerID \<and> ps_Kind (us_status u) = ''wifi''"

lemma setStatus_frame [simp]:
  "us_objects (setStatus sink st m objs sn ev u) = us_objects u"
  "us_subCancel (setStatus sink st m objs sn ev u) = us_subCancel u"
  "us_subResult (setStatus sink st m objs sn ev u) = us_subResult u"
  "us_generation (setStatus sink st m objs sn ev u) = us_generation u"
  "us_lastSnapshot (setStatus sink st m objs sn ev u) = us_lastSnapshot u"
  "us_started (setStatus sink st m objs sn ev u) = us_started u"
  "us_cancelled (setStatus sink st m objs sn ev u) = us_cancelled u"
  "us_ended (setStatus sink st m objs sn ev u) = us_ended u"
  "ps_ID (us_status (setStatus sink st m objs sn ev u)) = ps_ID (us_status u)"
  "ps_Kind (us_status (setStatus sink st m objs sn ev u)) = ps_Kind (us_status u)"
  "ps_Status (us_status (setStatus sink st m objs sn ev u)) = st"
  "us_sink (setStatus sink st m objs sn ev u) =
     sk_SetProviderStatus sink (us_status (setStatus sink st m objs sn ev u)) (us_sink u)"
  by (simp_all add: setStatus_def Let_def)

lemma ubus_inv_status [simp]:
  "ubus_inv (setStatus sink st m objs sn ev u) = ubus_inv u"
  "ubus_inv (noteEvent sink at u) = ubus_inv u"
  "ubus_inv (publishStatus sink u) = ubus_inv u"
  "ubus_inv (healthy sink objs sn u) = ubus_inv u"
  "ubus_inv (fail sink m u) = ubus_inv u"
  "ubus_inv (u\<lparr>us_sink := x\<rparr>) = ubus_inv u"
  "ubus_inv (u\<lparr>us_lastSnapshot := t\<rparr>) = ubus_inv u"
  by (simp_all add: ubus_inv_def noteEvent_def publishStatus_def healthy_def fail_def Let_def)

lemma ubus_inv_start: "ubus_inv u \<Longrightarrow> ubus_inv (start_subscription u)"
  by (auto simp: ubus_inv_def start_subscription_def Let_def split: option.split)

lemma ubus_inv_cancel:
  assumes "ubus_inv u"
  shows "ubus_inv ((cancel_subscription u)\<lparr>us_subResult := None, us_subCancel := None\<rparr>)"
    and "ubus_inv ((cancel_subscription (u\<lparr>us_objects := found\<rparr>))\<lparr>us_subResult := None, us_subCancel := None\<rparr>)"
    and "ubus_inv ((cancel_subscription u)\<lparr>us_subCancel := None, us_subResult := None, us_generation := g\<rparr>)"
  using assms by (auto simp: ubus_inv_def cancel_subscription_def split: option.splits)

lemma ubus_inv_snapshot:
  "ubus_inv u \<Longrightarrow> take_snapshot sink emsg a u = Some u' \<Longrightarrow> ubus_inv u'"
  by (auto simp: take_snapshot_def ubus_snapshot_def split: option.splits prod.splits)

lemma ubus_inv_refresh:
  assumes "ubus_inv u" and "ubus_refresh sink emsg force a u = Some u'"
  shows "ubus_inv u'"
proof (cases "an_discover a")
  case (Inl err)
  with assms show ?thesis by (auto simp: ubus_refresh_def)
next
  case (Inr found)
  let ?u1 = "if \<not> equalStrings found (us_objects u)
    then (cancel_subscription (u\<lparr>us_objects := found\<rparr>))\<lparr>us_subResult := None, us_subCancel := None\<rparr> else u"
  have "ubus_inv (start_subscription ?u1)"
    using assms(1) by (intro ubus_inv_start) (simp add: ubus_inv_cancel)
  then show ?thesis
    using assms ubus_inv_snapshot
    by (auto simp: ubus_refresh_def ubus_refresh_with_def Inr Let_def ubus_inv_cancel split: if_splits)
qed

lemma verify_from_frame:
  assumes "verify_from sink emsg ev answer cancelled now n left u = Some (err, u')"
  shows "\<exists>x. u' = u\<lparr>us_sink := x\<rparr>"
  using assms
proof (induction left arbitrary: n)
  case 0
  then have "u' = u\<lparr>us_sink := us_sink u\<rparr>" by simp
  then show ?case ..
next
  case (Suc left)
  have "\<exists>x. u = u\<lparr>us_sink := x\<rparr>" by (rule exI [of _ "us_sink u"]) simp
  then show ?case
    using Suc by (auto simp: Let_def split: sum.splits if_splits option.splits)
qed

lemma ubus_invD:
  "ubus_inv u \<Longrightarrow> fst ` set (us_started u) \<subseteq> set (us_cancelled u) \<union> set (us_ended u) \<union> set_option (us_subCancel u)"
  unfolding ubus_inv_def by blast

lemma cancel_accounts:
  assumes "fst ` set (us_started u) \<subseteq> set (us_cancelled u) \<union> set (us_ended u) \<union> set_option (us_subCancel u)"
  shows "fst ` set (us_started (cancel_subscription u)) \<subseteq>
    set (us_cancelled (cancel_subscription u)) \<union> set (us_ended (cancel_subscription u))"
proof -
  have "X \<subseteq> A \<union> B \<union> {g} \<Longrightarrow> X \<subseteq> A \<union> {g} \<union> B" for X A B :: "uint64 set" and g by blast
  then show ?thesis using assms by (cases "us_subCancel u") (simp_all add: cancel_subscription_def)
qed

lemma ubus_inv_step:
  assumes "ubus_inv u" and "ubus_step sink emsg inp u = Some (u', returned)"
  shows "ubus_inv u' \<or> returned \<and> fst ` set (us_started u') \<subseteq> set (us_cancelled u') \<union> set (us_ended u')"
proof (cases inp)
  case ContextDone
  from ContextDone assms(2) have r: returned
    and u': "u' = cancel_subscription (setStatus sink ''stopped'' [] (us_objects u) (us_lastSnapshot u) 0 u)"
    by (simp_all add: ubus_step_def)
  have "fst ` set (us_started u') \<subseteq> set (us_cancelled u') \<union> set (us_ended u')"
    unfolding u' using ubus_invD [OF assms(1)] by (intro cancel_accounts) simp
  then show ?thesis using r by blast
next
  case (DiscoveryTick a)
  with assms show ?thesis by (auto simp: ubus_step_def intro: ubus_inv_refresh)
next
  case (ReconcileTick a)
  with assms show ?thesis
    by (auto simp: ubus_step_def intro: ubus_inv_refresh ubus_inv_snapshot split: if_splits)
next
  case (EventReceived ev answer cancelled now at a)
  have "ubus_inv u'" if o: "on_event sink emsg ev answer cancelled now at a u = Some u'"
  proof -
    let ?u1 = "noteEvent sink (ob_ReceivedAt (se_value ev)) u"
    have v: "ubus_inv u2" if "verifyEvent sink emsg (se_value ev) answer cancelled now ?u1 = Some (err, u2)" for err u2
      using verify_from_frame [OF that [unfolded verifyEvent_def]] assms(1) by auto
    have r: "ubus_inv u'" if "ubus_inv w"
      "ubus_refresh sink emsg True a ((cancel_subscription w)\<lparr>us_subResult := None, us_subCancel := None\<rparr>) = Some u'" for w
      using ubus_inv_refresh [OF ubus_inv_cancel(1) [OF that(1)] that(2)] .
    show ?thesis
      using o assms(1) v
      by (auto simp: on_event_def Let_def split: if_splits option.splits dest!: r [rotated])
  qed
  with EventReceived assms(2) show ?thesis by (auto simp: ubus_step_def)
next
  case (SubscriptionEnded err ctxDone a)
  have "ubus_inv (u\<lparr>us_subResult := None, us_subCancel := None, us_ended := us_ended u @ [g]\<rparr>)"
    if "us_subResult u = Some g" for g
    using assms(1) that by (auto simp: ubus_inv_def)
  then have "ubus_inv u'" if "on_ended sink emsg err ctxDone a u = Some u'"
    using that assms(1)
    by (auto simp: on_ended_def Let_def split: if_splits option.splits dest!: ubus_inv_refresh [rotated])
  with SubscriptionEnded assms(2) show ?thesis by (auto simp: ubus_step_def)
qed

lemma ubus_step_returns:
  "ubus_step sink emsg inp u = Some (u', returned) \<Longrightarrow> returned \<longleftrightarrow> inp = ContextDone"
  by (cases inp) (auto simp: ubus_step_def)

lemma ubus_inv_inputs:
  assumes "ubus_inv u" and "ubus_inputs sink emsg inputs u = Some u'"
  shows "if ContextDone \<in> set inputs
    then fst ` set (us_started u') \<subseteq> set (us_cancelled u') \<union> set (us_ended u') else ubus_inv u'"
  using assms
proof (induction inputs arbitrary: u)
  case Nil
  then show ?case by simp
next
  case (Cons i inputs)
  from Cons.prems(2) obtain v returned where v: "ubus_step sink emsg i u = Some (v, returned)"
    and r: "if returned then v = u' else ubus_inputs sink emsg inputs v = Some u'"
    by (auto split: option.splits prod.splits if_splits)
  note ret = ubus_step_returns [OF v]
  show ?case
  proof (cases returned)
    case True
    have u': "u' = cancel_subscription (setStatus sink ''stopped'' [] (us_objects u) (us_lastSnapshot u) 0 u)"
      using True r ret v by (simp add: ubus_step_def)
    have "fst ` set (us_started u') \<subseteq> set (us_cancelled u') \<union> set (us_ended u')"
      unfolding u' using ubus_invD [OF Cons.prems(1)] by (intro cancel_accounts) simp
    then show ?thesis using True ret by simp
  next
    case False
    then have "ubus_inv v" using ubus_inv_step [OF Cons.prems(1) v] by simp
    from Cons.IH [OF this] r False ret show ?thesis by (simp split: if_splits)
  qed
qed

text \<open>
  C20. Whatever discovery, queries and sink answer, the provider keeps its subscriptions straight:
  the one it listens to is the last it started, for the current generation and objects; every other
  one it started has ended or has been cancelled; and after it returns, so has that one.
\<close>

theorem subscriptions_accounted:
  assumes "ubus_Run sink emsg a inputs s = Some u"
  shows "if ContextDone \<in> set inputs
    then \<forall>(g, objs) \<in> set (us_started u). g \<in> set (us_cancelled u) \<or> g \<in> set (us_ended u)
    else (\<forall>g. us_subResult u = Some g \<longrightarrow>
            g = us_generation u \<and> us_started u \<noteq> [] \<and> last (us_started u) = (g, us_objects u)) \<and>
         (\<forall>(g, objs) \<in> set (us_started u).
            g \<in> set (us_cancelled u) \<or> g \<in> set (us_ended u) \<or> us_subResult u = Some g)"
proof -
  have "ubus_inv (publishStatus sink (ubus_New s))"
    unfolding ubus_inv_status by (simp add: ubus_inv_def ubus_New_def)
  moreover obtain u0 where u0: "ubus_refresh sink emsg True a (publishStatus sink (ubus_New s)) = Some u0"
    "ubus_inputs sink emsg inputs u0 = Some u"
    using assms by (auto simp: ubus_Run_def split: option.splits)
  ultimately have "ubus_inv u0" by (blast intro: ubus_inv_refresh)
  from ubus_inv_inputs [OF this u0(2)] show ?thesis
    by (cases "ContextDone \<in> set inputs") (fastforce simp: ubus_inv_def)+
qed

section \<open>Progress, the sink's invariant, and outages\<close>

text \<open>
  The only observations the subscription produces are station events (\<open>parseHostapdEvent\<close>).
\<close>

fun station_input :: "ubus_input \<Rightarrow> bool" where
  "station_input (EventReceived ev answer cancelled now at a) \<longleftrightarrow>
     ob_Kind (se_value ev) = WiFiAssociated \<or> ob_Kind (se_value ev) = WiFiDisassociated"
| "station_input _ \<longleftrightarrow> True"

text \<open>The provider has told its sink when it cannot see the radios.\<close>

context observation_sink
begin

definition ubus_ok :: "'s ubus \<Rightarrow> bool" where
  "ubus_ok u \<longleftrightarrow> inv (us_sink u) \<and> ps_ID (us_status u) = providerID \<and>
     (ps_Status (us_status u) = ''unavailable'' \<longrightarrow> \<not> has_live (us_sink u) providerID)"

lemma ubus_ok_set:
  "inv (us_sink u) \<Longrightarrow> ps_ID (us_status u) = providerID \<Longrightarrow> ubus_ok (setStatus sink st m objs sn ev u)"
  using outage [of "us_sink u" "us_status (setStatus sink st m objs sn ev u)"]
  by (simp add: ubus_ok_def status_inv)

lemma ubus_ok_health [intro]:
  "inv (us_sink u) \<Longrightarrow> ps_ID (us_status u) = providerID \<Longrightarrow> ubus_ok (healthy sink objs sn u)"
  "inv (us_sink u) \<Longrightarrow> ps_ID (us_status u) = providerID \<Longrightarrow> ubus_ok (fail sink m u)"
  by (simp_all add: healthy_def fail_def ubus_ok_set)

lemma ubus_snapshot_total:
  assumes "inv (us_sink u)"
  shows "\<exists>err x. ubus_snapshot sink emsg rs now u = Some (err, u\<lparr>us_sink := x\<rparr>) \<and> inv x"
proof (cases "first_error rs")
  case None
  from snapshot_inv [OF assms, of "\<lparr>os_Provider = providerID, os_ReceivedAt = now, os_Stations = stations_of rs\<rparr>"]
  show ?thesis using None by (auto simp: ubus_snapshot_def)
next
  case (Some err)
  then show ?thesis using assms by (intro exI [of _ "Some err"] exI [of _ "us_sink u"]) (simp add: ubus_snapshot_def)
qed

lemma take_snapshot_ok:
  assumes "inv (us_sink u)" and "ps_ID (us_status u) = providerID"
  shows "\<exists>u'. take_snapshot sink emsg a u = Some u' \<and> ubus_ok u'"
proof -
  obtain err x where s: "ubus_snapshot sink emsg (an_results a) (an_received a) u = Some (err, u\<lparr>us_sink := x\<rparr>)" "inv x"
    using ubus_snapshot_total [OF assms(1)] by blast
  then show ?thesis using assms(2) by (cases err) (auto simp: take_snapshot_def)
qed

lemma ubus_refresh_ok:
  assumes "inv (us_sink u)" and "ps_ID (us_status u) = providerID"
  shows "\<exists>u'. ubus_refresh sink emsg force a u = Some u' \<and> ubus_ok u'"
proof (cases "an_discover a")
  case (Inl err)
  then show ?thesis using assms by (auto simp: ubus_refresh_def)
next
  case (Inr found)
  have c: "us_sink (cancel_subscription v) = us_sink v" "us_status (cancel_subscription v) = us_status v"
    "us_sink (start_subscription v) = us_sink v" "us_status (start_subscription v) = us_status v" for v :: "'s ubus"
    by (simp_all add: cancel_subscription_def start_subscription_def Let_def split: option.split)
  show ?thesis
    using assms take_snapshot_ok
    by (auto simp: ubus_refresh_def ubus_refresh_with_def Inr Let_def c)
qed

lemma verify_total:
  assumes "inv (us_sink u)"
  shows "\<exists>err x. verify_from sink emsg ev answer cancelled now n left u = Some (err, u\<lparr>us_sink := x\<rparr>) \<and> inv x"
  using assms
proof (induction left arbitrary: n)
  case 0
  then show ?case by (intro exI [of _ None] exI [of _ "us_sink u"]) simp
next
  case (Suc left)
  have id: "\<exists>err x. Some (e, u) = Some (err, u\<lparr>us_sink := x\<rparr>) \<and> inv x" for e :: "string option"
    using Suc.prems by (intro exI [of _ e] exI [of _ "us_sink u"]) simp
  from source_inv [OF Suc.prems] have src: "\<exists>err x. (case sk_ApplySourceSnapshot sink ss (us_sink u) of None \<Rightarrow> None
      | Some (err, s) \<Rightarrow> Some (map_option emsg err, u\<lparr>us_sink := s\<rparr>)) = Some (err, u\<lparr>us_sink := x\<rparr>) \<and> inv x" for ss
    by (metis (no_types, lifting) case_prod_conv option.simps(5))
  show ?case
    using Suc.IH [OF Suc.prems, of "n + 1"] id src by (cases "answer n") (simp_all add: Let_def)
qed

lemma on_event_ok:
  assumes "ubus_ok u" and kind: "ob_Kind (se_value ev) = WiFiAssociated \<or> ob_Kind (se_value ev) = WiFiDisassociated"
  shows "\<exists>u'. on_event sink emsg ev answer cancelled now at a u = Some u' \<and> ubus_ok u'"
proof (cases "se_generation ev \<noteq> us_generation u")
  case True
  then show ?thesis using assms(1) by (simp add: on_event_def)
next
  case gen: False
  let ?u1 = "noteEvent sink (ob_ReceivedAt (se_value ev)) u"
  have u1: "inv (us_sink ?u1)" "ps_ID (us_status ?u1) = providerID"
    using assms(1) by (simp_all add: noteEvent_def Let_def ubus_ok_def status_inv)
  obtain err x where v: "verifyEvent sink emsg (se_value ev) answer cancelled now ?u1 =
      Some (err, ?u1\<lparr>us_sink := x\<rparr>)" "inv x"
    unfolding verifyEvent_def using verify_total [OF u1(1)] by blast
  show ?thesis
  proof (cases err)
    case None
    then show ?thesis using gen kind v u1(2) by (auto simp: on_event_def Let_def)
  next
    case (Some e)
    let ?u3 = "fail sink (''post-event source snapshot failed: '' @ sanitizeError e) (?u1\<lparr>us_sink := x\<rparr>)"
    have "ubus_ok ?u3" using v(2) u1(2) by auto
    then have "inv (us_sink ((cancel_subscription ?u3)\<lparr>us_subResult := None, us_subCancel := None\<rparr>))"
      "ps_ID (us_status ((cancel_subscription ?u3)\<lparr>us_subResult := None, us_subCancel := None\<rparr>)) = providerID"
      by (simp_all add: ubus_ok_def cancel_subscription_def split: option.split)
    from ubus_refresh_ok [OF this] show ?thesis using gen kind v(1) Some by (simp add: on_event_def Let_def)
  qed
qed

lemma on_ended_ok:
  assumes "ubus_ok u"
  shows "\<exists>u'. on_ended sink emsg err ctxDone a u = Some u' \<and> ubus_ok u'"
proof -
  have f: "ubus_ok (u\<lparr>us_subResult := None, us_subCancel := None, us_ended := es\<rparr>)" for es
    using assms by (simp add: ubus_ok_def)
  have "\<exists>u'. ubus_refresh sink emsg True a (fail sink m (u\<lparr>us_subResult := None, us_subCancel := None, us_ended := es\<rparr>)) =
      Some u' \<and> ubus_ok u'" for m es
    using ubus_ok_health(2) [of "u\<lparr>us_subResult := None, us_subCancel := None, us_ended := es\<rparr>" m] assms
    by (intro ubus_refresh_ok) (simp_all add: ubus_ok_def)
  then show ?thesis using f assms by (simp add: on_ended_def Let_def split: option.split)
qed

lemma ubus_step_ok:
  assumes "ubus_ok u" and "station_input inp"
  shows "\<exists>u' r. ubus_step sink emsg inp u = Some (u', r) \<and> ubus_ok u'"
proof (cases inp)
  case ContextDone
  have "ubus_ok (cancel_subscription v) = ubus_ok v" for v
    by (simp add: cancel_subscription_def ubus_ok_def split: option.split)
  then show ?thesis using assms(1) ContextDone by (auto simp: ubus_step_def ubus_ok_set ubus_ok_def [of u])
next
  case (DiscoveryTick a)
  then show ?thesis
    using assms(1) ubus_refresh_ok [of u emsg False a] by (auto simp: ubus_step_def ubus_ok_def [of u])
next
  case (ReconcileTick a)
  then show ?thesis
    using assms(1) ubus_refresh_ok [of u emsg True a] take_snapshot_ok [of u emsg a]
    by (auto simp: ubus_step_def ubus_ok_def [of u])
next
  case (EventReceived ev answer cancelled now at a)
  then show ?thesis
    using on_event_ok [OF assms(1), of ev emsg answer cancelled now at a] assms(2) by (auto simp: ubus_step_def)
next
  case (SubscriptionEnded err ctxDone a)
  then show ?thesis using on_ended_ok [OF assms(1), of emsg err ctxDone a] by (auto simp: ubus_step_def)
qed

lemma ubus_inputs_ok:
  assumes "ubus_ok u" and "list_all station_input inputs"
  shows "\<exists>u'. ubus_inputs sink emsg inputs u = Some u' \<and> ubus_ok u'"
  using assms
proof (induction inputs arbitrary: u)
  case Nil
  then show ?case by simp
next
  case (Cons i inputs)
  obtain v r where v: "ubus_step sink emsg i u = Some (v, r)" "ubus_ok v"
    using ubus_step_ok [OF Cons.prems(1), of i emsg] Cons.prems(2) by auto
  show ?case
  proof (cases r)
    case True
    then show ?thesis using v by simp
  next
    case False
    then show ?thesis using Cons.IH [OF v(2)] Cons.prems(2) v(1) by simp
  qed
qed

text \<open>The provider over any sink that keeps the contract.\<close>

lemma ubus_Run_ok:
  assumes "inv s" and "list_all station_input inputs"
  shows "\<exists>u. ubus_Run sink emsg a0 inputs s = Some u \<and> ubus_ok u"
proof -
  have "inv (us_sink (publishStatus sink (ubus_New s)))"
    "ps_ID (us_status (publishStatus sink (ubus_New s))) = providerID"
    using assms(1) by (simp_all add: publishStatus_def ubus_New_def status_inv)
  from ubus_refresh_ok [OF this, of emsg True a0] obtain u0 where
    "ubus_refresh sink emsg True a0 (publishStatus sink (ubus_New s)) = Some u0" "ubus_ok u0" by blast
  with ubus_inputs_ok [OF _ assms(2), of u0 emsg] show ?thesis by (auto simp: ubus_Run_def)
qed

end

text \<open>
  C21. The provider, the mirror and the engine together: for any answers of the commands and any
  sequence of ticks, station events and subscription failures, every step of \<^verbatim>\<open>Run\<close> completes, the
  engine stays in a state it can reach, and while the provider's status is \<^verbatim>\<open>unavailable\<close> the engine
  counts no client as connected on the word of this provider.
\<close>

theorem provider_never_blind:
  assumes "good_env env" and "engine_reach e"
    and "list_all station_input inputs"
  shows "\<exists>u. ubus_Run (wifi_sink (engine_sink env)) emsg a0 inputs (newWiFiAssociations e) = Some u \<and>
    engine_reach (w_inner (us_sink u)) \<and>
    (ps_Status (us_status u) = ''unavailable'' \<longrightarrow>
       (\<forall>k i n. conns (w_inner (us_sink u)) k i = Some n \<and> conn_Provider n = providerID \<longrightarrow> conn_Stale n))"
proof -
  have "good_env env \<and> engine_reach (w_inner (newWiFiAssociations e))"
    using assms(1,2) by (simp add: newWiFiAssociations_def)
  from wifi_engine.ubus_Run_ok [OF this assms(3), of emsg a0] show ?thesis
    by (auto simp: wifi_engine.ubus_ok_def engine_has_live_def)
qed

definition demo_answers :: answers where
  "demo_answers = \<lparr>an_discover = Inr [''hostapd.wlan0''],
     an_results = [(''hostapd.wlan0'', Inr [''mac:aa:bb:cc:00:11:22''])], an_received = 5, an_snapshotAt = 6\<rparr>"

definition demo_inputs :: "ubus_input list" where
  "demo_inputs = [DiscoveryTick (demo_answers\<lparr>an_discover := Inl ''timeout''\<rparr>)]"

theorem provider_never_blind_witness:
  "\<exists>u. ubus_Run (wifi_sink (engine_sink demo_env)) (\<lambda>_. ''limit'') demo_answers demo_inputs
        (newWiFiAssociations (demo_engine 0)) = Some u \<and>
     ps_Status (us_status u) = ''unavailable'' \<and>
     (\<forall>k i n. conns (w_inner (us_sink u)) k i = Some n \<and> conn_Provider n = providerID \<longrightarrow> conn_Stale n)"
proof -
  let ?r = "ubus_Run (wifi_sink (engine_sink demo_env)) (\<lambda>_. ''limit'') demo_answers demo_inputs
    (newWiFiAssociations (demo_engine 0))"
  have s: "map_option (\<lambda>u. ps_Status (us_status u)) ?r = Some ''unavailable''" by code_simp
  have i: "list_all station_input demo_inputs"
    by (simp add: demo_inputs_def)
  from provider_never_blind [OF demo_env_good demo_engine_reach i, of "\<lambda>_. ''limit''" demo_answers 0] s
  show ?thesis by auto
qed

theorem subscriptions_accounted_witness:
  "\<exists>u. ubus_Run (wifi_sink (engine_sink demo_env)) (\<lambda>_. ''limit'') demo_answers demo_inputs
        (newWiFiAssociations (demo_engine 0)) = Some u \<and>
     us_subResult u = Some 1 \<and> last (us_started u) = (1, us_objects u)"
proof -
  let ?r = "ubus_Run (wifi_sink (engine_sink demo_env)) (\<lambda>_. ''limit'') demo_answers demo_inputs
    (newWiFiAssociations (demo_engine 0))"
  have s: "map_option us_subResult ?r = Some (Some 1)" by code_simp
  then obtain u where u: "?r = Some u" "us_subResult u = Some 1" by auto
  have "ContextDone \<notin> set demo_inputs" by (simp add: demo_inputs_def)
  with subscriptions_accounted [OF u(1)] u show ?thesis by auto
qed

section \<open>Verification of an event\<close>

text \<open>
  The outcome of the attempts from \<open>n0\<close> on: the list of attempt \<open>n\<close> reached the sink, after lists
  without the client; or nothing did, and there is an error.
\<close>

definition passed_on ::
    "('e, 's) Sink \<Rightarrow> ('e \<Rightarrow> string) \<Rightarrow> Observation \<Rightarrow> (nat \<Rightarrow> string + string list) \<Rightarrow> time \<Rightarrow> nat \<Rightarrow> nat \<Rightarrow>
     's ubus \<Rightarrow> string option \<Rightarrow> 's ubus \<Rightarrow> bool" where
  "passed_on sink emsg ev answer now n0 n u err u' \<longleftrightarrow>
     (\<exists>ids e x. answer n = Inr ids \<and>
       (ob_Kind ev = WiFiAssociated \<and> n < 2 \<longrightarrow> ob_ClientID ev \<in> set ids) \<and>
       (\<forall>m. n0 \<le> m \<and> m < n \<longrightarrow> (\<exists>ids'. answer m = Inr ids' \<and> ob_ClientID ev \<notin> set ids')) \<and>
       sk_ApplySourceSnapshot sink \<lparr>ss_Provider = providerID, ss_SourceInstance = ob_SourceInstance ev,
         ss_ReceivedAt = now, ss_Clients = ids\<rparr> (us_sink u) = Some (e, x) \<and>
       err = map_option emsg e \<and> u' = u\<lparr>us_sink := x\<rparr>)"

lemma passed_on_earlier:
  assumes "passed_on sink emsg ev answer now (n0 + 1) n u err u'"
    and "answer n0 = Inr ids" and "ob_ClientID ev \<notin> set ids"
  shows "passed_on sink emsg ev answer now n0 n u err u'"
proof -
  have "n0 \<le> m \<longleftrightarrow> m = n0 \<or> n0 + 1 \<le> m" for m by linarith
  with assms show ?thesis unfolding passed_on_def by (metis (no_types, lifting))
qed

lemma verify_from_outcome:
  assumes "n0 + left = attempts" and "0 < left"
    and "attempts = (if ob_Kind ev = WiFiAssociated then 3 else 1)"
    and "\<forall>n < attempts. \<forall>ids. answer n = Inr ids \<longrightarrow> sorted ids"
    and "verify_from sink emsg ev answer cancelled now n0 left u = Some (err, u')"
  shows "(\<exists>n < attempts. passed_on sink emsg ev answer now n0 n u err u') \<or>
    u' = u \<and> err \<noteq> None \<and> (\<exists>n < attempts. answer n = Inl (the err) \<or> cancelled n)"
  using assms(1,2,5)
proof (induction left arbitrary: n0)
  case 0
  then show ?case by simp
next
  case (Suc left)
  have lt: "n0 < attempts" using Suc.prems(1) by simp
  show ?case
  proof (cases "answer n0")
    case (Inl e)
    then show ?thesis using Suc.prems(3) lt by auto
  next
    case (Inr ids)
    have so: "containsSorted ids w \<longleftrightarrow> w \<in> set ids" for w
      using assms(4) lt Inr containsSorted_member by blast
    consider (go) "ob_Kind ev \<noteq> WiFiAssociated \<or> ob_ClientID ev \<in> set ids \<or> left = 0"
      | (stop) "ob_Kind ev = WiFiAssociated" "ob_ClientID ev \<notin> set ids" "left \<noteq> 0" "cancelled n0"
      | (again) "ob_Kind ev = WiFiAssociated" "ob_ClientID ev \<notin> set ids" "left \<noteq> 0" "\<not> cancelled n0" by blast
    then show ?thesis
    proof cases
      case go
      moreover have "left = 0 \<Longrightarrow> ob_Kind ev = WiFiAssociated \<Longrightarrow> n0 = 2" using Suc.prems(1) assms(3) by simp
      ultimately show ?thesis
        using Suc.prems(3) Inr lt
        by (intro disjI1 exI [of _ n0]) (auto simp: so passed_on_def split: option.splits)
    next
      case stop
      then show ?thesis using Suc.prems(3) Inr lt by (auto simp: so)
    next
      case again
      then have "verify_from sink emsg ev answer cancelled now (n0 + 1) left u = Some (err, u')"
        using Suc.prems(3) Inr by (simp add: so)
      with Suc.IH [of "n0 + 1"] again(3) Suc.prems(1)
      have "(\<exists>n < attempts. passed_on sink emsg ev answer now (n0 + 1) n u err u') \<or>
        u' = u \<and> err \<noteq> None \<and> (\<exists>n < attempts. answer n = Inl (the err) \<or> cancelled n)" by simp
      then show ?thesis using passed_on_earlier Inr again(2) by blast
    qed
  qed
qed

text \<open>
  After a station event the source is asked once, or up to three times while a station that is
  said to have connected is not listed yet; the list that reaches the sink is the last one obtained,
  so after a confirmed connection it contains the client; and a failed query reports its error
  without touching the sink.
\<close>

theorem event_verification:
  assumes "verifyEvent sink emsg ev answer cancelled now u = Some (err, u')"
    and "attempts = (if ob_Kind ev = WiFiAssociated then 3 else 1)"
    and "\<forall>n < attempts. \<forall>ids. answer n = Inr ids \<longrightarrow> sorted ids"
  shows "(\<exists>n < attempts. \<exists>ids e x. answer n = Inr ids \<and>
       (ob_Kind ev = WiFiAssociated \<and> n < 2 \<longrightarrow> ob_ClientID ev \<in> set ids) \<and>
       (\<forall>m < n. \<exists>ids'. answer m = Inr ids' \<and> ob_ClientID ev \<notin> set ids') \<and>
       sk_ApplySourceSnapshot sink \<lparr>ss_Provider = providerID, ss_SourceInstance = ob_SourceInstance ev,
         ss_ReceivedAt = now, ss_Clients = ids\<rparr> (us_sink u) = Some (e, x) \<and>
       err = map_option emsg e \<and> u' = u\<lparr>us_sink := x\<rparr>) \<or>
    u' = u \<and> err \<noteq> None \<and> (\<exists>n < attempts. answer n = Inl (the err) \<or> cancelled n)"
proof -
  have "verify_from sink emsg ev answer cancelled now 0 attempts u = Some (err, u')" "0 < attempts"
    using assms(1,2) by (simp_all add: verifyEvent_def connectVerificationAttempts_def split: if_splits)
  with verify_from_outcome [of 0 attempts, OF _ _ assms(2,3)] show ?thesis
    unfolding passed_on_def by simp
qed

theorem event_verification_witness:
  "\<exists>err u'. verifyEvent (engine_sink demo_env) (\<lambda>_. ''limit'') (demo_obs WiFiDisassociated ''w0'' ''m'' 5)
       (\<lambda>_. Inl ''timeout'') (\<lambda>_. False) 9 (ubus_New (demo_engine 0)) = Some (err, u') \<and>
     u' = ubus_New (demo_engine 0) \<and> err = Some ''timeout''"
proof -
  let ?v = "verifyEvent (engine_sink demo_env) (\<lambda>_. ''limit'') (demo_obs WiFiDisassociated ''w0'' ''m'' 5)
       (\<lambda>_. Inl ''timeout'') (\<lambda>_. False) 9 (ubus_New (demo_engine 0))"
  have "map_option fst ?v = Some (Some ''timeout'')" by code_simp
  then obtain u' where v: "?v = Some (Some ''timeout'', u')" by auto
  from event_verification [OF v refl] show ?thesis using v by auto
qed

end
