(* ===== verification/Go_Json.thy ===== *)
theory Go_Json
  imports Go_Strings
begin

text \<open>
  The part of \<^verbatim>\<open>encoding/json\<close> that the agent uses to read the answers of \<^verbatim>\<open>ubus\<close>: the scanner and the decoding
  of strings, as functions on Go strings.  A value is kept as a tree; the members of an object stay in
  order, with their repetitions.
\<close>

section \<open>Decoder\<close>

datatype json =
    JNull
  | JBool bool
  | JNum string
  | JStr string
  | JArr "json list"
  | JObj "(string \<times> json) list"

definition json_ws :: "char \<Rightarrow> bool" where
  "json_ws c \<longleftrightarrow> c \<in> {CHR '' '', CHR 0x09, CHR 0x0A, CHR 0x0D}"

definition skip_ws :: "string \<Rightarrow> string" where
  "skip_ws s = dropWhile json_ws s"

text \<open>The size of the UTF-8 sequence at the start, 0 if there is none.\<close>

definition within :: "nat \<Rightarrow> nat \<Rightarrow> char \<Rightarrow> bool" where
  "within a b c \<longleftrightarrow> a \<le> (of_char c :: nat) \<and> (of_char c :: nat) \<le> b"

fun utf8_size :: "string \<Rightarrow> nat" where
  "utf8_size [] = 0"
| "utf8_size (c # s) =
     (let cont = within 0x80 0xBF;
          tail = (\<lambda>n first. length s \<ge> n \<and> first (s ! 0) \<and> list_all cont (take (n - 1) (tl s))) in
      if within 0 0x7F c then 1
      else if within 0xC2 0xDF c \<and> tail 1 cont then 2
      else if within 0xE0 0xE0 c \<and> tail 2 (within 0xA0 0xBF) then 3
      else if (within 0xE1 0xEC c \<or> within 0xEE 0xEF c) \<and> tail 2 cont then 3
      else if within 0xED 0xED c \<and> tail 2 (within 0x80 0x9F) then 3
      else if within 0xF0 0xF0 c \<and> tail 3 (within 0x90 0xBF) then 4
      else if within 0xF1 0xF3 c \<and> tail 3 cont then 4
      else if within 0xF4 0xF4 c \<and> tail 3 (within 0x80 0x8F) then 4
      else 0)"

definition utf8_encode :: "nat \<Rightarrow> string" where
  "utf8_encode r =
     (if r < 0x80 then [char_of r]
      else if r < 0x800 then [char_of (0xC0 + r div 64), char_of (0x80 + r mod 64)]
      else if r < 0x10000
      then [char_of (0xE0 + r div 4096), char_of (0x80 + r div 64 mod 64), char_of (0x80 + r mod 64)]
      else [char_of (0xF0 + r div 262144), char_of (0x80 + r div 4096 mod 64), char_of (0x80 + r div 64 mod 64),
            char_of (0x80 + r mod 64)])"

definition replacement :: nat where
  "replacement = 0xFFFD"

text \<open>Four hexadecimal digits, and the escape in front of them.\<close>

definition hex4 :: "string \<Rightarrow> (nat \<times> string) option" where
  "hex4 s =
     (case s of
        a # b # c # d # r \<Rightarrow>
          (case (hexval a, hexval b, hexval c, hexval d) of
             (Some w, Some x, Some y, Some z) \<Rightarrow> Some (((w * 16 + x) * 16 + y) * 16 + z, r)
           | _ \<Rightarrow> None)
      | _ \<Rightarrow> None)"

definition getu4 :: "string \<Rightarrow> (nat \<times> string) option" where
  "getu4 s = (case s of a # b # r \<Rightarrow> if a = CHR 0x5C \<and> b = CHR ''u'' then hex4 r else None | _ \<Rightarrow> None)"

text \<open>
  The text of a unit \<open>u\<close> with \<open>r\<close> after it: a surrogate is replaced unless the other half follows.
\<close>

definition unicode_escape :: "nat \<Rightarrow> string \<Rightarrow> string \<times> string" where
  "unicode_escape u r =
     (if \<not> (0xD800 \<le> u \<and> u \<le> 0xDFFF) then (utf8_encode u, r)
      else (case getu4 r of
              Some (v, r') \<Rightarrow>
                if u < 0xDC00 \<and> 0xDC00 \<le> v \<and> v \<le> 0xDFFF
                then (utf8_encode (0x10000 + (u - 0xD800) * 1024 + (v - 0xDC00)), r')
                else (utf8_encode replacement, r)
            | None \<Rightarrow> (utf8_encode replacement, r)))"

definition simple_escape :: "char \<Rightarrow> char option" where
  "simple_escape e =
     map_of [(CHR 0x22, CHR 0x22), (CHR 0x5C, CHR 0x5C), (CHR 0x2F, CHR 0x2F), (CHR ''b'', CHR 0x08),
             (CHR ''f'', CHR 0x0C), (CHR ''n'', CHR 0x0A), (CHR ''r'', CHR 0x0D), (CHR ''t'', CHR 0x09)] e"

lemma hex4_shorter: "hex4 s = Some (u, r) \<Longrightarrow> length r < length s"
  by (auto simp: hex4_def split: list.splits option.splits)

lemma unicode_escape_shorter: "length (snd (unicode_escape u r)) \<le> length r"
  by (auto simp: unicode_escape_def getu4_def dest: hex4_shorter split: option.split list.split)

text \<open>The rest of a string after its opening quote: its value and what follows the closing quote.\<close>

function json_string :: "string \<Rightarrow> (string \<times> string) option" where
  "json_string s =
     (case s of
        [] \<Rightarrow> None
      | c # r \<Rightarrow>
          if c = CHR 0x22 then Some ([], r)
          else if c = CHR 0x5C then
            (case r of
               [] \<Rightarrow> None
             | e # r1 \<Rightarrow>
                 if e = CHR ''u'' then
                   (case hex4 r1 of
                      None \<Rightarrow> None
                    | Some (u, r2) \<Rightarrow>
                        map_option (\<lambda>(x, t). (fst (unicode_escape u r2) @ x, t)) (json_string (snd (unicode_escape u r2))))
                 else
                   (case simple_escape e of
                      None \<Rightarrow> None
                    | Some b \<Rightarrow> map_option (\<lambda>(x, t). (b # x, t)) (json_string r1)))
          else if within 0 0x1F c then None
          else if utf8_size s = 0 then map_option (\<lambda>(x, t). (utf8_encode replacement @ x, t)) (json_string r)
          else map_option (\<lambda>(x, t). (take (utf8_size s) s @ x, t)) (json_string (drop (utf8_size s) s)))"
  by pat_completeness auto
termination
proof (relation "measure length")
  fix s :: string and c e r r1 u r2 and p :: "nat \<times> string"
  assume "s = c # r" "r = e # r1" "hex4 r1 = Some p" "(u, r2) = p"
  then show "(snd (unicode_escape u r2), s) \<in> measure length"
    using unicode_escape_shorter [of u r2] hex4_shorter [of r1 u r2] by simp
qed auto

declare json_string.simps [simp del]

text \<open>A number and what follows it; the digits after a leading zero are not part of it.\<close>

definition json_fraction :: "string \<Rightarrow> (string \<times> string) option" where
  "json_fraction s =
     (case s of
        c # r \<Rightarrow>
          if c = CHR ''.'' then
            (if takeWhile digit r = [] then None else Some (c # takeWhile digit r, dropWhile digit r))
          else Some ([], s)
      | [] \<Rightarrow> Some ([], s))"

definition json_exponent :: "string \<Rightarrow> (string \<times> string) option" where
  "json_exponent s =
     (case s of
        c # r \<Rightarrow>
          if c = CHR ''e'' \<or> c = CHR ''E'' then
            (let sign = (case r of x # _ \<Rightarrow> if x = CHR ''+'' \<or> x = CHR ''-'' then [x] else [] | [] \<Rightarrow> []);
                 r1 = drop (length sign) r
             in if takeWhile digit r1 = [] then None
                else Some (c # sign @ takeWhile digit r1, dropWhile digit r1))
          else Some ([], s)
      | [] \<Rightarrow> Some ([], s))"

definition json_integer :: "string \<Rightarrow> (string \<times> string) option" where
  "json_integer s =
     (case s of
        c # r \<Rightarrow>
          if c = CHR ''0'' then Some ([c], r)
          else if digit c then Some (c # takeWhile digit r, dropWhile digit r)
          else None
      | [] \<Rightarrow> None)"

definition json_number :: "string \<Rightarrow> (string \<times> string) option" where
  "json_number s =
     (let sign = (case s of c # _ \<Rightarrow> if c = CHR ''-'' then [c] else [] | [] \<Rightarrow> []) in
      case json_integer (drop (length sign) s) of
        None \<Rightarrow> None
      | Some (i, s1) \<Rightarrow>
          (case json_fraction s1 of
             None \<Rightarrow> None
           | Some (f, s2) \<Rightarrow>
               (case json_exponent s2 of
                  None \<Rightarrow> None
                | Some (x, s3) \<Rightarrow> Some (sign @ i @ f @ x, s3))))"

definition json_scalar :: "string \<Rightarrow> (json \<times> string) option" where
  "json_scalar s =
     (if HasPrefix s ''null'' then Some (JNull, drop 4 s)
      else if HasPrefix s ''true'' then Some (JBool True, drop 4 s)
      else if HasPrefix s ''false'' then Some (JBool False, drop 5 s)
      else (case s of
              [] \<Rightarrow> None
            | c # r \<Rightarrow>
                if c = CHR 0x22 then map_option (\<lambda>(x, t). (JStr x, t)) (json_string r)
                else map_option (\<lambda>(x, t). (JNum x, t)) (json_number s)))"

text \<open>
  The elements of an array and the members of an object after the opening bracket, with at most \<open>n\<close> of
  them; \<open>p\<close> decodes a value.
\<close>

fun json_elems :: "(string \<Rightarrow> (json \<times> string) option) \<Rightarrow> nat \<Rightarrow> string \<Rightarrow> (json list \<times> string) option" where
  "json_elems p 0 s = None"
| "json_elems p (Suc n) s =
     (case p s of
        None \<Rightarrow> None
      | Some (v, r) \<Rightarrow>
          (case skip_ws r of
             [] \<Rightarrow> None
           | c # t \<Rightarrow>
               if c = CHR '']'' then Some ([v], t)
               else if c = CHR '','' then map_option (\<lambda>(vs, u). (v # vs, u)) (json_elems p n t)
               else None))"

fun json_members ::
    "(string \<Rightarrow> (json \<times> string) option) \<Rightarrow> nat \<Rightarrow> string \<Rightarrow> ((string \<times> json) list \<times> string) option" where
  "json_members p 0 s = None"
| "json_members p (Suc n) s =
     (case skip_ws s of
        [] \<Rightarrow> None
      | q # s1 \<Rightarrow>
          if q \<noteq> CHR 0x22 then None
          else
            (case json_string s1 of
               None \<Rightarrow> None
             | Some (k, s2) \<Rightarrow>
                 (case skip_ws s2 of
                    [] \<Rightarrow> None
                  | d # s3 \<Rightarrow>
                      if d \<noteq> CHR '':'' then None
                      else
                        (case p s3 of
                           None \<Rightarrow> None
                         | Some (v, r) \<Rightarrow>
                             (case skip_ws r of
                                [] \<Rightarrow> None
                              | c # t \<Rightarrow>
                                  if c = CHR ''}'' then Some ([(k, v)], t)
                                  else if c = CHR '','' then map_option (\<lambda>(kvs, u). ((k, v) # kvs, u)) (json_members p n t)
                                  else None)))))"

text \<open>A value nested at most \<open>d\<close> deep, and what follows it.\<close>

fun json_value :: "nat \<Rightarrow> string \<Rightarrow> (json \<times> string) option" where
  "json_value 0 s =
     (case skip_ws s of
        [] \<Rightarrow> None
      | c # r \<Rightarrow> if c = CHR ''['' \<or> c = CHR ''{'' then None else json_scalar (c # r))"
| "json_value (Suc d) s =
     (case skip_ws s of
        [] \<Rightarrow> None
      | c # r \<Rightarrow>
          if c = CHR ''['' then
            (if skip_ws r \<noteq> [] \<and> hd (skip_ws r) = CHR '']'' then Some (JArr [], tl (skip_ws r))
             else map_option (\<lambda>(vs, t). (JArr vs, t)) (json_elems (json_value d) (length r) r))
          else if c = CHR ''{'' then
            (if skip_ws r \<noteq> [] \<and> hd (skip_ws r) = CHR ''}'' then Some (JObj [], tl (skip_ws r))
             else map_option (\<lambda>(kvs, t). (JObj kvs, t)) (json_members (json_value d) (length r) r))
          else json_scalar (c # r))"

declare json_value.simps [simp del]

definition maxNestingDepth :: nat where
  "maxNestingDepth = 10000"

text \<open>A whole document.\<close>

definition json_parse :: "string \<Rightarrow> json option" where
  "json_parse s =
     (case json_value maxNestingDepth s of
        None \<Rightarrow> None
      | Some (v, r) \<Rightarrow> if skip_ws r = [] then Some v else None)"

end
