(* ===== verification/Json_Texts.thy ===== *)
theory Json_Texts
  imports Go_Json
begin

text \<open>
  The texts of a JSON value, as a grammar: any spelling of a document is decoded to the value it spells.
\<close>

section \<open>Grammar\<close>

definition ws :: "string \<Rightarrow> bool" where
  "ws w \<longleftrightarrow> list_all json_ws w"

text \<open>The text of a string after its opening quote.\<close>

inductive string_text :: "string \<Rightarrow> string \<Rightarrow> bool" where
  close: "string_text [] [CHR 0x22]"
| plain: "within 0x20 0x7F c \<Longrightarrow> c \<noteq> CHR 0x22 \<Longrightarrow> c \<noteq> CHR 0x5C \<Longrightarrow> string_text x s \<Longrightarrow> string_text (c # x) (c # s)"
| multibyte: "utf8_size cs = length cs \<Longrightarrow> 1 < length cs \<Longrightarrow> string_text x s \<Longrightarrow> string_text (cs @ x) (cs @ s)"
| escaped: "simple_escape e = Some b \<Longrightarrow> string_text x s \<Longrightarrow> string_text (b # x) (CHR 0x5C # e # s)"
| unicode: "hex4 h = Some (u, []) \<Longrightarrow> \<not> (0xD800 \<le> u \<and> u \<le> 0xDFFF) \<Longrightarrow> string_text x s \<Longrightarrow>
     string_text (utf8_encode u @ x) (CHR 0x5C # CHR ''u'' # h @ s)"
| surrogates: "hex4 h = Some (u, []) \<Longrightarrow> hex4 l = Some (v, []) \<Longrightarrow> 0xD800 \<le> u \<Longrightarrow> u < 0xDC00 \<Longrightarrow> 0xDC00 \<le> v \<Longrightarrow>
     v \<le> 0xDFFF \<Longrightarrow> string_text x s \<Longrightarrow>
     string_text (utf8_encode (0x10000 + (u - 0xD800) * 1024 + (v - 0xDC00)) @ x)
       (CHR 0x5C # CHR ''u'' # h @ CHR 0x5C # CHR ''u'' # l @ s)"

text \<open>What may follow a value: nothing, a space or punctuation.\<close>

definition stops :: "string \<Rightarrow> bool" where
  "stops r \<longleftrightarrow> (case r of [] \<Rightarrow> True | c # _ \<Rightarrow> json_ws c \<or> c \<in> {CHR '','', CHR '']'', CHR ''}''})"

definition digits :: "string \<Rightarrow> bool" where
  "digits ds \<longleftrightarrow> ds \<noteq> [] \<and> list_all digit ds"

definition number_text :: "string \<Rightarrow> bool" where
  "number_text n \<longleftrightarrow>
     (\<exists>sign i f x. n = sign @ i @ f @ x \<and> sign \<in> {[], ''-''} \<and>
        digits i \<and> (hd i = CHR ''0'' \<longrightarrow> i = ''0'') \<and>
        (f = [] \<or> (\<exists>ds. digits ds \<and> f = CHR ''.'' # ds)) \<and>
        (x = [] \<or> (\<exists>e sgn ds. e \<in> {CHR ''e'', CHR ''E''} \<and> sgn \<in> {[], ''+'', ''-''} \<and> digits ds \<and> x = e # sgn @ ds)))"

inductive json_text :: "nat \<Rightarrow> json \<Rightarrow> string \<Rightarrow> bool"
  and elems_text :: "nat \<Rightarrow> json list \<Rightarrow> string \<Rightarrow> bool"
  and members_text :: "nat \<Rightarrow> (string \<times> json) list \<Rightarrow> string \<Rightarrow> bool" where
  null: "json_text d JNull ''null''"
| true: "json_text d (JBool True) ''true''"
| false: "json_text d (JBool False) ''false''"
| number: "number_text n \<Longrightarrow> json_text d (JNum n) n"
| str: "string_text x s \<Longrightarrow> json_text d (JStr x) (CHR 0x22 # s)"
| no_elems: "ws w \<Longrightarrow> json_text (Suc d) (JArr []) (CHR ''['' # w @ [CHR '']''])"
| elems: "elems_text d vs s \<Longrightarrow> json_text (Suc d) (JArr vs) (CHR ''['' # s @ [CHR '']''])"
| no_members: "ws w \<Longrightarrow> json_text (Suc d) (JObj []) (CHR ''{'' # w @ [CHR ''}''])"
| members: "members_text d kvs s \<Longrightarrow> json_text (Suc d) (JObj kvs) (CHR ''{'' # s @ [CHR ''}''])"
| last_elem: "ws w1 \<Longrightarrow> json_text d v s \<Longrightarrow> ws w2 \<Longrightarrow> elems_text d [v] (w1 @ s @ w2)"
| more_elems: "ws w1 \<Longrightarrow> json_text d v s \<Longrightarrow> ws w2 \<Longrightarrow> elems_text d vs t \<Longrightarrow> elems_text d (v # vs) (w1 @ s @ w2 @ CHR '','' # t)"
| last_member: "ws w1 \<Longrightarrow> string_text k ks \<Longrightarrow> ws w2 \<Longrightarrow> ws w3 \<Longrightarrow> json_text d v s \<Longrightarrow> ws w4 \<Longrightarrow>
     members_text d [(k, v)] (w1 @ CHR 0x22 # ks @ w2 @ CHR '':'' # w3 @ s @ w4)"
| more_members: "ws w1 \<Longrightarrow> string_text k ks \<Longrightarrow> ws w2 \<Longrightarrow> ws w3 \<Longrightarrow> json_text d v s \<Longrightarrow> ws w4 \<Longrightarrow> members_text d kvs t \<Longrightarrow>
     members_text d ((k, v) # kvs) (w1 @ CHR 0x22 # ks @ w2 @ CHR '':'' # w3 @ s @ w4 @ CHR '','' # t)"

section \<open>Strings\<close>

lemma within_simp: "within a b c \<longleftrightarrow> a \<le> (of_char c :: nat) \<and> (of_char c :: nat) \<le> b"
  by (simp add: within_def)

lemma utf8_size_append:
  assumes "utf8_size cs = length cs" and "1 < length cs"
  shows "utf8_size (cs @ s) = length cs"
proof -
  have "utf8_size cs \<in> {0, 1, 2, 3, 4}" by (cases cs) (simp_all add: Let_def)
  then have "length cs \<in> {2, 3, 4}" using assms unfolding assms(1) by auto
  then consider c a where "cs = [c, a]" | c a b where "cs = [c, a, b]" | c a b d where "cs = [c, a, b, d]"
    by (auto simp: length_Suc_conv eval_nat_numeral simp del: utf8_size.simps)
  then show ?thesis
    by cases (use assms(1) in \<open>auto simp: Let_def split: if_split_asm\<close>)+
qed

lemma utf8_size_ascii: "within 0 0x7F c \<Longrightarrow> utf8_size (c # s) = 1"
  by (simp add: Let_def)

lemma utf8_size_high:
  assumes "utf8_size (c # t) = Suc (length t)" and "t \<noteq> []"
  shows "c \<noteq> CHR 0x22 \<and> c \<noteq> CHR 0x5C \<and> \<not> within 0 0x1F c"
  using assms by (auto simp: Let_def within_def split: if_splits)

lemma hex4_append: "hex4 h = Some (u, []) \<Longrightarrow> hex4 (h @ s) = Some (u, s)"
  by (auto simp: hex4_def split: list.splits option.splits)

lemma json_string_text: "string_text x s \<Longrightarrow> json_string (s @ r) = Some (x, r)"
proof (induction rule: string_text.induct)
  case close
  show ?case by (subst json_string.simps) simp
next
  case (plain c x s)
  have "within 0 0x7F c" "\<not> within 0 0x1F c" using plain(1) by (auto simp: within_def)
  with plain show ?case by (subst json_string.simps) (simp add: utf8_size_ascii del: utf8_size.simps)
next
  case (multibyte cs x s)
  obtain c t where cs: "cs = c # t" "t \<noteq> []" using multibyte(2) by (cases cs) auto
  have h: "c \<noteq> CHR 0x22" "c \<noteq> CHR 0x5C" "\<not> within 0 0x1F c"
    using utf8_size_high [of c t] multibyte(1) cs by auto
  have "utf8_size (c # t @ s @ r) = length cs" using utf8_size_append [OF multibyte(1,2), of "s @ r"] cs by simp
  with h multibyte cs show ?case
    by (subst json_string.simps) (simp del: utf8_size.simps)
next
  case (escaped e b x s)
  then have "e \<noteq> CHR ''u''" by (auto simp: simple_escape_def)
  with escaped show ?case by (subst json_string.simps) simp
next
  case (unicode h u x s)
  have "unicode_escape u (s @ r) = (utf8_encode u, s @ r)" using unicode(2) by (auto simp: unicode_escape_def)
  with unicode show ?case by (subst json_string.simps) (simp add: hex4_append)
next
  case (surrogates h u l v x s)
  have "getu4 (CHR 0x5C # CHR ''u'' # l @ s @ r) = Some (v, s @ r)" using surrogates(2) by (simp add: getu4_def hex4_append)
  then have "unicode_escape u (CHR 0x5C # CHR ''u'' # l @ s @ r) =
      (utf8_encode (0x10000 + (u - 0xD800) * 1024 + (v - 0xDC00)), s @ r)"
    using surrogates(3-6) by (simp add: unicode_escape_def)
  with surrogates show ?case by (subst json_string.simps) (simp add: hex4_append)
qed

section \<open>Numbers\<close>

lemma digit_facts: "digit c \<Longrightarrow> c \<noteq> CHR ''.'' \<and> c \<noteq> CHR ''e'' \<and> c \<noteq> CHR ''E'' \<and> c \<noteq> CHR ''-'' \<and> c \<noteq> CHR ''+'' \<and>
    c \<noteq> CHR 0x22 \<and> c \<noteq> CHR ''n'' \<and> c \<noteq> CHR ''t'' \<and> c \<noteq> CHR ''f'' \<and> c \<noteq> CHR ''['' \<and> c \<noteq> CHR ''{'' \<and> c \<noteq> CHR '']'' \<and> c \<noteq> CHR ''}'' \<and>
    \<not> json_ws c"
  by (auto simp: digit_def within_def json_ws_def)

lemma stops_digit: "stops r \<Longrightarrow> r = [] \<or> \<not> digit (hd r) \<and> hd r \<noteq> CHR ''.'' \<and> hd r \<noteq> CHR ''e'' \<and> hd r \<noteq> CHR ''E''"
  by (auto simp: stops_def json_ws_def digit_def within_def split: list.splits)

lemma digits_span:
  assumes "list_all digit ds" and "r = [] \<or> \<not> digit (hd r)"
  shows "takeWhile digit (ds @ r) = ds" and "dropWhile digit (ds @ r) = r"
  using assms by (induction ds; cases r; simp)+

lemma json_number_text:
  assumes "number_text n" and "stops r"
  shows "json_number (n @ r) = Some (n, r)"
proof -
  from assms(1) obtain sign i f x where n: "n = sign @ i @ f @ x" "sign \<in> {[], ''-''}" "digits i" "hd i = CHR ''0'' \<longrightarrow> i = ''0''"
    and f: "f = [] \<or> (\<exists>ds. digits ds \<and> f = CHR ''.'' # ds)"
    and x: "x = [] \<or> (\<exists>e sgn ds. e \<in> {CHR ''e'', CHR ''E''} \<and> sgn \<in> {[], ''+'', ''-''} \<and> digits ds \<and> x = e # sgn @ ds)"
    unfolding number_text_def by blast
  note s = stops_digit [OF assms(2)]
  have xr: "x @ r = [] \<or> \<not> digit (hd (x @ r)) \<and> hd (x @ r) \<noteq> CHR ''.''"
    using x s by (auto dest: digit_facts)
  have X: "json_exponent (x @ r) = Some (x, r)"
  proof (cases "x = []")
    case True
    then show ?thesis using s by (cases r) (auto simp: json_exponent_def)
  next
    case False
    with x obtain e sgn ds where x: "e \<in> {CHR ''e'', CHR ''E''}" "sgn \<in> {[], ''+'', ''-''}" "digits ds" "x = e # sgn @ ds" by blast
    obtain c cs where ds: "ds = c # cs" "digit c" using x(3) by (cases ds) (auto simp: digits_def)
    have "c \<noteq> CHR ''+'' \<and> c \<noteq> CHR ''-''" using digit_facts [OF ds(2)] by simp
    moreover have "takeWhile digit (ds @ r) = ds" "dropWhile digit (ds @ r) = r"
      using digits_span [of ds r] x(3) s by (auto simp: digits_def)
    ultimately show ?thesis using x ds by (auto simp: json_exponent_def Let_def)
  qed
  have F: "json_fraction (f @ x @ r) = Some (f, x @ r)"
  proof (cases "f = []")
    case True
    then show ?thesis using xr by (cases "x @ r") (auto simp: json_fraction_def)
  next
    case False
    with f obtain ds where ds: "digits ds" "f = CHR ''.'' # ds" by blast
    then have "takeWhile digit (ds @ x @ r) = ds" "dropWhile digit (ds @ x @ r) = x @ r"
      using digits_span [of ds "x @ r"] xr by (auto simp: digits_def)
    then show ?thesis using ds by (auto simp: json_fraction_def digits_def)
  qed
  have fx: "f @ x @ r = [] \<or> \<not> digit (hd (f @ x @ r))"
    using f xr by (auto simp: digit_def within_def)
  obtain c cs where i: "i = c # cs" "digit c" "list_all digit cs" using n(3) by (cases i) (auto simp: digits_def)
  have I: "json_integer (i @ f @ x @ r) = Some (i, f @ x @ r)"
    using i n(4) digits_span [OF i(3) fx] by (auto simp: json_integer_def)
  have "c \<noteq> CHR ''-''" using digit_facts [OF i(2)] by simp
  then have "json_number (sign @ i @ f @ x @ r) = Some (sign @ i @ f @ x, r)"
    using n(2) I F X i(1) by (auto simp: json_number_def)
  then show ?thesis by (simp add: n(1))
qed

section \<open>Values\<close>

lemma skip_ws_append: "ws w \<Longrightarrow> skip_ws (w @ s) = skip_ws s"
  by (induction w) (auto simp: ws_def skip_ws_def)

definition starts :: "string \<Rightarrow> bool" where
  "starts s \<longleftrightarrow> s \<noteq> [] \<and> \<not> json_ws (hd s) \<and> hd s \<noteq> CHR '']'' \<and> hd s \<noteq> CHR ''}''"

lemma skip_ws_starts: "starts s \<Longrightarrow> skip_ws (s @ r) = s @ r"
  by (cases s) (simp_all add: starts_def skip_ws_def)

lemma number_text_starts:
  assumes "number_text n"
  shows "\<exists>c t. n = c # t \<and> (c = CHR ''-'' \<or> digit c)"
proof -
  from assms obtain sign i f x where n: "n = sign @ i @ f @ x" "sign \<in> {[], ''-''}" "digits i"
    unfolding number_text_def by blast
  then show ?thesis by (cases i) (auto simp: digits_def)
qed

lemma text_starts:
  shows "json_text d v s \<Longrightarrow> starts s" and "elems_text d vs s \<Longrightarrow> vs \<noteq> []" and "members_text d kvs s \<Longrightarrow> kvs \<noteq> []"
  by (induction rule: json_text_elems_text_members_text.inducts)
     (auto simp: starts_def json_ws_def dest!: number_text_starts dest: digit_facts)

lemma text_lengths:
  shows "json_text d v s \<Longrightarrow> True" and "elems_text d vs s \<Longrightarrow> length vs \<le> length s"
    and "members_text d kvs s \<Longrightarrow> length kvs \<le> length s"
proof (induction rule: json_text_elems_text_members_text.inducts)
  case (last_elem w1 d v s w2)
  then show ?case using text_starts(1) by (fastforce simp: starts_def Suc_le_eq)
qed simp_all

lemma json_scalar_number:
  assumes "number_text n" and "stops r"
  shows "json_scalar (n @ r) = Some (JNum n, r)"
proof -
  obtain c t where c: "n = c # t" "c = CHR ''-'' \<or> digit c" using number_text_starts [OF assms(1)] by blast
  then have "c \<noteq> CHR ''n'' \<and> c \<noteq> CHR ''t'' \<and> c \<noteq> CHR ''f'' \<and> c \<noteq> CHR 0x22" using digit_facts by auto
  with c(1) json_number_text [OF assms] show ?thesis by (simp add: json_scalar_def HasPrefix_def)
qed

text \<open>A scalar is decoded at any depth.\<close>

lemma json_value_scalar:
  assumes "starts s" and "hd s \<noteq> CHR ''['' \<and> hd s \<noteq> CHR ''{''" and "ws w"
  shows "json_value d (w @ s @ r) = json_scalar (s @ r)"
proof -
  obtain c t where s: "s = c # t" "\<not> json_ws c" using assms(1) by (cases s) (auto simp: starts_def)
  then have "skip_ws (w @ s @ r) = c # t @ r" using assms(3) by (simp add: skip_ws_append) (simp add: skip_ws_def)
  then show ?thesis using assms(2) s(1) by (cases d) (simp_all add: json_value.simps)
qed

lemma skip_to: "ws w \<Longrightarrow> \<not> json_ws c \<Longrightarrow> skip_ws (w @ c # r) = c # r"
  by (simp add: skip_ws_append) (simp add: skip_ws_def)

lemma not_ws: "\<not> json_ws (CHR '','')" "\<not> json_ws (CHR '']'')" "\<not> json_ws (CHR ''}'')" "\<not> json_ws (CHR '':'')"
    "\<not> json_ws (CHR 0x22)" "\<not> json_ws (CHR ''['')" "\<not> json_ws (CHR ''{'')"
  by (simp_all add: json_ws_def)

lemma stops_ws: "ws w \<Longrightarrow> c \<in> {CHR '','', CHR '']'', CHR ''}''} \<Longrightarrow> stops (w @ c # r)"
  by (cases w) (auto simp: stops_def ws_def)

lemma skip_ws_elems:
  assumes "elems_text d vs s"
  shows "\<exists>c t. skip_ws (s @ r) = c # t \<and> c \<noteq> CHR '']''"
  using assms
proof cases
  case (last_elem w1 v t w2)
  then show ?thesis using text_starts(1) [OF last_elem(4)]
    by (cases t) (simp_all add: skip_to starts_def)
next
  case (more_elems w1 v t w2 vs' u)
  then show ?thesis using text_starts(1) [OF more_elems(4)]
    by (cases t) (simp_all add: skip_to starts_def)
qed

lemma skip_ws_members:
  assumes "members_text d kvs s"
  shows "\<exists>t. skip_ws (s @ r) = CHR 0x22 # t"
  using assms by cases (auto simp: skip_to not_ws)

text \<open>One turn of each loop of the decoder on a text, and the two brackets.\<close>

lemma json_elems_last:
  assumes "p u = Some (v, w @ CHR '']'' # r)" and "ws w" and "0 < n"
  shows "json_elems p n u = Some ([v], r)"
  using assms by (cases n) (simp_all add: skip_to not_ws)

lemma json_elems_more:
  assumes "p u = Some (v, w @ CHR '','' # t)" and "ws w" and "json_elems p n t = Some (vs, r)"
  shows "json_elems p (Suc n) u = Some (v # vs, r)"
  using assms by (simp add: skip_to not_ws)

lemma json_members_last:
  assumes "json_string u = Some (k, w2 @ CHR '':'' # x)" and "p x = Some (v, w4 @ CHR ''}'' # r)"
    and "ws w1" and "ws w2" and "ws w4" and "0 < n"
  shows "json_members p n (w1 @ CHR 0x22 # u) = Some ([(k, v)], r)"
  using assms by (cases n) (simp_all add: skip_to not_ws)

lemma json_members_more:
  assumes "json_string u = Some (k, w2 @ CHR '':'' # x)" and "p x = Some (v, w4 @ CHR '','' # t)"
    and "ws w1" and "ws w2" and "ws w4" and "json_members p n t = Some (kvs, r)"
  shows "json_members p (Suc n) (w1 @ CHR 0x22 # u) = Some ((k, v) # kvs, r)"
  using assms by (simp add: skip_to not_ws)

lemma json_value_array:
  assumes "elems_text d vs s" and "ws w"
    and "\<And>n. length vs \<le> n \<Longrightarrow> json_elems (json_value d) n (s @ CHR '']'' # r) = Some (vs, r)"
  shows "json_value (Suc d) (w @ CHR ''['' # s @ CHR '']'' # r) = Some (JArr vs, r)"
proof -
  let ?t = "s @ CHR '']'' # r"
  have e: "json_elems (json_value d) (length ?t) ?t = Some (vs, r)" 
    by (rule assms(3)) (use text_lengths(2) [OF assms(1)] in simp)
  have "skip_ws (w @ CHR ''['' # ?t) = CHR ''['' # ?t" using assms(2) by (simp add: skip_to not_ws)
  moreover have "\<not> (skip_ws ?t \<noteq> [] \<and> hd (skip_ws ?t) = CHR '']'')"
    using skip_ws_elems [OF assms(1), of "CHR '']'' # r"] by auto
  ultimately show ?thesis using e by (simp only: json_value.simps list.case if_True if_False refl) simp
qed

lemma json_value_object:
  assumes "members_text d kvs s" and "ws w"
    and "\<And>n. length kvs \<le> n \<Longrightarrow> json_members (json_value d) n (s @ CHR ''}'' # r) = Some (kvs, r)"
  shows "json_value (Suc d) (w @ CHR ''{'' # s @ CHR ''}'' # r) = Some (JObj kvs, r)"
proof -
  let ?t = "s @ CHR ''}'' # r"
  have e: "json_members (json_value d) (length ?t) ?t = Some (kvs, r)" 
    by (rule assms(3)) (use text_lengths(3) [OF assms(1)] in simp)
  have "skip_ws (w @ CHR ''{'' # ?t) = CHR ''{'' # ?t" using assms(2) by (simp add: skip_to not_ws)
  moreover have "\<not> (skip_ws ?t \<noteq> [] \<and> hd (skip_ws ?t) = CHR ''}'')"
    using skip_ws_members [OF assms(1), of "CHR ''}'' # r"] by auto
  ultimately show ?thesis using e by (simp only: json_value.simps list.case if_True if_False refl) simp
qed

lemma json_value_text:
  shows "json_text d v s \<Longrightarrow> \<forall>w r. ws w \<longrightarrow> stops r \<longrightarrow> json_value d (w @ s @ r) = Some (v, r)"
    and "elems_text d vs s \<Longrightarrow> \<forall>n r. length vs \<le> n \<longrightarrow> json_elems (json_value d) n (s @ CHR '']'' # r) = Some (vs, r)"
    and "members_text d kvs s \<Longrightarrow> \<forall>n r. length kvs \<le> n \<longrightarrow> json_members (json_value d) n (s @ CHR ''}'' # r) = Some (kvs, r)"
proof (induction rule: json_text_elems_text_members_text.inducts)
  case (null d)
  then show ?case by (simp add: json_value_scalar [of "''null''", simplified] starts_def json_ws_def json_scalar_def HasPrefix_def)
next
  case (true d)
  then show ?case by (simp add: json_value_scalar [of "''true''", simplified] starts_def json_ws_def json_scalar_def HasPrefix_def)
next
  case (false d)
  then show ?case by (simp add: json_value_scalar [of "''false''", simplified] starts_def json_ws_def json_scalar_def HasPrefix_def)
next
  case (number n d)
  have "starts n" "hd n \<noteq> CHR ''['' \<and> hd n \<noteq> CHR ''{''"
    using number_text_starts [OF number] text_starts(1) [OF json_text_elems_text_members_text.number [OF number]]
    by (auto dest: digit_facts)
  then show ?case using json_scalar_number [OF number] by (simp add: json_value_scalar)
next
  case (str x s d)
  have "starts (CHR 0x22 # s)" by (simp add: starts_def json_ws_def)
  then show ?case using json_string_text [OF str]
    by (simp add: json_value_scalar [of "CHR 0x22 # s", simplified] json_scalar_def HasPrefix_def)
next
  case (no_elems w d)
  then show ?case by (simp add: json_value.simps skip_to not_ws)
next
  case (elems d vs s)
  then show ?case using json_value_array [OF elems.hyps] by simp
next
  case (no_members w d)
  then show ?case by (simp add: json_value.simps skip_to not_ws)
next
  case (members d kvs s)
  then show ?case using json_value_object [OF members.hyps] by simp
next
  case (last_elem w1 d v s w2)
  have "json_value d (w1 @ s @ w2 @ CHR '']'' # r) = Some (v, w2 @ CHR '']'' # r)" for r
    using last_elem by (simp add: stops_ws)
  then show ?case using json_elems_last [OF _ last_elem(3)] by simp
next
  case (more_elems w1 d v s w2 vs t)
  have "json_value d (w1 @ s @ w2 @ CHR '','' # t @ x) = Some (v, w2 @ CHR '','' # t @ x)" for x
    using more_elems by (simp add: stops_ws)
  then show ?case
    using json_elems_more [OF _ more_elems(3)] more_elems.IH(2)
    by (auto simp: Suc_le_eq simp del: json_elems.simps dest!: less_imp_Suc_add)
next
  case (last_member w1 k ks w2 w3 d v s w4)
  have "json_value d (w3 @ s @ w4 @ CHR ''}'' # r) = Some (v, w4 @ CHR ''}'' # r)" for r
    using last_member by (simp add: stops_ws)
  then show ?case
    using json_members_last [OF json_string_text [OF last_member(2)]] last_member by simp
next
  case (more_members w1 k ks w2 w3 d v s w4 kvs t)
  have "json_value d (w3 @ s @ w4 @ CHR '','' # t @ x) = Some (v, w4 @ CHR '','' # t @ x)" for x
    using more_members by (simp add: stops_ws)
  then show ?case
    using json_members_more [OF json_string_text [OF more_members(2)]] more_members
    by (auto simp: Suc_le_eq dest!: less_imp_Suc_add)
qed

lemma json_parse_text:
  assumes "json_text maxNestingDepth v s" and "ws w1" and "ws w2"
  shows "json_parse (w1 @ s @ w2) = Some v"
proof -
  have "stops w2" using assms(3) by (cases w2) (auto simp: stops_def ws_def)
  moreover have "skip_ws w2 = []" using skip_ws_append [OF assms(3), of "[]"] by (simp add: skip_ws_def)
  ultimately show ?thesis using json_value_text(1) [OF assms(1)] assms(2) by (simp add: json_parse_def)
qed

end
