(* ===== verification/Ubus_Decode.thy ===== *)
theory Ubus_Decode
  imports Ubus_Lists Json_Texts "HOL-Library.List_Lexorder" "HOL-Library.Char_ord"
begin

text \<open>
  The reading of one source in \<^verbatim>\<open>internal/providers/ubus/provider.go\<close>: the answer of \<^verbatim>\<open>get_clients\<close> as JSON text, and
  the client identifiers of the stations in it.
\<close>

section \<open>Fields and maps\<close>

text \<open>
  \<^verbatim>\<open>encoding/json\<close> compares names without case; besides the ASCII letters only the long s and the Kelvin sign
  fold to one.
\<close>

definition upper_char :: "char \<Rightarrow> char" where
  "upper_char c = (if within 0x61 0x7A c then char_of ((of_char c :: nat) - 32) else c)"

fun foldName :: "string \<Rightarrow> string" where
  "foldName (a # b # c # s) =
     (if [a, b, c] = [CHR 0xE2, CHR 0x84, CHR 0xAA] then CHR ''K'' # foldName s
      else if [a, b] = [CHR 0xC5, CHR 0xBF] then CHR ''S'' # foldName (c # s)
      else upper_char a # foldName (b # c # s))"
| "foldName [a, b] = (if [a, b] = [CHR 0xC5, CHR 0xBF] then ''S'' else [upper_char a, upper_char b])"
| "foldName [a] = [upper_char a]"
| "foldName [] = []"

text \<open>A \<^verbatim>\<open>bool\<close> field: the members with its name in order; \<open>None\<close> is the error of a value of another type.\<close>

definition bool_field :: "string \<Rightarrow> (string \<times> json) list \<Rightarrow> bool option" where
  "bool_field name kvs =
     fold (\<lambda>(k, v) acc.
         if foldName k \<noteq> foldName name then acc
         else (case (v, acc) of
                 (JBool b, Some _) \<Rightarrow> Some b
               | (JNull, _) \<Rightarrow> acc
               | _ \<Rightarrow> None))
       kvs (Some False)"

text \<open>A \<^verbatim>\<open>RawMessage\<close> field keeps the last value of its name.\<close>

definition raw_field :: "string \<Rightarrow> (string \<times> json) list \<Rightarrow> json option" where
  "raw_field name kvs = fold (\<lambda>(k, v) acc. if foldName k \<noteq> foldName name then acc else Some v) kvs None"

text \<open>An object as a map: the last value of a key.\<close>

definition object_map :: "(string \<times> json) list \<Rightarrow> (string, json) gomap" where
  "object_map kvs = fold (\<lambda>(k, v) m. AList.update k v m) kvs []"

section \<open>Stations\<close>

datatype decode_err = BadResponse | NoClientsMap | BadClientsMap | TooManyStations nat

text \<open>The two flags of a station, \<open>None\<close> if they cannot be decoded.\<close>

definition station_flags :: "json \<Rightarrow> (bool \<times> bool) option" where
  "station_flags v =
     (case v of
        JNull \<Rightarrow> Some (False, False)
      | JObj kvs \<Rightarrow>
          (case (bool_field ''assoc'' kvs, bool_field ''authorized'' kvs) of
             (Some a, Some b) \<Rightarrow> Some (a, b)
           | _ \<Rightarrow> None)
      | _ \<Rightarrow> None)"

text \<open>One turn of the loop over the map.\<close>

definition station_id :: "string \<Rightarrow> json \<Rightarrow> string option" where
  "station_id address v =
     (case station_flags v of
        None \<Rightarrow> None
      | Some (assoc, authorized) \<Rightarrow>
          if \<not> assoc \<or> \<not> authorized then None
          else (case ClientID address of Inl err \<Rightarrow> None | Inr i \<Rightarrow> Some i))"

definition decodeSnapshot :: "string \<Rightarrow> int \<Rightarrow> decode_err + string list" where
  "decodeSnapshot data maxClients =
     (case json_parse data of
        Some (JObj root) \<Rightarrow>
          (case raw_field ''clients'' root of
             None \<Rightarrow> Inl NoClientsMap
           | Some JNull \<Rightarrow> Inl NoClientsMap
           | Some (JObj kvs) \<Rightarrow>
               let clients = object_map kvs in
               if int (length clients) > maxClients then Inl (TooManyStations (length clients))
               else Inr (sort (List.map_filter (\<lambda>(address, v). station_id address v) clients))
           | Some _ \<Rightarrow> Inl BadClientsMap)
      | Some JNull \<Rightarrow> Inl NoClientsMap
      | _ \<Rightarrow> Inl BadResponse)"

datatype source_err = SourceCommand run_err | SourceDecode decode_err

text \<open>
  \<^verbatim>\<open>snapshotSource\<close>: the command \<^verbatim>\<open>ubus call <object> get_clients\<close> and its output; \<open>None\<close> as in \<^verbatim>\<open>run\<close>.
\<close>

definition snapshotSource ::
    "int \<Rightarrow> int \<Rightarrow> string list \<Rightarrow> string list \<Rightarrow> string option \<Rightarrow> (source_err + string list) option" where
  "snapshotSource maxOutput maxClients outs errs failed =
     (case run_command maxOutput outs errs failed of
        None \<Rightarrow> None
      | Some (Inl err) \<Rightarrow> Some (Inl (SourceCommand err))
      | Some (Inr output) \<Rightarrow>
          Some (case decodeSnapshot output maxClients of Inl err \<Rightarrow> Inl (SourceDecode err) | Inr ids \<Rightarrow> Inr ids))"

section \<open>Lemmas\<close>

lemma object_map_lookup: "map_of (object_map kvs) k = map_of (rev kvs) k"
proof -
  have "map_of (fold (\<lambda>(k, v) m. AList.update k v m) kvs m) k = (case map_of (rev kvs) k of None \<Rightarrow> map_of m k | Some v \<Rightarrow> Some v)" for m
    by (induction kvs rule: rev_induct) (auto simp: update_conv' split: option.split)
  then show ?thesis by (simp add: object_map_def split: option.split)
qed

lemma object_map_keys: "dkeys (object_map kvs)" "keyset (object_map kvs) = fst ` set kvs"
proof -
  have "dkeys (fold (\<lambda>(k, v) m. AList.update k v m) kvs m)" if "dkeys m" for m
    using that by (induction kvs arbitrary: m) (auto simp: distinct_update)
  then show "dkeys (object_map kvs)" by (simp add: object_map_def)
  have "k \<in> keyset (object_map kvs) \<longleftrightarrow> map_of (object_map kvs) k \<noteq> None" for k by (simp add: map_of_eq_None_iff)
  also have "\<dots>k \<longleftrightarrow> k \<in> fst ` set kvs" for k by (simp add: object_map_lookup map_of_eq_None_iff)
  finally show "keyset (object_map kvs) = fst ` set kvs" by blast
qed

lemma length_map_filter: "length (List.map_filter f xs) \<le> length xs"
  by (induction xs) (auto simp: List.map_filter_simps split: option.split)

lemma set_map_filter: "i \<in> set (List.map_filter f xs) \<longleftrightarrow> (\<exists>x \<in> set xs. f x = Some i)"
  by (induction xs) (auto simp: List.map_filter_simps split: option.split)

lemma station_id_iff: "station_id address v = Some i \<longleftrightarrow> station_flags v = Some (True, True) \<and> ClientID address = Inr i"
  by (auto simp: station_id_def split: option.splits sum.splits if_splits)

text \<open>
  What a response says of a station, by the names that its members have up to case: a flag is set if the
  last value of that name is \<open>true\<close>, nulls apart, and none is of another type.
\<close>

definition flag_set :: "string \<Rightarrow> (string \<times> json) list \<Rightarrow> bool" where
  "flag_set name kvs \<longleftrightarrow>
     (let vs = map snd (filter (\<lambda>(k, v). foldName k = name) kvs) in
      set vs \<subseteq> {JBool True, JBool False, JNull} \<and> filter (\<lambda>v. v \<noteq> JNull) vs \<noteq> [] \<and>
      last (filter (\<lambda>v. v \<noteq> JNull) vs) = JBool True)"

definition station_connected :: "json \<Rightarrow> bool" where
  "station_connected v \<longleftrightarrow> (\<exists>kvs. v = JObj kvs \<and> flag_set ''ASSOC'' kvs \<and> flag_set ''AUTHORIZED'' kvs)"

lemma bool_field_exact:
  "(bool_field name kvs \<noteq> None \<longleftrightarrow> snd ` {m \<in> set kvs. foldName (fst m) = foldName name} \<subseteq> {JBool True, JBool False, JNull}) \<and>
   (bool_field name kvs = Some True \<longleftrightarrow> flag_set (foldName name) kvs)"
proof (induction kvs rule: rev_induct)
  case Nil
  show ?case by (simp add: bool_field_def flag_set_def)
next
  case (snoc m kvs)
  obtain k v where m: "m = (k, v)" by fastforce
  define r where "r = bool_field name kvs"
  have step: "bool_field name (kvs @ [m]) = (if foldName k \<noteq> foldName name then r
      else (case (v, r) of (JBool b, Some _) \<Rightarrow> Some b | (JNull, _) \<Rightarrow> r | _ \<Rightarrow> None))"
    unfolding r_def m bool_field_def by (simp split: json.split)
  show ?case
  proof (cases "foldName k = foldName name")
    case False
    then have "{x \<in> set (kvs @ [m]). foldName (fst x) = foldName name} = {x \<in> set kvs. foldName (fst x) = foldName name}"
      "flag_set (foldName name) (kvs @ [m]) = flag_set (foldName name) kvs"
      by (auto simp: m flag_set_def)
    then show ?thesis using snoc False by (simp add: step r_def)
  next
    case True
    then have set: "snd ` {x \<in> set (kvs @ [m]). foldName (fst x) = foldName name} =
        insert v (snd ` {x \<in> set kvs. foldName (fst x) = foldName name})"
      by (force simp: m)
    have flag: "flag_set (foldName name) (kvs @ [m]) \<longleftrightarrow>
        (if v = JNull then flag_set (foldName name) kvs
         else v = JBool True \<and> snd ` {x \<in> set kvs. foldName (fst x) = foldName name} \<subseteq> {JBool True, JBool False, JNull})"
      using True by (auto simp: m flag_set_def Let_def split_def)
    show ?thesis unfolding set flag step using snoc True unfolding r_def [symmetric]
      by (cases v) (auto split: option.splits)
  qed
qed

lemma station_flags_connected: "station_flags v = Some (True, True) \<longleftrightarrow> station_connected v"
proof -
  have n: "foldName ''assoc'' = ''ASSOC''" "foldName ''authorized'' = ''AUTHORIZED''" by code_simp+
  have "bool_field ''assoc'' kvs = Some True \<longleftrightarrow> flag_set ''ASSOC'' kvs"
    "bool_field ''authorized'' kvs = Some True \<longleftrightarrow> flag_set ''AUTHORIZED'' kvs" for kvs
    using bool_field_exact [of "''assoc''" kvs] bool_field_exact [of "''authorized''" kvs] unfolding n by blast+
  moreover have "station_flags (JObj kvs) = Some (True, True) \<longleftrightarrow>
      bool_field ''assoc'' kvs = Some True \<and> bool_field ''authorized'' kvs = Some True" for kvs
    by (auto simp: station_flags_def split: option.splits)
  ultimately show ?thesis by (cases v) (simp_all add: station_flags_def station_connected_def)
qed

text \<open>The last member of a name.\<close>

lemma raw_field_last:
  assumes "root = before @ (k, v) # later" and "foldName k = foldName name" and "\<forall>m \<in> set later. foldName (fst m) \<noteq> foldName name"
  shows "raw_field name root = Some v"
proof -
  have "fold (\<lambda>(k, v) acc. if foldName k \<noteq> foldName name then acc else Some v) later acc = acc" for acc
    using assms(3) by (induction later) (auto split: prod.split)
  then show ?thesis using assms(1,2) by (simp add: raw_field_def)
qed

lemma decoded_stations:
  assumes "json_parse data = Some (JObj root)" and "raw_field ''clients'' root = Some (JObj kvs)"
  defines "ids \<equiv> sort (List.map_filter (\<lambda>(address, v). station_id address v) (object_map kvs))"
  shows "decodeSnapshot data limit =
      (if int (card (fst ` set kvs)) > limit then Inl (TooManyStations (card (fst ` set kvs))) else Inr ids)"
    and "sorted ids" and "length ids \<le> card (fst ` set kvs)"
    and "i \<in> set ids \<longleftrightarrow> (\<exists>address v. map_of (rev kvs) address = Some v \<and> station_flags v = Some (True, True) \<and> ClientID address = Inr i)"
proof -
  have n: "length (object_map kvs) = card (fst ` set kvs)"
    using length_keys [OF object_map_keys(1)] by (simp add: object_map_keys(2))
  then show "decodeSnapshot data limit =
      (if int (card (fst ` set kvs)) > limit then Inl (TooManyStations (card (fst ` set kvs))) else Inr ids)"
    using assms(1,2) by (simp add: decodeSnapshot_def Let_def ids_def)
  show "sorted ids" by (simp add: ids_def)
  show "length ids \<le> card (fst ` set kvs)" using length_map_filter n by (metis ids_def length_sort)
  have m: "(address, v) \<in> set (object_map kvs) \<longleftrightarrow> map_of (rev kvs) address = Some v" for address v
    using object_map_keys(1) [of kvs] object_map_lookup [of kvs address] by (metis mem_map_of map_of_mem)
  then show "i \<in> set ids \<longleftrightarrow> (\<exists>address v. map_of (rev kvs) address = Some v \<and> station_flags v = Some (True, True) \<and> ClientID address = Inr i)"
    unfolding ids_def set_sort set_map_filter m [symmetric] Bex_def split_paired_Ex by (simp add: station_id_iff)
qed

text \<open>
  C39. However \<^verbatim>\<open>ubus\<close> spells its answer, the stations are read off it: for every text of a JSON object with
  spaces, escapes and further members anywhere, whose last \<open>clients\<close> member is an object, the result is the
  ascending list of the canonical identifiers of exactly those addresses whose last entry is an object with
  both \<open>assoc\<close> and \<open>authorized\<close> true; more addresses than the limit are an error and never a shorter list.
\<close>

theorem snapshot_decoded:
  assumes "json_text maxNestingDepth (JObj root) s" and "ws w1" and "ws w2"
    and "root = before @ (k, JObj kvs) # later" and "foldName k = ''CLIENTS''"
    and "\<forall>m \<in> set later. foldName (fst m) \<noteq> ''CLIENTS''"
  shows "if int (card (fst ` set kvs)) > limit
    then decodeSnapshot (w1 @ s @ w2) limit = Inl (TooManyStations (card (fst ` set kvs)))
    else (\<exists>ids. decodeSnapshot (w1 @ s @ w2) limit = Inr ids \<and> sorted ids \<and> int (length ids) \<le> limit \<and>
      (\<forall>i. i \<in> set ids \<longleftrightarrow>
         (\<exists>address v. map_of (rev kvs) address = Some v \<and> station_connected v \<and> ClientID address = Inr i)))"
proof -
  have n: "foldName ''clients'' = ''CLIENTS''" by code_simp
  have "raw_field ''clients'' root = Some (JObj kvs)" by (rule raw_field_last [OF assms(4)]) (use assms(5,6) in \<open>simp_all only: n\<close>)
  note d = decoded_stations [OF json_parse_text [OF assms(1-3)] this, unfolded station_flags_connected]
  show ?thesis
  proof (cases "int (card (fst ` set kvs)) > limit")
    case True
    then show ?thesis using d(1) by simp
  next
    case False
    then have "int (length (sort (List.map_filter (\<lambda>(address, v). station_id address v) (object_map kvs)))) \<le> limit"
      using d(3) by linarith
    with False show ?thesis using d(1,2,4) by auto
  qed
qed

section \<open>A response\<close>

lemma string_text_ascii:
  "list_all (\<lambda>c. within 0x20 0x7F c \<and> c \<noteq> CHR 0x22 \<and> c \<noteq> CHR 0x5C) k \<Longrightarrow> string_text k (k @ [CHR 0x22])"
  by (induction k) (auto intro: string_text.intros)

text \<open>An object of one member and of two members without spaces.\<close>

lemma one_member:
  assumes "list_all (\<lambda>c. within 0x20 0x7F c \<and> c \<noteq> CHR 0x22 \<and> c \<noteq> CHR 0x5C) k" and "json_text d v s"
  shows "json_text (Suc d) (JObj [(k, v)]) (CHR ''{'' # CHR 0x22 # k @ [CHR 0x22, CHR '':''] @ s @ [CHR ''}''])"
  using members [OF last_member [OF _ string_text_ascii [OF assms(1)] _ _ assms(2), of "[]" "[]" "[]" "[]"]]
  by (simp add: ws_def)

lemma two_members:
  assumes "list_all (\<lambda>c. within 0x20 0x7F c \<and> c \<noteq> CHR 0x22 \<and> c \<noteq> CHR 0x5C) k" and "json_text d v s"
    and "list_all (\<lambda>c. within 0x20 0x7F c \<and> c \<noteq> CHR 0x22 \<and> c \<noteq> CHR 0x5C) k'" and "json_text d v' s'"
  shows "json_text (Suc d) (JObj [(k, v), (k', v')])
    (CHR ''{'' # CHR 0x22 # k @ [CHR 0x22, CHR '':''] @ s @ [CHR '','', CHR 0x22] @ k' @ [CHR 0x22, CHR '':''] @ s' @ [CHR ''}''])"
  using members [OF more_members [OF _ string_text_ascii [OF assms(1)] _ _ assms(2) _
      last_member [OF _ string_text_ascii [OF assms(3)] _ _ assms(4), of "[]" "[]" "[]" "[]"], of "[]" "[]" "[]" "[]"]]
  by (simp add: ws_def)

definition demo_station :: json where
  "demo_station = JObj [(''assoc'', JBool True), (''authorized'', JBool True)]"

definition demo_response :: string where
  "demo_response =
     ''{'' @ [CHR 0x22] @ ''clients'' @ [CHR 0x22] @ '':{'' @ [CHR 0x22] @ ''AA:BB:CC:DD:EE:FF'' @ [CHR 0x22] @ '':{'' @
     [CHR 0x22] @ ''assoc'' @ [CHR 0x22] @ '':true,'' @ [CHR 0x22] @ ''authorized'' @ [CHR 0x22] @ '':true}}}''"

theorem snapshot_decoded_witness:
  "\<exists>ids. decodeSnapshot (demo_response @ [CHR 0x0A]) 10 = Inr ids \<and> ''mac:aa:bb:cc:dd:ee:ff'' \<in> set ids"
proof -
  let ?kvs = "[(''AA:BB:CC:DD:EE:FF'', demo_station)]"
  obtain d where d: "maxNestingDepth = Suc (Suc (Suc d))"
    by (rule that [of 9997]) (simp add: maxNestingDepth_def)
  have station: "json_text (Suc d) demo_station
      (CHR ''{'' # CHR 0x22 # ''assoc'' @ [CHR 0x22, CHR '':''] @ ''true'' @ [CHR '','', CHR 0x22] @ ''authorized'' @ [CHR 0x22, CHR '':''] @ ''true'' @ [CHR ''}''])"
    unfolding demo_station_def by (intro two_members true) (simp_all add: within_def)
  have "json_text maxNestingDepth (JObj [(''clients'', JObj ?kvs)]) demo_response"
    using one_member [OF _ one_member [OF _ station, of "''AA:BB:CC:DD:EE:FF''"], of "''clients''"]
    by (simp add: within_def d demo_response_def)
  moreover have "[(''clients'', JObj ?kvs)] = [] @ (''clients'', JObj ?kvs) # []" "foldName ''clients'' = ''CLIENTS''"
    "\<forall>m \<in> set []. foldName (fst m) \<noteq> ''CLIENTS''" by (simp, code_simp, simp)
  moreover have "ws []" "ws [CHR 0x0A]" by (simp_all add: ws_def json_ws_def)
  ultimately obtain ids where ids: "decodeSnapshot ([] @ demo_response @ [CHR 0x0A]) 10 = Inr ids"
    "\<forall>i. i \<in> set ids \<longleftrightarrow> (\<exists>address v. map_of (rev ?kvs) address = Some v \<and> station_connected v \<and> ClientID address = Inr i)"
    using snapshot_decoded [of "[(''clients'', JObj ?kvs)]" demo_response "[]" "[CHR 0x0A]" "[]" "''clients''" ?kvs "[]" 10]
    by auto
  moreover have "station_flags demo_station = Some (True, True)" "ClientID ''AA:BB:CC:DD:EE:FF'' = Inr ''mac:aa:bb:cc:dd:ee:ff''"
    by code_simp+
  ultimately show ?thesis unfolding station_flags_connected by (intro exI [of _ ids]) auto
qed

end
