(* ===== verification/Go_Bytes.thy ===== *)
theory Go_Bytes
  imports Go_Strings
begin

text \<open>
  Bytes as Go reads and writes them: the conversion between strings and byte slices, and the fixed-size
  integers of \<^verbatim>\<open>encoding/binary\<close>.  A byte order is a flag, \<open>True\<close> for big endian; \<^verbatim>\<open>NativeEndian\<close> is
  the flag of the machine.
\<close>

unbundle bit_operations_syntax

definition bytes_of :: "string \<Rightarrow> byte list" where
  "bytes_of s = map of_char s"

definition string_of :: "byte list \<Rightarrow> string" where
  "string_of bs = map (\<lambda>b. char_of (unat b)) bs"

definition Uint16 :: "bool \<Rightarrow> byte list \<Rightarrow> 16 word" where
  "Uint16 big bs =
     (let a = (if big then bs ! 0 else bs ! 1); b = (if big then bs ! 1 else bs ! 0)
      in push_bit 8 (ucast a) OR ucast b)"

definition AppendUint16 :: "bool \<Rightarrow> 16 word \<Rightarrow> byte list" where
  "AppendUint16 big v =
     (let hi = ucast (drop_bit 8 v); lo = ucast v in if big then [hi, lo] else [lo, hi])"

definition Uint32 :: "bool \<Rightarrow> byte list \<Rightarrow> 32 word" where
  "Uint32 big bs =
     (let cs = (if big then bs else rev (take 4 bs))
      in push_bit 24 (ucast (cs ! 0)) OR push_bit 16 (ucast (cs ! 1)) OR push_bit 8 (ucast (cs ! 2)) OR ucast (cs ! 3))"

definition AppendUint32 :: "bool \<Rightarrow> 32 word \<Rightarrow> byte list" where
  "AppendUint32 big v =
     (let cs = [ucast (drop_bit 24 v), ucast (drop_bit 16 v), ucast (drop_bit 8 v), ucast v]
      in if big then cs else rev cs)"

definition Uint64 :: "byte list \<Rightarrow> 64 word" where
  "Uint64 bs = push_bit 32 (ucast (Uint32 True bs)) OR ucast (Uint32 True (drop 4 bs))"

definition AppendUint64 :: "64 word \<Rightarrow> byte list" where
  "AppendUint64 v = AppendUint32 True (ucast (drop_bit 32 v)) @ AppendUint32 True (ucast v)"

section \<open>Lemmas\<close>

lemma unat_of_char [simp]: "unat (of_char c :: byte) = of_char c"
proof -
  have "unat (of_nat (of_char c) :: byte) = of_char c mod 256" by (simp only: unsigned_of_nat take_bit_eq_mod) simp
  then show ?thesis by (simp only: of_nat_of_char of_char_mod_256)
qed

lemma of_char_of_unat [simp]: "of_char (char_of (unat b)) = (b :: byte)"
proof -
  have "unat b < 256" using unsigned_less [of b] by simp
  then have "of_nat (of_char (char_of (unat b))) = (of_nat (unat b) :: byte)" by (simp only: of_char_of mod_less)
  then show ?thesis by (simp only: of_nat_of_char) simp
qed

lemma string_of_bytes [simp]: "string_of (bytes_of s) = s"
  by (simp add: string_of_def bytes_of_def comp_def)

lemma bytes_of_string [simp]: "bytes_of (string_of bs) = bs"
  by (simp add: string_of_def bytes_of_def comp_def)

lemma bytes_of_simps [simp]:
  "bytes_of (s @ t) = bytes_of s @ bytes_of t" "length (bytes_of s) = length s"
  "string_of (a @ b) = string_of a @ string_of b" "length (string_of a) = length a"
  by (simp_all add: bytes_of_def string_of_def)

lemma AppendUint_length [simp]:
  "length (AppendUint16 big v) = 2" "length (AppendUint32 big w) = 4"
  by (simp_all add: AppendUint16_def AppendUint32_def Let_def)

lemma Uint16_Append [simp]: "Uint16 big (AppendUint16 big v @ rest) = v"
proof -
  have "push_bit 8 (ucast (ucast (drop_bit 8 v) :: byte)) OR ucast (ucast v :: byte) = v"
    by (rule bit_word_eqI) (auto simp: bit_simps)
  then show ?thesis by (simp add: Uint16_def AppendUint16_def Let_def)
qed

lemma Uint32_Append [simp]: "Uint32 big (AppendUint32 big v @ rest) = v"
proof -
  have "push_bit 24 (ucast (ucast (drop_bit 24 v) :: byte)) OR push_bit 16 (ucast (ucast (drop_bit 16 v) :: byte)) OR
      push_bit 8 (ucast (ucast (drop_bit 8 v) :: byte)) OR ucast (ucast v :: byte) = v" (is "?l = v")
  proof (rule bit_word_eqI)
    fix n
    assume "n < LENGTH(32)"
    then consider "n < 8" | "8 \<le> n" "n < 16" | "16 \<le> n" "n < 24" | "24 \<le> n" "n < 32" by fastforce
    then show "bit ?l n \<longleftrightarrow> bit v n"
      by cases (auto simp: bit_simps)
  qed
  then show ?thesis by (simp add: Uint32_def AppendUint32_def Let_def numeral_eq_Suc)
qed

lemma AppendUint64_length [simp]: "length (AppendUint64 v) = 8"
  by (simp add: AppendUint64_def)

lemma Uint64_Append [simp]: "Uint64 (AppendUint64 v @ rest) = v"
proof -
  have "push_bit 32 (ucast (ucast (drop_bit 32 v) :: 32 word)) OR ucast (ucast v :: 32 word) = v"
    by (rule bit_word_eqI) (auto simp: bit_simps)
  moreover have "drop 4 (AppendUint64 v @ rest) = AppendUint32 True (ucast v) @ rest"
    by (simp add: AppendUint64_def)
  moreover have "Uint32 True (AppendUint64 v @ rest) = ucast (drop_bit 32 v)"
    by (simp add: AppendUint64_def)
  ultimately show ?thesis by (simp add: Uint64_def)
qed

lemmas Uint_Append_alone [simp] =
  Uint16_Append [where rest = "[]", unfolded append_Nil2] Uint32_Append [where rest = "[]", unfolded append_Nil2]
  Uint64_Append [where rest = "[]", unfolded append_Nil2]

lemma Uint16_take: "Uint16 big (take 2 bs) = Uint16 big bs" if "2 \<le> length bs"
  using that by (simp add: Uint16_def Let_def)

end
