(* ===== verification/Go_Net.thy ===== *)
theory Go_Net
  imports Go_Bytes
begin

text \<open>
  \<^verbatim>\<open>net.ParseIP\<close> and the methods of \<^verbatim>\<open>net.IP\<close> that the agent calls and \<^verbatim>\<open>strings.EqualFold\<close>.  An address
  is a list of 4 or 16 bytes; \<^verbatim>\<open>ParseIP\<close> returns 16, with IPv4 in its mapped form.
\<close>

section \<open>Comparing text\<close>

text \<open>
  \<^verbatim>\<open>strings.EqualFold\<close> where the second argument is ASCII, as at every call of the agent.  Besides the two
  cases of a letter, the Kelvin sign folds to \<^verbatim>\<open>k\<close> and the long s to \<^verbatim>\<open>s\<close>.
\<close>

function EqualFold :: "string \<Rightarrow> string \<Rightarrow> bool" where
  "EqualFold s [] = (s = [])"
| "EqualFold s (t # ts) =
     (if s = [] then False
      else if lower_char (hd s) = lower_char t then EqualFold (tl s) ts
      else if lower_char t = CHR ''s'' \<and> HasPrefix s [CHR 0xC5, CHR 0xBF] then EqualFold (drop 2 s) ts
      else if lower_char t = CHR ''k'' \<and> HasPrefix s [CHR 0xE2, CHR 0x84, CHR 0xAA] then EqualFold (drop 3 s) ts
      else False)"
  by pat_completeness auto
termination by (relation "measure (\<lambda>(_, t). length t)") auto

section \<open>Addresses\<close>

text \<open>Four decimal octets without leading zeros.\<close>

definition ipv4_octet :: "string \<Rightarrow> bool" where
  "ipv4_octet s \<longleftrightarrow> s \<noteq> [] \<and> length s \<le> 3 \<and> list_all digit s \<and> (length s > 1 \<longrightarrow> hd s \<noteq> CHR ''0'') \<and> decimal_val s \<le> 255"

definition parse_ipv4 :: "string \<Rightarrow> byte list option" where
  "parse_ipv4 s =
     (let fs = Split s (CHR ''.'') in
      if length fs = 4 \<and> list_all ipv4_octet fs then Some (map (\<lambda>f. of_nat (decimal_val f)) fs) else None)"

text \<open>
  The loop over the groups of an IPv6 address: \<open>ip\<close> is what has been read, \<open>ellipsis\<close> the position of
  \<^verbatim>\<open>::\<close>; the result is the bytes, the position and the rest of the text.
\<close>

definition hex_group :: "string \<Rightarrow> string" where
  "hex_group s = takeWhile (\<lambda>c. hexval c \<noteq> None) s"

definition hex_number :: "string \<Rightarrow> nat" where
  "hex_number g = foldl (\<lambda>v c. v * 16 + the (hexval c)) 0 g"

function ipv6_groups :: "byte list \<Rightarrow> nat option \<Rightarrow> string \<Rightarrow> (byte list \<times> nat option \<times> string) option" where
  "ipv6_groups ip ellipsis s =
     (if length ip \<ge> 16 then Some (ip, ellipsis, s)
      else
        let g = hex_group s; rest = drop (length g) s in
        if g = [] \<or> length g > 4 then None
        else if rest \<noteq> [] \<and> hd rest = CHR ''.''
        then (if ellipsis = None \<and> length ip \<noteq> 12 then None
              else if length ip + 4 > 16 then None
              else (case parse_ipv4 s of None \<Rightarrow> None | Some v4 \<Rightarrow> Some (ip @ v4, ellipsis, [])))
        else
          let ip' = ip @ [of_nat (hex_number g div 256), of_nat (hex_number g mod 256)] in
          if rest = [] then Some (ip', ellipsis, [])
          else if hd rest \<noteq> CHR '':'' \<or> length rest = 1 then None
          else
            let t = tl rest in
            if hd t = CHR '':''
            then (if ellipsis \<noteq> None then None
                  else if tl t = [] then Some (ip', Some (length ip'), [])
                  else ipv6_groups ip' (Some (length ip')) (tl t))
            else ipv6_groups ip' ellipsis t)"
  by auto
termination by (relation "measure (\<lambda>(ip, _, _). 16 - length ip)") auto

declare ipv6_groups.simps [simp del]

definition parse_ipv6 :: "string \<Rightarrow> byte list option" where
  "parse_ipv6 s =
     (let lead = (HasPrefix s ''::''); body = (if lead then drop 2 s else s) in
      if lead \<and> body = [] then Some (replicate 16 0)
      else (case ipv6_groups [] (if lead then Some 0 else None) body of
              None \<Rightarrow> None
            | Some (ip, ellipsis, rest) \<Rightarrow>
                if rest \<noteq> [] then None
                else if length ip < 16
                then (case ellipsis of
                        None \<Rightarrow> None
                      | Some e \<Rightarrow> Some (take e ip @ replicate (16 - length ip) 0 @ drop e ip))
                else if ellipsis \<noteq> None then None
                else Some ip))"

definition v4_prefix :: "byte list" where
  "v4_prefix = replicate 10 0 @ [0xff, 0xff]"

text \<open>The first of the three separators decides; an address with a zone is refused.\<close>

definition ParseIP :: "string \<Rightarrow> byte list option" where
  "ParseIP s =
     (case find (\<lambda>c. c \<in> set ''.:%'') s of
        None \<Rightarrow> None
      | Some c \<Rightarrow>
          if c = CHR ''.'' then map_option (\<lambda>v4. v4_prefix @ v4) (parse_ipv4 s)
          else if c = CHR '':'' then (if CHR ''%'' \<in> set s then None else parse_ipv6 s)
          else None)"

definition To4 :: "byte list \<Rightarrow> byte list option" where
  "To4 ip = (if length ip = 4 then Some ip
             else if length ip = 16 \<and> take 12 ip = v4_prefix then Some (drop 12 ip)
             else None)"

definition IsLoopback :: "byte list \<Rightarrow> bool" where
  "IsLoopback ip = (case To4 ip of Some v4 \<Rightarrow> v4 ! 0 = 127 | None \<Rightarrow> ip = replicate 15 0 @ [1])"

definition IsUnspecified :: "byte list \<Rightarrow> bool" where
  "IsUnspecified ip = (To4 ip = Some [0, 0, 0, 0] \<or> ip = replicate 16 0)"

section \<open>Lemmas\<close>

lemma To4_length: "To4 ip = Some v4 \<Longrightarrow> length v4 = 4"
  by (auto simp: To4_def split: if_splits)

lemma To4_To4: "To4 ip = Some v4 \<Longrightarrow> To4 v4 = Some v4"
  by (frule To4_length) (simp add: To4_def [of v4])


end
