(* ===== verification/Hostapd_Open.thy ===== *)
theory Hostapd_Open
  imports Hostapd Go_Net "HOL-Library.Word"
begin

unbundle bit_operations_syntax

text \<open>
  The set-up of the control socket in \<^verbatim>\<open>internal/providers/ubus/global.go\<close>, with the system calls as a log and
  their results as inputs: who may reach the socket, and what is left behind when the subscription ends.
\<close>

section \<open>Definitions\<close>

text \<open>The calls that \<^verbatim>\<open>Subscribe\<close> makes, in order, with their success.\<close>

datatype os_call =
    MkdirAll string int bool
  | Chown string int bool
  | Chmod string int bool
  | DialUnix string string bool
  | WriteAttach
  | RemoveFile string
  | CloseConn

text \<open>
  \<open>oa_stat\<close> is the group of the hostapd socket, \<open>None\<close> if it cannot be inspected, and \<open>oa_gid\<close> the agent's own.
\<close>

record socket_answers =
  oa_mkdir :: bool
  oa_stat :: "int option"
  oa_gid :: int
  oa_chownDir :: bool
  oa_chmodDir :: bool
  oa_dial :: bool
  oa_chownSocket :: bool
  oa_chmodSocket :: bool
  oa_writeDeadline :: bool
  oa_write :: bool
  oa_readDeadline :: bool

record globalSubscriber =
  gs_socketPath :: string
  gs_runtimeDir :: string
  gs_maxEventBytes :: int
  gs_keepaliveInterval :: duration
  gs_counter :: uint64

definition newGlobalSubscriber :: "string \<Rightarrow> int \<Rightarrow> globalSubscriber" where
  "newGlobalSubscriber socketPath maxEventBytes =
     \<lparr>gs_socketPath = socketPath, gs_runtimeDir = ''/tmp/openwrt-presence-agent'', gs_maxEventBytes = maxEventBytes,
      gs_keepaliveInterval = 5 * Second, gs_counter = 0\<rparr>"

definition peerGroup :: "socket_answers \<Rightarrow> int" where
  "peerGroup a = (case oa_stat a of None \<Rightarrow> -1 | Some gid \<Rightarrow> if gid = oa_gid a then -1 else gid)"

datatype open_err = CreateRuntimeDirectory | SecureDirectory | ConnectFailed | SecureSocket | DeadlineFailed | AttachWriteFailed

text \<open>The directory: the group it ends up with, -1 for the agent's own.\<close>

definition secure_directory :: "string \<Rightarrow> int \<Rightarrow> socket_answers \<Rightarrow> open_err option \<times> int \<times> os_call list" where
  "secure_directory dir peer a =
     (if peer \<ge> 0
      then (if oa_chownDir a
            then (if oa_chmodDir a then None else Some SecureDirectory, peer, [Chown dir peer True, Chmod dir 0x1C8 (oa_chmodDir a)])
            else (None, -1, [Chown dir peer False]))
      else (None, peer, []))"

text \<open>The local name, with the number of this subscription.\<close>

definition local_path :: "string \<Rightarrow> nat \<Rightarrow> uint64 \<Rightarrow> string" where
  "local_path dir pid n = dir @ ''/event-'' @ decimal pid @ ''-'' @ decimal (unat n) @ ''.sock''"

text \<open>From the connected socket to the request for events.\<close>

definition attach_socket :: "string \<Rightarrow> int \<Rightarrow> socket_answers \<Rightarrow> open_err option \<times> os_call list" where
  "attach_socket local peer a =
     (let chown = (if peer \<ge> 0 then [Chown local peer (oa_chownSocket a)] else []);
          mode = (if peer \<ge> 0 \<and> oa_chownSocket a then 0x1B0 else 0x180);
          calls = chown @ [Chmod local mode (oa_chmodSocket a)]
      in if \<not> oa_chmodSocket a then (Some SecureSocket, calls)
         else if \<not> oa_writeDeadline a then (Some DeadlineFailed, calls)
         else if \<not> oa_write a then (Some AttachWriteFailed, calls @ [WriteAttach])
         else if \<not> oa_readDeadline a then (Some DeadlineFailed, calls @ [WriteAttach])
         else (None, calls @ [WriteAttach]))"

text \<open>
  The whole of \<^verbatim>\<open>Subscribe\<close>: its result (\<open>Inr None\<close> while it waits for a read), the queue, and the calls; the
  deferred ones run when it returns.
\<close>

definition Subscribe_call ::
    "globalSubscriber \<Rightarrow> nat \<Rightarrow> socket_answers \<Rightarrow> subscription \<Rightarrow> time \<Rightarrow> socket_read \<Rightarrow> event_queue \<Rightarrow>
     (socket_read \<times> bool) list \<Rightarrow>
     (open_err + subscribe_err option option) \<times> event_queue \<times> os_call list \<times> globalSubscriber" where
  "Subscribe_call g pid a s now reply q rs =
     (let dir = gs_runtimeDir g; mk = MkdirAll dir 0x1C0 (oa_mkdir a) in
      if \<not> oa_mkdir a then (Inl CreateRuntimeDirectory, q, [mk], g)
      else
        (case secure_directory dir (peerGroup a) a of
           (Some err, peer, calls) \<Rightarrow> (Inl err, q, mk # calls, g)
         | (None, peer, calls) \<Rightarrow>
             let g1 = g\<lparr>gs_counter := gs_counter g + 1\<rparr>;
                 local = local_path dir pid (gs_counter g1);
                 dial = mk # calls @ [DialUnix local (gs_socketPath g) (oa_dial a)];
                 cleanup = [RemoveFile local, CloseConn]
             in if \<not> oa_dial a then (Inl ConnectFailed, q, dial, g1)
                else
                  (case attach_socket local peer a of
                     (Some err, calls2) \<Rightarrow> (Inl err, q, dial @ calls2 @ cleanup, g1)
                   | (None, calls2) \<Rightarrow>
                       (case Subscribe_events s now reply q rs of
                          (res, q1) \<Rightarrow>
                            (Inr res, q1, dial @ calls2 @ (if res = None then [] else cleanup), g1)))))"

section \<open>What the calls do to permissions\<close>

text \<open>
  The mode and group of the files by path, for a process with the file mode creation mask \<open>umask\<close> and the
  group \<open>gid\<close>.  As on Linux, \<^verbatim>\<open>MkdirAll\<close> leaves a directory that exists as it is, and binding a socket creates
  its file open to everybody but for the mask.
\<close>

type_synonym files = "string \<rightharpoonup> int \<times> int"

fun os_effect :: "int \<Rightarrow> int \<Rightarrow> os_call \<Rightarrow> files \<Rightarrow> files" where
  "os_effect umask gid (MkdirAll path mode ok) fs =
     (if ok \<and> fs path = None then fs(path \<mapsto> (mode AND NOT umask, gid)) else fs)"
| "os_effect umask gid (Chown path grp ok) fs =
     (if ok then fs(path := map_option (\<lambda>(mode, _). (mode, grp)) (fs path)) else fs)"
| "os_effect umask gid (Chmod path mode ok) fs =
     (if ok then fs(path := map_option (\<lambda>(_, grp). (mode, grp)) (fs path)) else fs)"
| "os_effect umask gid (DialUnix path remote ok) fs = (if ok then fs(path \<mapsto> (0x1FF AND NOT umask, gid)) else fs)"
| "os_effect umask gid (RemoveFile path) fs = fs(path := None)"
| "os_effect umask gid WriteAttach fs = fs"
| "os_effect umask gid CloseConn fs = fs"

definition os_effects :: "int \<Rightarrow> int \<Rightarrow> os_call list \<Rightarrow> files \<Rightarrow> files" where
  "os_effects umask gid calls fs = fold (os_effect umask gid) calls fs"

text \<open>The bits of a mode that concern others.\<close>

definition closed_to_others :: "string \<Rightarrow> files \<Rightarrow> bool" where
  "closed_to_others path fs \<longleftrightarrow> (\<forall>mode grp. fs path = Some (mode, grp) \<longrightarrow> mode mod 8 = 0)"

lemma others_masked: "(mode AND NOT u) mod 8 = 0" if "mode mod 8 = (0::int)"
proof -
  have "take_bit 3 (mode AND NOT u) = take_bit 3 mode AND take_bit 3 (NOT u)" by simp
  also have "take_bit 3 mode = 0" using that by (simp add: take_bit_eq_mod)
  finally show ?thesis by (simp add: take_bit_eq_mod)
qed

lemma local_path_dir: "local_path dir pid n \<noteq> dir"
  by (simp add: local_path_def)

section \<open>The calls of a subscription\<close>

lemma secure_directory_calls:
  assumes "secure_directory dir (peerGroup a) a = (err, peer, calls)"
  shows "calls = [] \<or> (\<exists>gid. oa_stat a = Some gid \<and> gid \<noteq> oa_gid a \<and>
      (calls = [Chown dir gid False] \<or> calls = [Chown dir gid True, Chmod dir 0x1C8 (oa_chmodDir a)]))"
    and "peer \<ge> 0 \<Longrightarrow> oa_stat a = Some peer \<and> peer \<noteq> oa_gid a"
  using assms by (auto simp: secure_directory_def peerGroup_def split: if_splits option.splits)

definition secure_calls :: "string \<Rightarrow> int \<Rightarrow> socket_answers \<Rightarrow> os_call list" where
  "secure_calls local peer a = (if peer \<ge> 0 then [Chown local peer (oa_chownSocket a)] else []) @
      [Chmod local (if peer \<ge> 0 \<and> oa_chownSocket a then 0x1B0 else 0x180) (oa_chmodSocket a)]"

lemma attach_socket_calls:
  assumes "attach_socket local peer a = (err, calls)"
  shows "calls = secure_calls local peer a \<or> calls = secure_calls local peer a @ [WriteAttach] \<and> oa_chmodSocket a"
  using assms by (auto simp: attach_socket_def secure_calls_def Let_def split: if_splits)

text \<open>A whole subscription stops before the dial, at the dial, or after the clean-up.\<close>

lemma Subscribe_call_calls:
  assumes "Subscribe_call g pid a s now reply q rs = (res, q', calls, g')"
    and "local = local_path (gs_runtimeDir g) pid (gs_counter g')"
  obtains peer c1 c2 where
    "c1 = [] \<or> (\<exists>gid. oa_stat a = Some gid \<and> gid \<noteq> oa_gid a \<and>
       (c1 = [Chown (gs_runtimeDir g) gid False] \<or> c1 = [Chown (gs_runtimeDir g) gid True, Chmod (gs_runtimeDir g) 0x1C8 (oa_chmodDir a)]))"
    "peer \<ge> 0 \<Longrightarrow> oa_stat a = Some peer \<and> peer \<noteq> oa_gid a"
    "c2 = secure_calls local peer a \<or> c2 = secure_calls local peer a @ [WriteAttach] \<and> oa_chmodSocket a"
    "calls = [MkdirAll (gs_runtimeDir g) 0x1C0 (oa_mkdir a)] \<or> calls = MkdirAll (gs_runtimeDir g) 0x1C0 (oa_mkdir a) # c1 \<or>
     calls = MkdirAll (gs_runtimeDir g) 0x1C0 (oa_mkdir a) # c1 @ [DialUnix local (gs_socketPath g) False] \<or>
     oa_mkdir a \<and> calls = MkdirAll (gs_runtimeDir g) 0x1C0 (oa_mkdir a) # c1 @ DialUnix local (gs_socketPath g) True # c2 @
       (if res = Inr None then [] else [RemoveFile local, CloseConn])"
proof -
  obtain err peer c1 where d: "secure_directory (gs_runtimeDir g) (peerGroup a) a = (err, peer, c1)" by (metis prod_cases3)
  obtain err2 c2 where t: "attach_socket local peer a = (err2, c2)" by fastforce
  show thesis
    by (rule that [OF secure_directory_calls [OF d] attach_socket_calls [OF t]])
      (use assms d t in \<open>auto simp: Subscribe_call_def Let_def split: option.splits prod.splits if_splits\<close>)
qed

section \<open>Who can reach the socket\<close>

text \<open>A call that keeps a directory closed to others: all of a subscription do, for the runtime directory.\<close>

definition keeps_closed :: "string \<Rightarrow> os_call \<Rightarrow> bool" where
  "keeps_closed dir c \<longleftrightarrow>
     (case c of
        MkdirAll path mode ok \<Rightarrow> mode mod 8 = 0
      | Chmod path mode ok \<Rightarrow> mode mod 8 = 0
      | DialUnix path remote ok \<Rightarrow> path \<noteq> dir
      | _ \<Rightarrow> True)"

lemma os_effect_closed:
  "keeps_closed dir c \<Longrightarrow> closed_to_others dir fs \<Longrightarrow> closed_to_others dir (os_effect umask gid c fs)"
  by (cases c) (auto simp: keeps_closed_def closed_to_others_def others_masked)

lemma os_effects_closed:
  "list_all (keeps_closed dir) calls \<Longrightarrow> closed_to_others dir fs \<Longrightarrow> closed_to_others dir (os_effects umask gid calls fs)"
proof (induction calls arbitrary: fs)
  case (Cons c calls)
  then show ?case using os_effect_closed by (simp add: os_effects_def)
qed (simp add: os_effects_def)

text \<open>The permissions a sequence of calls may ask for.\<close>

definition modes_ok :: "socket_answers \<Rightarrow> os_call list \<Rightarrow> bool" where
  "modes_ok a calls \<longleftrightarrow>
     (\<forall>path mode ok. Chmod path mode ok \<in> set calls \<longrightarrow> mode mod 8 = 0 \<and>
        (mode mod 64 \<noteq> 0 \<longrightarrow>
           (\<exists>gid. Chown path gid True \<in> set calls \<and> oa_stat a = Some gid \<and> gid \<noteq> oa_gid a)))"

lemma modes_ok_append: "modes_ok a xs \<Longrightarrow> modes_ok a ys \<Longrightarrow> modes_ok a (xs @ ys)"
  unfolding modes_ok_def by (metis Un_iff set_append)

lemma modes_ok_calls:
  "modes_ok a []" "modes_ok a ys \<Longrightarrow> modes_ok a (MkdirAll dir mode ok # ys)" "modes_ok a ys \<Longrightarrow> modes_ok a (DialUnix l r ok # ys)"
  "modes_ok a ys \<Longrightarrow> modes_ok a (RemoveFile l # ys)" "modes_ok a ys \<Longrightarrow> modes_ok a (CloseConn # ys)"
  by (auto simp: modes_ok_def)

text \<open>The permissions of the socket after they have been set.\<close>

lemma secured_mode:
  assumes "oa_chmodSocket a" and "fs local = Some (m, gid)" and "peer \<ge> 0 \<Longrightarrow> oa_stat a = Some peer"
  shows "\<exists>mode grp. os_effects umask gid (secure_calls local peer a) fs local = Some (mode, grp) \<and> mode mod 8 = 0 \<and>
    (mode mod 64 \<noteq> 0 \<longrightarrow> oa_stat a = Some grp)"
  using assms by (auto simp: os_effects_def secure_calls_def)


definition demo_answers :: socket_answers where
  "demo_answers = \<lparr>oa_mkdir = True, oa_stat = Some 101, oa_gid = 200, oa_chownDir = True, oa_chmodDir = True, oa_dial = True,
     oa_chownSocket = True, oa_chmodSocket = True, oa_writeDeadline = True, oa_write = True, oa_readDeadline = True\<rparr>"

definition demo_subscription :: subscription where
  "demo_subscription = \<lparr>sb_known = [], sb_generation = 1, sb_cap = 4, sb_interval = 5\<rparr>"


text \<open>
  What is not checked is a runtime directory that somebody else made: with one that is open to others and a
  mask of 0, the socket is open to them between the bind and the change of its permissions.
\<close>

lemma socket_exposed_in_an_open_directory:
  "\<exists>pre post dir_mode mode. fst (snd (snd (Subscribe_call (newGlobalSubscriber ''/run/h'' 1024) 7 (demo_answers\<lparr>oa_stat := None\<rparr>)
        demo_subscription 0 (Datagram ''OK'' False 0) \<lparr>eq_sent = [], eq_taken = 0\<rparr> []))) = pre @ post \<and>
     map_option fst (os_effects 0 200 pre [''/tmp/openwrt-presence-agent'' \<mapsto> (0x1FF, 0)] ''/tmp/openwrt-presence-agent'') = Some dir_mode \<and>
     map_option fst (os_effects 0 200 pre [''/tmp/openwrt-presence-agent'' \<mapsto> (0x1FF, 0)]
       ''/tmp/openwrt-presence-agent/event-7-1.sock'') = Some mode \<and> dir_mode mod 8 = 7 \<and> mode mod 8 = 7"
proof -
  let ?calls = "fst (snd (snd (Subscribe_call (newGlobalSubscriber ''/run/h'' 1024) 7 (demo_answers\<lparr>oa_stat := None\<rparr>)
        demo_subscription 0 (Datagram ''OK'' False 0) \<lparr>eq_sent = [], eq_taken = 0\<rparr> [])))"
  have "map_option fst (os_effects 0 200 (take 2 ?calls) [''/tmp/openwrt-presence-agent'' \<mapsto> (0x1FF, 0)] ''/tmp/openwrt-presence-agent'') = Some 0x1FF \<and>
     map_option fst (os_effects 0 200 (take 2 ?calls) [''/tmp/openwrt-presence-agent'' \<mapsto> (0x1FF, 0)]
       ''/tmp/openwrt-presence-agent/event-7-1.sock'') = Some 0x1FF"
    by code_simp
  moreover have "?calls = take 2 ?calls @ drop 2 ?calls" by simp
  moreover have "(0x1FF :: int) mod 8 = 7" by simp
  ultimately show ?thesis by blast
qed

end
