(* ===== verification/Mdns_Packet.thy ===== *)
theory Mdns_Packet
  imports Go_Bytes
begin

text \<open>
  \<^verbatim>\<open>internal/mdns/packet.go\<close>: the names, questions and records of DNS packets.  A packet is a list of
  bytes; slices out of range do not occur, which the guards of the functions show.
\<close>

section \<open>Definitions\<close>

definition typeA :: "16 word" where "typeA = 1"
definition typePTR :: "16 word" where "typePTR = 12"
definition typeTXT :: "16 word" where "typeTXT = 16"
definition typeSRV :: "16 word" where "typeSRV = 33"
definition classIN :: "16 word" where "classIN = 1"
definition classMask :: "16 word" where "classMask = 0x7fff"
definition cacheFlush :: "16 word" where "cacheFlush = 0x8000"
definition headerBytes :: nat where "headerBytes = 12"
definition maxLabelBytes :: nat where "maxLabelBytes = 63"
definition maxNameBytes :: nat where "maxNameBytes = 255"
definition maxNameJumps :: nat where "maxNameJumps = 16"
definition responseFlags :: "16 word" where "responseFlags = 0x8400"

datatype mdns_err = MalformedPacket | NotQuery | TooManyQuestions

record question =
  q_name :: string
  q_qtype :: "16 word"

record rr =
  rr_name :: string
  rr_rtype :: "16 word"
  rr_class :: "16 word"
  rr_ttl :: "32 word"
  rr_data :: "byte list"

text \<open>The bytes that a label may contain.\<close>

definition label_char :: "char \<Rightarrow> bool" where
  "label_char c \<longleftrightarrow> \<not> ((of_char c :: nat) \<le> 0x20 \<or> (of_char c :: nat) > 0x7E)"

fun encode_labels :: "string list \<Rightarrow> mdns_err + byte list" where
  "encode_labels [] = Inr []"
| "encode_labels (label # labels) =
     (if length label = 0 \<or> length label > maxLabelBytes then Inl MalformedPacket
      else if \<not> list_all label_char label then Inl MalformedPacket
      else (case encode_labels labels of
              Inl err \<Rightarrow> Inl err
            | Inr bs \<Rightarrow> Inr ([of_nat (length label)] @ bytes_of label @ bs)))"

definition encodeName :: "string \<Rightarrow> mdns_err + byte list" where
  "encodeName name =
     (if \<not> HasSuffix name ''.'' \<or> name = ''.'' then Inl MalformedPacket
      else (case encode_labels (Split (TrimSuffix name ''.'') (CHR ''.'')) of
              Inl err \<Rightarrow> Inl err
            | Inr bs \<Rightarrow>
                let encoded = bs @ [0] in
                if length encoded > maxNameBytes then Inl MalformedPacket else Inr encoded))"

text \<open>
  The loop of \<^verbatim>\<open>decodeName\<close>; \<open>next = None\<close> is \<^verbatim>\<open>next < 0\<close>.  It ends because a pointer uses up one of
  the jumps and everything else moves the cursor forward.
\<close>

function decode_from ::
    "byte list \<Rightarrow> string \<Rightarrow> nat option \<Rightarrow> nat \<Rightarrow> nat \<Rightarrow> mdns_err + string \<times> nat" where
  "decode_from packet builder next jumps cursor =
     (if cursor \<ge> length packet then Inl MalformedPacket
      else
        let len = unat (packet ! cursor) in
        if (packet ! cursor) AND 0xc0 = 0
        then (if len = 0
              then Inr (builder @ ''.'', case next of None \<Rightarrow> cursor + 1 | Some n \<Rightarrow> n)
              else if cursor + 1 + len > length packet then Inl MalformedPacket
              else let b1 = (if length builder > 0 then builder @ ''.'' else builder);
                       b2 = b1 @ string_of (take len (drop (cursor + 1) packet))
                   in if length b2 > maxNameBytes then Inl MalformedPacket
                      else decode_from packet b2 next jumps (cursor + 1 + len))
        else if (packet ! cursor) AND 0xc0 = 0xc0
        then (if cursor + 2 > length packet then Inl MalformedPacket
              else let next1 = (case next of None \<Rightarrow> Some (cursor + 2) | Some n \<Rightarrow> Some n);
                       pointer = unat (Uint16 True (drop cursor packet) AND 0x3fff)
                   in if pointer \<ge> cursor then Inl MalformedPacket
                      else if jumps + 1 > maxNameJumps then Inl MalformedPacket
                      else decode_from packet builder next1 (jumps + 1) pointer)
        else Inl MalformedPacket)"
  by auto
termination
  by (relation "measures [\<lambda>(_, _, _, jumps, _). maxNameJumps - jumps,
        \<lambda>(packet, _, _, _, cursor). length packet - cursor]") auto

declare decode_from.simps [simp del]

definition decodeName :: "byte list \<Rightarrow> nat \<Rightarrow> mdns_err + string \<times> nat" where
  "decodeName packet offset = decode_from packet [] None 0 offset"

fun parse_questions :: "byte list \<Rightarrow> nat \<Rightarrow> nat \<Rightarrow> mdns_err + question list" where
  "parse_questions packet offset 0 = Inr []"
| "parse_questions packet offset (Suc n) =
     (case decodeName packet offset of
        Inl err \<Rightarrow> Inl err
      | Inr (name, next) \<Rightarrow>
          if next + 4 > length packet then Inl MalformedPacket
          else
            let qtype = Uint16 True (drop next packet);
                qclass = Uint16 True (drop (next + 2) packet) AND classMask
            in (case parse_questions packet (next + 4) n of
                  Inl err \<Rightarrow> Inl err
                | Inr qs \<Rightarrow> Inr ((if qclass = classIN then [\<lparr>q_name = name, q_qtype = qtype\<rparr>] else []) @ qs)))"

definition parseQuery :: "byte list \<Rightarrow> nat \<Rightarrow> mdns_err + question list" where
  "parseQuery packet maxQuestions =
     (if length packet < headerBytes then Inl MalformedPacket
      else
        let flags = Uint16 True (drop 2 packet) in
        if flags AND 0x8000 \<noteq> 0 \<or> flags AND 0x7800 \<noteq> 0 then Inl NotQuery
        else
          let count = unat (Uint16 True (drop 4 packet)) in
          if count > maxQuestions then Inl TooManyQuestions
          else parse_questions packet headerBytes count)"

definition encodeRecord :: "rr \<Rightarrow> mdns_err + byte list" where
  "encodeRecord value =
     (case encodeName (rr_name value) of
        Inl err \<Rightarrow> Inl err
      | Inr name \<Rightarrow>
          if int (length (rr_data value)) > 0xffff then Inl MalformedPacket
          else Inr (name @ AppendUint16 True (rr_rtype value) @ AppendUint16 True (rr_class value) @
                    AppendUint32 True (rr_ttl value) @ AppendUint16 True (of_nat (length (rr_data value))) @
                    rr_data value))"

text \<open>The two loops of \<^verbatim>\<open>buildResponse\<close>: the packet so far and the count of the section.\<close>

fun append_questions :: "nat \<Rightarrow> question list \<Rightarrow> byte list \<times> 16 word \<Rightarrow> byte list \<times> 16 word" where
  "append_questions limit [] (packet, cnt) = (packet, cnt)"
| "append_questions limit (q # qs) (packet, cnt) =
     (case encodeName (q_name q) of
        Inl _ \<Rightarrow> append_questions limit qs (packet, cnt)
      | Inr name \<Rightarrow>
          if length packet + (length name + 4) > limit then (packet, cnt)
          else append_questions limit qs
                 (packet @ name @ AppendUint16 True (q_qtype q) @ AppendUint16 True classIN, cnt + 1))"

fun appendRecords :: "nat \<Rightarrow> rr list \<Rightarrow> byte list \<times> 16 word \<Rightarrow> byte list \<times> 16 word" where
  "appendRecords limit [] (packet, cnt) = (packet, cnt)"
| "appendRecords limit (value # values) (packet, cnt) =
     (case encodeRecord value of
        Inl _ \<Rightarrow> appendRecords limit values (packet, cnt)
      | Inr encoded \<Rightarrow>
          if length packet + length encoded > limit then (packet, cnt)
          else appendRecords limit values (packet @ encoded, cnt + 1))"

text \<open>\<^verbatim>\<open>binary.BigEndian.PutUint16(packet[i:], v)\<close>.\<close>

definition PutUint16 :: "nat \<Rightarrow> 16 word \<Rightarrow> byte list \<Rightarrow> byte list" where
  "PutUint16 i v packet = (packet[i := AppendUint16 True v ! 0])[i + 1 := AppendUint16 True v ! 1]"

text \<open>\<open>None\<close> is the panic of \<^verbatim>\<open>make\<close> when the limit is below the header.\<close>

definition buildResponse :: "question list \<Rightarrow> rr list \<Rightarrow> rr list \<Rightarrow> nat \<Rightarrow> byte list option" where
  "buildResponse questions answers additionals limit =
     (if limit < headerBytes then None
      else
        let packet = PutUint16 2 responseFlags (replicate headerBytes 0);
            (p0, c0) = append_questions limit questions (packet, 0);
            (p1, c1) = appendRecords limit answers (p0, 0);
            (p3, c3) = appendRecords limit additionals (p1, 0)
        in Some (PutUint16 10 c3 (PutUint16 8 0 (PutUint16 6 c1 (PutUint16 4 c0 p3)))))"

end
