(* ===== verification/Mdns_Names.thy ===== *)
theory Mdns_Names
  imports Mdns_Packet
begin

text \<open>
  What a name in a packet means: a sequence of labels that ends with a zero byte or continues at an
  earlier place of the packet.  The decoder is shown to compute exactly that, and to read back what
  the encoder writes.
\<close>

section \<open>Specification\<close>

inductive labels_at :: "byte list \<Rightarrow> nat \<Rightarrow> string list \<Rightarrow> nat \<Rightarrow> nat \<Rightarrow> bool" for packet where
  root: "at < length packet \<Longrightarrow> packet ! at = 0 \<Longrightarrow> labels_at packet at [] 0 (at + 1)"
| label: "at < length packet \<Longrightarrow> packet ! at = of_nat n \<Longrightarrow> 0 < n \<Longrightarrow> n \<le> maxLabelBytes \<Longrightarrow>
    at + 1 + n \<le> length packet \<Longrightarrow> labels_at packet (at + 1 + n) ls jumps next \<Longrightarrow>
    labels_at packet at (string_of (take n (drop (at + 1) packet)) # ls) jumps next"
| pointer: "at + 2 \<le> length packet \<Longrightarrow> packet ! at AND 0xc0 = 0xc0 \<Longrightarrow>
    p = unat (Uint16 True (drop at packet) AND 0x3fff) \<Longrightarrow> p < at \<Longrightarrow> labels_at packet p ls jumps next \<Longrightarrow>
    labels_at packet at ls (jumps + 1) (at + 2)"

text \<open>The text of a name, and its length as the decoder counts it.\<close>

definition dotted :: "string list \<Rightarrow> string" where
  "dotted ls = concat (map (\<lambda>l. l @ ''.'') ls)"

fun join_dots :: "string list \<Rightarrow> string" where
  "join_dots [] = []"
| "join_dots [l] = l"
| "join_dots (l # ls) = l @ ''.'' @ join_dots ls"

definition join_onto :: "string \<Rightarrow> string list \<Rightarrow> string" where
  "join_onto builder ls = join_dots ((if builder = [] then [] else [builder]) @ ls)"

lemma join_onto_Nil [simp]: "join_onto builder [] = builder"
  by (simp add: join_onto_def)

lemma join_onto_Cons:
  assumes "l \<noteq> []"
  shows "join_onto builder (l # ls) = join_onto ((if builder = [] then [] else builder @ ''.'') @ l) ls"
  using assms by (cases ls; cases "builder = []") (simp_all add: join_onto_def)

lemma join_onto_length: "length builder \<le> length (join_onto builder ls)"
proof (cases ls)
  case (Cons l ls')
  then show ?thesis by (simp add: join_onto_def)
qed simp

lemma byte_class:
  fixes b :: byte
  shows "b AND 0xc0 = 0 \<longleftrightarrow> unat b \<le> maxLabelBytes"
proof -
  have c: "(0xc0 :: byte) = push_bit 6 (mask 2)" by (simp add: mask_eq_exp_minus_1 push_bit_eq_mult)
  have "b AND 0xc0 = push_bit 6 (drop_bit 6 b)"
    unfolding c by (rule bit_word_eqI) (auto simp: bit_simps)
  moreover have "push_bit 6 (drop_bit 6 b) = 0 \<longleftrightarrow> drop_bit 6 b = 0"
  proof
    assume "push_bit 6 (drop_bit 6 b) = 0"
    then have "\<not> bit (push_bit 6 (drop_bit 6 b)) (6 + n)" for n by simp
    then have "\<not> bit b (6 + n)" for n using bit_imp_le_length [of b "6 + n"] by (auto simp: bit_simps)
    then show "drop_bit 6 b = 0" by (auto simp: bit_eq_iff bit_simps)
  qed simp
  moreover have "drop_bit 6 b = 0 \<longleftrightarrow> unat b div 64 = 0"
    using unat_drop_bit_eq [of 6 b] by (simp add: drop_bit_eq_div) (metis unat_eq_zero)
  ultimately show ?thesis by (simp add: maxLabelBytes_def div_eq_0_iff) linarith
qed

lemma pointer_class: "b AND 0xc0 = 0xc0 \<Longrightarrow> b AND 0xc0 \<noteq> (0 :: byte)"
  by simp

section \<open>The decoder computes the specification\<close>

text \<open>One turn of the loop, by the kind of the byte under the cursor.\<close>

definition grow :: "string \<Rightarrow> byte list \<Rightarrow> nat \<Rightarrow> string" where
  "grow builder packet cursor =
     (if length builder > 0 then builder @ ''.'' else builder) @
     string_of (take (unat (packet ! cursor)) (drop (cursor + 1) packet))"

definition pointer_at :: "byte list \<Rightarrow> nat \<Rightarrow> nat" where
  "pointer_at packet cursor = unat (Uint16 True (drop cursor packet) AND 0x3fff)"

lemma decode_turn:
  "length packet \<le> cursor \<Longrightarrow> decode_from packet builder next jumps cursor = Inl MalformedPacket"
  "cursor < length packet \<Longrightarrow> packet ! cursor = 0 \<Longrightarrow>
     decode_from packet builder next jumps cursor = Inr (builder @ ''.'', case next of None \<Rightarrow> cursor + 1 | Some n \<Rightarrow> n)"
  "cursor < length packet \<Longrightarrow> packet ! cursor \<noteq> 0 \<Longrightarrow> packet ! cursor AND 0xc0 = 0 \<Longrightarrow>
     decode_from packet builder next jumps cursor =
       (if cursor + 1 + unat (packet ! cursor) \<le> length packet \<and> length (grow builder packet cursor) \<le> maxNameBytes
        then decode_from packet (grow builder packet cursor) next jumps (cursor + 1 + unat (packet ! cursor))
        else Inl MalformedPacket)"
  "cursor < length packet \<Longrightarrow> packet ! cursor AND 0xc0 = 0xc0 \<Longrightarrow>
     decode_from packet builder next jumps cursor =
       (if cursor + 2 \<le> length packet \<and> pointer_at packet cursor < cursor \<and> jumps + 1 \<le> maxNameJumps
        then decode_from packet builder (case next of None \<Rightarrow> Some (cursor + 2) | Some n \<Rightarrow> Some n) (jumps + 1)
               (pointer_at packet cursor)
        else Inl MalformedPacket)"
  "packet ! cursor AND 0xc0 \<noteq> 0 \<Longrightarrow> packet ! cursor AND 0xc0 \<noteq> 0xc0 \<Longrightarrow>
     decode_from packet builder next jumps cursor = Inl MalformedPacket"
  by (subst decode_from.simps; auto simp: Let_def grow_def pointer_at_def unat_eq_zero not_le)+

lemma join_onto_grow:
  assumes "packet ! cursor \<noteq> 0" and "cursor + 1 + unat (packet ! cursor) \<le> length packet"
  shows "join_onto builder (string_of (take (unat (packet ! cursor)) (drop (cursor + 1) packet)) # ls) =
    join_onto (grow builder packet cursor) ls"
proof -
  have "unat (packet ! cursor) \<noteq> 0" using assms(1) by (simp add: unat_eq_zero)
  then have "string_of (take (unat (packet ! cursor)) (drop (cursor + 1) packet)) \<noteq> []"
    using assms(2) by (simp add: string_of_def)
  then show ?thesis by (simp add: join_onto_Cons grow_def)
qed

lemma decode_from_sound:
  assumes "decode_from packet builder next jumps cursor = Inr (name, after)"
    and "length builder \<le> maxNameBytes" and "jumps \<le> maxNameJumps"
  shows "\<exists>ls j n. labels_at packet cursor ls j n \<and> jumps + j \<le> maxNameJumps \<and>
    length (join_onto builder ls) \<le> maxNameBytes \<and> name = join_onto builder ls @ ''.'' \<and>
    after = (case next of None \<Rightarrow> n | Some m \<Rightarrow> m)"
  using assms
proof (induction packet builder "next" jumps cursor rule: decode_from.induct)
  case (1 packet builder "next" jumps cursor)
  note dec = "1.prems"(1)
  let ?b = "packet ! cursor"
  have lt: "cursor < length packet" using dec decode_turn(1) by (metis Inl_Inr_False not_le)
  consider (root) "?b = 0" | (label) "?b AND 0xc0 = 0" "?b \<noteq> 0" | (pointer) "?b AND 0xc0 = 0xc0"
    using dec decode_turn(5) by (metis Inl_Inr_False)
  then show ?case
  proof cases
    case root
    then show ?thesis
      using dec decode_turn(2) [OF lt root] "1.prems"(2,3) labels_at.root [OF lt root]
      by (intro exI [of _ "[]"] exI [of _ 0] exI [of _ "cursor + 1"]) simp
  next
    case label
    let ?l = "string_of (take (unat ?b) (drop (cursor + 1) packet))"
    have n: "unat ?b \<noteq> 0" using label(2) by (simp add: unat_eq_zero)
    have fit: "cursor + 1 + unat ?b \<le> length packet" and b2: "length (grow builder packet cursor) \<le> maxNameBytes"
      and rec: "decode_from packet (grow builder packet cursor) next jumps (cursor + 1 + unat ?b) = Inr (name, after)"
      using dec decode_turn(3) [OF lt label(2,1)] by (auto split: if_splits)
    obtain ls j m where ih: "labels_at packet (cursor + 1 + unat ?b) ls j m" "jumps + j \<le> maxNameJumps"
      "length (join_onto (grow builder packet cursor) ls) \<le> maxNameBytes"
      "name = join_onto (grow builder packet cursor) ls @ ''.''" "after = (case next of None \<Rightarrow> m | Some m \<Rightarrow> m)"
      using "1.IH"(1) [OF _ refl label(1) n _ refl refl, folded grow_def] lt fit b2 rec "1.prems"(3) by auto
    have "labels_at packet cursor (?l # ls) j m"
      using labels_at.label [OF lt, of "unat ?b"] n byte_class [of ?b] label(1) fit ih(1) by simp
    then show ?thesis
      using ih join_onto_grow [OF label(2) fit] by (intro exI [of _ "?l # ls"] exI [of _ j] exI [of _ m]) simp
  next
    case pointer
    let ?next = "case next of None \<Rightarrow> Some (cursor + 2) | Some n \<Rightarrow> Some n"
    have fit: "cursor + 2 \<le> length packet" and p: "pointer_at packet cursor < cursor" and js: "jumps + 1 \<le> maxNameJumps"
      and rec: "decode_from packet builder ?next (jumps + 1) (pointer_at packet cursor) = Inr (name, after)"
      using dec decode_turn(4) [OF lt pointer] by (auto split: if_splits)
    obtain ls j m where ih: "labels_at packet (pointer_at packet cursor) ls j m" "jumps + 1 + j \<le> maxNameJumps"
      "length (join_onto builder ls) \<le> maxNameBytes" "name = join_onto builder ls @ ''.''"
      "after = (case ?next of None \<Rightarrow> m | Some m \<Rightarrow> m)"
      using "1.IH"(2) [OF _ refl _ pointer _ refl refl, folded pointer_at_def] pointer_class [OF pointer] lt fit p js rec
        "1.prems"(2) by auto
    from labels_at.pointer [OF fit pointer pointer_at_def p ih(1)] ih show ?thesis
      by (intro exI [of _ ls] exI [of _ "j + 1"] exI [of _ "cursor + 2"]) (simp split: option.splits)
  qed
qed

lemma decode_from_complete:
  assumes "labels_at packet cursor ls j n" and "jumps + j \<le> maxNameJumps"
    and "length (join_onto builder ls) \<le> maxNameBytes"
  shows "decode_from packet builder next jumps cursor =
    Inr (join_onto builder ls @ ''.'', case next of None \<Rightarrow> n | Some m \<Rightarrow> m)"
  using assms
proof (induction arbitrary: builder "next" jumps rule: labels_at.induct)
  case (root at)
  then show ?case by (simp add: decode_turn(2))
next
  case (label at n ls j after)
  have n: "n = unat (packet ! at)" using label.hyps(2,4) by (simp add: unsigned_of_nat take_bit_eq_mod maxLabelBytes_def)
  have c: "packet ! at AND 0xc0 = 0" unfolding byte_class using label.hyps(4) n by simp
  have z: "packet ! at \<noteq> 0" using label.hyps(3) n by auto
  note jo = join_onto_grow [OF z label.hyps(5) [unfolded n], of builder ls]
  have "length (grow builder packet at) \<le> maxNameBytes"
    using label.prems(2) jo n join_onto_length [of "grow builder packet at" ls] by simp
  then show ?case
    using decode_turn(3) [OF label.hyps(1) z c] label.IH [OF label.prems(1)] label.prems(2) label.hyps(5) jo n by simp
next
  case (pointer at p ls j after)
  have "at < length packet" using pointer.hyps(1) by simp
  from decode_turn(4) [OF this pointer.hyps(2)] show ?case
    using pointer.IH [of "jumps + 1" builder] pointer.prems pointer.hyps
    by (simp add: pointer_at_def split: option.splits)
qed

text \<open>
  C22. The decoder of names is exact: on every packet and at every offset it returns the name that
  stands there, when a label sequence with at most 16 backward pointers and at most 255 characters
  stands there, together with the offset after it; in all other cases it returns an error.
\<close>

theorem decodeName_exact:
  "decodeName packet offset = Inr (name, after) \<longleftrightarrow>
     (\<exists>ls jumps. labels_at packet offset ls jumps after \<and> jumps \<le> 16 \<and>
        length (join_dots ls) \<le> 255 \<and> name = join_dots ls @ ''.'')"
proof
  assume "decodeName packet offset = Inr (name, after)"
  from decode_from_sound [OF this [unfolded decodeName_def]]
  show "\<exists>ls jumps. labels_at packet offset ls jumps after \<and> jumps \<le> 16 \<and>
      length (join_dots ls) \<le> 255 \<and> name = join_dots ls @ ''.''"
    by (auto simp: join_onto_def maxNameBytes_def maxNameJumps_def)
next
  assume "\<exists>ls jumps. labels_at packet offset ls jumps after \<and> jumps \<le> 16 \<and>
      length (join_dots ls) \<le> 255 \<and> name = join_dots ls @ ''.''"
  then show "decodeName packet offset = Inr (name, after)"
    using decode_from_complete [of packet offset _ _ after 0 "[]" None]
    by (fastforce simp: decodeName_def join_onto_def maxNameBytes_def maxNameJumps_def)
qed

section \<open>Encoded names\<close>

lemma Split_not_Nil [simp]: "Split s c \<noteq> []"
  by (induction s) (auto split: list.splits)

lemma join_Split: "join_dots (Split s (CHR ''.'')) = s"
proof (induction s)
  case (Cons x s)
  obtain f fs where "Split s (CHR ''.'') = f # fs" by (cases "Split s (CHR ''.'')") simp_all
  with Cons show ?case by (cases fs) auto
qed simp

lemma encode_labels_at:
  assumes "encode_labels ls = Inr bs" and "packet = pre @ bs @ [0] @ post"
  shows "labels_at packet (length pre) ls 0 (length pre + length bs + 1)"
  using assms
proof (induction ls arbitrary: bs pre)
  case Nil
  then show ?case using labels_at.root [of "length pre" packet] by simp
next
  case (Cons l ls)
  from Cons.prems(1) obtain bs' where l: "l \<noteq> []" "length l \<le> maxLabelBytes"
    and e: "encode_labels ls = Inr bs'" and bs: "bs = [of_nat (length l)] @ bytes_of l @ bs'"
    by (auto split: if_splits sum.splits)
  let ?pre = "pre @ [of_nat (length l)] @ bytes_of l"
  have "labels_at packet (length ?pre) ls 0 (length ?pre + length bs' + 1)"
    by (rule Cons.IH [OF e]) (simp add: Cons.prems(2) bs)
  then have "labels_at packet (length pre + 1 + length l) ls 0 (length pre + length bs + 1)"
    by (simp add: bs algebra_simps)
  from labels_at.label [OF _ _ _ l(2) _ this]
  have "labels_at packet (length pre) (string_of (take (length l) (drop (length pre + 1) packet)) # ls) 0
      (length pre + length bs + 1)"
    using l(1) by (simp add: Cons.prems(2) bs nth_append)
  moreover have "take (length l) (drop (length pre + 1) packet) = bytes_of l"
    by (simp add: Cons.prems(2) bs)
  ultimately show ?case by simp
qed

lemma encode_labels_length: "encode_labels ls = Inr bs \<Longrightarrow> ls \<noteq> [] \<Longrightarrow> length bs = length (join_dots ls) + 1"
  by (induction ls arbitrary: bs rule: join_dots.induct) (auto split: if_splits sum.splits)

lemma encodeName_parts:
  assumes "encodeName name = Inr bs"
  obtains ls bs' where "encode_labels ls = Inr bs'" "bs = bs' @ [0]" "name = join_dots ls @ ''.''"
    "length bs' = length (join_dots ls) + 1" "length bs' \<le> 254"
proof -
  let ?s = "TrimSuffix name ''.''"
  have suf: "HasSuffix name ''.''" using assms by (auto simp: encodeName_def split: if_splits)
  then have "name = ?s @ ''.''"
    by (cases name rule: rev_cases) (auto simp: HasSuffix_def HasPrefix_def TrimSuffix_def)
  moreover obtain bs' where "encode_labels (Split ?s (CHR ''.'')) = Inr bs'" "bs = bs' @ [0]" "length bs' \<le> 254"
    using assms by (auto simp: encodeName_def Let_def maxNameBytes_def split: if_splits sum.splits)
  ultimately show thesis
    using that [of "Split ?s (CHR ''.'')" bs'] encode_labels_length [of "Split ?s (CHR ''.'')" bs'] join_Split [of ?s] by simp
qed

lemma encodeName_decodes:
  assumes "encodeName name = Inr bs"
  shows "decodeName (pre @ bs @ post) (length pre) = Inr (name, length pre + length bs)"
proof -
  obtain ls bs' where p: "encode_labels ls = Inr bs'" "bs = bs' @ [0]" "name = join_dots ls @ ''.''"
    "length bs' = length (join_dots ls) + 1" "length bs' \<le> 254" using encodeName_parts [OF assms] .
  have "labels_at (pre @ bs @ post) (length pre) ls 0 (length pre + length bs' + 1)"
    by (rule encode_labels_at [OF p(1)]) (simp add: p(2))
  from decode_from_complete [OF this, of 0 "[]" None] show ?thesis
    using p by (simp add: decodeName_def join_onto_def maxNameBytes_def)
qed

text \<open>The names that the encoder accepts.\<close>

definition valid_label :: "string \<Rightarrow> bool" where
  "valid_label l \<longleftrightarrow> 0 < length l \<and> length l \<le> 63 \<and> list_all label_char l \<and> CHR ''.'' \<notin> set l"

lemma encode_labels_ok:
  "(\<exists>bs. encode_labels ls = Inr bs) \<longleftrightarrow> (\<forall>l \<in> set ls. 0 < length l \<and> length l \<le> 63 \<and> list_all label_char l)"
  by (induction ls) (auto simp: maxLabelBytes_def split: sum.splits)

lemma Split_no_sep: "l \<in> set (Split s c) \<Longrightarrow> c \<notin> set l"
proof (induction s arbitrary: l)
  case (Cons x s)
  obtain f fs where "Split s c = f # fs" by (cases "Split s c") simp_all
  with Cons show ?case by (auto split: if_splits)
qed simp

lemma Split_word: "c \<notin> set l \<Longrightarrow> Split l c = [l]"
  by (induction l) auto

lemma Split_Cons: "c \<notin> set l \<Longrightarrow> Split (l @ c # s) c = l # Split s c"
  by (induction l) auto

lemma Split_join: "ls \<noteq> [] \<Longrightarrow> \<forall>l \<in> set ls. CHR ''.'' \<notin> set l \<Longrightarrow> Split (join_dots ls) (CHR ''.'') = ls"
  by (induction ls rule: join_dots.induct) (simp_all add: Split_word Split_Cons)

lemma encodeName_accepts:
  "(\<exists>bs. encodeName name = Inr bs) \<longleftrightarrow>
     (\<exists>ls. ls \<noteq> [] \<and> list_all valid_label ls \<and> name = join_dots ls @ ''.'' \<and> length name \<le> 254)"
proof
  assume "\<exists>bs. encodeName name = Inr bs"
  then obtain bs where bs: "encodeName name = Inr bs" ..
  let ?ls = "Split (TrimSuffix name ''.'') (CHR ''.'')"
  obtain ls bs' where p: "encode_labels ls = Inr bs'" "name = join_dots ls @ ''.''" "length bs' = length (join_dots ls) + 1"
    "length bs' \<le> 254" using encodeName_parts [OF bs] by metis
  obtain bs'' where e: "encode_labels ?ls = Inr bs''"
    using bs by (auto simp: encodeName_def split: if_splits sum.splits)
  have t: "TrimSuffix name ''.'' = join_dots ls" by (simp add: p(2) TrimSuffix_def HasSuffix_def HasPrefix_def)
  have "list_all valid_label ?ls"
    using e encode_labels_ok [of ?ls] Split_no_sep by (fastforce simp: list_all_iff valid_label_def)
  moreover have "name = join_dots ?ls @ ''.''" using p(2) join_Split [of "join_dots ls"] t by simp
  ultimately show "\<exists>ls. ls \<noteq> [] \<and> list_all valid_label ls \<and> name = join_dots ls @ ''.'' \<and> length name \<le> 254"
    using p(2-4) by (intro exI [of _ ?ls]) simp
next
  assume "\<exists>ls. ls \<noteq> [] \<and> list_all valid_label ls \<and> name = join_dots ls @ ''.'' \<and> length name \<le> 254"
  then obtain ls where ls: "ls \<noteq> []" "list_all valid_label ls" "name = join_dots ls @ ''.''" "length name \<le> 254" by blast
  have t: "TrimSuffix name ''.'' = join_dots ls" "HasSuffix name ''.''"
    by (simp_all add: ls(3) TrimSuffix_def HasSuffix_def HasPrefix_def)
  have sp: "Split (TrimSuffix name ''.'') (CHR ''.'') = ls"
    using ls(1,2) Split_join [of ls] by (auto simp: t list_all_iff valid_label_def)
  obtain bs where e: "encode_labels ls = Inr bs"
    using encode_labels_ok [of ls] ls(2) by (auto simp: list_all_iff valid_label_def)
  have "join_dots ls \<noteq> []"
    using ls(1,2) by (cases ls rule: join_dots.cases) (auto simp: valid_label_def)
  then have "name \<noteq> ''.''" by (simp add: ls(3))
  then show "\<exists>bs. encodeName name = Inr bs"
    using t(2) sp e encode_labels_length [OF e ls(1)] ls(3,4) by (simp add: encodeName_def Let_def maxNameBytes_def)
qed

text \<open>
  C23. Names round-trip through packets.  The encoder accepts exactly the names made of labels of 1 to
  63 printable characters, each label followed by a dot, of at most 254 characters together; and wherever
  the bytes of an accepted name stand in a packet, the decoder reads the same name and stops right
  after them.
\<close>

theorem name_roundtrip:
  "((\<exists>bs. encodeName name = Inr bs) \<longleftrightarrow>
     (\<exists>ls. ls \<noteq> [] \<and> list_all valid_label ls \<and> name = join_dots ls @ ''.'' \<and> length name \<le> 254)) \<and>
   (encodeName name = Inr bs \<longrightarrow>
     decodeName (pre @ bs @ post) (length pre) = Inr (name, length pre + length bs))"
  using encodeName_decodes encodeName_accepts by blast

theorem name_roundtrip_witness:
  "decodeName ([7, 7] @ [1, 97, 2, 98, 99, 0] @ [9]) 2 = Inr (''a.bc.'', 8)"
proof -
  have "encodeName ''a.bc.'' = Inr [1, 97, 2, 98, 99, 0]" by code_simp
  with name_roundtrip [of "''a.bc.''" "[1, 97, 2, 98, 99, 0]" "[7, 7]" "[9]"] show ?thesis by (simp add: eval_nat_numeral)
qed

end
