(* ===== verification/Mdns_Sections.thy ===== *)
theory Mdns_Sections
  imports Mdns_Names
begin

text \<open>Whole packets: the queries that the responder reads and the responses that it builds.\<close>

section \<open>Queries\<close>

text \<open>
  A query as a resolver writes it: each question with the class IN, with or without the bit that asks for
  a unicast response.
\<close>

definition question_bytes :: "question \<times> bool \<Rightarrow> byte list" where
  "question_bytes q =
     (case encodeName (q_name (fst q)) of Inl _ \<Rightarrow> [] | Inr name \<Rightarrow> name) @
     AppendUint16 True (q_qtype (fst q)) @
     AppendUint16 True (if snd q then classIN OR cacheFlush else classIN)"

definition query_bytes :: "16 word \<Rightarrow> (question \<times> bool) list \<Rightarrow> byte list \<Rightarrow> byte list" where
  "query_bytes ident qs rest =
     AppendUint16 True ident @ AppendUint16 True 0 @ AppendUint16 True (of_nat (length qs)) @ replicate 6 0 @
     concat (map question_bytes qs) @ rest"

lemma parse_questions_read:
  assumes "\<forall>q \<in> set qs. \<exists>bs. encodeName (q_name (fst q)) = Inr bs"
  shows "parse_questions (pre @ concat (map question_bytes qs) @ rest) (length pre) (length qs) = Inr (map fst qs)"
  using assms
proof (induction qs arbitrary: pre)
  case (Cons q qs)
  obtain bs where bs: "encodeName (q_name (fst q)) = Inr bs" using Cons.prems by auto
  let ?cl = "AppendUint16 True (if snd q then classIN OR cacheFlush else classIN)"
  let ?tail = "concat (map question_bytes qs) @ rest"
  let ?p = "pre @ bs @ AppendUint16 True (q_qtype (fst q)) @ ?cl @ ?tail"
  have p: "pre @ concat (map question_bytes (q # qs)) @ rest = ?p" by (simp add: question_bytes_def bs)
  have d: "decodeName ?p (length pre) = Inr (q_name (fst q), length pre + length bs)"
    by (rule encodeName_decodes [OF bs])
  have t: "Uint16 True (drop (length pre + length bs) ?p) = q_qtype (fst q)" by simp
  have c: "Uint16 True (drop (length pre + length bs + 2) ?p) AND classMask = classIN"
    by (simp add: classIN_def classMask_def cacheFlush_def)
  have "parse_questions ((pre @ bs @ AppendUint16 True (q_qtype (fst q)) @ ?cl) @ ?tail)
      (length (pre @ bs @ AppendUint16 True (q_qtype (fst q)) @ ?cl)) (length qs) = Inr (map fst qs)"
    using Cons.IH [of "pre @ bs @ AppendUint16 True (q_qtype (fst q)) @ ?cl"] Cons.prems by simp
  then have "parse_questions ?p (length pre + length bs + 4) (length qs) = Inr (map fst qs)"
    by (simp add: algebra_simps)
  moreover have "\<lparr>q_name = q_name (fst q), q_qtype = q_qtype (fst q)\<rparr> = fst q" by simp
  ultimately show ?case unfolding p using d t c by (simp add: Let_def)
qed simp

text \<open>
  Queries round-trip: whatever identifier, question types and unicast bits a resolver sends and
  whatever follows the questions, the responder reads exactly the questions, up to the number it
  accepts.
\<close>

theorem query_roundtrip:
  assumes "\<forall>q \<in> set qs. \<exists>bs. encodeName (q_name (fst q)) = Inr bs" and "length qs < 65536"
  shows "parseQuery (query_bytes ident qs rest) maxQuestions =
    (if length qs \<le> maxQuestions then Inr (map fst qs) else Inl TooManyQuestions)"
proof -
  let ?h = "AppendUint16 True ident @ AppendUint16 True 0 @ AppendUint16 True (of_nat (length qs)) @ replicate 6 0"
  have q: "query_bytes ident qs rest = ?h @ concat (map question_bytes qs) @ rest" by (simp add: query_bytes_def)
  have f: "Uint16 True (drop 2 (query_bytes ident qs rest)) = 0"
    "Uint16 True (drop 4 (query_bytes ident qs rest)) = of_nat (length qs)"
    by (simp_all add: query_bytes_def drop_append)
  have n: "unat (of_nat (length qs) :: 16 word) = length qs"
    using assms(2) by (simp add: unsigned_of_nat take_bit_eq_mod)
  have "parse_questions (query_bytes ident qs rest) headerBytes (length qs) = Inr (map fst qs)"
    using parse_questions_read [OF assms(1), of ?h rest] by (simp add: q headerBytes_def)
  moreover have "headerBytes \<le> length (query_bytes ident qs rest)" by (simp add: q headerBytes_def)
  ultimately show ?thesis by (simp add: parseQuery_def Let_def f n not_less not_le)
qed

theorem query_roundtrip_witness:
  "parseQuery (query_bytes 7 [(\<lparr>q_name = ''a.local.'', q_qtype = typeA\<rparr>, True)] [0]) 8 =
     Inr [\<lparr>q_name = ''a.local.'', q_qtype = typeA\<rparr>]"
proof -
  have "encodeName ''a.local.'' = Inr ([1, 97, 5] @ bytes_of ''local'' @ [0])" by code_simp
  with query_roundtrip [of "[(\<lparr>q_name = ''a.local.'', q_qtype = typeA\<rparr>, True)]" 7 "[0]" 8] show ?thesis by simp
qed

section \<open>Responses\<close>

text \<open>The entries of a section in order, and how many of them fit.\<close>

definition question_entry :: "question \<Rightarrow> byte list option" where
  "question_entry q =
     (case encodeName (q_name q) of
        Inl _ \<Rightarrow> None
      | Inr name \<Rightarrow> Some (name @ AppendUint16 True (q_qtype q) @ AppendUint16 True classIN))"

definition record_entry :: "rr \<Rightarrow> byte list option" where
  "record_entry r = (case encodeRecord r of Inl _ \<Rightarrow> None | Inr bs \<Rightarrow> Some bs)"

fun fitting :: "nat \<Rightarrow> byte list list \<Rightarrow> byte list list" where
  "fitting room [] = []"
| "fitting room (e # es) = (if length e \<le> room then e # fitting (room - length e) es else [])"

lemma fitting_fits: "length (concat (fitting room es)) \<le> room"
  by (induction room es rule: fitting.induct) auto

lemma append_questions_fitting:
  assumes "length packet \<le> limit"
  shows "append_questions limit qs (packet, c) =
    (let es = fitting (limit - length packet) (List.map_filter question_entry qs)
     in (packet @ concat es, c + of_nat (length es)))"
  using assms
proof (induction qs arbitrary: packet c)
  case (Cons q qs)
  show ?case
  proof (cases "encodeName (q_name q)")
    case (Inl e)
    then show ?thesis using Cons by (simp add: List.map_filter_def question_entry_def)
  next
    case (Inr name)
    then show ?thesis
      using Cons by (auto simp: List.map_filter_simps question_entry_def Let_def diff_diff_left algebra_simps)
  qed
qed (simp add: List.map_filter_simps)

lemma appendRecords_fitting:
  assumes "length packet \<le> limit"
  shows "appendRecords limit rs (packet, c) =
    (let es = fitting (limit - length packet) (List.map_filter record_entry rs)
     in (packet @ concat es, c + of_nat (length es)))"
  using assms
proof (induction rs arbitrary: packet c)
  case (Cons r rs)
  show ?case
  proof (cases "encodeRecord r")
    case (Inl e)
    then show ?thesis using Cons by (simp add: List.map_filter_simps record_entry_def)
  next
    case (Inr bs)
    then show ?thesis
      using Cons by (auto simp: List.map_filter_simps record_entry_def Let_def diff_diff_left algebra_simps)
  qed
qed (simp add: List.map_filter_simps)

lemma fitting_number:
  "\<forall>e \<in> set es. e \<noteq> [] \<Longrightarrow> length (fitting room es) \<le> room"
proof (induction room es rule: fitting.induct)
  case (2 room e es)
  have e: "0 < length e" using 2 by simp
  show ?case
  proof (cases "length e \<le> room")
    case True
    then have "length (fitting (room - length e) es) \<le> room - length e" using 2 by simp
    then have "Suc (length (fitting (room - length e) es)) \<le> room" using e True by linarith
    then show ?thesis using True by simp
  qed simp
qed simp

lemma entries_nonempty:
  "e \<in> set (List.map_filter question_entry qs) \<Longrightarrow> e \<noteq> []"
  "e \<in> set (List.map_filter record_entry rs) \<Longrightarrow> e \<noteq> []"
  by (auto simp: List.map_filter_def question_entry_def record_entry_def encodeRecord_def
      AppendUint16_def Let_def split: sum.splits if_splits)

lemma PutUint16_append: "i + 1 < length h \<Longrightarrow> PutUint16 i v (h @ body) = PutUint16 i v h @ body"
  by (simp add: PutUint16_def list_update_append)

definition header_bytes :: "16 word \<Rightarrow> 16 word \<Rightarrow> 16 word \<Rightarrow> byte list" where
  "header_bytes c0 c1 c3 =
     AppendUint16 True 0 @ AppendUint16 True responseFlags @ AppendUint16 True c0 @ AppendUint16 True c1 @
     AppendUint16 True 0 @ AppendUint16 True c3"

lemma header_length [simp]: "length (header_bytes c0 c1 c3) = 12"
  by (simp add: header_bytes_def)

lemma header_put:
  "PutUint16 10 c3 (PutUint16 8 0 (PutUint16 6 c1 (PutUint16 4 c0 (PutUint16 2 responseFlags (replicate 12 0))))) =
     header_bytes c0 c1 c3"
  by (simp add: PutUint16_def header_bytes_def AppendUint16_def Let_def eval_nat_numeral)

text \<open>The entries of the three sections that a response within the limit holds.\<close>

definition sections ::
    "question list \<Rightarrow> rr list \<Rightarrow> rr list \<Rightarrow> nat \<Rightarrow> byte list list \<times> byte list list \<times> byte list list" where
  "sections questions answers additionals limit =
     (let q = fitting (limit - 12) (List.map_filter question_entry questions);
          a = fitting (limit - (12 + length (concat q))) (List.map_filter record_entry answers);
          d = fitting (limit - (12 + length (concat q) + length (concat a))) (List.map_filter record_entry additionals)
      in (q, a, d))"

lemma sections_bounds:
  assumes "sections questions answers additionals limit = (q, a, d)" and "12 \<le> limit"
  shows "12 + length (concat q) + length (concat a) + length (concat d) \<le> limit"
    and "length q \<le> limit" and "length a \<le> limit" and "length d \<le> limit"
proof -
  have q: "q = fitting (limit - 12) (List.map_filter question_entry questions)"
    and a: "a = fitting (limit - (12 + length (concat q))) (List.map_filter record_entry answers)"
    and d: "d = fitting (limit - (12 + length (concat q) + length (concat a))) (List.map_filter record_entry additionals)"
    using assms(1) by (auto simp: sections_def Let_def)
  have "length (concat q) \<le> limit - 12" "length (concat a) \<le> limit - (12 + length (concat q))"
    "length (concat d) \<le> limit - (12 + length (concat q) + length (concat a))"
    unfolding q a d by (rule fitting_fits)+
  then show "12 + length (concat q) + length (concat a) + length (concat d) \<le> limit" using assms(2) by linarith
  have "length q \<le> limit - 12" "length a \<le> limit - (12 + length (concat q))"
    "length d \<le> limit - (12 + length (concat q) + length (concat a))"
    unfolding q a d using entries_nonempty by (intro fitting_number; blast)+
  then show "length q \<le> limit" "length a \<le> limit" "length d \<le> limit" by linarith+
qed

lemma buildResponse_sections:
  assumes "sections questions answers additionals limit = (q, a, d)" and "12 \<le> limit"
  shows "buildResponse questions answers additionals limit =
    Some (header_bytes (of_nat (length q)) (of_nat (length a)) (of_nat (length d)) @ concat q @ concat a @ concat d)"
proof -
  let ?h = "PutUint16 2 responseFlags (replicate 12 0)"
  have h: "length (PutUint16 i v xs) = length xs" for i v and xs :: "byte list" by (simp add: PutUint16_def)
  note l = sections_bounds(1) [OF assms]
  have 0: "append_questions limit questions (?h, 0) = (?h @ concat q, of_nat (length q))"
    using append_questions_fitting [of ?h limit questions 0] assms by (auto simp: h Let_def sections_def)
  have 1: "appendRecords limit answers (?h @ concat q, 0) = (?h @ concat q @ concat a, of_nat (length a))"
    using appendRecords_fitting [of "?h @ concat q" limit answers 0] assms l by (auto simp: h Let_def sections_def)
  have 3: "appendRecords limit additionals (?h @ concat q @ concat a, 0) =
      (?h @ concat q @ concat a @ concat d, of_nat (length d))"
    using appendRecords_fitting [of "?h @ concat q @ concat a" limit additionals 0] assms l
    by (auto simp: h Let_def sections_def add.assoc)
  have hb: "headerBytes = 12" by (simp add: headerBytes_def)
  show ?thesis
    using assms(2) by (simp add: buildResponse_def hb 0 1 3 PutUint16_append h flip: header_put)
qed

lemma buildResponse_total:
  assumes "12 \<le> limit"
  shows "\<exists>p. buildResponse questions answers additionals limit = Some p \<and> length p \<le> limit"
proof -
  obtain q a d where s: "sections questions answers additionals limit = (q, a, d)" using prod_cases3 by blast
  from buildResponse_sections [OF s assms] sections_bounds(1) [OF s assms] show ?thesis by simp
qed

text \<open>
  C24. Responses are well-formed: for every set of questions and records the packet stays within the
  limit; it is the header followed by the entries of the three sections, in order and without the ones
  that cannot be encoded, each section cut before the first entry that no longer fits; and the header
  announces exactly the entries that are there.
\<close>

theorem response_wellformed:
  assumes "12 \<le> limit" and "limit \<le> 65535" and "sections questions answers additionals limit = (q, a, d)"
  shows "\<exists>packet. buildResponse questions answers additionals limit = Some packet \<and> length packet \<le> limit \<and>
    drop 12 packet = concat q @ concat a @ concat d \<and>
    Uint16 True (drop 2 packet) = 0x8400 \<and> unat (Uint16 True (drop 4 packet)) = length q \<and>
    unat (Uint16 True (drop 6 packet)) = length a \<and> unat (Uint16 True (drop 8 packet)) = 0 \<and>
    unat (Uint16 True (drop 10 packet)) = length d"
proof -
  let ?p = "header_bytes (of_nat (length q)) (of_nat (length a)) (of_nat (length d)) @ concat q @ concat a @ concat d"
  note b = sections_bounds [OF assms(3,1)]
  then have "length q < 65536" "length a < 65536" "length d < 65536" using assms(2) by linarith+
  then have n: "unat (of_nat (length q) :: 16 word) = length q" "unat (of_nat (length a) :: 16 word) = length a"
    "unat (of_nat (length d) :: 16 word) = length d"
    by (simp_all add: unsigned_of_nat take_bit_eq_mod)
  have u: "Uint16 True (drop 2 ?p) = 0x8400" "Uint16 True (drop 4 ?p) = of_nat (length q)"
    "Uint16 True (drop 6 ?p) = of_nat (length a)" "Uint16 True (drop 8 ?p) = 0" "Uint16 True (drop 10 ?p) = of_nat (length d)"
    by (simp_all add: header_bytes_def responseFlags_def)
  have "length ?p \<le> limit" "drop 12 ?p = concat q @ concat a @ concat d" using b(1) by simp_all
  then show ?thesis
    by (intro exI [of _ ?p]) (simp only: u n unsigned_0 buildResponse_sections [OF assms(3,1)])
qed

theorem response_wellformed_witness:
  "\<exists>packet. buildResponse [] [\<lparr>rr_name = ''a.'', rr_rtype = typeA, rr_class = classIN, rr_ttl = 9, rr_data = [1, 2, 3, 4]\<rparr>] [] 40 =
     Some packet \<and> length packet \<le> 40 \<and> unat (Uint16 True (drop 6 packet)) = 1"
proof -
  let ?r = "\<lparr>rr_name = ''a.'', rr_rtype = typeA, rr_class = classIN, rr_ttl = 9, rr_data = [1, 2, 3, 4]\<rparr>"
  let ?e = "[1, 97, 0, 0, 1, 0, 1, 0, 0, 0, 9, 0, 4, 1, 2, 3, 4]"
  have s: "sections [] [?r] [] 40 = ([], [?e], [])" by code_simp
  have "(12 :: nat) \<le> 40" "(40 :: nat) \<le> 65535" by simp_all
  from response_wellformed [OF this s] show ?thesis by auto
qed

end
