(* ===== verification/Mdns_Service.thy ===== *)
theory Mdns_Service
  imports Mdns_Sections Go_Net
begin

text \<open>
  \<^verbatim>\<open>internal/mdns/service.go\<close> and \<^verbatim>\<open>address.go\<close>: the records that the agent publishes, the answers to
  questions about them, and the address that is advertised.
\<close>

section \<open>Definitions\<close>

definition serviceType :: string where
  "serviceType = ''_openwrt-presence-agent._tcp.local.''"

definition instancePrefix :: string where
  "instancePrefix = ''openwrt-presence-agent-''"

definition hostPrefix :: string where
  "hostPrefix = ''openwrt-presence-''"

definition announcementTTL :: "32 word" where
  "announcementTTL = 120"

definition refreshInterval :: duration where
  "refreshInterval = 60 * 1000000000"

record advertisement =
  ad_instance :: string
  ad_host :: string
  ad_port :: "16 word"
  ad_address :: "byte list"
  ad_agentID :: string

record recordSet =
  rs_ptr :: rr
  rs_srv :: rr
  rs_txt :: rr
  rs_address :: rr

definition all_records :: "recordSet \<Rightarrow> rr list" where
  "all_records s = [rs_ptr s, rs_srv s, rs_txt s, rs_address s]"

definition validAgentID :: "string \<Rightarrow> bool" where
  "validAgentID value \<longleftrightarrow> length value = 32 \<and>
     list_all (\<lambda>c. \<not> (((of_char c :: nat) < 0x30 \<or> (of_char c :: nat) > 0x39) \<and>
                      ((of_char c :: nat) < 0x61 \<or> (of_char c :: nat) > 0x66))) value"

datatype service_err = InvalidAgentID | InvalidPort | NotLiteralIP | LoopbackOnly | NoIPv4 | InterfaceError | NoInterfaceIPv4

definition newAdvertisement :: "string \<Rightarrow> int \<Rightarrow> service_err + advertisement" where
  "newAdvertisement agentID port =
     (if \<not> validAgentID agentID then Inl InvalidAgentID
      else if port < 1 \<or> port > 65535 then Inl InvalidPort
      else let short = take 8 agentID in
           Inr \<lparr>ad_instance = instancePrefix @ short @ ''.'' @ serviceType,
                ad_host = hostPrefix @ short @ ''.local.'', ad_port = of_int port,
                ad_address = [0, 0, 0, 0], ad_agentID = agentID\<rparr>)"

definition encodeTXT :: "string \<Rightarrow> byte list" where
  "encodeTXT agentID =
     concat (map (\<lambda>property. [of_nat (length property)] @ bytes_of property)
               [''agent_id='' @ agentID, ''tls=false''])"

definition ad_records :: "advertisement \<Rightarrow> 32 word \<Rightarrow> mdns_err + recordSet" where
  "ad_records a ttl =
     (case encodeName (ad_instance a) of
        Inl err \<Rightarrow> Inl err
      | Inr instance_bytes \<Rightarrow>
          (case encodeName (ad_host a) of
             Inl err \<Rightarrow> Inl err
           | Inr host \<Rightarrow>
               let srv = AppendUint16 True 0 @ AppendUint16 True 0 @ AppendUint16 True (ad_port a) @ host in
               Inr \<lparr>rs_ptr = \<lparr>rr_name = serviceType, rr_rtype = typePTR, rr_class = classIN, rr_ttl = ttl,
                             rr_data = instance_bytes\<rparr>,
                    rs_srv = \<lparr>rr_name = ad_instance a, rr_rtype = typeSRV, rr_class = classIN OR cacheFlush,
                             rr_ttl = ttl, rr_data = srv\<rparr>,
                    rs_txt = \<lparr>rr_name = ad_instance a, rr_rtype = typeTXT, rr_class = classIN OR cacheFlush,
                             rr_ttl = ttl, rr_data = encodeTXT (ad_agentID a)\<rparr>,
                    rs_address = \<lparr>rr_name = ad_host a, rr_rtype = typeA, rr_class = classIN OR cacheFlush,
                             rr_ttl = ttl, rr_data = ad_address a\<rparr>\<rparr>))"

text \<open>The method \<^verbatim>\<open>answer\<close> of the record set: answers and additional records.\<close>

definition answer :: "recordSet \<Rightarrow> question \<Rightarrow> rr list \<times> rr list" where
  "answer s q =
     (if q_qtype q = typePTR \<and> EqualFold (q_name q) serviceType
      then ([rs_ptr s], [rs_srv s, rs_txt s, rs_address s])
      else if q_qtype q = typeSRV \<and> EqualFold (q_name q) (rr_name (rs_srv s)) then ([rs_srv s], [rs_address s])
      else if q_qtype q = typeTXT \<and> EqualFold (q_name q) (rr_name (rs_txt s)) then ([rs_txt s], [])
      else if q_qtype q = typeA \<and> EqualFold (q_name q) (rr_name (rs_address s)) then ([rs_address s], [])
      else ([], []))"

definition record_key :: "rr \<Rightarrow> string" where
  "record_key value = rr_name value @ '':'' @ decimal (unat (rr_rtype value))"

fun appendUnique :: "rr list \<Rightarrow> rr list \<Rightarrow> string list \<Rightarrow> rr list \<times> string list" where
  "appendUnique target [] seen = (target, seen)"
| "appendUnique target (value # values) seen =
     (if record_key value \<in> set seen then appendUnique target values seen
      else appendUnique (target @ [value]) values (record_key value # seen))"

record queryResponse =
  qr_questions :: "question list"
  qr_answers :: "rr list"
  qr_additionals :: "rr list"

fun collect_answers ::
    "recordSet \<Rightarrow> question list \<Rightarrow> queryResponse \<times> string list \<Rightarrow> queryResponse \<times> string list" where
  "collect_answers rs [] (response, seen) = (response, seen)"
| "collect_answers rs (q # qs) (response, seen) =
     (let answers = fst (answer rs q) in
      if length answers = 0 then collect_answers rs qs (response, seen)
      else let (as, seen') = appendUnique (qr_answers response) answers seen in
           collect_answers rs qs
             (response\<lparr>qr_questions := qr_questions response @ [q], qr_answers := as\<rparr>, seen'))"

fun collect_additionals ::
    "recordSet \<Rightarrow> question list \<Rightarrow> queryResponse \<times> string list \<Rightarrow> queryResponse \<times> string list" where
  "collect_additionals rs [] (response, seen) = (response, seen)"
| "collect_additionals rs (q # qs) (response, seen) =
     (let (as, seen') = appendUnique (qr_additionals response) (snd (answer rs q)) seen in
      collect_additionals rs qs (response\<lparr>qr_additionals := as\<rparr>, seen'))"

definition no_response :: queryResponse where
  "no_response = \<lparr>qr_questions = [], qr_answers = [], qr_additionals = []\<rparr>"

definition responseFor :: "advertisement \<Rightarrow> question list \<Rightarrow> 32 word \<Rightarrow> queryResponse" where
  "responseFor a questions ttl =
     (case ad_records a ttl of
        Inl _ \<Rightarrow> no_response
      | Inr records \<Rightarrow>
          fst (collect_additionals records questions
                 (collect_answers records questions (no_response, []))))"

section \<open>The advertised address\<close>

text \<open>
  The addresses of a network interface: an error of the look-up or of the listing, or the list, in which
  entries other than \<^verbatim>\<open>*net.IPNet\<close> are \<open>None\<close>.
\<close>

definition firstIPv4 :: "byte list option list option \<Rightarrow> bool \<Rightarrow> byte list option" where
  "firstIPv4 addresses includeLoopback =
     (case addresses of
        None \<Rightarrow> None
      | Some as \<Rightarrow>
          (case find (\<lambda>a. case a of
                         None \<Rightarrow> False
                       | Some ip \<Rightarrow> (case To4 ip of None \<Rightarrow> False | Some v4 \<Rightarrow> includeLoopback \<or> \<not> IsLoopback v4)) as of
             Some (Some ip) \<Rightarrow> To4 ip
           | _ \<Rightarrow> None))"

definition interfaceIPv4 :: "byte list option list option option \<Rightarrow> service_err + byte list" where
  "interfaceIPv4 iface =
     (case iface of
        None \<Rightarrow> Inl InterfaceError
      | Some addresses \<Rightarrow>
          (case firstIPv4 addresses False of None \<Rightarrow> Inl NoInterfaceIPv4 | Some address \<Rightarrow> Inr address))"

definition advertisedAddress :: "string \<Rightarrow> byte list option list option option \<Rightarrow> service_err + byte list" where
  "advertisedAddress listenAddress iface =
     (case ParseIP listenAddress of
        None \<Rightarrow> Inl NotLiteralIP
      | Some parsed \<Rightarrow>
          if IsLoopback parsed then Inl LoopbackOnly
          else (case To4 parsed of
                  Some v4 \<Rightarrow> if IsUnspecified v4 then interfaceIPv4 iface else Inr v4
                | None \<Rightarrow> if \<not> IsUnspecified parsed then Inl NoIPv4 else interfaceIPv4 iface))"

end
