(* ===== verification/Mdns_Answers.thy ===== *)
theory Mdns_Answers
  imports Mdns_Service
begin

text \<open>Properties of the published records and of the answers to questions about them.\<close>

section \<open>Collecting answers\<close>

lemma appendUnique_effect:
  assumes "appendUnique target values seen = (target', seen')"
  shows "\<exists>new. target' = target @ new \<and> set seen' = set seen \<union> record_key ` set values \<and>
    set new \<subseteq> set values \<and> record_key ` set new = record_key ` set values - set seen \<and> distinct (map record_key new)"
  using assms
proof (induction target "values" seen arbitrary: target' seen' rule: appendUnique.induct)
  case (2 target v vs seen)
  show ?case
  proof (cases "record_key v \<in> set seen")
    case True
    with 2 show ?thesis by (auto intro: exI)
  next
    case False
    from 2(2) [OF False] 2(3) False obtain new where
      "target' = (target @ [v]) @ new" "set seen' = set (record_key v # seen) \<union> record_key ` set vs"
      "set new \<subseteq> set vs" "record_key ` set new = record_key ` set vs - set (record_key v # seen)"
      "distinct (map record_key new)" by auto
    then show ?thesis using False by (intro exI [of _ "v # new"]) auto
  qed
qed simp

text \<open>The records of one advertisement have different keys.\<close>

lemma records_rtypes:
  assumes "ad_records a ttl = Inr rs"
  shows "map rr_rtype (all_records rs) = [typePTR, typeSRV, typeTXT, typeA]"
  using assms by (auto simp: ad_records_def all_records_def Let_def split: sum.splits)

lemma record_key_last: "last (record_key r) = last (decimal (unat (rr_rtype r)))"
  by (simp add: record_key_def decimal.simps [of "unat (rr_rtype r)"])

lemma records_keys_inj:
  assumes "ad_records a ttl = Inr rs"
  shows "inj_on record_key (set (all_records rs))"
proof -
  have d: "last (decimal (unat typePTR)) = CHR ''2''" "last (decimal (unat typeSRV)) = CHR ''3''"
    "last (decimal (unat typeTXT)) = CHR ''6''" "last (decimal (unat typeA)) = CHR ''1''"
    by code_simp+
  have "map (last \<circ> record_key) (all_records rs) = ''2361''"
    using records_rtypes [OF assms] d by (simp add: all_records_def record_key_last)
  then have "distinct (map (last \<circ> record_key) (all_records rs))" by simp
  then have "inj_on (last \<circ> record_key) (set (all_records rs))" by (simp add: distinct_map)
  then show ?thesis by (rule inj_on_imageI2)
qed

lemma answer_records: "set (fst (answer rs q)) \<union> set (snd (answer rs q)) \<subseteq> set (all_records rs)"
  by (auto simp: answer_def all_records_def)

text \<open>What the two loops keep: \<open>seen\<close> holds the keys of what has been collected.\<close>

definition collected :: "queryResponse \<Rightarrow> string list \<Rightarrow> bool" where
  "collected r seen \<longleftrightarrow> set seen = record_key ` (set (qr_answers r) \<union> set (qr_additionals r)) \<and>
     distinct (map record_key (qr_answers r @ qr_additionals r))"

lemma image_minus_inj:
  assumes "inj_on f U" and "A \<subseteq> U" and "N \<subseteq> V" and "V \<subseteq> U" and "f ` N = f ` V - f ` A"
  shows "A \<union> N = A \<union> V"
proof
  show "A \<union> V \<subseteq> A \<union> N"
  proof
    fix v
    assume v: "v \<in> A \<union> V"
    show "v \<in> A \<union> N"
    proof (cases "v \<in> A")
      case False
      then have "f v \<notin> f ` A" using assms(1,2,4) v by (auto dest: inj_onD)
      then have "f v \<in> f ` N" using assms(5) v False by auto
      then show ?thesis using assms(1,3,4) v False by (auto dest: inj_onD)
    qed simp
  qed
qed (use assms(3) in blast)

lemma collect_answers_effect:
  assumes "collect_answers rs qs (r, seen) = (r', seen')" and "collected r seen"
    and "inj_on record_key (set (all_records rs))" and "set (qr_answers r) \<subseteq> set (all_records rs)"
    and "qr_additionals r = []"
  shows "collected r' seen' \<and> qr_additionals r' = [] \<and>
    qr_questions r' = qr_questions r @ filter (\<lambda>q. fst (answer rs q) \<noteq> []) qs \<and>
    set (qr_answers r') = set (qr_answers r) \<union> (\<Union>q \<in> set qs. set (fst (answer rs q)))"
  using assms
proof (induction qs arbitrary: r seen)
  case (Cons q qs)
  show ?case
  proof (cases "fst (answer rs q) = []")
    case True
    then show ?thesis using Cons by simp
  next
    case False
    obtain as s1 where au: "appendUnique (qr_answers r) (fst (answer rs q)) seen = (as, s1)" by fastforce
    obtain new where new: "as = qr_answers r @ new" "set s1 = set seen \<union> record_key ` set (fst (answer rs q))"
      "set new \<subseteq> set (fst (answer rs q))" "record_key ` set new = record_key ` set (fst (answer rs q)) - set seen"
      "distinct (map record_key new)"
      using appendUnique_effect [OF au] by blast
    let ?r = "r\<lparr>qr_questions := qr_questions r @ [q], qr_answers := as\<rparr>"
    have sub: "set (fst (answer rs q)) \<subseteq> set (all_records rs)" using answer_records by blast
    have seen: "set seen = record_key ` set (qr_answers r)" using Cons.prems(2,5) by (simp add: collected_def)
    have un: "set (qr_answers r) \<union> set new = set (qr_answers r) \<union> set (fst (answer rs q))"
      by (rule image_minus_inj [OF Cons.prems(3,4) new(3) sub]) (simp add: new(4) seen)
    have "collected ?r s1"
      using Cons.prems(2,5) new seen un by (auto simp: collected_def)
    moreover have "set (qr_answers ?r) \<subseteq> set (all_records rs)" using new(1) un sub Cons.prems(4) by auto
    moreover have "collect_answers rs qs (?r, s1) = (r', seen')" using Cons.prems(1) False au by (simp add: Let_def)
    ultimately show ?thesis
      using Cons.IH [of ?r s1] Cons.prems(3,5) False new(1) un by auto
  qed
qed simp

lemma collect_additionals_effect:
  assumes "collect_additionals rs qs (r, seen) = (r', seen')" and "collected r seen"
    and "inj_on record_key (set (all_records rs))"
    and "set (qr_answers r) \<union> set (qr_additionals r) \<subseteq> set (all_records rs)"
  shows "collected r' seen' \<and> qr_answers r' = qr_answers r \<and> qr_questions r' = qr_questions r \<and>
    set (qr_answers r) \<union> set (qr_additionals r') =
      set (qr_answers r) \<union> set (qr_additionals r) \<union> (\<Union>q \<in> set qs. set (snd (answer rs q)))"
  using assms
proof (induction qs arbitrary: r seen)
  case (Cons q qs)
  obtain ds s1 where au: "appendUnique (qr_additionals r) (snd (answer rs q)) seen = (ds, s1)" by fastforce
  obtain new where new: "ds = qr_additionals r @ new" "set s1 = set seen \<union> record_key ` set (snd (answer rs q))"
    "set new \<subseteq> set (snd (answer rs q))" "record_key ` set new = record_key ` set (snd (answer rs q)) - set seen"
    "distinct (map record_key new)"
    using appendUnique_effect [OF au] by blast
  let ?r = "r\<lparr>qr_additionals := ds\<rparr>" and ?A = "set (qr_answers r) \<union> set (qr_additionals r)"
  have sub: "set (snd (answer rs q)) \<subseteq> set (all_records rs)" using answer_records by blast
  have seen: "set seen = record_key ` ?A" using Cons.prems(2) by (simp add: collected_def)
  have un: "?A \<union> set new = ?A \<union> set (snd (answer rs q))"
    by (rule image_minus_inj [OF Cons.prems(3,4) new(3) sub]) (simp add: new(4) seen)
  have "collected ?r s1"
    using Cons.prems(2) new seen un by (auto simp: collected_def)
  moreover have "set (qr_answers ?r) \<union> set (qr_additionals ?r) \<subseteq> set (all_records rs)"
    using new(1) un sub Cons.prems(4) by auto
  moreover have "collect_additionals rs qs (?r, s1) = (r', seen')" using Cons.prems(1) au by simp
  ultimately show ?case
    using Cons.IH [of ?r s1] Cons.prems(3) new(1) un by auto
qed simp

text \<open>A record answers a question of its type and, up to the case of letters, its name.\<close>

definition answers_to :: "question \<Rightarrow> rr \<Rightarrow> bool" where
  "answers_to q r \<longleftrightarrow> rr_rtype r = q_qtype q \<and> EqualFold (q_name q) (rr_name r)"

lemma answer_exact:
  assumes "ad_records a ttl = Inr rs"
  shows "set (fst (answer rs q)) = {r \<in> set (all_records rs). answers_to q r}"
proof -
  have t: "rr_rtype (rs_ptr rs) = 12" "rr_rtype (rs_srv rs) = 33" "rr_rtype (rs_txt rs) = 16" "rr_rtype (rs_address rs) = 1"
    "rr_name (rs_ptr rs) = serviceType"
    using assms by (auto simp: ad_records_def Let_def typePTR_def typeSRV_def typeTXT_def typeA_def split: sum.splits)
  show ?thesis
    by (auto simp: answer_def all_records_def answers_to_def t typePTR_def typeSRV_def typeTXT_def typeA_def split: if_splits)
qed

text \<open>
  The additional records that a question calls for: a browser that asks for instances of the service is
  given the instance's SRV (33) and TXT (16) records and its host's address (1), and one that resolves an
  instance is given the address; other questions call for nothing.
\<close>

definition called_for :: "advertisement \<Rightarrow> question \<Rightarrow> rr \<Rightarrow> bool" where
  "called_for ad q x \<longleftrightarrow>
     q_qtype q = 12 \<and> EqualFold (q_name q) ''_openwrt-presence-agent._tcp.local.'' \<and> rr_rtype x \<in> {33, 16, 1} \<or>
     q_qtype q = 33 \<and> EqualFold (q_name q) (ad_instance ad) \<and> rr_rtype x = 1"

lemma additional_exact:
  assumes "ad_records ad ttl = Inr rs"
  shows "set (snd (answer rs q)) = {x \<in> set (all_records rs). called_for ad q x}"
proof -
  have t: "rr_rtype (rs_ptr rs) = 12" "rr_rtype (rs_srv rs) = 33" "rr_rtype (rs_txt rs) = 16" "rr_rtype (rs_address rs) = 1"
    "rr_name (rs_srv rs) = ad_instance ad"
    using assms by (auto simp: ad_records_def Let_def typePTR_def typeSRV_def typeTXT_def typeA_def split: sum.splits)
  have c: "called_for ad q x \<longleftrightarrow>
      q_qtype q = 12 \<and> EqualFold (q_name q) serviceType \<and> (rr_rtype x = 33 \<or> rr_rtype x = 16 \<or> rr_rtype x = 1) \<or>
      q_qtype q = 33 \<and> EqualFold (q_name q) (ad_instance ad) \<and> rr_rtype x = 1" for x
    unfolding called_for_def serviceType_def by simp
  consider "q_qtype q = 12" | "q_qtype q = 33" | "q_qtype q \<noteq> 12" "q_qtype q \<noteq> 33" by blast
  then show ?thesis
    by cases (auto simp: answer_def all_records_def c t typePTR_def typeSRV_def typeTXT_def typeA_def)
qed

lemma responseFor_exact:
  assumes "ad_records ad ttl = Inr rs" and "r = responseFor ad qs ttl"
  shows "set (qr_answers r) = {x \<in> set (all_records rs). \<exists>q \<in> set qs. answers_to q x} \<and>
    qr_questions r = filter (\<lambda>q. \<exists>x \<in> set (all_records rs). answers_to q x) qs \<and>
    set (qr_additionals r) = (\<Union>q \<in> set qs. set (snd (answer rs q))) - set (qr_answers r) \<and>
    distinct (qr_answers r @ qr_additionals r)"
proof -
  note inj = records_keys_inj [OF assms(1)] and ex = answer_exact [OF assms(1)]
  obtain r1 s1 where 1: "collect_answers rs qs (no_response, []) = (r1, s1)" by fastforce
  obtain r2 s2 where 2: "collect_additionals rs qs (r1, s1) = (r2, s2)" by fastforce
  have r: "r = r2" using assms 1 2 by (simp add: responseFor_def)
  have "collected no_response []" by (simp add: collected_def no_response_def)
  from collect_answers_effect [OF 1 this inj] have a: "collected r1 s1" "qr_additionals r1 = []"
    "qr_questions r1 = filter (\<lambda>q. fst (answer rs q) \<noteq> []) qs"
    "set (qr_answers r1) = (\<Union>q \<in> set qs. set (fst (answer rs q)))"
    by (simp_all add: no_response_def)
  have "set (qr_answers r1) \<union> set (qr_additionals r1) \<subseteq> set (all_records rs)" using a(2,4) ex by auto
  from collect_additionals_effect [OF 2 a(1) inj this] a(2) have d: "collected r2 s2" "qr_answers r2 = qr_answers r1"
    "qr_questions r2 = qr_questions r1"
    "set (qr_answers r1) \<union> set (qr_additionals r2) = set (qr_answers r1) \<union> (\<Union>q \<in> set qs. set (snd (answer rs q)))"
    by simp_all
  have dist: "distinct (qr_answers r2 @ qr_additionals r2)"
    using d(1) distinct_map [of record_key "qr_answers r2 @ qr_additionals r2"] unfolding collected_def by blast
  then have "set (qr_additionals r2) = (\<Union>q \<in> set qs. set (snd (answer rs q))) - set (qr_answers r2)"
    using d(2,4) by auto
  moreover have "fst (answer rs q) \<noteq> [] \<longleftrightarrow> (\<exists>x \<in> set (all_records rs). answers_to q x)" for q
    using ex [of q] by (auto simp flip: set_empty)
  then have "qr_questions r2 = filter (\<lambda>q. \<exists>x \<in> set (all_records rs). answers_to q x) qs"
    using a(3) d(3) by simp
  moreover have "set (qr_answers r2) = {x \<in> set (all_records rs). \<exists>q \<in> set qs. answers_to q x}"
    using a(4) d(2) ex by auto
  ultimately show ?thesis using dist r by simp
qed

text \<open>
  C25. The responder answers exactly what it is asked: the answers are the published records whose type
  and name some question names, each once; the questions repeated in the response are those that have
  an answer; and the additional records, each once and none of them among the answers, are the SRV, TXT
  and address records for a question for the service and the address for a question for the instance.
\<close>

theorem answers_exact:
  assumes "ad_records ad ttl = Inr rs" and "r = responseFor ad qs ttl"
  shows "set (qr_answers r) = {x \<in> set (all_records rs). \<exists>q \<in> set qs. answers_to q x} \<and>
    qr_questions r = filter (\<lambda>q. \<exists>x \<in> set (all_records rs). answers_to q x) qs \<and>
    set (qr_additionals r) = {x \<in> set (all_records rs). \<exists>q \<in> set qs. called_for ad q x} - set (qr_answers r) \<and>
    distinct (qr_answers r @ qr_additionals r)"
proof -
  have "(\<Union>q \<in> set qs. set (snd (answer rs q))) = {x \<in> set (all_records rs). \<exists>q \<in> set qs. called_for ad q x}"
    using additional_exact [OF assms(1)] by auto
  with responseFor_exact [OF assms] show ?thesis by simp
qed

section \<open>The announcement\<close>

lemma label_hex: "validAgentID s \<Longrightarrow> c \<in> set s \<Longrightarrow> label_char c \<and> c \<noteq> CHR ''.''"
  by (fastforce simp: validAgentID_def label_char_def list_all_iff)

lemma advertisement_names:
  assumes "newAdvertisement agentID port = Inr ad"
  shows "\<exists>bs. encodeName (ad_instance ad) = Inr bs" and "\<exists>bs. encodeName (ad_host ad) = Inr bs"
    and "\<exists>bs. encodeName serviceType = Inr bs"
    and "length (ad_instance ad) = 67" and "length (ad_host ad) = 32" and "length (ad_agentID ad) = 32"
    and "ad_port ad = of_int port" and "1 \<le> port" and "port \<le> 65535" and "ad_agentID ad = agentID"
proof -
  let ?s = "take 8 agentID"
  have v: "validAgentID agentID" and ad: "ad_instance ad = join_dots [instancePrefix @ ?s, ''_openwrt-presence-agent'', ''_tcp'', ''local''] @ ''.''"
    "ad_host ad = join_dots [hostPrefix @ ?s, ''local''] @ ''.''" "ad_agentID ad = agentID"
    "ad_port ad = of_int port" "1 \<le> port" "port \<le> 65535"
    using assms by (auto simp: newAdvertisement_def serviceType_def Let_def split: if_splits)
  then show "ad_port ad = of_int port" "1 \<le> port" "port \<le> 65535" "ad_agentID ad = agentID" by blast+
  have l: "length agentID = 32" using v by (simp add: validAgentID_def)
  have "list_all label_char ?s" "CHR ''.'' \<notin> set ?s"
    using label_hex [OF v] in_set_takeD by (fastforce simp: list_all_iff)+
  moreover have "list_all label_char instancePrefix" "CHR ''.'' \<notin> set instancePrefix" "length instancePrefix = 23"
    "list_all label_char hostPrefix" "CHR ''.'' \<notin> set hostPrefix" "length hostPrefix = 17"
    by (simp_all add: instancePrefix_def hostPrefix_def label_char_def)
  ultimately have lab: "valid_label (instancePrefix @ ?s)" "valid_label (hostPrefix @ ?s)"
    and len: "length (instancePrefix @ ?s) = 31" "length (hostPrefix @ ?s) = 25"
    using l by (simp_all add: valid_label_def)
  have c: "valid_label ''_openwrt-presence-agent''" "valid_label ''_tcp''" "valid_label ''local''"
    by (simp_all add: valid_label_def label_char_def)
  show 67: "length (ad_instance ad) = 67" and 32: "length (ad_host ad) = 32" and "length (ad_agentID ad) = 32"
    using len l by (simp_all add: ad)
  show "\<exists>bs. encodeName (ad_instance ad) = Inr bs"
    unfolding encodeName_accepts using 67 lab(1) c ad(1)
    by (intro exI [of _ "[instancePrefix @ ?s, ''_openwrt-presence-agent'', ''_tcp'', ''local'']"]) simp
  show "\<exists>bs. encodeName (ad_host ad) = Inr bs"
    unfolding encodeName_accepts using 32 lab(2) c ad(2)
    by (intro exI [of _ "[hostPrefix @ ?s, ''local'']"]) simp
  show "\<exists>bs. encodeName serviceType = Inr bs"
    unfolding encodeName_accepts using c
    by (intro exI [of _ "[''_openwrt-presence-agent'', ''_tcp'', ''local'']"]) (simp add: serviceType_def)
qed

lemma encodeName_length: "encodeName name = Inr bs \<Longrightarrow> length bs = length name + 1"
  using encodeName_parts [of name bs] by (metis length_append_singleton add.commute plus_1_eq_Suc)

lemma encodeTXT_length: "length (encodeTXT agentID) = length agentID + 20"
  by (simp add: encodeTXT_def)

lemma record_entry_ok:
  assumes "encodeName (rr_name r) = Inr name" and "length (rr_data r) \<le> 300"
  shows "\<exists>bs. record_entry r = Some bs \<and> length bs = length (rr_name r) + 11 + length (rr_data r)"
  using assms encodeName_length [OF assms(1)] by (simp add: record_entry_def encodeRecord_def)

lemma fitting_all: "length (concat es) \<le> room \<Longrightarrow> fitting room es = es"
  by (induction room es rule: fitting.induct) auto

lemma map_filter_all:
  "list_all (\<lambda>r. f r \<noteq> None) rs \<Longrightarrow> List.map_filter f rs = map (the \<circ> f) rs"
  by (induction rs) (auto simp: List.map_filter_simps)

lemma advertisement_records:
  assumes "newAdvertisement agentID port = Inr ad0" and "length addr = 4" and "ad = ad0\<lparr>ad_address := addr\<rparr>"
  obtains rs inst host where "ad_records ad ttl = Inr rs" "encodeName (ad_instance ad) = Inr inst"
    "encodeName (ad_host ad) = Inr host" "rr_data (rs_ptr rs) = inst"
    "rr_data (rs_srv rs) = AppendUint16 True 0 @ AppendUint16 True 0 @ AppendUint16 True (of_int port) @ host"
    "rr_data (rs_address rs) = addr" "list_all (\<lambda>r. record_entry r \<noteq> None \<and> rr_ttl r = ttl) (all_records rs)"
    "length (concat (map (the \<circ> record_entry) (all_records rs))) = 408"
proof -
  note n = advertisement_names [OF assms(1)]
  obtain inst host svc where e: "encodeName (ad_instance ad) = Inr inst" "encodeName (ad_host ad) = Inr host"
    "encodeName serviceType = Inr svc" using n(1,2,3) assms(3) by auto
  then obtain rs where rs: "ad_records ad ttl = Inr rs" by (simp add: ad_records_def Let_def)
  have f: "rs_ptr rs = \<lparr>rr_name = serviceType, rr_rtype = typePTR, rr_class = classIN, rr_ttl = ttl, rr_data = inst\<rparr>"
    "rr_name (rs_srv rs) = ad_instance ad" "rr_ttl (rs_srv rs) = ttl"
    "rr_data (rs_srv rs) = AppendUint16 True 0 @ AppendUint16 True 0 @ AppendUint16 True (of_int port) @ host"
    "rr_name (rs_txt rs) = ad_instance ad" "rr_ttl (rs_txt rs) = ttl" "rr_data (rs_txt rs) = encodeTXT (ad_agentID ad)"
    "rr_name (rs_address rs) = ad_host ad" "rr_ttl (rs_address rs) = ttl" "rr_data (rs_address rs) = addr"
    using rs e n(7) assms(3) by (auto simp: ad_records_def Let_def)
  have l: "length inst = 68" "length host = 33" "length (encodeTXT (ad_agentID ad)) = 52" "length serviceType = 35"
    "length (ad_instance ad) = 67" "length (ad_host ad) = 32"
    using encodeName_length [OF e(1)] encodeName_length [OF e(2)] n(4,5,6) assms(3)
    by (simp_all add: encodeTXT_length serviceType_def)
  obtain b1 b2 b3 b4 where b: "record_entry (rs_ptr rs) = Some b1" "length b1 = 35 + 11 + 68"
    "record_entry (rs_srv rs) = Some b2" "length b2 = 67 + 11 + 39" "record_entry (rs_txt rs) = Some b3" "length b3 = 67 + 11 + 52"
    "record_entry (rs_address rs) = Some b4" "length b4 = 32 + 11 + 4"
    using record_entry_ok [of "rs_ptr rs" svc] record_entry_ok [of "rs_srv rs" inst] record_entry_ok [of "rs_txt rs" inst]
      record_entry_ok [of "rs_address rs" host] e f l assms(2) by auto
  show thesis
    by (rule that [OF rs e(1,2)]) (use f b in \<open>simp_all add: all_records_def\<close>)
qed

text \<open>The records of an advertisement all fit into one packet.\<close>

lemma advertisement_sections:
  assumes "ad_records ad ttl = Inr rs" and "list_all (\<lambda>r. record_entry r \<noteq> None \<and> rr_ttl r = ttl) (all_records rs)"
    and "length (concat (map (the \<circ> record_entry) (all_records rs))) = 408" and "420 \<le> limit"
  shows "sections [] (all_records rs) [] limit = ([], map (the \<circ> record_entry) (all_records rs), [])"
proof -
  have "list_all (\<lambda>r. record_entry r \<noteq> None) (all_records rs)" using assms(2) by (simp add: list_all_iff)
  note m = map_filter_all [OF this]
  have "fitting (limit - 12) (map (the \<circ> record_entry) (all_records rs)) = map (the \<circ> record_entry) (all_records rs)"
    using assms(3,4) by (intro fitting_all) simp
  then show ?thesis by (simp add: sections_def m List.map_filter_simps)
qed

text \<open>
  C26. Every announcement is complete: for a valid agent identity, a port in range and an address, the
  four records are encoded and fit into one packet; read back, the pointer record leads to the
  instance, the service record to the port and the host, and the address record to the address.
\<close>

theorem announcement_complete:
  assumes "newAdvertisement agentID port = Inr ad0" and "length addr = 4" and "ad = ad0\<lparr>ad_address := addr\<rparr>"
  shows "\<exists>rs packet. ad_records ad ttl = Inr rs \<and> buildResponse [] (all_records rs) [] 1400 = Some packet \<and>
    length packet \<le> 1400 \<and> drop 12 packet = concat (map (the \<circ> record_entry) (all_records rs)) \<and>
    unat (Uint16 True (drop 6 packet)) = 4 \<and>
    decodeName (rr_data (rs_ptr rs)) 0 = Inr (rr_name (rs_srv rs), length (rr_data (rs_ptr rs))) \<and>
    uint (Uint16 True (drop 4 (rr_data (rs_srv rs)))) = port \<and>
    decodeName (rr_data (rs_srv rs)) 6 = Inr (rr_name (rs_address rs), length (rr_data (rs_srv rs))) \<and>
    rr_data (rs_address rs) = addr"
proof -
  obtain rs inst host where r: "ad_records ad ttl = Inr rs" "encodeName (ad_instance ad) = Inr inst"
    "encodeName (ad_host ad) = Inr host" "rr_data (rs_ptr rs) = inst"
    "rr_data (rs_srv rs) = AppendUint16 True 0 @ AppendUint16 True 0 @ AppendUint16 True (of_int port) @ host"
    "rr_data (rs_address rs) = addr" "list_all (\<lambda>r. record_entry r \<noteq> None \<and> rr_ttl r = ttl) (all_records rs)"
    "length (concat (map (the \<circ> record_entry) (all_records rs))) = 408"
    using advertisement_records [OF assms] .
  let ?es = "map (the \<circ> record_entry) (all_records rs)"
  have "420 \<le> (1400 :: nat)" "12 \<le> (1400 :: nat)" by simp_all
  note b = buildResponse_sections [OF advertisement_sections [OF r(1,7,8) this(1)] this(2)]
  have n: "rr_name (rs_srv rs) = ad_instance ad" "rr_name (rs_address rs) = ad_host ad"
    using r(1-3) by (auto simp: ad_records_def Let_def)
  have "decodeName inst 0 = Inr (ad_instance ad, length inst)"
    using encodeName_decodes [OF r(2), of "[]" "[]"] by simp
  moreover have "decodeName (rr_data (rs_srv rs)) 6 = Inr (ad_host ad, length (rr_data (rs_srv rs)))"
    using encodeName_decodes [OF r(3), of "AppendUint16 True 0 @ AppendUint16 True 0 @ AppendUint16 True (of_int port)" "[]"]
    by (simp add: r(5))
  moreover have "uint (Uint16 True (drop 4 (rr_data (rs_srv rs)))) = port"
    using advertisement_names(8,9) [OF assms(1)] by (simp add: r(5) unsigned_of_int take_bit_eq_mod)
  moreover have "unat (Uint16 True (drop 6 (header_bytes 0 4 0 @ concat ?es))) = 4" by (simp add: header_bytes_def)
  moreover have "length (all_records rs) = 4" by (simp add: all_records_def)
  ultimately show ?thesis
    using b r(1,4,6,8) n by (intro exI [of _ rs] exI [of _ "header_bytes 0 4 0 @ concat ?es"]) simp
qed

definition demo_agent :: string where
  "demo_agent = ''0123456789abcdef0123456789abcdef''"

theorem announcement_complete_witness:
  "\<exists>ad rs packet. newAdvertisement demo_agent 8787 = Inr ad \<and>
     ad_records (ad\<lparr>ad_address := [192, 168, 1, 1]\<rparr>) 120 = Inr rs \<and>
     buildResponse [] (all_records rs) [] 1400 = Some packet \<and> unat (Uint16 True (drop 6 packet)) = 4"
proof -
  have "validAgentID demo_agent" by code_simp
  then obtain ad where ad: "newAdvertisement demo_agent 8787 = Inr ad" by (simp add: newAdvertisement_def Let_def)
  from announcement_complete [OF ad _ refl, of "[192, 168, 1, 1]" 120] ad show ?thesis by auto
qed

theorem answers_exact_witness:
  "\<exists>ad rs. newAdvertisement demo_agent 8787 = Inr ad \<and> ad_records ad 120 = Inr rs \<and>
     set (qr_answers (responseFor ad [\<lparr>q_name = ''_OpenWrt-Presence-Agent._tcp.local.'', q_qtype = typePTR\<rparr>] 120)) = {rs_ptr rs}"
proof -
  let ?q = "\<lparr>q_name = ''_OpenWrt-Presence-Agent._tcp.local.'', q_qtype = typePTR\<rparr>"
  have "validAgentID demo_agent" by code_simp
  then obtain ad where ad: "newAdvertisement demo_agent 8787 = Inr ad" by (simp add: newAdvertisement_def Let_def)
  then obtain rs where rs: "ad_records ad 120 = Inr rs"
    using advertisement_names(1,2) [OF ad] by (auto simp: ad_records_def Let_def)
  have "EqualFold ''_OpenWrt-Presence-Agent._tcp.local.'' serviceType" by code_simp
  then have "set (fst (answer rs ?q)) = {rs_ptr rs}" by (simp add: answer_def)
  with answers_exact [OF rs refl, of "[?q]"] answer_exact [OF rs, of ?q] ad rs show ?thesis by auto
qed

end
