(* ===== verification/Mdns_Responder.thy ===== *)
theory Mdns_Responder
  imports Mdns_Answers
begin

text \<open>
  \<^verbatim>\<open>internal/mdns/responder.go\<close>: the life of the responder.  \<^verbatim>\<open>Run\<close> and any number of calls of \<^verbatim>\<open>Close\<close> share it
  without a lock: only the flag \<^verbatim>\<open>closed\<close> is atomic.  So each of them has a program counter that stops
  before every access to the flag or the socket, and a schedule, an arbitrary list of actions, says who
  makes the next step.  The clock, the context and the results of the socket's calls are inputs of the
  steps.
\<close>

section \<open>State and operations\<close>

definition maxQuestionsPerQuery :: nat where "maxQuestionsPerQuery = 8"
definition maxResponseBytes :: nat where "maxResponseBytes = 1400"
definition maxQueryBytes :: nat where "maxQueryBytes = 1500"

text \<open>\<open>rd_connOpen\<close> is the state of the socket and \<open>rd_sent\<close> what has gone out on it.\<close>

record responder =
  rd_ad :: advertisement
  rd_closed :: bool
  rd_connOpen :: bool
  rd_sent :: "byte list list"

datatype responder_err = ServiceErr service_err | SocketErr | EncodeErr mdns_err | TooLarge | SendErr | CloseErr | MakePanic

text \<open>\<^verbatim>\<open>New\<close>; \<open>opened\<close> is the result of \<^verbatim>\<open>openSocket\<close>.\<close>

definition responder_New ::
    "string \<Rightarrow> int \<Rightarrow> string \<Rightarrow> byte list option list option option \<Rightarrow> bool \<Rightarrow> responder_err + responder" where
  "responder_New agentID port listenAddress iface opened =
     (case newAdvertisement agentID port of
        Inl err \<Rightarrow> Inl (ServiceErr err)
      | Inr ad \<Rightarrow>
          (case advertisedAddress listenAddress iface of
             Inl err \<Rightarrow> Inl (ServiceErr err)
           | Inr address \<Rightarrow>
               if \<not> opened then Inl SocketErr
               else Inr \<lparr>rd_ad = ad\<lparr>ad_address := (case To4 address of None \<Rightarrow> ad_address ad | Some v4 \<Rightarrow> v4)\<rparr>,
                         rd_closed = False, rd_connOpen = True, rd_sent = []\<rparr>))"

text \<open>\<open>ok\<close> is the success of the system call; a closed socket always fails.\<close>

definition write_packet :: "byte list \<Rightarrow> bool \<Rightarrow> responder \<Rightarrow> responder_err option \<times> responder" where
  "write_packet packet ok r =
     (if length packet > maxResponseBytes then (Some TooLarge, r)
      else if \<not> rd_connOpen r \<or> \<not> ok then (Some SendErr, r)
      else (None, r\<lparr>rd_sent := rd_sent r @ [packet]\<rparr>))"

definition write_records :: "question list \<Rightarrow> rr list \<Rightarrow> rr list \<Rightarrow> bool \<Rightarrow> responder \<Rightarrow> responder_err option \<times> responder" where
  "write_records questions answers additionals ok r =
     (case buildResponse questions answers additionals maxResponseBytes of
        None \<Rightarrow> (Some MakePanic, r)
      | Some packet \<Rightarrow> write_packet packet ok r)"

definition announce :: "32 word \<Rightarrow> bool \<Rightarrow> responder \<Rightarrow> responder_err option \<times> responder" where
  "announce ttl ok r =
     (case ad_records (rd_ad r) ttl of
        Inl err \<Rightarrow> (Some (EncodeErr err), r)
      | Inr records \<Rightarrow> write_records [] (all_records records) [] ok r)"

definition respond :: "byte list \<Rightarrow> bool \<Rightarrow> responder \<Rightarrow> responder" where
  "respond packet ok r =
     (case parseQuery packet maxQuestionsPerQuery of
        Inl _ \<Rightarrow> r
      | Inr questions \<Rightarrow>
          if length questions = 0 then r
          else let response = responseFor (rd_ad r) questions announcementTTL in
               if length (qr_answers response) = 0 then r
               else snd (write_records (qr_questions response) (qr_answers response) (qr_additionals response) ok r))"

section \<open>Close, step by step\<close>

text \<open>
  The points of \<^verbatim>\<open>Close\<close>: before the exchange of the flag, before the withdrawal is written, before the
  socket is closed (with the result so far), and returned.
\<close>

datatype close_pc =
    CloseSwap
  | CloseGoodbye
  | CloseSocket "responder_err option"
  | CloseReturned "responder_err option"

text \<open>\<open>ok\<close> is the success of the system call that the step makes.\<close>

fun close_step :: "bool \<Rightarrow> close_pc \<Rightarrow> responder \<Rightarrow> close_pc \<times> responder" where
  "close_step ok CloseSwap r =
     (if rd_closed r then (CloseReturned None, r) else (CloseGoodbye, r\<lparr>rd_closed := True\<rparr>))"
| "close_step ok CloseGoodbye r =
     (case ad_records (rd_ad r) 0 of
        Inl err \<Rightarrow> (CloseSocket (Some (EncodeErr err)), r)
      | Inr records \<Rightarrow>
          (case write_records [] (all_records records) [] ok r of (sendErr, r') \<Rightarrow> (CloseSocket sendErr, r')))"
| "close_step ok (CloseSocket err) r =
     (CloseReturned (if err \<noteq> None then err else if \<not> ok then Some CloseErr else None), r\<lparr>rd_connOpen := False\<rparr>)"
| "close_step ok (CloseReturned err) r = (CloseReturned err, r)"

section \<open>Run, step by step\<close>

datatype mdns_read = QueryPacket "byte list" | QueryTimeout | QueryClosed | QueryError

datatype run_end = RunOK | RunFailed

text \<open>
  The points of \<^verbatim>\<open>Run\<close>: before the first announcement, before the flag is read after a failed one, at the
  head of the loop, before a refresh, before a read, before the flag is read after a failed read, before
  a packet is answered, in the deferred \<^verbatim>\<open>Close\<close>, and returned.  The time is \<^verbatim>\<open>nextRefresh\<close>.
\<close>

datatype run_pc =
    RunAnnounce
  | RunAnnounceFailed
  | RunLoop time
  | RunRefresh time
  | RunRead time
  | RunReadFailed time mdns_read
  | RunRespond time "byte list"
  | RunClose run_end close_pc
  | RunReturned run_end

text \<open>The inputs of a step: the context is done, the clock, the success of a write, the result of a read.\<close>

record run_input =
  ri_done :: bool
  ri_now :: time
  ri_ok :: bool
  ri_read :: mdns_read

text \<open>An announcement, at the start or as a refresh.\<close>

definition announce_step :: "run_input \<Rightarrow> (time \<Rightarrow> run_pc) \<Rightarrow> responder \<Rightarrow> run_pc \<times> responder" where
  "announce_step i continue r =
     (case announce announcementTTL (ri_ok i) r of
        (Some _, r') \<Rightarrow> (RunAnnounceFailed, r')
      | (None, r') \<Rightarrow> (continue (ri_now i + refreshInterval), r'))"

text \<open>A read on a closed socket fails as such, whatever the input says.\<close>

fun run_step :: "run_input \<Rightarrow> run_pc \<Rightarrow> responder \<Rightarrow> run_pc \<times> responder" where
  "run_step i RunAnnounce r = announce_step i RunLoop r"
| "run_step i RunAnnounceFailed r = (RunClose (if rd_closed r then RunOK else RunFailed) CloseSwap, r)"
| "run_step i (RunLoop nextRefresh) r =
     (if ri_done i then (RunClose RunOK CloseSwap, r)
      else if \<not> ri_now i < nextRefresh then (RunRefresh nextRefresh, r)
      else (RunRead nextRefresh, r))"
| "run_step i (RunRefresh nextRefresh) r = announce_step i RunRead r"
| "run_step i (RunRead nextRefresh) r =
     (case (if rd_connOpen r then ri_read i else QueryClosed) of
        QueryPacket p \<Rightarrow> (RunRespond nextRefresh (take maxQueryBytes p), r)
      | failed \<Rightarrow> (RunReadFailed nextRefresh failed, r))"
| "run_step i (RunReadFailed nextRefresh failed) r =
     (if rd_closed r \<or> failed = QueryClosed then (RunClose RunOK CloseSwap, r)
      else if failed = QueryTimeout then (RunLoop nextRefresh, r)
      else (RunClose RunFailed CloseSwap, r))"
| "run_step i (RunRespond nextRefresh p) r = (RunLoop nextRefresh, respond p (ri_ok i) r)"
| "run_step i (RunClose e pc) r =
     (case close_step (ri_ok i) pc r of
        (CloseReturned _, r') \<Rightarrow> (RunReturned e, r')
      | (pc', r') \<Rightarrow> (RunClose e pc', r'))"
| "run_step i (RunReturned e) r = (RunReturned e, r)"

section \<open>Run and the calls of Close together\<close>

record mdns_system =
  ms_res :: responder
  ms_run :: run_pc
  ms_closes :: "close_pc list"

text \<open>\<^verbatim>\<open>Run\<close> makes a step, somebody calls \<^verbatim>\<open>Close\<close>, or the \<open>i\<close>th call of \<^verbatim>\<open>Close\<close> makes a step.\<close>

datatype mdns_action = RunActs run_input | CloseCalled | CloseActs nat bool

definition mdns_start :: "responder \<Rightarrow> mdns_system" where
  "mdns_start r = \<lparr>ms_res = r, ms_run = RunAnnounce, ms_closes = []\<rparr>"

fun mdns_step :: "mdns_action \<Rightarrow> mdns_system \<Rightarrow> mdns_system" where
  "mdns_step (RunActs i) s =
     (case run_step i (ms_run s) (ms_res s) of (pc, r) \<Rightarrow> s\<lparr>ms_run := pc, ms_res := r\<rparr>)"
| "mdns_step CloseCalled s = s\<lparr>ms_closes := ms_closes s @ [CloseSwap]\<rparr>"
| "mdns_step (CloseActs i ok) s =
     (if i < length (ms_closes s)
      then (case close_step ok (ms_closes s ! i) (ms_res s) of
              (pc, r) \<Rightarrow> s\<lparr>ms_closes := (ms_closes s)[i := pc], ms_res := r\<rparr>)
      else s)"

definition mdns_exec :: "mdns_action list \<Rightarrow> mdns_system \<Rightarrow> mdns_system" where
  "mdns_exec acts s = fold mdns_step acts s"

section \<open>What goes out\<close>

text \<open>A packet that carries published records only, and the packet that withdraws them.\<close>

definition published :: "advertisement \<Rightarrow> byte list \<Rightarrow> bool" where
  "published ad p \<longleftrightarrow> (\<exists>rs qs as ds. ad_records ad announcementTTL = Inr rs \<and>
     buildResponse qs as ds maxResponseBytes = Some p \<and> as \<noteq> [] \<and> set as \<union> set ds \<subseteq> set (all_records rs) \<and> distinct (as @ ds))"

definition goodbye :: "advertisement \<Rightarrow> byte list \<Rightarrow> bool" where
  "goodbye ad p \<longleftrightarrow> (\<exists>rs. ad_records ad 0 = Inr rs \<and> buildResponse [] (all_records rs) [] maxResponseBytes = Some p)"

section \<open>The invariant\<close>

text \<open>\<open>at_most one\<close> withdrawal between published packets.\<close>

definition sent_shape :: "advertisement \<Rightarrow> byte list list \<Rightarrow> byte list list \<Rightarrow> byte list list \<Rightarrow> byte list list \<Rightarrow> bool" where
  "sent_shape ad sent pre tail post \<longleftrightarrow> sent = pre @ tail @ post \<and> list_all (published ad) (pre @ post) \<and>
     list_all (goodbye ad) tail \<and> length tail \<le> 1"

fun releases :: "close_pc \<Rightarrow> bool" where
  "releases (CloseSocket _) = True"
| "releases _ = False"

text \<open>
  The responder next to the calls of \<^verbatim>\<open>Close\<close> that are under way: once the flag is set, exactly one of them
  owns the socket until it is closed.  \<open>must\<close>: every attempt to write succeeds.
\<close>

definition close_inv :: "bool \<Rightarrow> responder \<Rightarrow> close_pc list \<Rightarrow> bool" where
  "close_inv must r pcs \<longleftrightarrow>
     (if rd_closed r
      then length (filter (\<lambda>pc. pc = CloseGoodbye) pcs) + length (filter releases pcs) = (if rd_connOpen r then 1 else 0)
      else rd_connOpen r \<and> set pcs \<subseteq> {CloseSwap}) \<and>
     (\<exists>pre tail post. sent_shape (rd_ad r) (rd_sent r) pre tail post \<and>
        (\<not> rd_closed r \<or> CloseGoodbye \<in> set pcs \<longrightarrow> tail = []) \<and>
        (must \<and> rd_closed r \<and> CloseGoodbye \<notin> set pcs \<longrightarrow> tail \<noteq> []))"

lemma close_inv_withdrawn:
  assumes "sent_shape (rd_ad r) (rd_sent r) pre tail post" and "must \<longrightarrow> tail \<noteq> []" and "CloseGoodbye \<notin> set pcs"
    and "length (filter (\<lambda>pc. pc = CloseGoodbye) pcs) + length (filter releases pcs) = 1"
    and "rd_closed r" and "rd_connOpen r"
  shows "close_inv must r pcs"
  using assms by (auto simp: close_inv_def)

lemma close_inv_owner:
  assumes inv: "close_inv must r (as @ pc # bs)" and pc: "pc = CloseGoodbye \<or> releases pc"
  shows "rd_closed r" "rd_connOpen r" "CloseGoodbye \<notin> set (as @ bs)" "filter releases (as @ bs) = []"
proof -
  show cl: "rd_closed r" using assms by (auto simp: close_inv_def split: if_splits)
  let ?n = "length (filter (\<lambda>pc. pc = CloseGoodbye) (as @ bs)) + length (filter releases (as @ bs))"
  have "Suc ?n = length (filter (\<lambda>pc. pc = CloseGoodbye) (as @ pc # bs)) + length (filter releases (as @ pc # bs))"
    using pc by auto
  also have "\<dots> = (if rd_connOpen r then 1 else 0)" using inv cl by (simp only: close_inv_def if_True)
  finally have "rd_connOpen r \<and> ?n = 0" by (simp split: if_splits)
  then show "rd_connOpen r" "CloseGoodbye \<notin> set (as @ bs)" "filter releases (as @ bs) = []"
    by (auto simp: filter_empty_conv)
qed

lemma close_inv_released:
  assumes "close_inv must r pcs" and "\<not> rd_connOpen r"
  shows "rd_closed r" "CloseGoodbye \<notin> set pcs" "\<forall>pc \<in> set pcs. \<not> releases pc"
proof -
  show "rd_closed r" using assms by (auto simp: close_inv_def split: if_splits)
  then have "filter (\<lambda>pc. pc = CloseGoodbye) pcs = []" "filter releases pcs = []"
    using assms by (simp_all add: close_inv_def)
  then show "CloseGoodbye \<notin> set pcs" "\<forall>pc \<in> set pcs. \<not> releases pc" by (auto simp: filter_empty_conv)
qed

definition encodable :: "responder \<Rightarrow> bool" where
  "encodable r \<longleftrightarrow> (\<exists>rs. ad_records (rd_ad r) 0 = Inr rs)"

lemma sent_shape_snoc:
  assumes "sent_shape ad sent pre tail post" and "published ad p"
  shows "sent_shape ad (sent @ [p]) pre tail (post @ [p])"
  using assms by (simp add: sent_shape_def)

lemma write_records_cases:
  assumes "write_records qs as ds ok r = (err, r')"
  shows "r' = r \<and> err \<noteq> None \<or> err = None \<and> rd_connOpen r \<and>
    (\<exists>p. buildResponse qs as ds maxResponseBytes = Some p \<and> r' = r\<lparr>rd_sent := rd_sent r @ [p]\<rparr>)"
  using assms by (auto simp: write_records_def write_packet_def split: option.splits if_splits)

lemma close_inv_send:
  assumes "close_inv must r pcs" and "published (rd_ad r) p"
  shows "close_inv must (r\<lparr>rd_sent := rd_sent r @ [p]\<rparr>) pcs"
  using assms sent_shape_snoc [OF _ assms(2)] unfolding close_inv_def by simp blast

lemma all_records_distinct:
  assumes "ad_records ad ttl = Inr rs"
  shows "distinct (all_records rs)"
proof -
  have "distinct (map rr_rtype (all_records rs))"
    unfolding records_rtypes [OF assms] by (simp add: typePTR_def typeSRV_def typeTXT_def typeA_def)
  then show ?thesis by (simp add: distinct_map)
qed

text \<open>The two ways in which \<^verbatim>\<open>Run\<close> sends: nothing changes but one more published packet.\<close>

definition sends_published :: "responder \<Rightarrow> responder \<Rightarrow> bool" where
  "sends_published r r' \<longleftrightarrow>
     r' = r \<or> rd_connOpen r \<and> (\<exists>p. published (rd_ad r) p \<and> r' = r\<lparr>rd_sent := rd_sent r @ [p]\<rparr>)"

lemma announce_sends:
  assumes "announce announcementTTL ok r = (err, r')"
  shows "sends_published r r'" and "\<not> rd_connOpen r \<Longrightarrow> err \<noteq> None"
proof -
  show "err \<noteq> None" if "\<not> rd_connOpen r"
    using assms that
    by (auto simp: announce_def write_records_def write_packet_def split: sum.splits option.splits if_splits)
  show "sends_published r r'"
  proof (cases "ad_records (rd_ad r) announcementTTL")
    case (Inl e)
    then show ?thesis using assms by (simp add: announce_def sends_published_def)
  next
    case (Inr rs)
    then have w: "write_records [] (all_records rs) [] ok r = (err, r')" using assms by (simp add: announce_def)
    have "published (rd_ad r) p" if "buildResponse [] (all_records rs) [] maxResponseBytes = Some p" for p
      using Inr that all_records_distinct [OF Inr] unfolding published_def
      by (intro exI [of _ rs] exI [of _ "[]"] exI [of _ "all_records rs"] exI [of _ "[]"]) (simp add: all_records_def)
    with write_records_cases [OF w] show ?thesis unfolding sends_published_def by blast
  qed
qed

lemma respond_sends: "sends_published r (respond packet ok r)"
proof -
  have "sends_published r (snd (write_records (qr_questions response) (qr_answers response) (qr_additionals response) ok r))"
    if q: "response = responseFor (rd_ad r) questions announcementTTL" "qr_answers response \<noteq> []"
    for questions response
  proof -
    obtain rs where rs: "ad_records (rd_ad r) announcementTTL = Inr rs"
      using q by (cases "ad_records (rd_ad r) announcementTTL") (simp_all add: responseFor_def no_response_def)
    note ex = responseFor_exact [OF rs q(1)]
    have sub: "set (qr_answers response) \<union> set (qr_additionals response) \<subseteq> set (all_records rs)"
    proof -
      have "set (snd (answer rs q)) \<subseteq> set (all_records rs)" for q using answer_records [of rs q] by blast
      then have "(\<Union>q \<in> set questions. set (snd (answer rs q))) \<subseteq> set (all_records rs)" by blast
      with ex show ?thesis by blast
    qed
    have "published (rd_ad r) p"
      if b: "buildResponse (qr_questions response) (qr_answers response) (qr_additionals response) maxResponseBytes = Some p" for p
      unfolding published_def
      by (intro exI conjI) (rule rs, rule b, rule q(2), rule sub, use ex in blast)
    moreover obtain err r' where
      "write_records (qr_questions response) (qr_answers response) (qr_additionals response) ok r = (err, r')" by fastforce
    ultimately show ?thesis using write_records_cases unfolding sends_published_def by fastforce
  qed
  moreover have "sends_published r r" by (simp add: sends_published_def)
  ultimately show ?thesis by (simp add: respond_def Let_def split: sum.split)
qed

lemma sends_published_inv:
  assumes "sends_published r r'" and "close_inv must r pcs"
  shows "close_inv must r' pcs"
  using assms close_inv_send unfolding sends_published_def by blast

lemma sends_published_keeps:
  assumes "sends_published r r'"
  shows "rd_ad r' = rd_ad r" "rd_closed r' = rd_closed r" "rd_connOpen r' = rd_connOpen r"
    "\<not> rd_connOpen r \<Longrightarrow> r' = r"
  using assms by (auto simp: sends_published_def)

text \<open>A step of \<^verbatim>\<open>Close\<close>, wherever the call stands among the others.\<close>

lemma close_step_keeps:
  assumes "close_step ok pc r = (pc', r')"
  shows "rd_ad r' = rd_ad r" "rd_closed r \<longrightarrow> rd_closed r'" "\<not> rd_connOpen r \<Longrightarrow> rd_sent r' = rd_sent r \<and> \<not> rd_connOpen r'"
    "pc' \<noteq> CloseSwap \<and> (pc' = CloseGoodbye \<longrightarrow> pc = CloseSwap) \<and> rd_closed r' = (rd_closed r \<or> pc = CloseSwap)"
  using assms
  by (cases pc; auto simp: write_records_def write_packet_def split: sum.splits option.splits if_splits prod.splits)+

lemma close_step_inv:
  assumes inv: "close_inv must r (as @ pc # bs)" and e: "encodable r" and ok: "must \<Longrightarrow> ok"
    and step: "close_step ok pc r = (pc', r')"
  shows "close_inv must r' (as @ pc' # bs)"
proof (cases pc)
  case CloseSwap
  show ?thesis
  proof (cases "rd_closed r")
    case True
    then show ?thesis using inv step CloseSwap by (auto simp: close_inv_def)
  next
    case False
    then have f: "rd_connOpen r" "set (as @ bs) \<subseteq> {CloseSwap}" and r': "pc' = CloseGoodbye" "r' = r\<lparr>rd_closed := True\<rparr>"
      using inv step CloseSwap by (auto simp: close_inv_def)
    have "filter (\<lambda>pc. pc = CloseGoodbye) (as @ bs) = []" "filter releases (as @ bs) = []"
      using f(2) by (auto simp: filter_empty_conv)
    moreover have "\<exists>pre post. sent_shape (rd_ad r) (rd_sent r) pre [] post"
      using inv False by (auto simp: close_inv_def)
    ultimately show ?thesis using f(1) unfolding r' close_inv_def by fastforce
  qed
next
  case CloseGoodbye
  obtain rs where rs: "ad_records (rd_ad r) 0 = Inr rs" using e by (auto simp: encodable_def)
  have "12 \<le> maxResponseBytes" by (simp add: maxResponseBytes_def)
  from buildResponse_total [OF this] obtain p where p: "buildResponse [] (all_records rs) [] maxResponseBytes = Some p"
    "length p \<le> maxResponseBytes" by blast
  have g: "goodbye (rd_ad r) p" using rs p(1) by (auto simp: goodbye_def)
  have "pc = CloseGoodbye \<or> releases pc" using CloseGoodbye by simp
  note c = close_inv_owner [OF inv this]
  have r': "r' = r\<lparr>rd_sent := rd_sent r @ (if ok then [p] else [])\<rparr>" and pc': "releases pc'"
    using step CloseGoodbye rs p c(2) by (auto simp: write_records_def write_packet_def split: if_splits)
  obtain pre post where s: "sent_shape (rd_ad r) (rd_sent r) pre [] post"
    using inv CloseGoodbye unfolding close_inv_def by auto
  have "sent_shape (rd_ad r') (rd_sent r') (pre @ post) (if ok then [p] else []) []"
    using s g by (auto simp: r' sent_shape_def)
  moreover have "must \<longrightarrow> (if ok then [p] else []) \<noteq> []" using ok by simp
  moreover have n: "CloseGoodbye \<notin> set (as @ pc' # bs)" using c(3) pc' by auto
  moreover have "length (filter (\<lambda>pc. pc = CloseGoodbye) (as @ pc' # bs)) + length (filter releases (as @ pc' # bs)) = 1"
  proof -
    have "filter (\<lambda>pc. pc = CloseGoodbye) (as @ pc' # bs) = []" using n by (auto simp: filter_empty_conv)
    then show ?thesis using c(4) pc' by simp
  qed
  moreover have "rd_closed r'" "rd_connOpen r'" using c by (simp_all add: r')
  ultimately show ?thesis by (intro close_inv_withdrawn)
next
  case (CloseSocket err)
  have "pc = CloseGoodbye \<or> releases pc" using CloseSocket by simp
  note c = close_inv_owner [OF inv this]
  obtain pre tail post where s: "sent_shape (rd_ad r) (rd_sent r) pre tail post" "must \<longrightarrow> tail \<noteq> []"
    using inv CloseSocket c(1,3) unfolding close_inv_def by auto
  obtain x where x: "pc' = CloseReturned x" "r' = r\<lparr>rd_connOpen := False\<rparr>" using step CloseSocket by auto
  have "filter (\<lambda>pc. pc = CloseGoodbye) (as @ pc' # bs) = []" "filter releases (as @ pc' # bs) = []"
    using c(3,4) by (auto simp: x(1) filter_empty_conv)
  then show ?thesis using s c(1,3) unfolding close_inv_def x(2) by (auto simp: x(1))
next
  case (CloseReturned err)
  then show ?thesis using inv step by simp
qed

lemma close_inv_called: "close_inv must r pcs \<Longrightarrow> close_inv must r (as @ CloseSwap # bs)" if "pcs = as @ bs"
  using that by (auto simp: close_inv_def)

lemma close_inv_returned:
  "close_inv must r (as @ CloseReturned e # bs) \<Longrightarrow> rd_closed r \<and> close_inv must r (as @ bs)"
  by (auto simp: close_inv_def split: if_splits)

text \<open>The whole system: \<^verbatim>\<open>Run\<close> in its deferred \<^verbatim>\<open>Close\<close> is one call more.\<close>

fun run_closers :: "run_pc \<Rightarrow> close_pc list" where
  "run_closers (RunClose e pc) = [pc]"
| "run_closers _ = []"

fun run_returned :: "run_pc \<Rightarrow> bool" where
  "run_returned (RunReturned e) = True"
| "run_returned _ = False"

definition system_inv :: "bool \<Rightarrow> mdns_system \<Rightarrow> bool" where
  "system_inv must s \<longleftrightarrow> close_inv must (ms_res s) (ms_closes s @ run_closers (ms_run s)) \<and> encodable (ms_res s) \<and>
     (run_returned (ms_run s) \<longrightarrow> rd_closed (ms_res s))"

text \<open>Outside of the deferred \<^verbatim>\<open>Close\<close> a step of \<^verbatim>\<open>Run\<close> sends one published packet at most and keeps the flags.\<close>

lemma run_step_sends:
  assumes "run_step i pc r = (pc', r')" and "run_closers pc = []"
  shows "sends_published r r'" "run_closers pc' = [] \<or> run_closers pc' = [CloseSwap]"
    "run_returned pc' = run_returned pc"
proof -
  have id: "sends_published r r" by (simp add: sends_published_def)
  have "sends_published r r'" if "announce_step i k r = (pc', r')" for k
    using that announce_sends(1) [of "ri_ok i" r] by (auto simp: announce_step_def split: prod.splits option.splits)
  then show "sends_published r r'"
    using assms respond_sends id by (cases pc) (auto split: if_splits mdns_read.splits)
  show "run_closers pc' = [] \<or> run_closers pc' = [CloseSwap]" "run_returned pc' = run_returned pc"
    using assms by (cases pc; auto simp: announce_step_def split: if_splits mdns_read.splits prod.splits option.splits)+
qed

lemma run_step_closing:
  assumes "run_step i (RunClose e pc) r = (pc', r')"
  obtains c where "close_step (ri_ok i) pc r = (c, r')"
    "pc' = RunClose e c \<and> (\<forall>x. c \<noteq> CloseReturned x) \<or> pc' = RunReturned e \<and> (\<exists>x. c = CloseReturned x)"
  using assms by (cases "close_step (ri_ok i) pc r") (auto split: close_pc.splits)

definition action_ok :: "mdns_action \<Rightarrow> bool" where
  "action_ok a = (case a of RunActs i \<Rightarrow> ri_ok i | CloseActs i ok \<Rightarrow> ok | CloseCalled \<Rightarrow> True)"

lemma encodable_ad: "rd_ad r' = rd_ad r \<Longrightarrow> encodable r' = encodable r"
  by (simp add: encodable_def)

lemma mdns_step_inv:
  assumes inv: "system_inv must s" and ok: "must \<Longrightarrow> action_ok a"
  shows "system_inv must (mdns_step a s) \<and> rd_ad (ms_res (mdns_step a s)) = rd_ad (ms_res s)"
proof (cases a)
  case (RunActs i)
  obtain pc' r' where st: "run_step i (ms_run s) (ms_res s) = (pc', r')" by fastforce
  show ?thesis
  proof (cases "run_closers (ms_run s) = []")
    case True
    note x = run_step_sends [OF st True]
    note k = sends_published_keeps [OF x(1)]
    have "close_inv must r' (ms_closes s)"
      using sends_published_inv [OF x(1)] inv True by (simp add: system_inv_def)
    then have "close_inv must r' (ms_closes s @ run_closers pc')"
      using x(2) close_inv_called [of "ms_closes s" "ms_closes s" "[]" must r'] by auto
    then show ?thesis using inv st x(3) k(1,2) encodable_ad [of r' "ms_res s"] RunActs by (simp add: system_inv_def)
  next
    case False
    then obtain e pc where run: "ms_run s = RunClose e pc" by (cases "ms_run s") auto
    obtain c where c: "close_step (ri_ok i) pc (ms_res s) = (c, r')"
      "pc' = RunClose e c \<and> (\<forall>x. c \<noteq> CloseReturned x) \<or> pc' = RunReturned e \<and> (\<exists>x. c = CloseReturned x)"
      using run_step_closing [OF st [unfolded run]] by blast
    have "close_inv must r' (ms_closes s @ c # [])"
      using close_step_inv [OF _ _ _ c(1), of must "ms_closes s" "[]"] inv run ok RunActs
      by (simp add: system_inv_def action_ok_def)
    then show ?thesis
      using inv c(2) st close_step_keeps(1) [OF c(1)] encodable_ad [of r' "ms_res s"] RunActs close_inv_returned
      by (auto simp: system_inv_def dest: close_inv_returned)
  qed
next
  case CloseCalled
  then show ?thesis
    using inv close_inv_called [OF refl, of must "ms_res s" "ms_closes s" "run_closers (ms_run s)"]
    by (simp add: system_inv_def)
next
  case (CloseActs j ok')
  show ?thesis
  proof (cases "j < length (ms_closes s)")
    case True
    obtain c r' where c: "close_step ok' (ms_closes s ! j) (ms_res s) = (c, r')" by fastforce
    let ?as = "take j (ms_closes s)" and ?bs = "drop (Suc j) (ms_closes s) @ run_closers (ms_run s)"
    have "ms_closes s @ run_closers (ms_run s) = ?as @ ms_closes s ! j # ?bs"
      using id_take_nth_drop [OF True] by (metis append.assoc append_Cons)
    moreover have "(ms_closes s)[j := c] @ run_closers (ms_run s) = ?as @ c # ?bs"
      using upd_conv_take_nth_drop [OF True, of c] by simp
    ultimately have "close_inv must r' ((ms_closes s)[j := c] @ run_closers (ms_run s))"
      using close_step_inv [OF _ _ _ c, of must ?as ?bs] inv ok CloseActs
      by (simp only: system_inv_def action_ok_def mdns_action.case)
    then show ?thesis
      using inv c True CloseActs close_step_keeps(1,2) [OF c] encodable_ad [of r' "ms_res s"] by (auto simp: system_inv_def)
  qed (use inv CloseActs in simp)
qed

lemma mdns_exec_inv:
  assumes "system_inv must s" and "must \<Longrightarrow> list_all action_ok acts"
  shows "system_inv must (mdns_exec acts s) \<and> rd_ad (ms_res (mdns_exec acts s)) = rd_ad (ms_res s)"
  using assms
proof (induction acts arbitrary: s)
  case (Cons a acts)
  from mdns_step_inv [of must s a] Cons.prems have "system_inv must (mdns_step a s)"
    "rd_ad (ms_res (mdns_step a s)) = rd_ad (ms_res s)" by simp_all
  with Cons.IH [of "mdns_step a s"] Cons.prems(2) show ?case by (simp add: mdns_exec_def)
qed (simp add: mdns_exec_def)

text \<open>While nobody else has called \<^verbatim>\<open>Close\<close>, the withdrawal is the last packet.\<close>

fun withdrawn :: "run_pc \<Rightarrow> bool" where
  "withdrawn (RunClose e (CloseSocket err)) = True"
| "withdrawn (RunReturned e) = True"
| "withdrawn _ = False"

definition alone_inv :: "bool \<Rightarrow> mdns_system \<Rightarrow> bool" where
  "alone_inv must s \<longleftrightarrow> ms_closes s = [] \<and> (\<forall>e x. ms_run s \<noteq> RunClose e (CloseReturned x)) \<and>
     (rd_closed (ms_res s) \<longrightarrow> withdrawn (ms_run s) \<or> (\<exists>e. ms_run s = RunClose e CloseGoodbye)) \<and>
     (\<exists>pre tail. sent_shape (rd_ad (ms_res s)) (rd_sent (ms_res s)) pre tail [] \<and>
        (tail \<noteq> [] \<longrightarrow> withdrawn (ms_run s)) \<and> (must \<and> withdrawn (ms_run s) \<longrightarrow> tail \<noteq> []))"

lemma close_step_sends:
  assumes "close_step ok CloseGoodbye r = (pc', r')" and "encodable r"
  shows "(\<exists>x. pc' = CloseSocket x) \<and> rd_closed r' = rd_closed r \<and> rd_ad r' = rd_ad r \<and>
    (rd_sent r' = rd_sent r \<and> \<not> (ok \<and> rd_connOpen r) \<or> (\<exists>p. goodbye (rd_ad r) p \<and> rd_sent r' = rd_sent r @ [p]))"
proof -
  obtain rs where rs: "ad_records (rd_ad r) 0 = Inr rs" using assms(2) by (auto simp: encodable_def)
  have "12 \<le> maxResponseBytes" by (simp add: maxResponseBytes_def)
  from buildResponse_total [OF this] obtain p where p: "buildResponse [] (all_records rs) [] maxResponseBytes = Some p"
    "length p \<le> maxResponseBytes" by blast
  then have "goodbye (rd_ad r) p" using rs by (auto simp: goodbye_def)
  then show ?thesis
    using assms(1) rs p by (auto simp: write_records_def write_packet_def split: if_splits)
qed

lemma alone_send:
  assumes inv: "alone_inv must s" and st: "run_step i (ms_run s) (ms_res s) = (pc', r')"
    and n: "run_closers (ms_run s) = []" "\<not> run_returned (ms_run s)"
  shows "alone_inv must (s\<lparr>ms_run := pc', ms_res := r'\<rparr>)"
proof -
  have w: "\<not> withdrawn (ms_run s)" "\<forall>e. ms_run s \<noteq> RunClose e CloseGoodbye"
    using n by (cases "ms_run s"; auto)+
  note x = run_step_sends [OF st n(1)]
  note k = sends_published_keeps [OF x(1)]
  have "list_all (published (rd_ad (ms_res s))) (rd_sent (ms_res s))"
    using inv w(1) by (auto simp: alone_inv_def sent_shape_def)
  then have "sent_shape (rd_ad r') (rd_sent r') (rd_sent r') [] []"
    using x(1) by (auto simp: sent_shape_def sends_published_def)
  moreover have "\<not> withdrawn pc'" "\<forall>e x. pc' \<noteq> RunClose e (CloseReturned x)"
    using x(2,3) n(2) by (cases pc' rule: withdrawn.cases; auto)+
  moreover have "\<not> rd_closed r'" using inv w k(2) by (auto simp: alone_inv_def)
  ultimately show ?thesis using inv by (auto simp: alone_inv_def)
qed

lemma alone_close:
  assumes inv: "alone_inv must s" "system_inv False s" and st: "run_step i (RunClose e pc) (ms_res s) = (pc', r')"
    and run: "ms_run s = RunClose e pc" and ok: "must \<Longrightarrow> ri_ok i"
  shows "alone_inv must (s\<lparr>ms_run := pc', ms_res := r'\<rparr>)"
proof -
  obtain c where c: "close_step (ri_ok i) pc (ms_res s) = (c, r')"
    "pc' = RunClose e c \<and> (\<forall>x. c \<noteq> CloseReturned x) \<or> pc' = RunReturned e \<and> (\<exists>x. c = CloseReturned x)"
    using run_step_closing [OF st] by blast
  show ?thesis
  proof (cases pc)
    case CloseSwap
    with inv(1) run have "\<not> rd_closed (ms_res s)" by (auto simp: alone_inv_def)
    then show ?thesis using c CloseSwap inv(1) run by (auto simp: alone_inv_def)
  next
    case CloseGoodbye
    have opn: "rd_connOpen (ms_res s)"
      using inv(2) run CloseGoodbye by (auto simp: system_inv_def close_inv_def split: if_splits)
    have e: "encodable (ms_res s)" using inv(2) by (simp add: system_inv_def)
    from close_step_sends [OF c(1) [unfolded CloseGoodbye] e] obtain x where
      x: "c = CloseSocket x" "rd_ad r' = rd_ad (ms_res s)"
        "rd_sent r' = rd_sent (ms_res s) \<and> \<not> (ri_ok i \<and> rd_connOpen (ms_res s)) \<or>
         (\<exists>p. goodbye (rd_ad (ms_res s)) p \<and> rd_sent r' = rd_sent (ms_res s) @ [p])" by blast
    obtain pre where pre: "sent_shape (rd_ad (ms_res s)) (rd_sent (ms_res s)) pre [] []"
      using inv(1) run CloseGoodbye by (auto simp: alone_inv_def)
    have "\<exists>tail. sent_shape (rd_ad r') (rd_sent r') pre tail [] \<and> (must \<longrightarrow> tail \<noteq> [])"
      using x(3)
    proof
      assume "rd_sent r' = rd_sent (ms_res s) \<and> \<not> (ri_ok i \<and> rd_connOpen (ms_res s))"
      with pre x(2) ok opn show ?thesis by auto
    next
      assume "\<exists>p. goodbye (rd_ad (ms_res s)) p \<and> rd_sent r' = rd_sent (ms_res s) @ [p]"
      then obtain p where p: "goodbye (rd_ad (ms_res s)) p" "rd_sent r' = rd_sent (ms_res s) @ [p]" by blast
      then have "sent_shape (rd_ad r') (rd_sent r') pre [p] []" using pre x(2) by (simp add: sent_shape_def)
      then show ?thesis by blast
    qed
    then show ?thesis using inv(1) x(1) c(2) by (auto simp: alone_inv_def)
  next
    case (CloseSocket err)
    then have "pc' = RunReturned e" "r' = ms_res s\<lparr>rd_connOpen := False\<rparr>" using c by auto
    then show ?thesis using CloseSocket inv(1) run by (simp add: alone_inv_def)
  next
    case (CloseReturned err)
    then show ?thesis using inv(1) run by (auto simp: alone_inv_def)
  qed
qed

lemma alone_step:
  assumes inv: "alone_inv must s" "system_inv False s" and a: "a \<noteq> CloseCalled" and ok: "must \<Longrightarrow> action_ok a"
  shows "alone_inv must (mdns_step a s)"
proof (cases a)
  case (RunActs i)
  obtain pc' r' where st: "run_step i (ms_run s) (ms_res s) = (pc', r')" by fastforce
  consider e pc where "ms_run s = RunClose e pc" | e where "ms_run s = RunReturned e"
    | "run_closers (ms_run s) = []" "\<not> run_returned (ms_run s)" by (cases "ms_run s") auto
  then have "alone_inv must (s\<lparr>ms_run := pc', ms_res := r'\<rparr>)"
  proof cases
    case 1
    from alone_close [OF inv st [unfolded 1] 1] ok RunActs show ?thesis by (simp add: action_ok_def)
  next
    case 2
    then show ?thesis using st inv(1) by (simp add: alone_inv_def)
  next
    case 3
    then show ?thesis by (rule alone_send [OF inv(1) st])
  qed
  then show ?thesis using st RunActs by simp
next
  case (CloseActs j ok)
  then show ?thesis using inv by (simp add: alone_inv_def)
qed (use a in simp)

lemma mdns_exec_alone:
  assumes "alone_inv must s" and "system_inv False s" and "CloseCalled \<notin> set acts"
    and "must \<Longrightarrow> list_all action_ok acts"
  shows "alone_inv must (mdns_exec acts s)"
  using assms
proof (induction acts arbitrary: s)
  case (Cons a acts)
  have "system_inv False (mdns_step a s)" using mdns_step_inv [of False s a] Cons.prems(2) by simp
  moreover have "alone_inv must (mdns_step a s)" using alone_step [of must s a] Cons.prems by auto
  ultimately show ?case using Cons.IH Cons.prems(3,4) by (simp add: mdns_exec_def)
qed (simp add: mdns_exec_def)

text \<open>Once the socket is closed nothing goes out, and \<^verbatim>\<open>Run\<close> is on its way to the end.\<close>

fun run_left :: "run_pc \<Rightarrow> nat" where
  "run_left RunAnnounce = 3"
| "run_left RunAnnounceFailed = 2"
| "run_left (RunLoop t) = 4"
| "run_left (RunRefresh t) = 3"
| "run_left (RunRead t) = 3"
| "run_left (RunReadFailed t e) = 2"
| "run_left (RunRespond t p) = 5"
| "run_left (RunClose e pc) = 1"
| "run_left (RunReturned e) = 0"

definition run_acts :: "mdns_action list \<Rightarrow> nat" where
  "run_acts acts = length (filter (\<lambda>a. case a of RunActs i \<Rightarrow> True | _ \<Rightarrow> False) acts)"

lemma run_step_released:
  assumes "run_step i pc r = (pc', r')" and "rd_closed r" and "\<not> rd_connOpen r"
    and "\<forall>e c. pc = RunClose e c \<longrightarrow> c = CloseSwap \<or> (\<exists>x. c = CloseReturned x)"
  shows "r' = r \<and> run_left pc' \<le> run_left pc - 1"
proof -
  have "r' = r \<and> pc' = RunAnnounceFailed" if "announce_step i k r = (pc', r')" for k
    using that assms(3) announce_sends [of "ri_ok i" r]
    by (fastforce simp: announce_step_def sends_published_def split: prod.splits option.splits)
  then have "announce_step i k r = (pc', r') \<Longrightarrow> ?thesis" if "pc = RunAnnounce \<or> (\<exists>t. pc = RunRefresh t)" for k
    using that by fastforce
  moreover have "respond p ok r = r" for p ok
    using respond_sends [of r p ok] assms(3) by (simp add: sends_published_def)
  ultimately show ?thesis
    using assms by (cases pc) (auto split: if_splits mdns_read.splits)
qed

lemma mdns_step_released:
  assumes inv: "system_inv must s" and c: "\<not> rd_connOpen (ms_res s)"
  shows "rd_sent (ms_res (mdns_step a s)) = rd_sent (ms_res s) \<and> \<not> rd_connOpen (ms_res (mdns_step a s)) \<and>
    run_left (ms_run (mdns_step a s)) \<le> run_left (ms_run s) - run_acts [a]"
proof (cases a)
  case (RunActs i)
  obtain pc' r' where st: "run_step i (ms_run s) (ms_res s) = (pc', r')" by fastforce
  have "close_inv must (ms_res s) (ms_closes s @ run_closers (ms_run s))" using inv by (simp add: system_inv_def)
  note cl = close_inv_released [OF this c]
  have "\<forall>e c. ms_run s = RunClose e c \<longrightarrow> c = CloseSwap \<or> (\<exists>x. c = CloseReturned x)"
  proof (intro allI impI)
    fix e c
    assume "ms_run s = RunClose e c"
    with cl(2,3) show "c = CloseSwap \<or> (\<exists>x. c = CloseReturned x)" by (cases c) auto
  qed
  from run_step_released [OF st cl(1) c this] st c RunActs show ?thesis by (simp add: run_acts_def)
next
  case (CloseActs j ok)
  then show ?thesis
    using c close_step_keeps(3) [of ok "ms_closes s ! j" "ms_res s"] by (auto simp: run_acts_def split: prod.split)
qed (use c in \<open>simp add: run_acts_def\<close>)

lemma mdns_exec_released:
  assumes "system_inv False s" and "\<not> rd_connOpen (ms_res s)"
  shows "rd_sent (ms_res (mdns_exec acts s)) = rd_sent (ms_res s) \<and>
    run_left (ms_run (mdns_exec acts s)) \<le> run_left (ms_run s) - run_acts acts"
  using assms
proof (induction acts arbitrary: s)
  case (Cons a acts)
  note st = mdns_step_released [OF Cons.prems, of a]
  have "system_inv False (mdns_step a s)" using mdns_step_inv [of False s a] Cons.prems(1) by simp
  from Cons.IH [OF this] st have "rd_sent (ms_res (mdns_exec acts (mdns_step a s))) = rd_sent (ms_res s)"
    "run_left (ms_run (mdns_exec acts (mdns_step a s))) \<le> run_left (ms_run s) - run_acts [a] - run_acts acts" by auto
  then show ?case by (simp add: mdns_exec_def run_acts_def split: if_splits)
qed (simp add: mdns_exec_def run_acts_def)

text \<open>A call of \<^verbatim>\<open>Close\<close> returns with its third step, whatever happens in between.\<close>

fun close_left :: "close_pc \<Rightarrow> nat" where
  "close_left CloseSwap = 3"
| "close_left CloseGoodbye = 2"
| "close_left (CloseSocket err) = 1"
| "close_left (CloseReturned err) = 0"

definition close_acts :: "nat \<Rightarrow> mdns_action list \<Rightarrow> nat" where
  "close_acts j acts = length (filter (\<lambda>a. a = CloseActs j True \<or> a = CloseActs j False) acts)"

lemma mdns_exec_Cons: "mdns_exec (a # acts) s = mdns_exec acts (mdns_step a s)"
  by (simp add: mdns_exec_def)

lemma close_acts_Cons: "close_acts j (a # acts) = close_acts j [a] + close_acts j acts"
  by (simp add: close_acts_def)

lemma close_step_left: "close_left (fst (close_step ok pc r)) \<le> close_left pc - 1"
  by (cases pc) (auto split: sum.split prod.split)

lemma mdns_step_left:
  assumes "j < length (ms_closes s)"
  shows "j < length (ms_closes (mdns_step a s)) \<and>
    close_left (ms_closes (mdns_step a s) ! j) \<le> close_left (ms_closes s ! j) - close_acts j [a]"
proof (cases a)
  case (CloseActs k ok)
  then show ?thesis
    using assms close_step_left [of ok "ms_closes s ! k" "ms_res s"]
    by (cases ok) (auto simp: close_acts_def nth_list_update split: prod.split)
qed (use assms in \<open>auto simp: close_acts_def nth_append split: prod.split\<close>)

lemma mdns_exec_left:
  assumes "j < length (ms_closes s)"
  shows "close_left (ms_closes (mdns_exec acts s) ! j) \<le> close_left (ms_closes s ! j) - close_acts j acts"
  using assms
proof (induction acts arbitrary: s)
  case (Cons a acts)
  note st = mdns_step_left [OF Cons.prems, of a]
  from Cons.IH [of "mdns_step a s"] st
  have "close_left (ms_closes (mdns_exec acts (mdns_step a s)) ! j) \<le>
      close_left (ms_closes s ! j) - close_acts j [a] - close_acts j acts" by auto
  then show ?case unfolding mdns_exec_Cons close_acts_Cons [of j a acts] by (simp only: diff_diff_left)
qed (simp add: mdns_exec_def close_acts_def)

section \<open>A whole run\<close>

lemma responder_New_ad:
  assumes "responder_New agentID port listenAddress iface opened = Inr r"
  shows "\<exists>ad addr. newAdvertisement agentID port = Inr ad \<and> length addr = 4 \<and> rd_ad r = ad\<lparr>ad_address := addr\<rparr> \<and>
    rd_sent r = [] \<and> rd_connOpen r \<and> \<not> rd_closed r"
proof -
  obtain ad address where a: "newAdvertisement agentID port = Inr ad"
    and r: "r = \<lparr>rd_ad = ad\<lparr>ad_address := (case To4 address of None \<Rightarrow> ad_address ad | Some v4 \<Rightarrow> v4)\<rparr>,
      rd_closed = False, rd_connOpen = True, rd_sent = []\<rparr>"
    using assms by (auto simp: responder_New_def split: sum.splits if_splits)
  have "length (ad_address ad) = 4" using a by (auto simp: newAdvertisement_def Let_def split: if_splits)
  then have "length (case To4 address of None \<Rightarrow> ad_address ad | Some v4 \<Rightarrow> v4) = 4"
    by (simp add: To4_length split: option.split)
  with a r show ?thesis by auto
qed

lemma mdns_start_inv:
  assumes "responder_New agentID port listenAddress iface opened = Inr r"
  shows "system_inv must (mdns_start r)" "alone_inv must (mdns_start r)"
proof -
  obtain ad addr where ad: "newAdvertisement agentID port = Inr ad" "length addr = 4" "rd_ad r = ad\<lparr>ad_address := addr\<rparr>"
    and r: "rd_sent r = []" "rd_connOpen r" "\<not> rd_closed r"
    using responder_New_ad [OF assms] by blast
  have "encodable r" using advertisement_records [OF ad, of 0] ad(3) by (auto simp: encodable_def)
  then show "system_inv must (mdns_start r)" "alone_inv must (mdns_start r)"
    using r by (simp_all add: system_inv_def close_inv_def alone_inv_def sent_shape_def mdns_start_def)
qed

fun close_returned :: "close_pc \<Rightarrow> bool" where
  "close_returned (CloseReturned err) = True"
| "close_returned _ = False"

text \<open>
  C27. The responder withdraws what it published.  \<^verbatim>\<open>Run\<close> and any number of calls of \<^verbatim>\<open>Close\<close> act on it in any
  order, with any queries and failures of the socket.  Then every packet carries published records only,
  each at most once, but for at most one withdrawal with lifetime 0, and when only \<^verbatim>\<open>Run\<close> itself closes the
  withdrawal is the last packet; once the socket is closed nothing more is sent, the withdrawal has been
  sent if every write succeeded, and \<^verbatim>\<open>Run\<close> returns within five of its steps; every call of \<^verbatim>\<open>Close\<close> returns with
  its third step; and when \<^verbatim>\<open>Run\<close> and all calls have returned, the socket is closed.
\<close>

theorem responder_withdraws:
  assumes "responder_New agentID port listenAddress iface opened = Inr r"
    and "s = mdns_exec acts (mdns_start r)" and "s' = mdns_exec later s"
  shows "(\<exists>pre tail post. rd_sent (ms_res s) = pre @ tail @ post \<and> list_all (published (rd_ad r)) (pre @ post) \<and>
       list_all (goodbye (rd_ad r)) tail \<and> length tail \<le> 1 \<and>
       (CloseCalled \<notin> set acts \<and> tail \<noteq> [] \<longrightarrow> post = []) \<and>
       (list_all action_ok acts \<and> \<not> rd_connOpen (ms_res s) \<longrightarrow> tail \<noteq> [])) \<and>
    (\<not> rd_connOpen (ms_res s) \<longrightarrow> rd_closed (ms_res s) \<and> rd_sent (ms_res s') = rd_sent (ms_res s) \<and>
       (5 \<le> run_acts later \<longrightarrow> run_returned (ms_run s'))) \<and>
    (\<forall>j < length (ms_closes s). 3 \<le> close_acts j later \<longrightarrow> close_returned (ms_closes s' ! j)) \<and>
    (run_returned (ms_run s) \<and> list_all close_returned (ms_closes s) \<longrightarrow> \<not> rd_connOpen (ms_res s))"
proof (intro conjI)
  note start = mdns_start_inv [OF assms(1)]
  have inv: "system_inv must s \<and> rd_ad (ms_res s) = rd_ad r" if "must \<Longrightarrow> list_all action_ok acts" for must
    using mdns_exec_inv [OF start(1) that] by (simp add: assms(2) mdns_start_def)
  note inv0 = inv [of False, simplified]
  have ci: "close_inv must (ms_res s) (ms_closes s @ run_closers (ms_run s))" if "must \<Longrightarrow> list_all action_ok acts" for must
    using inv [OF that] by (simp add: system_inv_def)
  have shape: "\<exists>pre tail post. sent_shape (rd_ad r) (rd_sent (ms_res s)) pre tail post \<and>
      (list_all action_ok acts \<and> \<not> rd_connOpen (ms_res s) \<longrightarrow> tail \<noteq> [])"
  proof -
    have c: "close_inv (list_all action_ok acts) (ms_res s) (ms_closes s @ run_closers (ms_run s))" by (rule ci)
    show ?thesis
    proof (cases "rd_connOpen (ms_res s)")
      case True
      then show ?thesis using c inv0 unfolding close_inv_def by auto
    next
      case False
      from close_inv_released(1,2) [OF c False] show ?thesis using c inv0 unfolding close_inv_def by auto
    qed
  qed
  show "\<exists>pre tail post. rd_sent (ms_res s) = pre @ tail @ post \<and> list_all (published (rd_ad r)) (pre @ post) \<and>
       list_all (goodbye (rd_ad r)) tail \<and> length tail \<le> 1 \<and>
       (CloseCalled \<notin> set acts \<and> tail \<noteq> [] \<longrightarrow> post = []) \<and>
       (list_all action_ok acts \<and> \<not> rd_connOpen (ms_res s) \<longrightarrow> tail \<noteq> [])"
  proof (cases "CloseCalled \<in> set acts")
    case True
    with shape show ?thesis unfolding sent_shape_def by blast
  next
    case False
    let ?must = "list_all action_ok acts"
    have "alone_inv ?must s"
      unfolding assms(2) by (rule mdns_exec_alone [OF start(2,1) False])
    moreover have "withdrawn (ms_run s)" if "\<not> rd_connOpen (ms_res s)"
    proof -
      have "close_inv False (ms_res s) (ms_closes s @ run_closers (ms_run s))" using inv0 by (simp add: system_inv_def)
      from close_inv_released [OF this that] calculation show ?thesis by (auto simp: alone_inv_def)
    qed
    ultimately obtain pre tail where "sent_shape (rd_ad r) (rd_sent (ms_res s)) pre tail []"
      "?must \<and> \<not> rd_connOpen (ms_res s) \<longrightarrow> tail \<noteq> []" using inv0 by (auto simp: alone_inv_def)
    then show ?thesis unfolding sent_shape_def by blast
  qed
  show "\<not> rd_connOpen (ms_res s) \<longrightarrow> rd_closed (ms_res s) \<and> rd_sent (ms_res s') = rd_sent (ms_res s) \<and>
       (5 \<le> run_acts later \<longrightarrow> run_returned (ms_run s'))"
  proof (intro impI)
    assume c: "\<not> rd_connOpen (ms_res s)"
    have "rd_closed (ms_res s)" by (rule close_inv_released(1) [OF ci [of False] c]) simp
    moreover have "run_left (ms_run s) \<le> 5" by (cases "ms_run s") simp_all
    moreover have "run_returned pc" if "run_left pc = 0" for pc using that by (cases pc) simp_all
    ultimately show "rd_closed (ms_res s) \<and> rd_sent (ms_res s') = rd_sent (ms_res s) \<and>
       (5 \<le> run_acts later \<longrightarrow> run_returned (ms_run s'))"
      using mdns_exec_released [OF conjunct1 [OF inv0] c, of later] by (auto simp: assms(3))
  qed
  show "\<forall>j < length (ms_closes s). 3 \<le> close_acts j later \<longrightarrow> close_returned (ms_closes s' ! j)"
  proof (intro allI impI)
    fix j
    assume "j < length (ms_closes s)" "3 \<le> close_acts j later"
    moreover have "close_left pc \<le> 3" for pc by (cases pc) simp_all
    moreover have "close_returned pc" if "close_left pc = 0" for pc using that by (cases pc) simp_all
    ultimately show "close_returned (ms_closes s' ! j)"
      using mdns_exec_left [of j s later] by (metis assms(3) diff_is_0_eq le_trans le_zero_eq)
  qed
  show "run_returned (ms_run s) \<and> list_all close_returned (ms_closes s) \<longrightarrow> \<not> rd_connOpen (ms_res s)"
  proof
    assume a: "run_returned (ms_run s) \<and> list_all close_returned (ms_closes s)"
    have "filter (\<lambda>pc. pc = CloseGoodbye) (ms_closes s) = []" "filter releases (ms_closes s) = []"
      using a by (auto simp: filter_empty_conv list_all_iff elim!: releases.elims)
    moreover have "run_closers (ms_run s) = []" using a by (cases "ms_run s") auto
    ultimately show "\<not> rd_connOpen (ms_res s)"
      using a inv0 by (auto simp: system_inv_def close_inv_def split: if_splits)
  qed
qed

text \<open>On an open socket that accepts writes, what is announced and what is withdrawn goes out.\<close>

lemma responder_writes:
  assumes "responder_New agentID port listenAddress iface opened = Inr r"
  shows "\<exists>p g. published (rd_ad r) p \<and> goodbye (rd_ad r) g \<and>
    (\<forall>q. rd_ad q = rd_ad r \<and> rd_connOpen q \<longrightarrow>
       announce announcementTTL True q = (None, q\<lparr>rd_sent := rd_sent q @ [p]\<rparr>) \<and>
       close_step True CloseGoodbye q = (CloseSocket None, q\<lparr>rd_sent := rd_sent q @ [g]\<rparr>))"
proof -
  obtain ad addr where ad: "newAdvertisement agentID port = Inr ad" "length addr = 4" "rd_ad r = ad\<lparr>ad_address := addr\<rparr>"
    using responder_New_ad [OF assms] by blast
  obtain rs gs where rs: "ad_records (rd_ad r) announcementTTL = Inr rs" "ad_records (rd_ad r) 0 = Inr gs"
    using advertisement_records [OF ad] by metis
  have "12 \<le> maxResponseBytes" by (simp add: maxResponseBytes_def)
  note t = buildResponse_total [OF this, of "[]" _ "[]"]
  obtain p g where p: "buildResponse [] (all_records rs) [] maxResponseBytes = Some p" "length p \<le> maxResponseBytes"
    and g: "buildResponse [] (all_records gs) [] maxResponseBytes = Some g" "length g \<le> maxResponseBytes"
    using t [of "all_records rs"] t [of "all_records gs"] by blast
  have "published (rd_ad r) p"
    unfolding published_def using rs(1) p(1) all_records_distinct [OF rs(1)]
    by (intro exI [of _ rs] exI [of _ "[]"] exI [of _ "all_records rs"] exI [of _ "[]"]) (simp add: all_records_def)
  moreover have "goodbye (rd_ad r) g" using rs(2) g(1) by (auto simp: goodbye_def)
  moreover have "announce announcementTTL True q = (None, q\<lparr>rd_sent := rd_sent q @ [p]\<rparr>) \<and>
      close_step True CloseGoodbye q = (CloseSocket None, q\<lparr>rd_sent := rd_sent q @ [g]\<rparr>)"
    if "rd_ad q = rd_ad r" "rd_connOpen q" for q
    using that rs p g by (simp add: announce_def write_records_def write_packet_def not_less)
  ultimately show ?thesis by blast
qed

definition demo_input :: "bool \<Rightarrow> time \<Rightarrow> run_input" where
  "demo_input finished now = \<lparr>ri_done = finished, ri_now = now, ri_ok = True, ri_read = QueryTimeout\<rparr>"

definition demo_schedule :: "mdns_action list" where
  "demo_schedule = [RunActs (demo_input False 0), RunActs (demo_input True 1), RunActs (demo_input True 1),
     CloseCalled, CloseActs 0 True, RunActs (demo_input True 2), RunActs (demo_input True 2)]"

theorem responder_withdraws_witness:
  "\<exists>r pre g. responder_New demo_agent 8787 ''192.168.1.1'' None True = Inr r \<and>
     (let s = mdns_exec demo_schedule (mdns_start r) in
      rd_sent (ms_res s) = pre @ [g] \<and> goodbye (rd_ad r) g \<and> pre \<noteq> [] \<and> run_returned (ms_run s) \<and> \<not> rd_connOpen (ms_res s))"
proof -
  have "validAgentID demo_agent" "advertisedAddress ''192.168.1.1'' None = Inr [192, 168, 1, 1]" by code_simp+
  then obtain r where r: "responder_New demo_agent 8787 ''192.168.1.1'' None True = Inr r"
    by (simp add: responder_New_def newAdvertisement_def Let_def)
  obtain p g where pg: "published (rd_ad r) p" "goodbye (rd_ad r) g"
    "\<forall>q. rd_ad q = rd_ad r \<and> rd_connOpen q \<longrightarrow>
       announce announcementTTL True q = (None, q\<lparr>rd_sent := rd_sent q @ [p]\<rparr>) \<and>
       close_step True CloseGoodbye q = (CloseSocket None, q\<lparr>rd_sent := rd_sent q @ [g]\<rparr>)"
    using responder_writes [OF r] by blast
  have "rd_sent r = []" "rd_connOpen r" "\<not> rd_closed r" using responder_New_ad [OF r] by blast+
  then have run: "rd_sent (ms_res (mdns_exec demo_schedule (mdns_start r))) = [p, g]"
    "run_returned (ms_run (mdns_exec demo_schedule (mdns_start r)))"
    "list_all close_returned (ms_closes (mdns_exec demo_schedule (mdns_start r)))"
    using pg(3)
    by (simp_all add: demo_schedule_def demo_input_def mdns_start_def mdns_exec_def announce_step_def del: close_step.simps(2))
  from responder_withdraws [OF r refl refl, of demo_schedule] run r pg(2) show ?thesis
    by (intro exI [of _ r] exI [of _ "[p]"] exI [of _ g]) (simp add: Let_def)
qed

text \<open>
  What the missing lock allows.  A refresh that comes between the withdrawal and the closing of the socket
  announces the service again after its goodbye; and \<^verbatim>\<open>Run\<close> can return while another call of \<^verbatim>\<open>Close\<close> has set
  the flag but not closed the socket.
\<close>

lemma announcement_after_goodbye:
  assumes "responder_New agentID port listenAddress iface opened = Inr r"
  shows "\<exists>p g. published (rd_ad r) p \<and> goodbye (rd_ad r) g \<and>
    rd_sent (ms_res (mdns_exec
      [RunActs (demo_input False 0), CloseCalled, CloseActs 0 True, CloseActs 0 True,
       RunActs (demo_input False refreshInterval), RunActs (demo_input False refreshInterval), CloseActs 0 True]
      (mdns_start r))) = [p, g, p]"
proof -
  obtain p g where pg: "published (rd_ad r) p" "goodbye (rd_ad r) g"
    "\<forall>q. rd_ad q = rd_ad r \<and> rd_connOpen q \<longrightarrow>
       announce announcementTTL True q = (None, q\<lparr>rd_sent := rd_sent q @ [p]\<rparr>) \<and>
       close_step True CloseGoodbye q = (CloseSocket None, q\<lparr>rd_sent := rd_sent q @ [g]\<rparr>)"
    using responder_writes [OF assms] by blast
  have "rd_sent r = []" "rd_connOpen r" "\<not> rd_closed r" using responder_New_ad [OF assms] by blast+
  then show ?thesis
    using pg
    by (intro exI [of _ p] exI [of _ g])
      (simp add: demo_input_def mdns_start_def mdns_exec_def announce_step_def del: close_step.simps(2))
qed

lemma run_returns_before_the_socket_is_closed:
  assumes "responder_New agentID port listenAddress iface opened = Inr r"
  shows "let s = mdns_exec [RunActs (demo_input False 0), CloseCalled, CloseActs 0 True,
      RunActs (demo_input True 1), RunActs (demo_input True 1)] (mdns_start r)
    in run_returned (ms_run s) \<and> rd_connOpen (ms_res s)"
proof -
  obtain p g where pg: "published (rd_ad r) p" "goodbye (rd_ad r) g"
    "\<forall>q. rd_ad q = rd_ad r \<and> rd_connOpen q \<longrightarrow>
       announce announcementTTL True q = (None, q\<lparr>rd_sent := rd_sent q @ [p]\<rparr>) \<and>
       close_step True CloseGoodbye q = (CloseSocket None, q\<lparr>rd_sent := rd_sent q @ [g]\<rparr>)"
    using responder_writes [OF assms] by blast
  have "rd_sent r = []" "rd_connOpen r" "\<not> rd_closed r" using responder_New_ad [OF assms] by blast+
  then show ?thesis
    using pg(3) by (simp add: demo_input_def mdns_start_def mdns_exec_def announce_step_def Let_def)
qed

end
