(* ===== verification/Mdns_Socket.thy ===== *)
theory Mdns_Socket
  imports Mdns_Service
begin

text \<open>
  \<^verbatim>\<open>internal/mdns/socket_linux.go\<close>: the opening of the multicast socket, with the system calls as a log and their
  results as inputs.
\<close>

section \<open>Definitions\<close>

definition multicastPort :: nat where
  "multicastPort = 5353"

datatype socket_option =
    ReuseAddr
  | AddMembership "byte list" int
  | MulticastIf "byte list"
  | MulticastTTL nat
  | MulticastLoop

text \<open>The calls: an option with its success, the bind to an address, and the close.\<close>

datatype socket_call = SetOption socket_option bool | BindUDP string nat bool | CloseSocket

record multicast_answers =
  ma_iface :: "(int \<times> byte list option list option) option"
  ma_rawBind :: bool
  ma_reuse :: bool
  ma_bind :: bool
  ma_isUDP :: bool
  ma_syscallConn :: bool
  ma_rawConfigure :: bool
  ma_options :: "bool list"

datatype socket_err = NoInterface | NoAddress | BindFailed | NotUDP | AccessFailed | ConfigureFailed

text \<open>\<^verbatim>\<open>raw.Control\<close> in \<^verbatim>\<open>configureMulticast\<close>: each option in turn until one fails.\<close>

fun set_options :: "socket_option list \<Rightarrow> bool list \<Rightarrow> bool \<times> socket_call list" where
  "set_options [] oks = (True, [])"
| "set_options (x # xs) oks =
     (let ok = (case oks of [] \<Rightarrow> True | b # _ \<Rightarrow> b) in
      if \<not> ok then (False, [SetOption x False])
      else (case set_options xs (tl oks) of (res, calls) \<Rightarrow> (res, SetOption x True # calls)))"

definition multicast_options :: "int \<Rightarrow> byte list \<Rightarrow> socket_option list" where
  "multicast_options index address =
     [AddMembership [224, 0, 0, 251] index, MulticastIf (the (To4 address)), MulticastTTL 1, MulticastLoop]"

definition configureMulticast :: "int \<Rightarrow> byte list \<Rightarrow> multicast_answers \<Rightarrow> socket_err option \<times> socket_call list" where
  "configureMulticast index address a =
     (if \<not> ma_syscallConn a then (Some AccessFailed, [])
      else if \<not> ma_rawConfigure a then (Some ConfigureFailed, [])
      else (case set_options (multicast_options index address) (ma_options a) of
              (ok, calls) \<Rightarrow> (if ok then None else Some ConfigureFailed, calls)))"

text \<open>The control function runs between the creation of the socket and its bind.\<close>

definition openSocket :: "multicast_answers \<Rightarrow> socket_err option \<times> socket_call list" where
  "openSocket a =
     (case ma_iface a of
        None \<Rightarrow> (Some NoInterface, [])
      | Some (index, addresses) \<Rightarrow>
          (case firstIPv4 addresses True of
             None \<Rightarrow> (Some NoAddress, [])
           | Some address \<Rightarrow>
               if \<not> ma_rawBind a then (Some BindFailed, [CloseSocket])
               else if \<not> ma_reuse a then (Some BindFailed, [SetOption ReuseAddr False, CloseSocket])
               else
                 let bind = [SetOption ReuseAddr True, BindUDP ''0.0.0.0'' multicastPort (ma_bind a)] in
                 if \<not> ma_bind a then (Some BindFailed, bind @ [CloseSocket])
                 else if \<not> ma_isUDP a then (Some NotUDP, bind @ [CloseSocket])
                 else (case configureMulticast index address a of
                         (Some err, calls) \<Rightarrow> (Some err, bind @ calls @ [CloseSocket])
                       | (None, calls) \<Rightarrow> (None, bind @ calls))))"

section \<open>The socket that is handed out\<close>

lemma set_options_ok:
  assumes "set_options xs oks = (True, calls)"
  shows "calls = map (\<lambda>x. SetOption x True) xs"
  using assms
proof (induction xs arbitrary: oks calls)
  case (Cons x xs)
  obtain res cs where r: "set_options xs (tl oks) = (res, cs)" by fastforce
  with Cons.prems have "res" "calls = SetOption x True # cs" by (auto simp: Let_def split: if_splits)
  with Cons.IH r show ?case by simp
qed simp

lemma configureMulticast_ok:
  assumes "configureMulticast index address a = (None, calls)"
  shows "calls = map (\<lambda>x. SetOption x True) (multicast_options index address)"
  using assms set_options_ok
  by (cases "set_options (multicast_options index address) (ma_options a)")
     (fastforce simp: configureMulticast_def split: if_splits)

text \<open>
  The responder hears one interface only and stays on the link: a socket is handed out only if it is bound
  to the mDNS port, has joined the group on exactly the interface that was asked for, and sends from an IPv4
  address of that interface with TTL 1; on every error the socket is closed.
\<close>

lemma openSocket_configured:
  assumes "openSocket a = (None, calls)"
  shows "\<exists>index addresses address. ma_iface a = Some (index, addresses) \<and> firstIPv4 addresses True = Some address \<and>
    calls = [SetOption ReuseAddr True, BindUDP ''0.0.0.0'' multicastPort True] @
      map (\<lambda>x. SetOption x True) (multicast_options index address)"
proof -
  obtain index addresses where i: "ma_iface a = Some (index, addresses)"
    using assms by (cases "ma_iface a") (auto simp: openSocket_def)
  obtain address where f: "firstIPv4 addresses True = Some address"
    using assms i by (cases "firstIPv4 addresses True") (auto simp: openSocket_def)
  obtain err cs where c: "configureMulticast index address a = (err, cs)" by fastforce
  have "err = None" "calls = [SetOption ReuseAddr True, BindUDP ''0.0.0.0'' multicastPort True] @ cs"
    using assms by (auto simp: openSocket_def i f c Let_def split: if_splits option.splits)
  with c i f configureMulticast_ok show ?thesis by blast
qed

lemma openSocket_closed:
  assumes "openSocket a = (Some err, calls)"
  shows "calls = [] \<or> last calls = CloseSocket"
  using assms by (auto simp: openSocket_def Let_def split: option.splits prod.splits if_splits)

end
