(* ===== verification/Wired_Parse.thy ===== *)
theory Wired_Parse
  imports Identity Go_Net
begin

text \<open>
  \<^verbatim>\<open>internal/providers/wired\<close>, the parts that read foreign data: the bounded output of \<^verbatim>\<open>arping\<close>, the
  DHCP leases, the ARP replies, and the neighbour messages of the kernel.
\<close>

section \<open>Bounded output\<close>

definition maxARPOutput :: int where
  "maxARPOutput = 64 * 1024"

record boundedOutput =
  bo_buffer :: string
  bo_limit :: int
  bo_exceeded :: bool

text \<open>\<^verbatim>\<open>Write\<close> accepts everything and keeps what fits; \<open>None\<close> is the panic of a slice out of range.\<close>

definition bo_Write :: "string \<Rightarrow> boundedOutput \<Rightarrow> boundedOutput option" where
  "bo_Write value b =
     (let remaining = bo_limit b - int (length (bo_buffer b)) in
      if remaining < int (length value)
      then let remaining = (if remaining < 0 then 0 else remaining) in
           if remaining > int (length value) then None
           else Some (b\<lparr>bo_exceeded := True, bo_buffer := bo_buffer b @ take (nat remaining) value\<rparr>)
      else Some (b\<lparr>bo_buffer := bo_buffer b @ value\<rparr>))"

fun bo_writes :: "string list \<Rightarrow> boundedOutput \<Rightarrow> boundedOutput option" where
  "bo_writes [] b = Some b"
| "bo_writes (v # vs) b = (case bo_Write v b of None \<Rightarrow> None | Some b' \<Rightarrow> bo_writes vs b')"

section \<open>Leases\<close>

record lease =
  ls_mac :: string
  ls_ip :: string

datatype lease_err = TooManyLeases | LineTooLong | LeaseReadError

text \<open>
  \<^verbatim>\<open>bufio.Scanner\<close> over lines: a line ends at a newline, a carriage return before it goes, an empty last
  line is not a line, and a line that does not fit into 64 KiB ends the scan with an error.
\<close>

definition scan_lines :: "string \<Rightarrow> string list" where
  "scan_lines s =
     (let ls = Split s (CHR 0x0A) in if last ls = [] then butlast ls else ls)"

definition drop_cr :: "string \<Rightarrow> string" where
  "drop_cr line = (if line \<noteq> [] \<and> last line = CHR 0x0D then butlast line else line)"

definition parse_lease :: "string \<Rightarrow> lease option" where
  "parse_lease text_line =
     (let fields = Fields text_line in
      if length fields < 3 \<or> ParseIP (fields ! 2) = None then None
      else (case ClientID (fields ! 1) of
              Inl _ \<Rightarrow> None
            | Inr cid \<Rightarrow> Some \<lparr>ls_mac = cid, ls_ip = fields ! 2\<rparr>))"

fun parse_lines :: "int \<Rightarrow> string list \<Rightarrow> lease list \<Rightarrow> lease_err + lease list" where
  "parse_lines limit [] leases = Inr leases"
| "parse_lines limit (line # rest) leases =
     (if int (length line) \<ge> 65536 then Inl LineTooLong
      else (case parse_lease (drop_cr line) of
              None \<Rightarrow> parse_lines limit rest leases
            | Some l \<Rightarrow>
                if int (length (leases @ [l])) > limit then Inl TooManyLeases
                else parse_lines limit rest (leases @ [l])))"

text \<open>The file is its contents and whether reading it fails after them.\<close>

definition parseLeases :: "string \<times> bool \<Rightarrow> int \<Rightarrow> lease_err + lease list" where
  "parseLeases file limit =
     (case parse_lines limit (scan_lines (fst file)) [] of
        Inl err \<Rightarrow> Inl err
      | Inr leases \<Rightarrow> if snd file then Inl LeaseReadError else Inr leases)"

section \<open>Replies\<close>

text \<open>\<^verbatim>\<open>macAddressPattern\<close>: six pairs of hexadecimal digits with colons, the leftmost in the line.\<close>

definition mac_here :: "string \<Rightarrow> bool" where
  "mac_here s \<longleftrightarrow> 17 \<le> length s \<and>
     list_all (\<lambda>i. if i mod 3 = 2 then s ! i = CHR '':'' else hexval (s ! i) \<noteq> None) [0..<17]"

primrec find_mac :: "string \<Rightarrow> string" where
  "find_mac [] = []"
| "find_mac (c # s) = (if mac_here (c # s) then take 17 (c # s) else find_mac s)"

text \<open>
  No letter of the two phrases is the lower case of anything but an ASCII letter, so lowering ASCII
  letters is enough.
\<close>

definition reply_line :: "string \<Rightarrow> bool" where
  "reply_line line \<longleftrightarrow>
     (let lower = lower_ascii line in StrContains lower ''reply from'' \<or> StrContains lower ''bytes from'')"

definition arpReplyMatches :: "string \<Rightarrow> string \<Rightarrow> bool" where
  "arpReplyMatches output clientID =
     list_ex (\<lambda>line. reply_line line \<and> ClientID (find_mac line) = Inr clientID) (Split output (CHR 0x0A))"

text \<open>\<^verbatim>\<open>reachable\<close>: the chunks that \<^verbatim>\<open>arping\<close> writes and whether it fails.\<close>

definition reachable :: "string list \<Rightarrow> bool \<Rightarrow> lease \<Rightarrow> bool option" where
  "reachable chunks failed candidate =
     (case bo_writes chunks \<lparr>bo_buffer = [], bo_limit = maxARPOutput, bo_exceeded = False\<rparr> of
        None \<Rightarrow> None
      | Some b \<Rightarrow>
          Some (if failed \<or> bo_exceeded b then False else arpReplyMatches (bo_buffer b) (ls_mac candidate)))"

section \<open>Neighbour messages\<close>

definition ndaLLAddr :: "16 word" where "ndaLLAddr = 2"
definition nudReachable :: "16 word" where "nudReachable = 2"
definition ndmsgSize :: nat where "ndmsgSize = 12"
definition rtattrSize :: nat where "rtattrSize = 4"

text \<open>\<^verbatim>\<open>syscall.RTM_NEWNEIGH\<close>, \<^verbatim>\<open>AF_INET\<close>, \<^verbatim>\<open>AF_INET6\<close> and \<^verbatim>\<open>NLMSG_HDRLEN\<close> on Linux.\<close>

definition RTM_NEWNEIGH :: "16 word" where "RTM_NEWNEIGH = 28"
definition AF_INET :: byte where "AF_INET = 2"
definition AF_INET6 :: byte where "AF_INET6 = 10"
definition NLMSG_HDRLEN :: nat where "NLMSG_HDRLEN = 16"

record netlinkMessage =
  nm_type :: "16 word"
  nm_data :: "byte list"

text \<open>\<^verbatim>\<open>(n + 3) &^ 3\<close>.\<close>

definition align4 :: "nat \<Rightarrow> nat" where
  "align4 n = (n + 3) div 4 * 4"

text \<open>
  \<^verbatim>\<open>syscall.ParseNetlinkMessage\<close>; \<open>big\<close> is the byte order of the machine and \<open>None\<close> its error
  \<^verbatim>\<open>EINVAL\<close>.
\<close>

function ParseNetlinkMessage :: "bool \<Rightarrow> byte list \<Rightarrow> netlinkMessage list option" where
  "ParseNetlinkMessage big b =
     (if length b < NLMSG_HDRLEN then Some []
      else
        let len = unat (Uint32 big b) in
        if len < NLMSG_HDRLEN \<or> align4 len > length b then None
        else map_option
               (Cons \<lparr>nm_type = Uint16 big (drop 4 b), nm_data = take (len - NLMSG_HDRLEN) (drop NLMSG_HDRLEN b)\<rparr>)
               (ParseNetlinkMessage big (drop (align4 len) b)))"
  by auto
termination
  by (relation "measure (\<lambda>(_, b). length b)") (auto simp: align4_def NLMSG_HDRLEN_def)

declare ParseNetlinkMessage.simps [simp del]

function find_lladdr :: "bool \<Rightarrow> byte list \<Rightarrow> string option" where
  "find_lladdr big attributes =
     (if length attributes < rtattrSize then None
      else
        let len = unat (Uint16 big attributes); kind = Uint16 big (drop 2 attributes) in
        if len < rtattrSize \<or> len > length attributes then None
        else if kind = ndaLLAddr
        then (case ClientID (mac_string (take (len - rtattrSize) (drop rtattrSize attributes))) of
                Inl _ \<Rightarrow> None
              | Inr cid \<Rightarrow> Some cid)
        else if align4 len > length attributes then None
        else find_lladdr big (drop (align4 len) attributes))"
  by auto
termination
  by (relation "measure (\<lambda>(_, b). length b)") (auto simp: align4_def rtattrSize_def)

declare find_lladdr.simps [simp del]

text \<open>\<open>None\<close> is the result that is not \<^verbatim>\<open>ok\<close>.\<close>

definition decodeReachableNeighbor :: "bool \<Rightarrow> netlinkMessage \<Rightarrow> (string \<times> int) option" where
  "decodeReachableNeighbor big message =
     (if nm_type message \<noteq> RTM_NEWNEIGH \<or> length (nm_data message) < ndmsgSize then None
      else
        let data = nm_data message; family = data ! 0 in
        if family \<noteq> AF_INET \<and> family \<noteq> AF_INET6 then None
        else
          let ifindex = sint (Uint32 big (drop 4 data)); state = Uint16 big (drop 8 data) in
          if state AND nudReachable = 0 then None
          else map_option (\<lambda>cid. (cid, ifindex)) (find_lladdr big (drop ndmsgSize data)))"

text \<open>
  One datagram of \<^verbatim>\<open>listenNeighborEvents\<close>: the client identifiers it passes on, \<open>None\<close> when the listener
  ends with an error.
\<close>

definition neighbor_events :: "bool \<Rightarrow> int \<Rightarrow> byte list \<Rightarrow> string list option" where
  "neighbor_events big device b =
     map_option
       (List.map_filter (\<lambda>m. case decodeReachableNeighbor big m of
                               None \<Rightarrow> None
                             | Some (cid, ifindex) \<Rightarrow> if ifindex \<noteq> device then None else Some cid))
       (ParseNetlinkMessage big b)"

end
