(* ===== verification/Wired_Messages.thy ===== *)
theory Wired_Messages
  imports Wired_Parse
begin

text \<open>The neighbour messages of the kernel are read back as they are written, in either byte order.\<close>

section \<open>Hardware addresses\<close>

lemma length_spell: "ps \<noteq> [] \<Longrightarrow> length (spell sep ps) + 1 = 3 * length ps"
  by (induction sep ps rule: spell.induct) auto

lemma parse_octets_length: "parse_octets n sep s = Some bs \<Longrightarrow> length bs = n"
  by (induction n arbitrary: s bs) (auto split: option.splits)

lemma mac_string_trim: "TrimSpace (mac_string hw) = mac_string hw"
proof (rule TrimSpace_id)
  have "list_all plain (mac_string hw)"
    by (induction hw rule: mac_string.induct) (simp_all add: hex_byte_def hexDigit_plain plain_def [of "CHR '':''"])
  then show "mac_string hw = [] \<or> plain (hd (mac_string hw)) \<and> plain (last (mac_string hw))"
    by (cases "mac_string hw = []") (simp_all add: list_all_iff)
qed

lemma ClientID_mac_string:
  "ClientID (mac_string hw) = (if length hw = 6 then Inr (''mac:'' @ mac_string hw) else Inl InvalidMAC)"
proof (cases "length hw = 6")
  case True
  then have "ParseMAC (mac_string hw) = Some hw"
    using ParseMAC_octets [of "CHR '':''" "map digits hw"] by (simp add: mac_string_spell list_all_iff comp_def)
  then show ?thesis using True by (simp add: ClientID_def mac_string_trim)
next
  case False
  have "length bs \<noteq> 6" if p: "ParseMAC (mac_string hw) = Some bs" for bs
  proof -
    have l: "14 \<le> length (mac_string hw)" using p by (auto simp: ParseMAC_def split: if_splits)
    then have ne: "map digits hw \<noteq> []" by (auto simp: mac_string_spell)
    have n: "length (mac_string hw) + 1 = 3 * length hw"
      using length_spell [OF ne, of "CHR '':''"] by (simp add: mac_string_spell)
    obtain a b c hw' where hw: "hw = a # b # c # hw'" using l n
      by (cases hw; cases "tl hw"; cases "tl (tl hw)") auto
    have "mac_string hw ! 2 = CHR '':''" by (simp add: hw hex_byte_def)
    then have "parse_octets (length hw) (CHR '':'') (mac_string hw) = Some bs"
      using p n by (auto simp: ParseMAC_def Let_def split: if_splits)
    from parse_octets_length [OF this] show ?thesis using False by simp
  qed
  then show ?thesis using False by (auto simp: ClientID_def mac_string_trim split: option.split)
qed

section \<open>Encoding\<close>

text \<open>A message of the kernel: the type, the family, the interface, the state and the attributes.\<close>

record notice =
  nt_type :: "16 word"
  nt_family :: byte
  nt_ifindex :: "32 word"
  nt_state :: "16 word"
  nt_flags :: "byte \<times> byte"
  nt_attrs :: "(16 word \<times> byte list) list"

definition padding :: "nat \<Rightarrow> byte list" where
  "padding n = replicate (align4 n - n) 0"

definition attr_bytes :: "bool \<Rightarrow> 16 word \<times> byte list \<Rightarrow> byte list" where
  "attr_bytes big a =
     AppendUint16 big (of_nat (4 + length (snd a))) @ AppendUint16 big (fst a) @ snd a @ padding (4 + length (snd a))"

definition notice_data :: "bool \<Rightarrow> notice \<Rightarrow> byte list" where
  "notice_data big n =
     [nt_family n, 0, 0, 0] @ AppendUint32 big (nt_ifindex n) @ AppendUint16 big (nt_state n) @
     [fst (nt_flags n), snd (nt_flags n)] @ concat (map (attr_bytes big) (nt_attrs n))"

definition notice_bytes :: "bool \<Rightarrow> notice \<Rightarrow> byte list" where
  "notice_bytes big n =
     AppendUint32 big (of_nat (16 + length (notice_data big n))) @ AppendUint16 big (nt_type n) @ replicate 10 0 @
     notice_data big n"

definition small :: "bool \<Rightarrow> notice \<Rightarrow> bool" where
  "small big n \<longleftrightarrow> list_all (\<lambda>a. length (snd a) + 4 < 65536) (nt_attrs n) \<and> 16 + length (notice_data big n) < 4294967296"

text \<open>What such a message says: a client that the kernel has just confirmed on the interface.\<close>

definition confirms :: "int \<Rightarrow> notice \<Rightarrow> string option" where
  "confirms device n =
     (if nt_type n = RTM_NEWNEIGH \<and> (nt_family n = AF_INET \<or> nt_family n = AF_INET6) \<and>
         nt_state n AND nudReachable \<noteq> 0 \<and> sint (nt_ifindex n) = device
      then (case find (\<lambda>a. fst a = ndaLLAddr) (nt_attrs n) of
              Some a \<Rightarrow> if length (snd a) = 6 then Some (''mac:'' @ mac_string (snd a)) else None
            | None \<Rightarrow> None)
      else None)"

section \<open>Decoding\<close>

lemma align4_ge: "n \<le> align4 n"
  unfolding align4_def by linarith

lemma align4_dvd: "4 dvd align4 n"
  by (simp add: align4_def)

lemma align4_id: "4 dvd n \<Longrightarrow> align4 n = n"
  unfolding align4_def by (elim dvdE) simp

lemma attr_bytes_length [simp]: "length (attr_bytes big a) = align4 (4 + length (snd a))"
  using align4_ge [of "4 + length (snd a)"] by (simp add: attr_bytes_def padding_def)

lemma attrs_aligned: "4 dvd length (concat (map (attr_bytes big) as))"
  by (induction as) (simp_all add: align4_dvd)

lemma find_lladdr_Cons:
  assumes "length (snd a) + 4 < 65536"
  shows "find_lladdr big (attr_bytes big a @ rest) =
    (if fst a = ndaLLAddr then (if length (snd a) = 6 then Some (''mac:'' @ mac_string (snd a)) else None)
     else find_lladdr big rest)"
proof -
  let ?n = "4 + length (snd a)" and ?b = "attr_bytes big a @ rest"
  have "unat (of_nat ?n :: 16 word) = ?n" using assms by (simp only: unsigned_of_nat take_bit_eq_mod) simp
  moreover have "Uint16 big ?b = of_nat ?n" unfolding attr_bytes_def append_assoc by (rule Uint16_Append)
  ultimately have len: "unat (Uint16 big ?b) = ?n" by simp
  have kind: "Uint16 big (drop 2 ?b) = fst a" by (simp add: attr_bytes_def)
  have val: "take (?n - rtattrSize) (drop rtattrSize ?b) = snd a" by (simp add: attr_bytes_def rtattrSize_def)
  have l: "length ?b = align4 ?n + length rest" by simp
  have g: "\<not> length ?b < rtattrSize" "\<not> (?n < rtattrSize \<or> ?n > length ?b)" "\<not> align4 ?n > length ?b"
    using l align4_ge [of ?n] by (simp_all add: rtattrSize_def)
  have d: "drop (align4 ?n) ?b = rest" by simp
  show ?thesis
    by (subst find_lladdr.simps) (simp only: g if_False Let_def len kind val d ClientID_mac_string; simp)
qed

lemma find_lladdr_attrs:
  assumes "list_all (\<lambda>a. length (snd a) + 4 < 65536) as"
  shows "find_lladdr big (concat (map (attr_bytes big) as)) =
    (case find (\<lambda>a. fst a = ndaLLAddr) as of
       Some a \<Rightarrow> if length (snd a) = 6 then Some (''mac:'' @ mac_string (snd a)) else None
     | None \<Rightarrow> None)"
  using assms
proof (induction as)
  case Nil
  then show ?case by (simp add: find_lladdr.simps [of big "[]"] rtattrSize_def)
next
  case (Cons a as)
  then show ?case by (simp add: find_lladdr_Cons)
qed

lemma notice_data_facts:
  "length (notice_data big n) = 12 + length (concat (map (attr_bytes big) (nt_attrs n)))"
  "notice_data big n ! 0 = nt_family n"
  "Uint32 big (drop 4 (notice_data big n)) = nt_ifindex n"
  "Uint16 big (drop 8 (notice_data big n)) = nt_state n"
  "drop 12 (notice_data big n) = concat (map (attr_bytes big) (nt_attrs n))"
  by (simp_all add: notice_data_def)

lemma decode_notice:
  assumes "small big n"
  shows "(case decodeReachableNeighbor big \<lparr>nm_type = nt_type n, nm_data = notice_data big n\<rparr> of
      None \<Rightarrow> None | Some (cid, ifindex) \<Rightarrow> if ifindex \<noteq> device then None else Some cid) = confirms device n"
proof -
  have "list_all (\<lambda>a. length (snd a) + 4 < 65536) (nt_attrs n)" using assms by (simp add: small_def)
  note f = find_lladdr_attrs [OF this, of big]
  show ?thesis
    by (auto simp: decodeReachableNeighbor_def confirms_def Let_def notice_data_facts ndmsgSize_def f split: option.split)
qed

lemma parse_notices:
  assumes "list_all (small big) ns"
  shows "ParseNetlinkMessage big (concat (map (notice_bytes big) ns)) =
    Some (map (\<lambda>n. \<lparr>nm_type = nt_type n, nm_data = notice_data big n\<rparr>) ns)"
  using assms
proof (induction ns)
  case Nil
  then show ?case by (simp add: ParseNetlinkMessage.simps [of big "[]"] NLMSG_HDRLEN_def)
next
  case (Cons n ns)
  let ?d = "notice_data big n" and ?rest = "concat (map (notice_bytes big) ns)"
  let ?b = "concat (map (notice_bytes big) (n # ns))" and ?len = "16 + length (notice_data big n)"
  have b: "?b = AppendUint32 big (of_nat ?len) @ AppendUint16 big (nt_type n) @ replicate 10 0 @ ?d @ ?rest"
    by (simp add: notice_bytes_def)
  have "unat (of_nat ?len :: 32 word) = ?len"
    using Cons.prems by (simp only: unsigned_of_nat take_bit_eq_mod) (simp add: small_def)
  moreover have "Uint32 big ?b = of_nat ?len" unfolding b by (rule Uint32_Append)
  ultimately have len: "unat (Uint32 big ?b) = ?len" by simp
  have ty: "Uint16 big (drop 4 ?b) = nt_type n" unfolding b by simp
  have dat: "take (?len - NLMSG_HDRLEN) (drop NLMSG_HDRLEN ?b) = ?d" unfolding b by (simp add: NLMSG_HDRLEN_def)
  have "4 dvd ?len" using attrs_aligned [of big "nt_attrs n"] by (simp add: notice_data_facts(1))
  then have al: "align4 ?len = ?len" by (rule align4_id)
  have l: "length ?b = ?len + length ?rest" unfolding b by simp
  then have g: "\<not> length ?b < NLMSG_HDRLEN" "\<not> (?len < NLMSG_HDRLEN \<or> ?len > length ?b)"
    by (simp_all add: NLMSG_HDRLEN_def)
  have dr: "drop ?len ?b = ?rest" unfolding b by simp
  show ?case
    using Cons.IH Cons.prems
    by (subst ParseNetlinkMessage.simps) (simp only: g if_False Let_def len al ty dat dr; simp)
qed

text \<open>
  C28. What the kernel reports is what the provider sees: of the messages in one datagram, in the byte
  order of the machine and with any other attributes, exactly the confirmed neighbours of the interface
  are passed on, in order, under the identifiers of their hardware addresses.
\<close>

theorem neighbor_roundtrip:
  assumes "list_all (small big) ns"
  shows "neighbor_events big device (concat (map (notice_bytes big) ns)) = Some (List.map_filter (confirms device) ns)"
proof -
  have "List.map_filter f (map g ns) = List.map_filter (f \<circ> g) ns" for f :: "netlinkMessage \<Rightarrow> string option" and g
    by (simp add: List.map_filter_def filter_map comp_def)
  moreover have "List.map_filter f ns = List.map_filter g ns" if "\<forall>n \<in> set ns. f n = g n" for f g :: "notice \<Rightarrow> string option"
    using that by (induction ns) (simp_all add: List.map_filter_simps split: option.split)
  ultimately show ?thesis
    using assms parse_notices [OF assms] decode_notice
    by (simp add: neighbor_events_def comp_def list_all_iff)
qed

theorem neighbor_roundtrip_witness:
  "neighbor_events False 3 (notice_bytes False \<lparr>nt_type = 28, nt_family = 2, nt_ifindex = 3, nt_state = 2, nt_flags = (0, 1),
     nt_attrs = [(1, [10, 0, 0, 7]), (2, [170, 187, 204, 0, 17, 34])]\<rparr>) = Some [''mac:aa:bb:cc:00:11:22'']"
proof -
  let ?n = "\<lparr>nt_type = 28, nt_family = 2, nt_ifindex = 3, nt_state = 2, nt_flags = (0, 1),
     nt_attrs = [(1, [10, 0, 0, 7]), (2, [170, 187, 204, 0, 17, 34])]\<rparr>"
  have s: "list_all (small False) [?n]"
    by (simp add: small_def notice_data_facts align4_def)
  have "List.map_filter (confirms 3) [?n] = [''mac:aa:bb:cc:00:11:22'']" by code_simp
  with neighbor_roundtrip [OF s, of 3] show ?thesis by simp
qed

end
