(* ===== verification/Wired_Listen.thy ===== *)
theory Wired_Listen
  imports Wired_Messages "HOL-Library.Sublist"
begin

text \<open>
  The listener for neighbour events: the socket and the receive loop of \<^verbatim>\<open>listenNeighborEvents\<close>
  (\<^verbatim>\<open>internal/providers/wired/neighbor_linux.go\<close>) and the loop of \<^verbatim>\<open>runNeighborEvents\<close> (\<^verbatim>\<open>internal/providers/wired/provider.go\<close>)
  that restarts it after an error.
\<close>

section \<open>Definitions\<close>

datatype listen_err = ResolveInterface | OpenNetlink | SubscribeNeighbors | ReceiveTimeout | ReceiveNeighbor | ParseNeighbor

text \<open>One \<^verbatim>\<open>Recvfrom\<close>: no message within the timeout or an interruption, an error, or a datagram.\<close>

datatype netlink_read = NoMessage | ReceiveFailed | Received "byte list"

text \<open>
  One turn of the receive loop: whether the context has ended at its start, the read, and the number of
  events after which a blocked send gives way to the end of the context, if it does.
\<close>

record listen_turn =
  lt_ended :: bool
  lt_read :: netlink_read
  lt_stop :: "nat option"

text \<open>The loop: \<open>None\<close> while it waits for its next turn, and the clients sent on the channel.\<close>

fun listen_loop :: "bool \<Rightarrow> int \<Rightarrow> listen_turn list \<Rightarrow> listen_err option option \<times> string list" where
  "listen_loop big device [] = (None, [])"
| "listen_loop big device (t # ts) =
     (if lt_ended t then (Some None, [])
      else
        (case lt_read t of
           NoMessage \<Rightarrow> listen_loop big device ts
         | ReceiveFailed \<Rightarrow> (Some (Some ReceiveNeighbor), [])
         | Received b \<Rightarrow>
             (case neighbor_events big device b of
                None \<Rightarrow> (Some (Some ParseNeighbor), [])
              | Some ids \<Rightarrow>
                  if (case lt_stop t of None \<Rightarrow> False | Some n \<Rightarrow> n < length ids)
                  then (Some None, take (the (lt_stop t)) ids)
                  else (case listen_loop big device ts of (res, sent) \<Rightarrow> (res, ids @ sent)))))"

text \<open>One call of \<^verbatim>\<open>listenNeighborEvents\<close>: the answers of the set-up, and how many descriptors it opened and closed.\<close>

record listen_call =
  lc_device :: "int option"
  lc_socket :: bool
  lc_bind :: bool
  lc_timeout :: bool
  lc_turns :: "listen_turn list"

definition listenNeighborEvents :: "bool \<Rightarrow> listen_call \<Rightarrow> listen_err option option \<times> string list \<times> nat \<times> nat" where
  "listenNeighborEvents big c =
     (case lc_device c of
        None \<Rightarrow> (Some (Some ResolveInterface), [], 0, 0)
      | Some device \<Rightarrow>
          if \<not> lc_socket c then (Some (Some OpenNetlink), [], 0, 0)
          else if \<not> lc_bind c then (Some (Some SubscribeNeighbors), [], 1, 1)
          else if \<not> lc_timeout c then (Some (Some ReceiveTimeout), [], 1, 1)
          else (case listen_loop big device (lc_turns c) of
                  (res, sent) \<Rightarrow> (res, sent, 1, if res = None then 0 else 1)))"

text \<open>
  \<^verbatim>\<open>runNeighborEvents\<close>, over the calls it makes: whether the context has ended before the call, after it, and
  during the wait of five seconds.  The result says whether it has returned, and its waits are counted.
\<close>

record listen_round =
  lr_before :: bool
  lr_call :: listen_call
  lr_after :: bool
  lr_during :: bool

fun runNeighborEvents :: "bool \<Rightarrow> listen_round list \<Rightarrow> bool \<times> string list \<times> nat \<times> nat \<times> nat" where
  "runNeighborEvents big [] = (False, [], 0, 0, 0)"
| "runNeighborEvents big (r # rs) =
     (if lr_before r then (True, [], 0, 0, 0)
      else
        (case listenNeighborEvents big (lr_call r) of
           (None, sent, opened, closed) \<Rightarrow> (False, sent, opened, closed, 0)
         | (Some err, sent, opened, closed) \<Rightarrow>
             if lr_after r then (True, sent, opened, closed, 0)
             else if lr_during r then (True, sent, opened, closed, 1)
             else (case runNeighborEvents big rs of
                     (ended, sent2, opened2, closed2, waits) \<Rightarrow>
                       (ended, sent @ sent2, opened + opened2, closed + closed2, waits + 1))))"

section \<open>What is sent and what is released\<close>

text \<open>The confirmed neighbours of the datagrams among some turns.\<close>

definition announced :: "bool \<Rightarrow> int \<Rightarrow> listen_turn list \<Rightarrow> string list" where
  "announced big device ts =
     concat (map (\<lambda>t. case lt_read t of
         Received b \<Rightarrow> (case neighbor_events big device b of None \<Rightarrow> [] | Some ids \<Rightarrow> ids)
       | _ \<Rightarrow> []) ts)"

text \<open>A loop sends what the datagrams of the turns it completes announce, in order, and no more.\<close>

lemma listen_loop_sends:
  assumes "listen_loop big device ts = (res, sent)"
  shows "\<exists>pre post more. ts = pre @ post \<and> sent = announced big device pre @ more \<and>
    (res = None \<longrightarrow> post = [] \<and> more = []) \<and>
    (more \<noteq> [] \<longrightarrow> (\<exists>t rest. post = t # rest \<and> prefix more (announced big device [t])))"
  using assms
proof (induction ts arbitrary: sent)
  case (Cons t ts)
  show ?case
  proof (cases "\<exists>ids. \<not> lt_ended t \<and> (lt_read t = NoMessage \<and> ids = [] \<or>
      (\<exists>b. lt_read t = Received b \<and> neighbor_events big device b = Some ids)) \<and>
      \<not> (case lt_stop t of None \<Rightarrow> False | Some n \<Rightarrow> n < length ids)")
    case True
    then obtain ids where ids: "announced big device [t] = ids"
      "listen_loop big device (t # ts) = (case listen_loop big device ts of (res, sent) \<Rightarrow> (res, ids @ sent))"
      by (auto simp: announced_def split: prod.splits)
    then obtain sent2 where s: "listen_loop big device ts = (res, sent2)" "sent = ids @ sent2"
      using Cons.prems by (auto split: prod.splits)
    from Cons.IH [OF s(1)] obtain pre post more where p: "ts = pre @ post" "sent2 = announced big device pre @ more"
      "res = None \<longrightarrow> post = [] \<and> more = []" "more \<noteq> [] \<longrightarrow> (\<exists>t rest. post = t # rest \<and> prefix more (announced big device [t]))"
      by blast
    have "announced big device (t # pre) = ids @ announced big device pre" using ids(1) by (simp add: announced_def)
    with p s(2) show ?thesis by (intro exI [of _ "t # pre"] exI [of _ post] exI [of _ more]) simp
  next
    case False
    then have "res \<noteq> None \<and> prefix sent (announced big device [t])"
      using Cons.prems
      by (auto simp: announced_def split: if_splits netlink_read.splits option.splits prod.splits intro: take_is_prefix)
    then show ?thesis by (intro exI [of _ "[]"] exI [of _ "t # ts"] exI [of _ sent]) (simp add: announced_def)
  qed
qed (simp add: announced_def)

text \<open>Every descriptor is closed except that of a listener that is still running, and there is at most one.\<close>

lemma listener_releases:
  assumes "runNeighborEvents big rs = (ended, sent, opened, closed, waits)"
  shows "closed \<le> opened \<and> opened \<le> closed + 1 \<and> (ended \<longrightarrow> opened = closed) \<and> waits \<le> length rs"
  using assms
proof (induction rs arbitrary: ended sent opened closed waits)
  case (Cons r rs)
  obtain res s1 n1 m1 where c: "listenNeighborEvents big (lr_call r) = (res, s1, n1, m1)" by (metis prod_cases4)
  then have n: "m1 \<le> n1 \<and> n1 \<le> 1 \<and> (res \<noteq> None \<longrightarrow> n1 = m1)"
    by (auto simp: listenNeighborEvents_def split: option.splits if_splits prod.splits)
  obtain e2 s2 n2 m2 w2 where r: "runNeighborEvents big rs = (e2, s2, n2, m2, w2)" by (metis prod_cases5)
  from Cons.IH [OF r] n Cons.prems show ?case
    by (auto simp: c r split: if_splits option.splits)
qed simp

end
