(* ===== verification/Wired_Provider.thy ===== *)
theory Wired_Provider
  imports Wired_Parse Sink "HOL-Library.Multiset"
begin

text \<open>
  \<^verbatim>\<open>internal/providers/wired/provider.go\<close>: the life cycle of the Ethernet provider over an arbitrary
  sink.  The lease file, the answers of the probes, the order in which they arrive, the clock and the
  answers of \<^verbatim>\<open>Excluded\<close> (which ask the Wi-Fi mirror at that moment) are inputs.
\<close>

section \<open>State\<close>

definition wiredID :: string where
  "wiredID = ''wired-arp''"

record 's wired =
  wd_sink :: 's
  wd_reliable :: bool
  wd_lastSnapshot :: time

record wired_config =
  wc_Interface :: string
  wc_MaxClients :: int

section \<open>Operations\<close>

definition wired_status :: "('e, 's) Sink \<Rightarrow> wired_config \<Rightarrow> string \<Rightarrow> string \<Rightarrow> time \<Rightarrow> 's \<Rightarrow> 's" where
  "wired_status sink c status lastError snapshot s =
     sk_SetProviderStatus sink
       \<lparr>ps_ID = wiredID, ps_Kind = ''ethernet'', ps_Status = status, ps_SnapshotSupported = True,
        ps_Sources = [wc_Interface c], ps_LastSnapshotAt = snapshot, ps_LastEventAt = 0, ps_LastError = lastError,
        ps_SnapshotSource = ''active-arp:dhcp-leases'', ps_EventSource = ''netlink:reachable,active-arp:reply''\<rparr> s"

definition publishReachable ::
    "('e, 's) Sink \<Rightarrow> wired_config \<Rightarrow> string \<Rightarrow> time \<Rightarrow> 's \<Rightarrow> 'e option \<times> 's" where
  "publishReachable sink c clientID at s =
     sk_Apply sink
       \<lparr>ob_Provider = wiredID, ob_SourceInstance = wc_Interface c, ob_ObservedAt = None, ob_ReceivedAt = at,
        ob_ClientID = clientID, ob_Kind = WiredReachable, ob_Confidence = Authoritative\<rparr> s"

definition acceptNeighborEvent :: "time \<Rightarrow> bool \<Rightarrow> time \<Rightarrow> bool" where
  "acceptNeighborEvent at reliable lastSnapshot \<longleftrightarrow> reliable \<and> at > lastSnapshot"

text \<open>
  What one poll gets from outside.  \<open>pl_hidden i\<close> is the answer of \<^verbatim>\<open>Excluded\<close> for the \<open>i\<close>-th lease of the
  file, \<open>pl_probe i\<close> the output of \<^verbatim>\<open>arping\<close> for the \<open>i\<close>-th lease that is kept and whether it failed,
  \<open>pl_done i\<close> when it ended, \<open>pl_late i\<close> the second answer of \<^verbatim>\<open>Excluded\<close> for it, and \<open>pl_arrival n\<close> the order
  in which the results of \<open>n\<close> probes arrive.
\<close>

datatype lease_file = OpenFails string | Contents string "string option"

record poll_input =
  pl_file :: lease_file
  pl_hidden :: "nat \<Rightarrow> bool"
  pl_probe :: "nat \<Rightarrow> string list \<times> bool"
  pl_done :: "nat \<Rightarrow> time"
  pl_late :: "nat \<Rightarrow> bool"
  pl_arrival :: "nat \<Rightarrow> nat list"
  pl_now :: time

definition kept_leases :: "poll_input \<Rightarrow> lease list \<Rightarrow> lease list" where
  "kept_leases a leases = map fst (filter (\<lambda>(_, i). \<not> pl_hidden a i) (zip leases [0..<length leases]))"

fun publish_results ::
    "('e, 's) Sink \<Rightarrow> wired_config \<Rightarrow> poll_input \<Rightarrow> lease list \<Rightarrow> nat list \<Rightarrow> string list \<Rightarrow> 's \<Rightarrow> ('e + string list) \<times> 's" where
  "publish_results sink c a leases [] clients s = (Inr clients, s)"
| "publish_results sink c a leases (i # rest) clients s =
     (let candidate = leases ! i;
          reached = (reachable (fst (pl_probe a i)) (snd (pl_probe a i)) candidate = Some True)
      in if \<not> reached \<or> pl_late a i then publish_results sink c a leases rest clients s
         else (case publishReachable sink c (ls_mac candidate) (pl_done a i) s of
                 (Some err, s') \<Rightarrow> (Inl err, s')
               | (None, s') \<Rightarrow> publish_results sink c a leases rest (clients @ [ls_mac candidate]) s'))"

definition lease_text :: "string option \<Rightarrow> lease_err \<Rightarrow> string" where
  "lease_text readErr err =
     (case err of
        TooManyLeases \<Rightarrow> ''DHCP lease count exceeds client limit''
      | LineTooLong \<Rightarrow> ''bufio.Scanner: token too long''
      | LeaseReadError \<Rightarrow> (case readErr of None \<Rightarrow> [] | Some e \<Rightarrow> e))"

text \<open>\<^verbatim>\<open>snapshot\<close>: the error text or the time; the outer option is that of the sink's call.\<close>

definition wired_snapshot ::
    "('e, 's) Sink \<Rightarrow> ('e \<Rightarrow> string) \<Rightarrow> wired_config \<Rightarrow> poll_input \<Rightarrow> 's \<Rightarrow> ((string + time) \<times> 's) option" where
  "wired_snapshot sink emsg c a s =
     (case pl_file a of
        OpenFails e \<Rightarrow> Some (Inl (''open DHCP leases: '' @ e), s)
      | Contents text_data readErr \<Rightarrow>
          (case parseLeases (text_data, readErr \<noteq> None) (wc_MaxClients c) of
             Inl err \<Rightarrow> Some (Inl (''parse DHCP leases: '' @ lease_text readErr err), s)
           | Inr leases \<Rightarrow>
               let kept = kept_leases a leases in
               (case publish_results sink c a kept (pl_arrival a (length kept)) [] s of
                  (Inl err, s1) \<Rightarrow> Some (Inl (''publish reachable client: '' @ emsg err), s1)
                | (Inr clients, s1) \<Rightarrow>
                    (case sk_ApplySnapshot sink
                            \<lparr>os_Provider = wiredID, os_ReceivedAt = pl_now a,
                             os_Stations = [(wc_Interface c, sort clients)]\<rparr> s1 of
                       None \<Rightarrow> None
                     | Some (Some err, s2) \<Rightarrow> Some (Inl (emsg err), s2)
                     | Some (None, s2) \<Rightarrow> Some (Inr (pl_now a), s2)))))"

definition wired_poll ::
    "('e, 's) Sink \<Rightarrow> ('e \<Rightarrow> string) \<Rightarrow> wired_config \<Rightarrow> poll_input \<Rightarrow> 's wired \<Rightarrow> 's wired option" where
  "wired_poll sink emsg c a w =
     (case wired_snapshot sink emsg c a (wd_sink w) of
        None \<Rightarrow> None
      | Some (Inl err, s) \<Rightarrow> Some (w\<lparr>wd_reliable := False, wd_sink := wired_status sink c ''unavailable'' err 0 s\<rparr>)
      | Some (Inr at, s) \<Rightarrow>
          Some (w\<lparr>wd_lastSnapshot := at, wd_reliable := True, wd_sink := wired_status sink c ''healthy'' [] at s\<rparr>))"

text \<open>What the \<^verbatim>\<open>select\<close> receives; a neighbour event comes with the answer of \<^verbatim>\<open>Excluded\<close>.\<close>

datatype wired_input = WiredDone | NeighborSeen string time bool | WiredTick poll_input

definition on_neighbor :: "('e, 's) Sink \<Rightarrow> wired_config \<Rightarrow> string \<Rightarrow> time \<Rightarrow> bool \<Rightarrow> 's wired \<Rightarrow> 's wired" where
  "on_neighbor sink c clientID at excluded w =
     (if \<not> acceptNeighborEvent at (wd_reliable w) (wd_lastSnapshot w) then w
      else if excluded then w
      else w\<lparr>wd_sink := snd (publishReachable sink c clientID at (wd_sink w))\<rparr>)"

definition wired_step ::
    "('e, 's) Sink \<Rightarrow> ('e \<Rightarrow> string) \<Rightarrow> wired_config \<Rightarrow> wired_input \<Rightarrow> 's wired \<Rightarrow> ('s wired \<times> bool) option" where
  "wired_step sink emsg c inp w =
     (case inp of
        WiredDone \<Rightarrow> Some (w\<lparr>wd_sink := wired_status sink c ''stopped'' [] 0 (wd_sink w)\<rparr>, True)
      | NeighborSeen clientID at excluded \<Rightarrow> Some (on_neighbor sink c clientID at excluded w, False)
      | WiredTick a \<Rightarrow> map_option (\<lambda>w. (w, False)) (wired_poll sink emsg c a w))"

fun wired_inputs ::
    "('e, 's) Sink \<Rightarrow> ('e \<Rightarrow> string) \<Rightarrow> wired_config \<Rightarrow> wired_input list \<Rightarrow> 's wired \<Rightarrow> 's wired option" where
  "wired_inputs sink emsg c [] w = Some w"
| "wired_inputs sink emsg c (i # is) w =
     (case wired_step sink emsg c i w of
        None \<Rightarrow> None
      | Some (w', returned) \<Rightarrow> if returned then Some w' else wired_inputs sink emsg c is w')"

definition wired_Run ::
    "('e, 's) Sink \<Rightarrow> ('e \<Rightarrow> string) \<Rightarrow> wired_config \<Rightarrow> poll_input \<Rightarrow> wired_input list \<Rightarrow> 's \<Rightarrow> 's wired option" where
  "wired_Run sink emsg c a inputs s =
     (case wired_poll sink emsg c a
             \<lparr>wd_sink = wired_status sink c ''initializing'' [] 0 s, wd_reliable = False, wd_lastSnapshot = 0\<rparr> of
        None \<Rightarrow> None
      | Some w \<Rightarrow> wired_inputs sink emsg c inputs w)"

section \<open>Parsing\<close>

lemma parse_lines_exact:
  assumes "parse_lines limit lines leases = Inr result"
  shows "result = leases @ List.map_filter (parse_lease \<circ> drop_cr) lines \<and> (leases \<noteq> result \<longrightarrow> int (length result) \<le> limit)"
  using assms
proof (induction lines arbitrary: leases)
  case (Cons l ls)
  show ?case
  proof (cases "parse_lease (drop_cr l)")
    case None
    then show ?thesis using Cons by (auto simp: List.map_filter_simps split: if_splits)
  next
    case (Some x)
    have "parse_lines limit ls (leases @ [x]) = Inr result" "int (length (leases @ [x])) \<le> limit"
      using Cons.prems Some by (auto split: if_splits)
    with Cons.IH [of "leases @ [x]"] Some show ?thesis by (auto simp: List.map_filter_simps)
  qed
qed (simp add: List.map_filter_simps)

lemma parseLeases_exact:
  assumes "parseLeases (contents, failed) limit = Inr leases" and "0 \<le> limit"
  shows "\<not> failed \<and> leases = List.map_filter (parse_lease \<circ> drop_cr) (scan_lines contents) \<and> int (length leases) \<le> limit"
proof -
  have p: "parse_lines limit (scan_lines contents) [] = Inr leases" "\<not> failed"
    using assms(1) by (auto simp: parseLeases_def split: sum.splits if_splits)
  have "leases = List.map_filter (parse_lease \<circ> drop_cr) (scan_lines contents)" "leases \<noteq> [] \<longrightarrow> int (length leases) \<le> limit"
    using parse_lines_exact [OF p(1)] by (simp, blast)
  with p(2) assms(2) show ?thesis by (cases "leases = []") simp_all
qed

lemma bo_writes_total:
  "\<exists>b'. bo_writes vs b = Some b' \<and> (bo_exceeded b \<longrightarrow> bo_exceeded b') \<and>
     (\<not> bo_exceeded b' \<longrightarrow> bo_buffer b' = bo_buffer b @ concat vs)"
proof (induction vs arbitrary: b)
  case (Cons v vs)
  have "\<exists>b1. bo_Write v b = Some b1 \<and> (bo_exceeded b \<longrightarrow> bo_exceeded b1) \<and>
      (\<not> bo_exceeded b1 \<longrightarrow> bo_buffer b1 = bo_buffer b @ v)"
    by (simp add: bo_Write_def Let_def)
  then obtain b1 where "bo_Write v b = Some b1" "bo_exceeded b \<longrightarrow> bo_exceeded b1"
    "\<not> bo_exceeded b1 \<longrightarrow> bo_buffer b1 = bo_buffer b @ v" by blast
  with Cons.IH [of b1] show ?case by auto
qed simp

lemma bo_writes_exceeded:
  assumes "bo_writes vs b = Some b'" and "int (length (bo_buffer b)) \<le> bo_limit b"
  shows "bo_exceeded b' \<longleftrightarrow> bo_exceeded b \<or> bo_limit b < int (length (bo_buffer b)) + int (length (concat vs))"
  using assms
proof (induction vs arbitrary: b)
  case (Cons v vs)
  obtain b1 where b1: "bo_Write v b = Some b1" "bo_writes vs b1 = Some b'"
    using Cons.prems(1) by (auto split: option.splits)
  show ?case
  proof (cases "bo_limit b - int (length (bo_buffer b)) < int (length v)")
    case True
    then have "bo_exceeded b1" using b1(1) by (auto simp: bo_Write_def Let_def split: if_splits)
    with bo_writes_total [of vs b1] b1(2) have "bo_exceeded b'" by auto
    then show ?thesis using True by simp
  next
    case False
    then have "b1 = b\<lparr>bo_buffer := bo_buffer b @ v\<rparr>" using b1(1) by (simp add: bo_Write_def Let_def)
    with Cons.IH [OF b1(2)] False show ?thesis by auto
  qed
qed simp

lemma reachable_exact:
  "reachable chunks failed l = Some True \<longleftrightarrow>
     \<not> failed \<and> int (length (concat chunks)) \<le> maxARPOutput \<and> arpReplyMatches (concat chunks) (ls_mac l)"
proof -
  let ?b = "\<lparr>bo_buffer = [], bo_limit = maxARPOutput, bo_exceeded = False\<rparr>"
  obtain b' where b': "bo_writes chunks ?b = Some b'" "\<not> bo_exceeded b' \<longrightarrow> bo_buffer b' = concat chunks"
    using bo_writes_total [of chunks ?b] by auto
  have "0 \<le> maxARPOutput" by (simp add: maxARPOutput_def)
  with bo_writes_exceeded [OF b'(1)] have "bo_exceeded b' \<longleftrightarrow> maxARPOutput < int (length (concat chunks))" by simp
  with b' show ?thesis by (auto simp: reachable_def)
qed

text \<open>A client is reached only by a successful probe whose complete output has a reply from its address.\<close>

lemma reachable_sound:
  "reachable chunks failed l \<noteq> None \<and>
   (reachable chunks failed l = Some True \<longrightarrow> \<not> failed \<and> arpReplyMatches (concat chunks) (ls_mac l))"
  using bo_writes_total [of chunks "\<lparr>bo_buffer = [], bo_limit = maxARPOutput, bo_exceeded = False\<rparr>"]
  by (auto simp: reachable_def split: if_splits)

section \<open>A poll\<close>

definition answered :: "poll_input \<Rightarrow> lease list \<Rightarrow> nat \<Rightarrow> bool" where
  "answered a leases i \<longleftrightarrow> reachable (fst (pl_probe a i)) (snd (pl_probe a i)) (leases ! i) = Some True \<and> \<not> pl_late a i"

text \<open>The leases that are kept, by their places in the file.\<close>

lemma kept_leases_places:
  "kept_leases a leases = map ((!) leases) (filter (\<lambda>j. \<not> pl_hidden a j) [0..<length leases])"
proof -
  have "zip leases [0..<length leases] = map (\<lambda>j. (leases ! j, j)) [0..<length leases]"
    by (rule nth_equalityI) simp_all
  then show ?thesis by (simp add: kept_leases_def filter_map comp_def)
qed

lemma publish_results_clients:
  assumes "publish_results sink c a leases is clients s = (Inr clients', s')"
  shows "clients' = clients @ map (\<lambda>i. ls_mac (leases ! i)) (filter (answered a leases) is)"
  using assms
  by (induction sink c a leases "is" clients s rule: publish_results.induct)
     (auto simp: answered_def Let_def split: if_splits option.splits prod.splits)

lemma wired_snapshot_inv:
  assumes "wired_snapshot sink emsg c a s = Some (Inr at, s')" and "0 \<le> wc_MaxClients c"
    and "\<forall>n. mset (pl_arrival a n) = mset [0..<n]"
  obtains contents kept clients s1 where "pl_file a = Contents contents None"
    "kept = kept_leases a (List.map_filter (parse_lease \<circ> drop_cr) (scan_lines contents))"
    "set clients = {ls_mac (kept ! i) | i. i < length kept \<and> answered a kept i}"
    "at = pl_now a" "sk_ApplySnapshot sink \<lparr>os_Provider = wiredID, os_ReceivedAt = at,
       os_Stations = [(wc_Interface c, sort clients)]\<rparr> s1 = Some (None, s')"
    "publish_results sink c a kept (pl_arrival a (length kept)) [] s = (Inr clients, s1)"
    "int (length (List.map_filter (parse_lease \<circ> drop_cr) (scan_lines contents))) \<le> wc_MaxClients c"
proof -
  obtain contents readErr leases where f: "pl_file a = Contents contents readErr"
    "parseLeases (contents, readErr \<noteq> None) (wc_MaxClients c) = Inr leases"
    using assms(1) by (auto simp: wired_snapshot_def split: lease_file.splits sum.splits)
  let ?kept = "kept_leases a leases"
  obtain clients s1 where p: "publish_results sink c a ?kept (pl_arrival a (length ?kept)) [] s = (Inr clients, s1)"
    and ap: "at = pl_now a" "sk_ApplySnapshot sink \<lparr>os_Provider = wiredID, os_ReceivedAt = at,
       os_Stations = [(wc_Interface c, sort clients)]\<rparr> s1 = Some (None, s')"
    using assms(1) f by (auto simp: wired_snapshot_def Let_def split: sum.splits prod.splits option.splits)
  note l = parseLeases_exact [OF f(2) assms(2)]
  have "set (pl_arrival a n) = {0..<n}" for n
    using assms(3) by (metis atLeastLessThan_upt mset_eq_setD)
  then have "set clients = {ls_mac (?kept ! i) | i. i < length ?kept \<and> answered a ?kept i}"
    using publish_results_clients [OF p] by auto
  with f(1) p ap l show thesis by (intro that [of contents ?kept clients s1]) auto
qed

end
