(* ===== verification/Wired_Props.thy ===== *)
theory Wired_Props
  imports Wired_Provider WiFi_Associations
begin

text \<open>
  Properties of the Ethernet provider: what a poll reports, and that it never leaves clients present
  while it cannot probe them.
\<close>

context observation_sink
begin

lemma publish_inv: "inv s \<Longrightarrow> publishReachable sink c cid at s = (err, s') \<Longrightarrow> inv s'"
  unfolding publishReachable_def by (rule apply_inv)

lemma publish_results_inv:
  assumes "inv s" and "publish_results sink c a leases is clients s = (r, s')"
  shows "inv s'"
  using assms
proof (induction "is" arbitrary: clients s)
  case (Cons i "is")
  obtain err s1 where p: "publishReachable sink c (ls_mac (leases ! i)) (pl_done a i) s = (err, s1)" by fastforce
  have "inv s1" using publish_inv [OF Cons.prems(1) p] .
  then show ?case using Cons p by (auto simp: Let_def split: if_splits option.splits)
qed simp

lemma wired_snapshot_total:
  assumes "inv s"
  shows "\<exists>r s'. wired_snapshot sink emsg c a s = Some (r, s') \<and> inv s'"
proof (cases "pl_file a")
  case (OpenFails e)
  then show ?thesis using assms by (simp add: wired_snapshot_def)
next
  case (Contents contents readErr)
  show ?thesis
  proof (cases "parseLeases (contents, readErr \<noteq> None) (wc_MaxClients c)")
    case (Inl err)
    then show ?thesis using assms Contents by (simp add: wired_snapshot_def)
  next
    case (Inr leases)
    let ?k = "kept_leases a leases"
    obtain r s1 where p: "publish_results sink c a ?k (pl_arrival a (length ?k)) [] s = (r, s1)" by fastforce
    note s1 = publish_results_inv [OF assms p]
    show ?thesis
    proof (cases r)
      case (Inl err)
      then show ?thesis using Contents Inr p s1 by (simp add: wired_snapshot_def Let_def)
    next
      case Inr': (Inr clients)
      obtain err s2 where "sk_ApplySnapshot sink \<lparr>os_Provider = wiredID, os_ReceivedAt = pl_now a,
          os_Stations = [(wc_Interface c, sort clients)]\<rparr> s1 = Some (err, s2)" "inv s2"
        using snapshot_inv [OF s1] by blast
      then show ?thesis using Contents Inr Inr' p by (cases err) (simp_all add: wired_snapshot_def Let_def)
    qed
  qed
qed

text \<open>When the provider does not trust the neighbour events, no client is present on its word.\<close>

definition wired_ok :: "'s wired \<Rightarrow> bool" where
  "wired_ok w \<longleftrightarrow> inv (wd_sink w) \<and> (\<not> wd_reliable w \<longrightarrow> \<not> has_live (wd_sink w) wiredID)"

lemma wired_status_inv: "inv s \<Longrightarrow> inv (wired_status sink c st err at s)"
  by (simp add: wired_status_def status_inv)

lemma wired_poll_ok:
  assumes "inv (wd_sink w)"
  shows "\<exists>w'. wired_poll sink emsg c a w = Some w' \<and> wired_ok w'"
proof -
  obtain r s where s: "wired_snapshot sink emsg c a (wd_sink w) = Some (r, s)" "inv s"
    using wired_snapshot_total [OF assms] by blast
  have "\<not> has_live (wired_status sink c ''unavailable'' err 0 s) wiredID" for err
    using outage [OF s(2), of "\<lparr>ps_ID = wiredID, ps_Kind = ''ethernet'', ps_Status = ''unavailable'', ps_SnapshotSupported = True,
      ps_Sources = [wc_Interface c], ps_LastSnapshotAt = 0, ps_LastEventAt = 0, ps_LastError = err,
      ps_SnapshotSource = ''active-arp:dhcp-leases'', ps_EventSource = ''netlink:reachable,active-arp:reply''\<rparr>"]
    by (simp add: wired_status_def)
  then show ?thesis using s by (cases r) (simp_all add: wired_poll_def wired_ok_def wired_status_inv)
qed

lemma wired_inputs_ok:
  assumes "wired_ok w"
  shows "\<exists>w'. wired_inputs sink emsg c inputs w = Some w' \<and> inv (wd_sink w') \<and>
    (WiredDone \<notin> set inputs \<longrightarrow> wired_ok w')"
  using assms
proof (induction inputs arbitrary: w)
  case Nil
  then show ?case by (simp add: wired_ok_def)
next
  case (Cons i inputs)
  show ?case
  proof (cases i)
    case WiredDone
    then show ?thesis using Cons.prems by (simp add: wired_step_def wired_ok_def wired_status_inv)
  next
    case (NeighborSeen cid at excluded)
    have "wired_ok (on_neighbor sink c cid at excluded w)"
      using Cons.prems publish_inv [of "wd_sink w" c cid at]
      by (auto simp: on_neighbor_def wired_ok_def acceptNeighborEvent_def intro: surjective_pairing)
    from Cons.IH [OF this] NeighborSeen show ?thesis by (simp add: wired_step_def)
  next
    case (WiredTick a)
    obtain w1 where "wired_poll sink emsg c a w = Some w1" "wired_ok w1"
      using wired_poll_ok [of w emsg c a] Cons.prems by (auto simp: wired_ok_def)
    with Cons.IH [of w1] WiredTick show ?thesis by (simp add: wired_step_def)
  qed
qed

lemma wired_Run_ok:
  assumes "inv s"
  shows "\<exists>w. wired_Run sink emsg c a inputs s = Some w \<and> inv (wd_sink w) \<and> (WiredDone \<notin> set inputs \<longrightarrow> wired_ok w)"
proof -
  let ?w = "\<lparr>wd_sink = wired_status sink c ''initializing'' [] 0 s, wd_reliable = False, wd_lastSnapshot = 0\<rparr>"
  obtain w1 where "wired_poll sink emsg c a ?w = Some w1" "wired_ok w1"
    using wired_poll_ok [of ?w emsg c a] wired_status_inv [OF assms] by auto
  with wired_inputs_ok [OF this(2)] show ?thesis by (simp add: wired_Run_def)
qed

text \<open>A failed poll, and what follows it until the next one.\<close>

lemma wired_poll_failed:
  assumes "inv (wd_sink w)" and "wired_snapshot sink emsg c a (wd_sink w) = Some (Inl err, s)"
  shows "\<exists>w'. wired_poll sink emsg c a w = Some w' \<and> \<not> wd_reliable w' \<and> \<not> has_live (wd_sink w') wiredID"
proof -
  obtain w' where w': "wired_poll sink emsg c a w = Some w'" "wired_ok w'" using wired_poll_ok [OF assms(1)] by blast
  then have "\<not> wd_reliable w'" using assms(2) by (auto simp: wired_poll_def)
  with w' show ?thesis by (auto simp: wired_ok_def)
qed

lemma wired_deaf:
  assumes "\<not> wd_reliable w" and "WiredDone \<notin> set inputs" and "\<forall>d. WiredTick d \<notin> set inputs"
  shows "wired_inputs sink emsg c inputs w = Some w"
  using assms(2,3)
proof (induction inputs)
  case (Cons i inputs)
  then obtain cid at excluded where "i = NeighborSeen cid at excluded" by (cases i) auto
  with Cons assms(1) show ?case by (simp add: wired_step_def on_neighbor_def acceptNeighborEvent_def)
qed simp

lemma wired_inputs_append:
  "WiredDone \<notin> set is \<Longrightarrow> wired_inputs sink emsg c (is @ js) w = Option.bind (wired_inputs sink emsg c is w) (wired_inputs sink emsg c js)"
proof (induction "is" arbitrary: w)
  case (Cons i "is")
  then show ?case by (cases i) (auto simp: wired_step_def split: option.splits)
qed simp

lemma wired_failed_last:
  assumes "inv s" and "WiredDone \<notin> set (before @ post)" and "\<forall>d. WiredTick d \<notin> set post"
    and "wired_Run sink emsg c a before s = Some v" and "wired_snapshot sink emsg c b (wd_sink v) = Some (Inl err, s')"
    and "wired_Run sink emsg c a (before @ WiredTick b # post) s = Some w"
  shows "\<not> has_live (wd_sink w) wiredID"
proof -
  let ?w0 = "\<lparr>wd_sink = wired_status sink c ''initializing'' [] 0 s, wd_reliable = False, wd_lastSnapshot = 0\<rparr>"
  obtain w1 where w1: "wired_poll sink emsg c a ?w0 = Some w1" "wired_inputs sink emsg c before w1 = Some v"
    using assms(4) by (auto simp: wired_Run_def split: option.splits)
  have "inv (wd_sink v)" using wired_Run_ok [OF assms(1), of emsg c a before] assms(4) by auto
  from wired_poll_failed [OF this assms(5)] obtain w' where
    w': "wired_poll sink emsg c b v = Some w'" "\<not> wd_reliable w'" "\<not> has_live (wd_sink w') wiredID" by blast
  have "WiredDone \<notin> set post" "WiredDone \<notin> set before" using assms(2) by auto
  then have "wired_inputs sink emsg c (before @ WiredTick b # post) w1 = Some w'"
    using wired_deaf [OF w'(2) _ assms(3), of emsg c] w1(2) w'(1) by (simp add: wired_inputs_append wired_step_def)
  then have "w = w'" using assms(6) w1(1) by (simp add: wired_Run_def)
  with w'(3) show ?thesis by simp
qed

lemma wired_failed_first:
  assumes "inv s" and "WiredDone \<notin> set inputs" and "\<forall>d. WiredTick d \<notin> set inputs"
    and "wired_snapshot sink emsg c a (wired_status sink c ''initializing'' [] 0 s) = Some (Inl err, s')"
    and "wired_Run sink emsg c a inputs s = Some w"
  shows "\<not> has_live (wd_sink w) wiredID"
proof -
  let ?w0 = "\<lparr>wd_sink = wired_status sink c ''initializing'' [] 0 s, wd_reliable = False, wd_lastSnapshot = 0\<rparr>"
  obtain w' where w': "wired_poll sink emsg c a ?w0 = Some w'" "\<not> wd_reliable w'" "\<not> has_live (wd_sink w') wiredID"
    using wired_poll_failed [of ?w0 emsg c a err s'] wired_status_inv [OF assms(1)] assms(4) by auto
  then have "w = w'" using assms(5) wired_deaf [OF w'(2) assms(2,3), of emsg c] by (simp add: wired_Run_def)
  with w'(3) show ?thesis by simp
qed

text \<open>Every client a successful poll reports is one the sink vouches for.\<close>

lemma wired_snapshot_vouches:
  assumes "inv s" and "wired_snapshot sink emsg c a s = Some (Inr at, s')" and "0 \<le> wc_MaxClients c"
    and "\<forall>n. mset (pl_arrival a n) = mset [0..<n]"
  obtains contents kept where "pl_file a = Contents contents None"
    "kept = kept_leases a (List.map_filter (parse_lease \<circ> drop_cr) (scan_lines contents))"
    "\<forall>i < length kept. answered a kept i \<longrightarrow> vouches s' wiredID (wc_Interface c) (ls_mac (kept ! i))"
proof -
  obtain contents kept clients s1 where w: "pl_file a = Contents contents None"
    "kept = kept_leases a (List.map_filter (parse_lease \<circ> drop_cr) (scan_lines contents))"
    "set clients = {ls_mac (kept ! i) | i. i < length kept \<and> answered a kept i}"
    "at = pl_now a" "sk_ApplySnapshot sink \<lparr>os_Provider = wiredID, os_ReceivedAt = at,
       os_Stations = [(wc_Interface c, sort clients)]\<rparr> s1 = Some (None, s')"
    "publish_results sink c a kept (pl_arrival a (length kept)) [] s = (Inr clients, s1)"
    "int (length (List.map_filter (parse_lease \<circ> drop_cr) (scan_lines contents))) \<le> wc_MaxClients c"
    using wired_snapshot_inv [OF assms(2-4)] .
  have "vouches s' wiredID (wc_Interface c) k" if "k \<in> set clients" for k
    using snapshot_vouches [OF publish_results_inv [OF assms(1) w(6)] w(5), of "wc_Interface c" "sort clients" k] that by simp
  with w show thesis by (intro that [of contents kept]) auto
qed

end

section \<open>The provider in front of the engine\<close>

text \<open>Reports of reachable clients leave the providers and the grace alone.\<close>

lemma Associate_frame:
  "Associate env p src cid at reason e = (err, e') \<Longrightarrow> e_providers e' = e_providers e \<and> e_reconnectGrace e' = e_reconnectGrace e"
proof -
  have a: "e_providers (associate_client env p src cid at reason c e) = e_providers e"
    "e_reconnectGrace (associate_client env p src cid at reason c e) = e_reconnectGrace e" for c e
    by (simp_all add: associate_client_def Let_def)
  have "e_providers e1 = e_providers e \<and> e_reconnectGrace e1 = e_reconnectGrace e"
    if "evictOldestNonPresentLocked env [] e = (ok, e1)" for ok e1
    using that by (auto simp: evictOldestNonPresentLocked_def split: option.splits)
  then show "Associate env p src cid at reason e = (err, e') \<Longrightarrow> ?thesis"
    using a by (auto simp: Associate_def split: option.splits if_splits prod.splits bool.splits)
qed

lemma publish_results_no_hold:
  assumes "publish_results (engine_sink env) c a leases is clients e = (r, e')" and "no_hold p e"
  shows "no_hold p e'"
  using assms
proof (induction "is" arbitrary: clients e)
  case (Cons i "is")
  obtain err e1 where p: "publishReachable (engine_sink env) c (ls_mac (leases ! i)) (pl_done a i) e = (err, e1)" by fastforce
  then have "e_providers e1 = e_providers e \<and> e_reconnectGrace e1 = e_reconnectGrace e"
    by (auto simp: publishReachable_def engine_sink_def Apply_def dest: Associate_frame)
  then have "no_hold p e1" using Cons.prems(2) no_hold_frame by blast
  then show ?case using Cons p by (auto simp: Let_def split: if_splits option.splits)
qed simp

text \<open>After a snapshot of one source a provider has connections of the listed clients only.\<close>

lemma snapshot_only_listed:
  assumes "good_env env" and "engine_reach e1" and "no_hold p e1"
    and "Reconcile env p [(src, sort clients)] at e1 = Some (None, e')"
    and n: "conns e' k j = Some n" "conn_Provider n = p"
  shows "k \<in> set clients"
proof (rule ccontr)
  assume k: "k \<notin> set clients"
  have l: "listed [(src, sort clients)] k s \<longleftrightarrow> s = src \<and> k \<in> set clients" for s by (auto simp: listed_def)
  obtain c' where "map_of (e_clients e') k = Some c'" using n(1) by (auto simp: conns_def split: option.splits)
  then have "resynced p at (listed [(src, sort clients)] k) (conns e1 k) (conns e' k)"
    using Reconcile_exact [OF assms(1-4)] by blast
  then have "conns e' k j = prune p (listed [(src, sort clients)] k) (conns e1 k j)"
    using k by (simp add: resynced_def l)
  then show False using n k by (auto simp: prune_def l split: option.splits if_splits)
qed

text \<open>
  The \<open>i\<close>-th probe reached its client: it ended well, what it wrote fits into the limit and has a reply
  from the leased hardware address, and the Wi-Fi mirror did not claim the client after it.
\<close>

definition probed :: "poll_input \<Rightarrow> nat \<Rightarrow> string \<Rightarrow> bool" where
  "probed a i mac \<longleftrightarrow> \<not> snd (pl_probe a i) \<and> int (length (concat (fst (pl_probe a i)))) \<le> 65536 \<and>
     arpReplyMatches (concat (fst (pl_probe a i))) mac \<and> \<not> pl_late a i"

text \<open>
  C29. A poll tells the truth.  When it succeeds, the leases of the file, all of them and no more than the
  limit, are probed except those whose client the Wi-Fi mirror claims, in the order of the file; and the
  clients that the engine knows over Ethernet are exactly those probed whose probe ended well with a reply
  from the leased hardware address, and that the mirror did not claim after the probe either; the
  others have no Ethernet connection left.
\<close>

theorem wired_poll_exact:
  assumes "good_env env" and "engine_reach e" and "no_hold wiredID e" and "0 \<le> wc_MaxClients c"
    and "\<forall>n. mset (pl_arrival a n) = mset [0..<n]"
    and "wired_snapshot (engine_sink env) emsg c a e = Some (Inr at, e')"
  shows "\<exists>contents leases js. pl_file a = Contents contents None \<and>
    leases = List.map_filter (parse_lease \<circ> drop_cr) (scan_lines contents) \<and> int (length leases) \<le> wc_MaxClients c \<and>
    sorted_wrt (<) js \<and> set js = {j. j < length leases \<and> \<not> pl_hidden a j} \<and>
    (\<forall>i < length js. probed a i (ls_mac (leases ! (js ! i))) \<longrightarrow>
       engine_vouches e' wiredID (wc_Interface c) (ls_mac (leases ! (js ! i)))) \<and>
    (\<forall>k j n. conns e' k j = Some n \<and> conn_Provider n = wiredID \<longrightarrow>
       (\<exists>i < length js. probed a i k \<and> k = ls_mac (leases ! (js ! i))))"
proof -
  have inv: "good_env env \<and> engine_reach e" using assms(1,2) ..
  obtain contents kept clients e1 where w: "pl_file a = Contents contents None"
    "kept = kept_leases a (List.map_filter (parse_lease \<circ> drop_cr) (scan_lines contents))"
    "set clients = {ls_mac (kept ! i) | i. i < length kept \<and> answered a kept i}"
    "at = pl_now a" "sk_ApplySnapshot (engine_sink env) \<lparr>os_Provider = wiredID, os_ReceivedAt = at,
       os_Stations = [(wc_Interface c, sort clients)]\<rparr> e1 = Some (None, e')"
    "publish_results (engine_sink env) c a kept (pl_arrival a (length kept)) [] e = (Inr clients, e1)"
    "int (length (List.map_filter (parse_lease \<circ> drop_cr) (scan_lines contents))) \<le> wc_MaxClients c"
    using wired_snapshot_inv [OF assms(6,4,5)] .
  have r: "Reconcile env wiredID [(wc_Interface c, sort clients)] at e1 = Some (None, e')"
    using w(5) by (simp add: engine_sink_def ApplySnapshot_def)
  have e1: "engine_reach e1" using engine_sink.publish_results_inv [OF inv w(6)] by blast
  note only = snapshot_only_listed [OF assms(1) e1 publish_results_no_hold [OF w(6) assms(3)] r]
  have all: "engine_vouches e' wiredID (wc_Interface c) k" if "k \<in> set clients" for k
    using engine_sink.snapshot_vouches [OF _ w(5), of "wc_Interface c" "sort clients" k] e1 assms(1) that by simp
  define leases where "leases = List.map_filter (parse_lease \<circ> drop_cr) (scan_lines contents)"
  define js where "js = filter (\<lambda>j. \<not> pl_hidden a j) [0..<length leases]"
  have kept: "kept = map ((!) leases) js" using w(2) by (simp add: kept_leases_places leases_def js_def)
  have limit: "int (length leases) \<le> wc_MaxClients c" using w(7) by (simp add: leases_def)
  have js: "sorted_wrt (<) js" "set js = {j. j < length leases \<and> \<not> pl_hidden a j}"
    by (auto simp: js_def sorted_wrt_filter)
  have probed: "answered a kept i \<longleftrightarrow> probed a i (ls_mac (kept ! i))" for i
    by (simp add: answered_def probed_def reachable_exact maxARPOutput_def)
  have mem: "k \<in> set clients \<longleftrightarrow> (\<exists>i < length kept. answered a kept i \<and> k = ls_mac (kept ! i))" for k
    unfolding w(3) by blast
  have n: "length kept = length js" "i < length js \<Longrightarrow> kept ! i = leases ! (js ! i)" for i by (simp_all add: kept)
  show ?thesis
    unfolding leases_def [symmetric]
    by (intro exI [of _ contents] exI [of _ leases] exI [of _ js] conjI w(1) leases_def limit js)
      (use all only mem probed n in metis)+
qed

text \<open>
  C30. The Ethernet provider is never blind: for any lease files, probes, neighbour events and failures,
  every step completes and keeps the engine in a state it can reach; and when the last poll of a run,
  or the first one if there was no other, has failed, then no client counts as present on the word of
  this provider, whatever neighbour events came after it.
\<close>

theorem wired_never_blind:
  assumes "good_env env" and "engine_reach e" and "WiredDone \<notin> set inputs"
  shows "\<exists>w. wired_Run (engine_sink env) emsg c a inputs e = Some w \<and> engine_reach (wd_sink w) \<and>
    ((\<exists>before b post v err s. inputs = before @ WiredTick b # post \<and> (\<forall>d. WiredTick d \<notin> set post) \<and>
        wired_Run (engine_sink env) emsg c a before e = Some v \<and>
        wired_snapshot (engine_sink env) emsg c b (wd_sink v) = Some (Inl err, s)) \<or>
     (\<forall>d. WiredTick d \<notin> set inputs) \<and>
       (\<exists>err s. wired_snapshot (engine_sink env) emsg c a (wired_status (engine_sink env) c ''initializing'' [] 0 e) =
          Some (Inl err, s)) \<longrightarrow>
     (\<forall>k i n. conns (wd_sink w) k i = Some n \<and> conn_Provider n = wiredID \<longrightarrow> conn_Stale n))"
proof -
  have inv: "good_env env \<and> engine_reach e" using assms(1,2) ..
  obtain w where w: "wired_Run (engine_sink env) emsg c a inputs e = Some w" "engine_reach (wd_sink w)"
    using engine_sink.wired_Run_ok [OF inv, of emsg c a inputs] by auto
  have "\<not> engine_has_live (wd_sink w) wiredID"
    if "inputs = before @ WiredTick b # post" "\<forall>d. WiredTick d \<notin> set post"
      "wired_Run (engine_sink env) emsg c a before e = Some v"
      "wired_snapshot (engine_sink env) emsg c b (wd_sink v) = Some (Inl err, s)" for before b post v err s
    using engine_sink.wired_failed_last [OF inv _ that(2-4) w(1) [unfolded that(1)]] assms(3) that(1) by simp
  moreover have "\<not> engine_has_live (wd_sink w) wiredID"
    if "\<forall>d. WiredTick d \<notin> set inputs"
      "wired_snapshot (engine_sink env) emsg c a (wired_status (engine_sink env) c ''initializing'' [] 0 e) = Some (Inl err, s)" for err s
    by (rule engine_sink.wired_failed_first [OF inv assms(3) that w(1)])
  ultimately have silent: "(\<exists>before b post v err s. inputs = before @ WiredTick b # post \<and> (\<forall>d. WiredTick d \<notin> set post) \<and>
        wired_Run (engine_sink env) emsg c a before e = Some v \<and>
        wired_snapshot (engine_sink env) emsg c b (wd_sink v) = Some (Inl err, s)) \<or>
     (\<forall>d. WiredTick d \<notin> set inputs) \<and>
       (\<exists>err s. wired_snapshot (engine_sink env) emsg c a (wired_status (engine_sink env) c ''initializing'' [] 0 e) =
          Some (Inl err, s)) \<longrightarrow> \<not> engine_has_live (wd_sink w) wiredID"
    by blast
  show ?thesis
    by (intro exI [of _ w] conjI w) (use silent in \<open>auto simp: engine_has_live_def\<close>)
qed

definition demo_poll :: poll_input where
  "demo_poll = \<lparr>pl_file = Contents ''1 AA:BB:CC:00:11:22 10.0.0.7 host *'' None, pl_hidden = (\<lambda>_. False),
     pl_probe = (\<lambda>_. ([''Unicast reply from 10.0.0.7 [aa:bb:cc:00:11:22]''], False)), pl_done = (\<lambda>_. 3),
     pl_late = (\<lambda>_. False), pl_arrival = (\<lambda>n. [0..<n]), pl_now = 4\<rparr>"

definition demo_wired :: wired_config where
  "demo_wired = \<lparr>wc_Interface = ''br-lan'', wc_MaxClients = 4\<rparr>"

theorem wired_never_blind_witness:
  "\<exists>w. wired_Run (engine_sink demo_env) (\<lambda>_. ''limit'') demo_wired demo_poll
        [WiredTick (demo_poll\<lparr>pl_file := OpenFails ''missing''\<rparr>), NeighborSeen ''mac:aa:bb:cc:00:11:22'' 9 False] (demo_engine 0) = Some w \<and>
     (\<forall>k i n. conns (wd_sink w) k i = Some n \<and> conn_Provider n = wiredID \<longrightarrow> conn_Stale n)"
proof -
  let ?b = "demo_poll\<lparr>pl_file := OpenFails ''missing''\<rparr>" and ?post = "[NeighborSeen ''mac:aa:bb:cc:00:11:22'' 9 False]"
  have "WiredDone \<notin> set (WiredTick ?b # ?post)" by simp
  note t = wired_never_blind [OF demo_env_good demo_engine_reach this, of "\<lambda>_. ''limit''" demo_wired demo_poll 0]
  have "WiredDone \<notin> set []" by simp
  from wired_never_blind [OF demo_env_good demo_engine_reach this] obtain v where
    v: "wired_Run (engine_sink demo_env) (\<lambda>_. ''limit'') demo_wired demo_poll [] (demo_engine 0) = Some v" by blast
  have "wired_snapshot (engine_sink demo_env) (\<lambda>_. ''limit'') demo_wired ?b (wd_sink v) =
      Some (Inl ''open DHCP leases: missing'', wd_sink v)" by (simp add: wired_snapshot_def)
  then have "\<exists>before b post v err s. WiredTick ?b # ?post = before @ WiredTick b # post \<and> (\<forall>d. WiredTick d \<notin> set post) \<and>
      wired_Run (engine_sink demo_env) (\<lambda>_. ''limit'') demo_wired demo_poll before (demo_engine 0) = Some v \<and>
      wired_snapshot (engine_sink demo_env) (\<lambda>_. ''limit'') demo_wired b (wd_sink v) = Some (Inl err, s)"
    using v by (intro exI [of _ "[]"] exI [of _ ?b] exI [of _ ?post] exI [of _ v] exI conjI) simp_all
  note last = mp [OF _ disjI1 [OF this]]
  from t show ?thesis
    by (elim exE conjE) (drule last, intro exI conjI)
qed

theorem wired_poll_exact_witness:
  "\<exists>e'. wired_snapshot (engine_sink demo_env) (\<lambda>_. ''limit'') demo_wired demo_poll (demo_engine 0) = Some (Inr 4, e') \<and>
     (\<forall>k j n. conns e' k j = Some n \<and> conn_Provider n = wiredID \<longrightarrow> k = ''mac:aa:bb:cc:00:11:22'')"
proof -
  let ?s = "wired_snapshot (engine_sink demo_env) (\<lambda>_. ''limit'') demo_wired demo_poll (demo_engine 0)"
  have "map_option fst ?s = Some (Inr 4)" by code_simp
  then obtain e' where s: "?s = Some (Inr 4, e')" by auto
  have g: "e_reconnectGrace (demo_engine 0) = 0" by code_simp
  have h: "no_hold wiredID (demo_engine 0)" "0 \<le> wc_MaxClients demo_wired"
    "\<forall>n. mset (pl_arrival demo_poll n) = mset [0..<n]"
    by (simp_all add: no_hold_def g demo_wired_def demo_poll_def)
  have f: "List.map_filter (parse_lease \<circ> drop_cr) (scan_lines ''1 AA:BB:CC:00:11:22 10.0.0.7 host *'') =
      [\<lparr>ls_mac = ''mac:aa:bb:cc:00:11:22'', ls_ip = ''10.0.0.7''\<rparr>]" by code_simp
  have p: "pl_file demo_poll = Contents ''1 AA:BB:CC:00:11:22 10.0.0.7 host *'' None" by (simp add: demo_poll_def)
  from wired_poll_exact [OF demo_env_good demo_engine_reach h s] obtain contents leases js where
    w: "pl_file demo_poll = Contents contents None"
      "leases = List.map_filter (parse_lease \<circ> drop_cr) (scan_lines contents)"
      "set js = {j. j < length leases \<and> \<not> pl_hidden demo_poll j}"
      "\<forall>k j n. conns e' k j = Some n \<and> conn_Provider n = wiredID \<longrightarrow>
         (\<exists>i < length js. probed demo_poll i k \<and> k = ls_mac (leases ! (js ! i)))" by blast
  have l: "leases = [\<lparr>ls_mac = ''mac:aa:bb:cc:00:11:22'', ls_ip = ''10.0.0.7''\<rparr>]" using w(1,2) p f by simp
  have one: "ls_mac (leases ! (js ! i)) = ''mac:aa:bb:cc:00:11:22''" if "i < length js" for i
    using nth_mem [OF that] w(3) by (simp add: l)
  have "k = ''mac:aa:bb:cc:00:11:22''" if n: "conns e' k j = Some n" "conn_Provider n = wiredID" for k j n
  proof -
    obtain i where i: "i < length js" "k = ls_mac (leases ! (js ! i))" using w(4) n by blast
    show ?thesis unfolding i(2) by (rule one [OF i(1)])
  qed
  with s show ?thesis by (intro exI [of _ e'] conjI allI impI) auto
qed

end
