(* ===== verification/Api_WebSocket.thy ===== *)
theory Api_WebSocket
  imports Go_Net
begin

text \<open>
  \<^verbatim>\<open>internal/api/websocket.go\<close>: the upgrade of a request, the frames that the server writes, and the
  goroutine that reads the client's frames.
\<close>

section \<open>Base 64\<close>

definition b64_val :: "char \<Rightarrow> nat option" where
  "b64_val c =
     (let n = (of_char c :: nat) in
      if 0x41 \<le> n \<and> n \<le> 0x5A then Some (n - 0x41)
      else if 0x61 \<le> n \<and> n \<le> 0x7A then Some (n - 0x61 + 26)
      else if 0x30 \<le> n \<and> n \<le> 0x39 then Some (n - 0x30 + 52)
      else if c = CHR ''+'' then Some 62
      else if c = CHR 0x2F then Some 63
      else None)"

fun b64_groups :: "string \<Rightarrow> byte list option" where
  "b64_groups [] = Some []"
| "b64_groups (a # b # c # d # rest) =
     (case (b64_val a, b64_val b) of
        (Some w, Some x) \<Rightarrow>
          if c = CHR ''='' \<and> d = CHR ''='' \<and> rest = [] then Some [of_nat (w * 4 + x div 16)]
          else (case b64_val c of
                  None \<Rightarrow> None
                | Some y \<Rightarrow>
                    if d = CHR ''='' \<and> rest = []
                    then Some [of_nat (w * 4 + x div 16), of_nat (x mod 16 * 16 + y div 4)]
                    else (case b64_val d of
                            None \<Rightarrow> None
                          | Some z \<Rightarrow>
                              map_option (append [of_nat (w * 4 + x div 16), of_nat (x mod 16 * 16 + y div 4),
                                                  of_nat (y mod 4 * 64 + z)]) (b64_groups rest)))
      | _ \<Rightarrow> None)"
| "b64_groups _ = None"

text \<open>\<^verbatim>\<open>base64.StdEncoding.DecodeString\<close>, which skips line breaks.\<close>

definition b64_decode :: "string \<Rightarrow> byte list option" where
  "b64_decode s = b64_groups (filter (\<lambda>c. c \<noteq> CHR 0x0D \<and> c \<noteq> CHR 0x0A) s)"

definition b64_char :: "nat \<Rightarrow> char" where
  "b64_char n = (''ABCDEFGHIJKLMNOPQRSTUVWXYZabcdefghijklmnopqrstuvwxyz0123456789+/'' ! n)"

fun b64_encode :: "byte list \<Rightarrow> string" where
  "b64_encode [] = []"
| "b64_encode [a] = [b64_char (unat a div 4), b64_char (unat a mod 4 * 16), CHR ''='', CHR ''='']"
| "b64_encode [a, b] =
     [b64_char (unat a div 4), b64_char (unat a mod 4 * 16 + unat b div 16), b64_char (unat b mod 16 * 4), CHR ''='']"
| "b64_encode (a # b # c # rest) =
     [b64_char (unat a div 4), b64_char (unat a mod 4 * 16 + unat b div 16),
      b64_char (unat b mod 16 * 4 + unat c div 64), b64_char (unat c mod 64)] @ b64_encode rest"

section \<open>The upgrade\<close>

text \<open>The headers of a request, under their canonical names.\<close>

type_synonym http_header = "(string, string list) gomap"

definition header_values :: "http_header \<Rightarrow> string \<Rightarrow> string list" where
  "header_values h name = (case map_of h name of None \<Rightarrow> [] | Some vs \<Rightarrow> vs)"

definition header_get :: "http_header \<Rightarrow> string \<Rightarrow> string" where
  "header_get h name = (case header_values h name of [] \<Rightarrow> [] | v # _ \<Rightarrow> v)"

definition headerContains :: "http_header \<Rightarrow> string \<Rightarrow> string \<Rightarrow> bool" where
  "headerContains h name value =
     list_ex (\<lambda>line. list_ex (\<lambda>part. EqualFold (TrimSpace part) value) (Split line (CHR '',''))) (header_values h name)"

definition websocketGUID :: string where
  "websocketGUID = ''258EAFA5-E914-47DA-95CA-C5AB0DC85B11''"

datatype upgrade_err = InvalidUpgrade | InvalidKey | Unsupported | HijackFailed | HandshakeFailed

text \<open>
  \<open>sha1\<close> is the hash function of the standard library; \<open>hijack\<close> is \<open>None\<close> when the connection cannot be
  taken over, and otherwise whether that worked; \<open>ok\<close> is the success of writing the response.
\<close>

definition websocketUpgrade ::
    "(byte list \<Rightarrow> byte list) \<Rightarrow> string \<Rightarrow> http_header \<Rightarrow> bool option \<Rightarrow> bool \<Rightarrow> upgrade_err + string" where
  "websocketUpgrade sha1 method h hijack ok =
     (if method \<noteq> ''GET'' \<or> \<not> headerContains h ''Connection'' ''upgrade'' \<or>
         \<not> EqualFold (header_get h ''Upgrade'') ''websocket'' \<or>
         header_get h ''Sec-Websocket-Version'' \<noteq> ''13''
      then Inl InvalidUpgrade
      else
        let key = TrimSpace (header_get h ''Sec-Websocket-Key'') in
        (case b64_decode key of
           None \<Rightarrow> Inl InvalidKey
         | Some decoded \<Rightarrow>
             if length decoded \<noteq> 16 then Inl InvalidKey
             else (case hijack of
                     None \<Rightarrow> Inl Unsupported
                   | Some False \<Rightarrow> Inl HijackFailed
                   | Some True \<Rightarrow>
                       let accept = b64_encode (sha1 (bytes_of (key @ websocketGUID))) in
                       if \<not> ok then Inl HandshakeFailed
                       else Inr (''HTTP/1.1 101 Switching Protocols'' @ [CHR 0x0D, CHR 0x0A] @
                                 ''Upgrade: websocket'' @ [CHR 0x0D, CHR 0x0A] @
                                 ''Connection: Upgrade'' @ [CHR 0x0D, CHR 0x0A] @
                                 ''Sec-WebSocket-Accept: '' @ accept @ [CHR 0x0D, CHR 0x0A, CHR 0x0D, CHR 0x0A]))))"

section \<open>Frames\<close>

text \<open>The bytes that \<^verbatim>\<open>writeFrame\<close> writes.\<close>

definition writeFrame :: "byte \<Rightarrow> byte list \<Rightarrow> byte list" where
  "writeFrame opcode payload =
     (let n = int (length payload);
          size = (if n \<le> 125 then [of_int n]
                  else if n \<le> 65535 then [126, of_int (n div 256), of_int n]
                  else [127] @ AppendUint64 (of_int n))
      in [0x80 OR opcode] @ size @ payload)"

text \<open>
  One turn of the loop of \<^verbatim>\<open>monitorClientFramesWithControl\<close>, on the bytes that the client has sent:
  \<open>None\<close> is the return, otherwise the opcode, the unmasked payload and the remaining bytes.  An end of
  the input is the error of \<^verbatim>\<open>io.ReadFull\<close>.
\<close>

definition ReadFull :: "nat \<Rightarrow> byte list \<Rightarrow> (byte list \<times> byte list) option" where
  "ReadFull n bs = (if length bs < n then None else Some (take n bs, drop n bs))"

definition unmask :: "byte list \<Rightarrow> byte list \<Rightarrow> byte list" where
  "unmask mkey payload = map (\<lambda>(b, i). b XOR mkey ! (i mod 4)) (zip payload [0..<length payload])"

definition frame_length :: "byte \<Rightarrow> byte list \<Rightarrow> (64 word \<times> byte list) option" where
  "frame_length b bs =
     (let len = b AND 0x7f in
      if len = 126
      then (case ReadFull 2 bs of None \<Rightarrow> None | Some (raw, rest) \<Rightarrow> Some (ucast (Uint16 True raw), rest))
      else if len = 127
      then (case ReadFull 8 bs of None \<Rightarrow> None | Some (raw, rest) \<Rightarrow> Some (Uint64 raw, rest))
      else Some (ucast len, bs))"

definition read_client_frame :: "int \<Rightarrow> byte list \<Rightarrow> (byte \<times> byte list \<times> byte list) option" where
  "read_client_frame maxPayload bs =
     (case ReadFull 2 bs of
        None \<Rightarrow> None
      | Some (hdr, r1) \<Rightarrow>
          if hdr ! 0 AND 0x70 \<noteq> 0 \<or> hdr ! 0 AND 0x80 = 0 \<or> hdr ! 1 AND 0x80 = 0 then None
          else
            (case frame_length (hdr ! 1) r1 of
               None \<Rightarrow> None
             | Some (len, r2) \<Rightarrow>
                 if uint len > maxPayload then None
                 else (case ReadFull 4 r2 of
                         None \<Rightarrow> None
                       | Some (mkey, r3) \<Rightarrow>
                           (case ReadFull (unat len) r3 of
                              None \<Rightarrow> None
                            | Some (payload, r4) \<Rightarrow> Some (hdr ! 0 AND 0x0f, unmask mkey payload, r4)))))"

lemma read_client_frame_shorter [termination_simp]:
  "read_client_frame maxPayload bs = Some (opcode, payload, rest) \<Longrightarrow> length rest < length bs"
  by (auto simp: read_client_frame_def frame_length_def ReadFull_def Let_def split: if_splits option.splits)

text \<open>
  The whole loop: \<open>room n\<close> says whether the queue of controls takes the \<open>n\<close>-th of them; the result is the
  controls that were queued.
\<close>

function monitor_frames :: "int \<Rightarrow> (nat \<Rightarrow> bool) \<Rightarrow> nat \<Rightarrow> byte list \<Rightarrow> (byte \<times> byte list) list" where
  "monitor_frames maxPayload room n bs =
     (case read_client_frame maxPayload bs of
        None \<Rightarrow> []
      | Some (opcode, payload, rest) \<Rightarrow>
          if opcode = 0x8 then []
          else if opcode = 0x9
          then (if room n then (0xA, payload) # monitor_frames maxPayload room (n + 1) rest else [])
          else monitor_frames maxPayload room n rest)"
  by auto
termination by (relation "measure (\<lambda>(_, _, _, bs). length bs)") (auto simp: termination_simp)

declare monitor_frames.simps [simp del]

end
