(* ===== verification/Api_Frames.thy ===== *)
theory Api_Frames
  imports Api_WebSocket
begin

text \<open>The WebSocket frames against the base framing of RFC 6455.\<close>

section \<open>Specification of a frame\<close>

text \<open>
  A frame is a byte with flags and opcode, the length with the mask bit, the mask if there is one, and
  the payload.
\<close>

definition size_bytes :: "bool \<Rightarrow> int \<Rightarrow> byte list" where
  "size_bytes masked n =
     (let m = (if masked then 0x80 else 0) in
      if n \<le> 125 then [m OR of_int n]
      else if n \<le> 65535 then (m OR 126) # AppendUint16 True (of_int n)
      else (m OR 127) # AppendUint64 (of_int n))"

text \<open>Section 5.3: octet \<open>i\<close> is combined with octet \<open>i\<close> modulo 4 of the key, so the key turns with every octet.\<close>

fun rfc_mask :: "byte list \<Rightarrow> byte list \<Rightarrow> byte list" where
  "rfc_mask (k # key) (octet # octets) = (octet XOR k) # rfc_mask (key @ [k]) octets"
| "rfc_mask key octets = []"

definition rfc_frame :: "byte \<Rightarrow> byte list option \<Rightarrow> byte list \<Rightarrow> byte list" where
  "rfc_frame opcode key payload =
     [0x80 OR opcode] @ size_bytes (key \<noteq> None) (int (length payload)) @
     (case key of None \<Rightarrow> payload | Some k \<Rightarrow> k @ rfc_mask k payload)"

lemma high_byte:
  assumes "n \<le> 65535"
  shows "ucast (drop_bit 8 (of_nat n :: 16 word)) = (of_nat (n div 256) :: byte)"
proof -
  have "unat (of_nat n :: 16 word) = n" using assms by (simp add: unsigned_of_nat take_bit_eq_mod)
  then have "unat (drop_bit 8 (of_nat n :: 16 word)) = n div 256"
    using unat_drop_bit_eq [of 8 "of_nat n :: 16 word"] by (simp add: drop_bit_eq_div)
  then have "(of_nat (unat (drop_bit 8 (of_nat n :: 16 word))) :: byte) = of_nat (n div 256)" by simp
  then show ?thesis by (simp only: of_nat_unat)
qed

lemma writeFrame_rfc: "writeFrame opcode payload = rfc_frame opcode None payload"
proof -
  have "of_int (int n div 256) = (of_nat (n div 256) :: byte)" for n by (metis of_int_of_nat_eq of_nat_div of_nat_numeral)
  moreover have "(ucast (of_nat n :: 16 word) :: byte) = of_nat n" for n
    by (rule bit_word_eqI) (simp add: bit_simps)
  ultimately show ?thesis
    using high_byte [of "length payload"]
    by (simp add: writeFrame_def rfc_frame_def size_bytes_def AppendUint16_def Let_def)
qed

lemma rfc_mask_length: "key \<noteq> [] \<Longrightarrow> length (rfc_mask key payload) = length payload"
  by (induction key payload rule: rfc_mask.induct) auto

lemma rfc_mask_nth:
  "key \<noteq> [] \<Longrightarrow> i < length payload \<Longrightarrow> rfc_mask key payload ! i = payload ! i XOR key ! (i mod length key)"
proof (induction key payload arbitrary: i rule: rfc_mask.induct)
  case (1 k key octet octets)
  show ?case
  proof (cases i)
    case (Suc j)
    have "(key @ [k]) ! (j mod Suc (length key)) = (k # key) ! (Suc j mod Suc (length key))"
      by (auto simp: nth_append mod_Suc less_Suc_eq_le not_less nth_Cons' intro: antisym)
    then show ?thesis using 1 Suc by simp
  qed simp
qed simp_all

lemma rfc_mask_unmask: "length key = 4 \<Longrightarrow> rfc_mask key payload = unmask key payload"
proof (rule nth_equalityI)
  assume "length key = 4"
  then have "key \<noteq> []" by auto
  note f = rfc_mask_length [OF this] rfc_mask_nth [OF this]
  show "length (rfc_mask key payload) = length (unmask key payload)" by (simp add: f unmask_def)
  show "rfc_mask key payload ! i = unmask key payload ! i" if "i < length (rfc_mask key payload)" for i
    using that \<open>length key = 4\<close> by (simp add: f unmask_def)
qed

lemma unmask_twice: "length k = 4 \<Longrightarrow> unmask k (unmask k payload) = payload"
  by (rule nth_equalityI) (simp_all add: unmask_def xor.assoc)

text \<open>A statement on bytes below a bound is checked on each of them.\<close>

lemma small_bytes:
  assumes "unat (b :: byte) < n" and "list_all (\<lambda>k. P (of_nat k)) [0..<n]"
  shows "P b"
proof -
  have "P (of_nat (unat b))" using assms by (auto simp: list_all_iff simp del: of_nat_unat)
  then show ?thesis by simp
qed

lemma nibble_facts:
  assumes "unat (b :: byte) < 16"
  shows "(0x80 OR b) AND 0x70 = 0 \<and> (0x80 OR b) AND 0x80 \<noteq> 0 \<and> (0x80 OR b) AND 0x0f = b"
  by (rule small_bytes [OF assms]) code_simp

lemma masked_size:
  assumes "unat (b :: byte) < 128"
  shows "(0x80 OR b) AND 0x7f = b" and "(0x80 OR b) AND 0x80 \<noteq> 0"
proof -
  have "unat (take_bit 7 b) = unat b" 
    using assms by (simp only: unsigned_take_bit_eq) (simp add: take_bit_eq_mod)
  then have t: "take_bit 7 b = b" by (rule unsigned_word_eqI)
  have m: "(0x7f :: byte) = mask 7" by (simp add: mask_eq_exp_minus_1)
  have "(0x80 OR b) AND mask 7 = b"
    unfolding take_bit_eq_mask [symmetric] take_bit_or t by simp
  then show "(0x80 OR b) AND 0x7f = b" unfolding m .
  have "(0x80 OR b) AND 0x80 = 0x80" by (rule bit_word_eqI) (auto simp: bit_simps)
  then show "(0x80 OR b) AND 0x80 \<noteq> 0" by simp
qed

section \<open>Reading the client's frames\<close>

lemma read_client_frame_rfc:
  assumes "unat opcode < 16" and "length key = 4" and "int (length payload) \<le> maxPayload" and "maxPayload < 2 ^ 63"
  shows "read_client_frame maxPayload (rfc_frame opcode (Some key) payload @ rest) = Some (opcode, payload, rest)"
proof -
  let ?n = "int (length payload)"
  have size: "\<exists>b t len. size_bytes True ?n = b # t \<and> b AND 0x80 \<noteq> 0 \<and>
      (\<forall>tail. frame_length b (t @ tail) = Some (len, tail)) \<and> uint len = ?n"
  proof -
    consider "?n \<le> 125" | "125 < ?n" "?n \<le> 65535" | "65535 < ?n" by linarith
    then show ?thesis
    proof cases
      case 1
      then have u: "unat (of_nat (length payload) :: byte) = length payload" by (simp add: unsigned_of_nat take_bit_eq_mod)
      then have "unat (of_nat (length payload) :: byte) < 128" using 1 by simp
      note ms = masked_size [OF this]
      have "(of_nat (length payload) :: byte) \<noteq> 126" "(of_nat (length payload) :: byte) \<noteq> 127" using u 1 by auto
      moreover have "uint (ucast (of_nat (length payload) :: byte) :: 64 word) = ?n" using 1 by (simp add: unsigned_ucast_eq unsigned_of_nat take_bit_eq_mod)
      ultimately show ?thesis using 1 ms by (simp add: size_bytes_def frame_length_def Let_def)
    next
      case 2
      then have "uint (ucast (of_nat (length payload) :: 16 word) :: 64 word) = ?n"
        by (simp add: unsigned_ucast_eq unsigned_of_nat take_bit_eq_mod)
      then show ?thesis using 2 by (simp add: size_bytes_def frame_length_def Let_def ReadFull_def)
    next
      case 3
      then have "uint (of_nat (length payload) :: 64 word) = ?n"
        using assms(3,4) by (simp add: unsigned_of_nat take_bit_eq_mod)
      then show ?thesis using 3 by (simp add: size_bytes_def frame_length_def Let_def ReadFull_def)
    qed
  qed
  then obtain b t len where b: "size_bytes True ?n = b # t" "b AND 0x80 \<noteq> 0"
    "\<And>tail. frame_length b (t @ tail) = Some (len, tail)" "uint len = ?n" by blast
  have key: "rfc_mask key payload = unmask key payload" by (rule rfc_mask_unmask [OF assms(2)])
  have "unat len = length payload" using b(4) by (metis nat_int unat_eq_nat_uint)
  moreover have "length (unmask key payload) = length payload" by (simp add: unmask_def)
  ultimately show ?thesis
    using nibble_facts [OF assms(1)] b assms(2,3) unmask_twice [OF assms(2), of payload]
    by (simp add: read_client_frame_def rfc_frame_def ReadFull_def numeral_2_eq_2 key)
qed

text \<open>A frame that does not end the connection.\<close>

definition benign :: "int \<Rightarrow> byte \<times> byte list \<times> byte list \<Rightarrow> bool" where
  "benign maxPayload f =
     (case f of (opcode, key, payload) \<Rightarrow>
        unat opcode < 16 \<and> opcode \<noteq> 0x8 \<and> length key = 4 \<and> int (length payload) \<le> maxPayload)"

definition sent_by_client :: "byte \<times> byte list \<times> byte list \<Rightarrow> byte list" where
  "sent_by_client f = (case f of (opcode, key, payload) \<Rightarrow> rfc_frame opcode (Some key) payload)"

definition pongs :: "(byte \<times> byte list \<times> byte list) list \<Rightarrow> (byte \<times> byte list) list" where
  "pongs fs = map (\<lambda>(opcode, key, payload). (0xA, payload)) (filter (\<lambda>f. fst f = 0x9) fs)"

text \<open>
  C37. The frames follow the protocol.  Every frame that the server writes has the form that the standard
  prescribes, with the shortest length field; and of the frames that a client sends, whatever their
  masks and contents, every ping within the size limit is answered by a pong with the same payload, in
  order, as long as the queue has room, and all others are skipped.
\<close>

theorem websocket_frames:
  assumes "list_all (benign maxPayload) fs" and "maxPayload < 2 ^ 63" and "\<forall>i. room i"
  shows "writeFrame opcode payload = rfc_frame opcode None payload \<and>
    monitor_frames maxPayload room n (concat (map sent_by_client fs) @ tail) =
      pongs fs @ monitor_frames maxPayload room (n + length (pongs fs)) tail"
proof
  show "monitor_frames maxPayload room n (concat (map sent_by_client fs) @ tail) =
      pongs fs @ monitor_frames maxPayload room (n + length (pongs fs)) tail"
    using assms(1)
  proof (induction fs arbitrary: n)
    case (Cons f fs)
    obtain opcode key payload where f: "f = (opcode, key, payload)" by (cases f)
    have "read_client_frame maxPayload (rfc_frame opcode (Some key) payload @ concat (map sent_by_client fs) @ tail) =
        Some (opcode, payload, concat (map sent_by_client fs) @ tail)"
      using Cons.prems assms(2) by (intro read_client_frame_rfc) (simp_all add: benign_def f)
    moreover have "opcode \<noteq> 8" "list_all (benign maxPayload) fs" using Cons.prems by (simp_all add: benign_def [of _ "(opcode, key, payload)"] f)
    moreover have "room n" using assms(3) ..
    ultimately show ?case
      using Cons.IH [of n] Cons.IH [of "n + 1"]
      by (subst monitor_frames.simps) (simp add: f sent_by_client_def [of "(opcode, key, payload)"] pongs_def)
  qed (simp add: pongs_def)
qed (rule writeFrame_rfc)

theorem websocket_frames_witness:
  "monitor_frames 1024 (\<lambda>_. True) 0 (rfc_frame 9 (Some [1, 2, 3, 4]) [104, 105] @ [0x88]) = [(0xA, [104, 105])]"
proof -
  have "list_all (benign 1024) [(9, [1, 2, 3, 4], [104, 105])]" by (simp add: benign_def)
  moreover have "monitor_frames 1024 (\<lambda>_. True) 1 [0x88] = []"
    by (simp add: monitor_frames.simps [of _ _ _ "[0x88]"] read_client_frame_def ReadFull_def)
  ultimately show ?thesis
    using websocket_frames [of 1024 "[(9, [1, 2, 3, 4], [104, 105])]" "\<lambda>_. True" 0 "[]" 0 "[0x88]"]
    by (simp add: sent_by_client_def pongs_def)
qed

end
