(* ===== verification/Json_Encode.thy ===== *)
theory Json_Encode
  imports Json_Texts
begin

text \<open>
  The part of \<^verbatim>\<open>encoding/json\<close> that writes: strings with their escapes, and the text of a value.  What it
  writes is a text of the grammar, so that the decoder gives back the value that was written.
\<close>

section \<open>Strings\<close>

text \<open>\<^verbatim>\<open>appendString\<close> with HTML escaping, which \<^verbatim>\<open>Marshal\<close> and \<^verbatim>\<open>Encoder\<close> both use: first a byte below 128.\<close>

definition escape_ascii :: "char \<Rightarrow> string" where
  "escape_ascii c =
     (if c = CHR 0x5C \<or> c = CHR 0x22 then [CHR 0x5C, c]
      else if c = CHR 0x08 then [CHR 0x5C, CHR ''b'']
      else if c = CHR 0x0C then [CHR 0x5C, CHR ''f'']
      else if c = CHR 0x0A then [CHR 0x5C, CHR ''n'']
      else if c = CHR 0x0D then [CHR 0x5C, CHR ''r'']
      else if c = CHR 0x09 then [CHR 0x5C, CHR ''t'']
      else if within 0 0x1F c \<or> c = CHR ''<'' \<or> c = CHR ''>'' \<or> c = CHR ''&''
      then [CHR 0x5C, CHR ''u'', CHR ''0'', CHR ''0'', hexDigit (of_char c div 16), hexDigit (of_char c mod 16)]
      else [c])"

text \<open>A sequence of more than one byte; the line and paragraph separators are escaped.\<close>

definition escape_rune :: "string \<Rightarrow> string" where
  "escape_rune cs =
     (if cs = [CHR 0xE2, CHR 0x80, CHR 0xA8] then CHR 0x5C # ''u2028''
      else if cs = [CHR 0xE2, CHR 0x80, CHR 0xA9] then CHR 0x5C # ''u2029''
      else cs)"

function escape_string :: "string \<Rightarrow> string" where
  "escape_string s =
     (case s of
        [] \<Rightarrow> []
      | c # r \<Rightarrow>
          if within 0 0x7F c then escape_ascii c @ escape_string r
          else if utf8_size s = 0 then CHR 0x5C # ''ufffd'' @ escape_string r
          else escape_rune (take (utf8_size s) s) @ escape_string (drop (utf8_size s) s))"
  by pat_completeness auto
termination by (relation "measure length") auto

declare escape_string.simps [simp del]

text \<open>The text that a reader sees: bytes that are not UTF-8 have become the replacement character.\<close>

function coerce_utf8 :: "string \<Rightarrow> string" where
  "coerce_utf8 s =
     (case s of
        [] \<Rightarrow> []
      | c # r \<Rightarrow>
          if utf8_size s = 0 then utf8_encode replacement @ coerce_utf8 r
          else take (utf8_size s) s @ coerce_utf8 (drop (utf8_size s) s))"
  by pat_completeness auto
termination by (relation "measure length") auto

declare coerce_utf8.simps [simp del]

definition valid_utf8 :: "string \<Rightarrow> bool" where
  "valid_utf8 s \<longleftrightarrow> coerce_utf8 s = s"

section \<open>Values\<close>

text \<open>The text of a value; a number is written as it is.\<close>

definition quoted :: "string \<Rightarrow> string" where
  "quoted s = CHR 0x22 # escape_string s @ [CHR 0x22]"

fun json_print :: "json \<Rightarrow> string"
  and print_elems :: "json list \<Rightarrow> string"
  and print_members :: "(string \<times> json) list \<Rightarrow> string" where
  "json_print JNull = ''null''"
| "json_print (JBool b) = (if b then ''true'' else ''false'')"
| "json_print (JNum n) = n"
| "json_print (JStr s) = quoted s"
| "json_print (JArr vs) = CHR ''['' # print_elems vs @ '']''"
| "json_print (JObj kvs) = CHR ''{'' # print_members kvs @ ''}''"
| "print_elems [] = []"
| "print_elems [v] = json_print v"
| "print_elems (v # w # vs) = json_print v @ '','' @ print_elems (w # vs)"
| "print_members [] = []"
| "print_members [(k, v)] = quoted k @ '':'' @ json_print v"
| "print_members ((k, v) # kv # kvs) = quoted k @ '':'' @ json_print v @ '','' @ print_members (kv # kvs)"

text \<open>What may be written: integers in decimal, at most \<open>d\<close> levels, and strings in UTF-8.\<close>

definition int_text :: "string \<Rightarrow> bool" where
  "int_text n \<longleftrightarrow>
     (let ds = (if n \<noteq> [] \<and> n ! 0 = CHR ''-'' then tl n else n)
      in ds \<noteq> [] \<and> list_all digit ds \<and> (ds ! 0 = CHR ''0'' \<longrightarrow> ds = ''0''))"

fun printable :: "nat \<Rightarrow> json \<Rightarrow> bool" where
  "printable d JNull = True"
| "printable d (JBool b) = True"
| "printable d (JNum n) = int_text n"
| "printable d (JStr s) = valid_utf8 s"
| "printable 0 (JArr vs) = False"
| "printable (Suc d) (JArr vs) = list_all (printable d) vs"
| "printable 0 (JObj kvs) = False"
| "printable (Suc d) (JObj kvs) = list_all (\<lambda>(k, v). valid_utf8 k \<and> printable d v) kvs"

section \<open>Lemmas on strings\<close>

lemma escape_short:
  assumes "c \<in> {CHR 0x08, CHR 0x0C, CHR 0x0A, CHR 0x0D, CHR 0x09}"
  shows "\<exists>e. escape_ascii c = [CHR 0x5C, e] \<and> simple_escape e = Some c"
  using assms by (elim insertE emptyE) (simp_all add: escape_ascii_def simple_escape_def)

lemma escape_ascii_text:
  assumes "within 0 0x7F c" and "string_text x s"
  shows "string_text (c # x) (escape_ascii c @ s)"
proof -
  consider "c = CHR 0x5C \<or> c = CHR 0x22" | "c \<in> {CHR 0x08, CHR 0x0C, CHR 0x0A, CHR 0x0D, CHR 0x09}"
    | "c \<notin> {CHR 0x08, CHR 0x0C, CHR 0x0A, CHR 0x0D, CHR 0x09}" "c \<noteq> CHR 0x5C" "c \<noteq> CHR 0x22"
      "within 0 0x1F c \<or> c \<in> {CHR ''<'', CHR ''>'', CHR ''&''}"
    | "c \<noteq> CHR 0x5C" "c \<noteq> CHR 0x22" "\<not> within 0 0x1F c" "c \<notin> {CHR ''<'', CHR ''>'', CHR ''&''}"
    by blast
  then show ?thesis
  proof cases
    case 1
    then show ?thesis
      using string_text.escaped [of c c x s] assms(2) by (auto simp: escape_ascii_def simple_escape_def)
  next
    case 2
    then obtain e where "escape_ascii c = [CHR 0x5C, e]" "simple_escape e = Some c" using escape_short by blast
    then show ?thesis using string_text.escaped [of e c x s] assms(2) by simp
  next
    case 3
    let ?h = "[CHR ''0'', CHR ''0'', hexDigit (of_char c div 16), hexDigit (of_char c mod 16)]"
    have b: "(of_char c :: nat) < 128" using assms(1) by (simp add: within_def)
    then have "of_char c div 16 < (16 :: nat)" by simp
    then have "hex4 ?h = Some (of_char c, [])"
      by (simp add: hex4_def hexval_hexDigit hexval_def [of "CHR ''0''"])
    moreover have "utf8_encode (of_char c) = [c]" using b by (simp add: utf8_encode_def)
    ultimately have "string_text ([c] @ x) (CHR 0x5C # CHR ''u'' # ?h @ s)"
      using string_text.unicode [of ?h "of_char c" x s] b assms(2) by simp
    then show ?thesis using 3 by (auto simp: escape_ascii_def)
  next
    case 4
    have "within 0x20 0x7F c" using assms(1) 4(3) by (simp add: within_def)
    moreover have "c \<notin> {CHR 0x08, CHR 0x0C, CHR 0x0A, CHR 0x0D, CHR 0x09}" using 4(3) by (auto simp: within_def)
    then have "escape_ascii c = [c]" using 4 by (simp add: escape_ascii_def)
    ultimately show ?thesis using 4(1,2) assms(2) by (simp add: string_text.plain)
  qed
qed

lemma separators:
  "hex4 ''2028'' = Some (0x2028, [])" "utf8_encode 0x2028 = [CHR 0xE2, CHR 0x80, CHR 0xA8]"
  "hex4 ''2029'' = Some (0x2029, [])" "utf8_encode 0x2029 = [CHR 0xE2, CHR 0x80, CHR 0xA9]"
proof -
  have "char_of (226 :: nat) = CHR 0xE2" "char_of (128 :: nat) = CHR 0x80" "char_of (168 :: nat) = CHR 0xA8"
    "char_of (169 :: nat) = CHR 0xA9"
    by code_simp+
  then show "hex4 ''2028'' = Some (0x2028, [])" "utf8_encode 0x2028 = [CHR 0xE2, CHR 0x80, CHR 0xA8]"
    "hex4 ''2029'' = Some (0x2029, [])" "utf8_encode 0x2029 = [CHR 0xE2, CHR 0x80, CHR 0xA9]"
    by (simp_all add: hex4_def hexval_def utf8_encode_def)
qed

lemma escape_rune_text:
  assumes "utf8_size cs = length cs" and "1 < length cs" and "string_text x s"
  shows "string_text (cs @ x) (escape_rune cs @ s)"
  using string_text.multibyte [OF assms] string_text.unicode [OF separators(1) _ assms(3)]
    string_text.unicode [OF separators(3) _ assms(3)]
  by (simp add: escape_rune_def separators)

lemma utf8_size_bounds:
  shows "utf8_size s \<le> length s" and "s \<noteq> [] \<Longrightarrow> \<not> within 0 0x7F (hd s) \<Longrightarrow> utf8_size s \<noteq> 1"
  by (cases s; auto simp: Let_def)+

lemma utf8_size_take: "utf8_size (take (utf8_size s) s) = utf8_size s"
proof -
  have "utf8_size s \<in> {0, 1, 2, 3, 4}" by (cases s) (simp_all add: Let_def)
  then consider "utf8_size s = 0" | "utf8_size s = 1" | "utf8_size s = 2" | "utf8_size s = 3" | "utf8_size s = 4" by auto
  then show ?thesis
  proof cases
    case 2
    then obtain c t where "s = c # t" by (cases s) auto
    with 2 show ?thesis by (simp add: Let_def split: if_split_asm)
  next
    case 3
    then obtain c a t where "s = c # a # t" using utf8_size_bounds(1) [of s] by (cases s; cases "tl s") auto
    with 3 show ?thesis by (simp add: Let_def split: if_split_asm)
  next
    case 4
    then obtain c a b t where "s = c # a # b # t"
      using utf8_size_bounds(1) [of s] by (cases s; cases "tl s"; cases "tl (tl s)") auto
    with 4 show ?thesis by (auto simp: Let_def within_def split: if_split_asm)
  next
    case 5
    then obtain c a b d t where "s = c # a # b # d # t"
      using utf8_size_bounds(1) [of s] by (cases s; cases "tl s"; cases "tl (tl s)"; cases "tl (tl (tl s))") auto
    with 5 show ?thesis by (auto simp: Let_def within_def split: if_split_asm)
  qed simp
qed

text \<open>The text of a string stands for its UTF-8 part.\<close>

lemma escape_string_text: "string_text (coerce_utf8 s) (escape_string s @ [CHR 0x22])"
proof (induction s rule: escape_string.induct)
  case (1 s)
  show ?case
  proof (cases s)
    case Nil
    then show ?thesis by (subst escape_string.simps, subst coerce_utf8.simps) (simp add: string_text.close)
  next
    case (Cons c r)
    consider "within 0 0x7F c" | "\<not> within 0 0x7F c" "utf8_size s = 0" | "\<not> within 0 0x7F c" "utf8_size s \<noteq> 0" by blast
    then show ?thesis
    proof cases
      case 1
      then have "utf8_size s = 1" by (simp add: Cons utf8_size_ascii)
      with 1 "1.IH"(1) [OF Cons 1] Cons show ?thesis
        by (subst escape_string.simps, subst coerce_utf8.simps) (simp add: escape_ascii_text del: utf8_size.simps)
    next
      case 2
      have "hex4 ''fffd'' = Some (replacement, [])" "\<not> (0xD800 \<le> replacement \<and> replacement \<le> 0xDFFF)"
        by (simp_all add: hex4_def hexval_def replacement_def)
      then have "string_text (utf8_encode replacement @ coerce_utf8 r) (CHR 0x5C # CHR ''u'' # ''fffd'' @ escape_string r @ [CHR 0x22])"
        using "1.IH"(2) [OF Cons 2] by (rule string_text.unicode)
      with 2 Cons show ?thesis
        by (subst escape_string.simps, subst coerce_utf8.simps) (simp del: utf8_size.simps)
    next
      case 3
      let ?cs = "take (utf8_size s) s"
      have "length ?cs = utf8_size s" using utf8_size_bounds(1) [of s] by simp
      moreover have "1 < utf8_size s" using 3 utf8_size_bounds(2) [of s] Cons by simp
      ultimately have "string_text (?cs @ coerce_utf8 (drop (utf8_size s) s)) (escape_rune ?cs @ escape_string (drop (utf8_size s) s) @ [CHR 0x22])"
        using "1.IH"(3) [OF Cons 3] by (intro escape_rune_text) (simp_all add: utf8_size_take del: utf8_size.simps)
      with 3 Cons show ?thesis
        by (subst escape_string.simps, subst coerce_utf8.simps) (simp del: utf8_size.simps)
    qed
  qed
qed

lemma escape_string_valid: "valid_utf8 s \<Longrightarrow> string_text s (escape_string s @ [CHR 0x22])"
  using escape_string_text [of s] by (simp add: valid_utf8_def)

section \<open>Numbers\<close>

text \<open>\<^verbatim>\<open>strconv.AppendInt\<close> in base 10.\<close>

definition int_decimal :: "int \<Rightarrow> string" where
  "int_decimal n = (if n < 0 then CHR ''-'' # decimal (nat (- n)) else decimal (nat n))"

lemma int_text_number: "int_text n \<Longrightarrow> number_text n"
proof -
  assume i: "int_text n"
  define ds where "ds = (if n \<noteq> [] \<and> n ! 0 = CHR ''-'' then tl n else n)"
  define sign where "sign = (if n \<noteq> [] \<and> n ! 0 = CHR ''-'' then ''-'' else [])"
  have "n = sign @ ds @ [] @ []" by (cases n) (auto simp: sign_def ds_def)
  moreover have "sign \<in> {[], ''-''}" by (simp add: sign_def)
  moreover have "digits ds" "hd ds = CHR ''0'' \<longrightarrow> ds = ''0''"
    using i unfolding int_text_def Let_def ds_def [symmetric] by (auto simp: digits_def hd_conv_nth)
  ultimately show ?thesis unfolding number_text_def by blast
qed

lemma decimal_int_text [simp]: "int_text (decimal n)"
proof -
  have d: "decimal n ! 0 = hd (decimal n)" using decimal_front [of n] by (simp add: hd_conv_nth)
  have "decimal n = ''0''" if "hd (decimal n) = CHR ''0''"
  proof -
    have "n = 0" using that decimal_front [of n] by (cases n) auto
    then show ?thesis by (simp add: decimal.simps [of 0] hexDigit_def)
  qed
  then show ?thesis
    using decimal_front [of n] decimal_digits [of n] by (simp add: int_text_def d)
qed

lemma int_decimal_text [simp]: "int_text (int_decimal n)"
  using decimal_int_text [of "nat (- n)"] decimal_int_text [of "nat n"]
    decimal_front [of "nat (- n)"] decimal_front [of "nat n"]
  by (auto simp: int_decimal_def int_text_def Let_def hd_conv_nth)

section \<open>Printing and parsing\<close>

lemma ws_Nil [simp]: "ws []"
  by (simp add: ws_def)

lemma print_text:
  shows "printable d v \<Longrightarrow> json_text d v (json_print v)"
    and "vs \<noteq> [] \<Longrightarrow> list_all (printable d) vs \<Longrightarrow> elems_text d vs (print_elems vs)"
    and "kvs \<noteq> [] \<Longrightarrow> list_all (\<lambda>(k, v). valid_utf8 k \<and> printable d v) kvs \<Longrightarrow> members_text d kvs (print_members kvs)"
proof (induction v and vs and kvs arbitrary: d and d and d rule: json_print_print_elems_print_members.induct)
  case (4 s)
  then show ?case using json_text_elems_text_members_text.str [OF escape_string_valid] by (simp add: quoted_def)
next
  case (5 vs)
  from 5(2) obtain e where d: "d = Suc e" by (cases d) auto
  show ?case
  proof (cases "vs = []")
    case True
    then show ?thesis using json_text_elems_text_members_text.no_elems [of "[]" e] by (simp add: d)
  next
    case False
    then show ?thesis using 5 json_text_elems_text_members_text.elems [of e vs "print_elems vs"] by (simp add: d)
  qed
next
  case (6 kvs)
  from 6(2) obtain e where d: "d = Suc e" by (cases d) auto
  show ?case
  proof (cases "kvs = []")
    case True
    then show ?thesis using json_text_elems_text_members_text.no_members [of "[]" e] by (simp add: d)
  next
    case False
    then show ?thesis using 6 json_text_elems_text_members_text.members [of e kvs "print_members kvs"] by (simp add: d)
  qed
next
  case (8 v)
  then show ?case using json_text_elems_text_members_text.last_elem [of "[]" d v "json_print v" "[]"] by simp
next
  case (9 v w vs)
  then show ?case
    using json_text_elems_text_members_text.more_elems [of "[]" d v "json_print v" "[]" "w # vs" "print_elems (w # vs)"] by simp
next
  case (11 k v)
  then show ?case
    using json_text_elems_text_members_text.last_member
      [of "[]" k "escape_string k @ [CHR 0x22]" "[]" "[]" d v "json_print v" "[]"] escape_string_valid
    by (simp add: quoted_def)
next
  case (12 k v kv kvs)
  then show ?case
    using json_text_elems_text_members_text.more_members
      [of "[]" k "escape_string k @ [CHR 0x22]" "[]" "[]" d v "json_print v" "[]" "kv # kvs" "print_members (kv # kvs)"]
      escape_string_valid
    by (simp add: quoted_def del: print_members.simps(3)) (simp add: quoted_def)
qed (auto intro: json_text_elems_text_members_text.intros int_text_number)

text \<open>What is written is read back, whatever white space surrounds it.\<close>

lemma json_parse_print:
  assumes "printable maxNestingDepth v" and "ws w"
  shows "json_parse (json_print v @ w) = Some v"
  using json_parse_text [OF print_text(1) [OF assms(1)], of "[]" w] assms(2) by simp

lemma json_print_not_Nil: "printable d v \<Longrightarrow> json_print v \<noteq> []"
  using text_starts(1) [OF print_text(1)] by (auto simp: starts_def)

lemma printable_mono: "printable d j \<Longrightarrow> d \<le> e \<Longrightarrow> printable e j"
proof (induction d j arbitrary: e rule: printable.induct)
  case (6 d vs)
  then obtain e' where "e = Suc e'" "d \<le> e'" by (cases e) auto
  with 6 show ?case by (auto simp: list_all_iff)
next
  case (8 d kvs)
  then obtain e' where "e = Suc e'" "d \<le> e'" by (cases e) auto
  with 8 show ?case by (fastforce simp: list_all_iff)
qed auto

section \<open>ASCII\<close>

definition ascii :: "string \<Rightarrow> bool" where
  "ascii s \<longleftrightarrow> list_all (within 0 0x7F) s"

lemma ascii_valid: "ascii s \<Longrightarrow> valid_utf8 s"
proof (induction s)
  case (Cons c s)
  then have c: "within 0 0x7F c" "ascii s" by (simp_all add: ascii_def)
  then have "utf8_size (c # s) = 1" using utf8_size_ascii by blast
  then show ?case using Cons.IH [OF c(2)] unfolding valid_utf8_def
    by (subst coerce_utf8.simps) (simp del: utf8_size.simps)
qed (simp add: valid_utf8_def coerce_utf8.simps)

lemma ascii_append [simp]: "ascii (s @ t) \<longleftrightarrow> ascii s \<and> ascii t"
  by (simp add: ascii_def)

lemma ascii_Cons [simp]: "ascii (c # t) \<longleftrightarrow> within 0 0x7F c \<and> ascii t" "ascii []"
  by (simp_all add: ascii_def)

lemma digits_ascii: "list_all digit s \<Longrightarrow> ascii s"
  by (auto simp: ascii_def list_all_iff digit_def within_def)

text \<open>Text that needs no escape is written as it is.\<close>

definition plain_char :: "char \<Rightarrow> bool" where
  "plain_char c \<longleftrightarrow> within 0x20 0x7F c \<and> c \<notin> {CHR 0x22, CHR 0x5C, CHR ''<'', CHR ''>'', CHR ''&''}"

lemma escape_plain: "list_all plain_char s \<Longrightarrow> escape_string s = s"
proof (induction s)
  case (Cons c s)
  then have c: "within 0 0x7F c" "\<not> within 0 0x1F c" "c \<notin> {CHR 0x22, CHR 0x5C, CHR ''<'', CHR ''>'', CHR ''&''}"
    by (simp_all add: plain_char_def within_def)
  have "c \<notin> {CHR 0x08, CHR 0x0C, CHR 0x0A, CHR 0x0D, CHR 0x09}" using c(2) by (auto simp: within_def)
  then have "escape_ascii c = [c]" using c by (simp add: escape_ascii_def)
  then show ?case using Cons c(1) by (subst escape_string.simps) simp
qed (simp add: escape_string.simps)

text \<open>A bound on the text of a value: a byte is escaped with at most six.\<close>

fun print_bound :: "json \<Rightarrow> nat" where
  "print_bound JNull = 4"
| "print_bound (JBool b) = 5"
| "print_bound (JNum n) = length n"
| "print_bound (JStr s) = 6 * length s + 2"
| "print_bound (JArr vs) = 2 + sum_list (map (\<lambda>v. print_bound v + 1) vs)"
| "print_bound (JObj kvs) = 2 + sum_list (map (\<lambda>(k, v). 6 * length k + print_bound v + 4) kvs)"

lemma escape_string_bound: "length (escape_string s) \<le> 6 * length s"
proof (induction s rule: escape_string.induct)
  case (1 s)
  have r: "length (escape_rune cs) \<le> 6 * length cs" for cs by (simp add: escape_rune_def)
  have a: "length (escape_ascii c) \<le> 6" for c by (simp add: escape_ascii_def)
  show ?case
  proof (cases s)
    case Nil
    then show ?thesis by (simp add: escape_string.simps)
  next
    case (Cons c cs)
    consider "within 0 0x7F c" | "\<not> within 0 0x7F c" "utf8_size s = 0" | "\<not> within 0 0x7F c" "0 < utf8_size s" by blast
    then show ?thesis
    proof cases
      case 3
      then have "length (escape_string (drop (utf8_size s) s)) \<le> 6 * length (drop (utf8_size s) s)" using 1 Cons by simp
      moreover have "length (take (utf8_size s) s) + length (drop (utf8_size s) s) = length s"
        by (simp only: length_append [symmetric] append_take_drop_id)
      ultimately show ?thesis using 3 Cons r [of "take (utf8_size s) s"] by (subst escape_string.simps) simp
    qed (use 1 Cons a [of c] in \<open>subst escape_string.simps, simp\<close>)+
  qed
qed

lemma print_bounds:
  "length (json_print v) \<le> print_bound v"
  "length (print_elems vs) \<le> sum_list (map (\<lambda>v. print_bound v + 1) vs)"
  "length (print_members kvs) \<le> sum_list (map (\<lambda>(k, v). 6 * length k + print_bound v + 4) kvs)"
proof (induction v and vs and kvs rule: json_print_print_elems_print_members.induct)
  case (4 s)
  then show ?case using escape_string_bound [of s] by (simp add: quoted_def)
next
  case (11 k v)
  then show ?case using escape_string_bound [of k] by (simp add: quoted_def)
next
  case (12 k v kv kvs)
  then show ?case using escape_string_bound [of k] by (simp add: quoted_def)
qed simp_all

end
