(* ===== verification/Go_Time.thy ===== *)
theory Go_Time
  imports Go_Strings
begin

text \<open>
  Times as \<^verbatim>\<open>encoding/json\<close> writes them: \<^verbatim>\<open>time.Time.MarshalJSON\<close>, that is RFC 3339 with nanoseconds, and the
  calendar of the package \<^verbatim>\<open>time\<close> beneath it.  A time is an instant; the zone it is shown in is an argument.
\<close>

section \<open>Calendar\<close>

definition isLeap :: "int \<Rightarrow> bool" where
  "isLeap year \<longleftrightarrow> year mod 4 = 0 \<and> (year mod 100 \<noteq> 0 \<or> year mod 400 = 0)"

definition daysBefore :: "int list" where
  "daysBefore = [0, 31, 59, 90, 120, 151, 181, 212, 243, 273, 304, 334, 365]"

text \<open>
  \<^verbatim>\<open>absDate\<close> on the days since the first of January of year 1: the year and the day of the year.  The zero
  year of the package lies a multiple of 400 years before.
\<close>

definition year_day :: "int \<Rightarrow> int \<times> int" where
  "year_day d =
     (let n400 = d div 146097; d = d - 146097 * n400;
          n100 = d div 36524; n100 = n100 - n100 div 4; d = d - 36524 * n100;
          n4 = d div 1461; d = d - 1461 * n4;
          n = d div 365; n = n - n div 4; d = d - 365 * n
      in (400 * n400 + 100 * n100 + 4 * n4 + n + 1, d))"

definition month_day :: "bool \<Rightarrow> int \<Rightarrow> int \<times> int" where
  "month_day leap yday =
     (if leap \<and> yday = 59 then (2, 29)
      else let day = (if leap \<and> yday > 59 then yday - 1 else yday);
               month = day div 31;
               until = daysBefore ! nat (month + 1)
           in if day \<ge> until then (month + 2, day - until + 1)
              else (month + 1, day - daysBefore ! nat month + 1))"

section \<open>RFC 3339\<close>

text \<open>\<^verbatim>\<open>appendInt\<close> of a number that is not negative.\<close>

definition padded :: "nat \<Rightarrow> nat \<Rightarrow> string" where
  "padded w n = replicate (w - length (decimal n)) (CHR ''0'') @ decimal n"

text \<open>\<^verbatim>\<open>appendNano\<close>: trailing zeros are dropped.\<close>

definition fraction_text :: "nat \<Rightarrow> string" where
  "fraction_text ns =
     (if ns = 0 then [] else CHR ''.'' # rev (dropWhile (\<lambda>c. c = CHR ''0'') (rev (padded 9 ns))))"

definition zone_text :: "int \<Rightarrow> string" where
  "zone_text offset =
     (if offset = 0 then ''Z''
      else let zone = nat (\<bar>offset\<bar> div 60)
           in (if offset < 0 \<and> zone \<noteq> 0 then CHR ''-'' else CHR ''+'') # padded 2 (zone div 60) @ '':'' @ padded 2 (zone mod 60))"

text \<open>
  \<^verbatim>\<open>appendStrictRFC3339\<close> for a time shown \<open>offset\<close> seconds east of UTC: \<open>None\<close> is the error for a year or a zone
  that the format cannot hold.
\<close>

definition rfc3339 :: "int \<Rightarrow> time \<Rightarrow> string option" where
  "rfc3339 offset t =
     (let secs = t div Second + offset;
          clock = nat (secs mod 86400);
          (year, yday) = year_day (secs div 86400);
          (month, day) = month_day (isLeap year) yday
      in if year < 0 \<or> year > 9999 \<or> \<bar>offset\<bar> \<ge> 86400 then None
         else Some (padded 4 (nat year) @ ''-'' @ padded 2 (nat month) @ ''-'' @ padded 2 (nat day) @ ''T'' @
                    padded 2 (clock div 3600) @ '':'' @ padded 2 (clock mod 3600 div 60) @ '':'' @
                    padded 2 (clock mod 60) @ fraction_text (nat (t mod Second)) @ zone_text offset))"

section \<open>Reading a time\<close>

text \<open>What a reader of the format makes of a text: the instant it names.\<close>

definition civil_days :: "int \<Rightarrow> int \<Rightarrow> int \<Rightarrow> int" where
  "civil_days y m d =
     365 * (y - 1) + (y - 1) div 4 - (y - 1) div 100 + (y - 1) div 400 +
     daysBefore ! nat (m - 1) + (if isLeap y \<and> m > 2 then 1 else 0) + d - 1"

definition read_int :: "nat \<Rightarrow> string \<Rightarrow> int \<times> string" where
  "read_int w s = (int (decimal_val (take w s)), drop w s)"

definition read_fraction :: "string \<Rightarrow> int \<times> string" where
  "read_fraction s =
     (case s of
        c # r \<Rightarrow>
          if c = CHR ''.''
          then (int (decimal_val (takeWhile digit r)) * 10 ^ (9 - length (takeWhile digit r)), dropWhile digit r)
          else (0, s)
      | [] \<Rightarrow> (0, []))"

definition read_zone :: "string \<Rightarrow> int" where
  "read_zone s =
     (case s of
        c # r \<Rightarrow>
          if c = CHR ''Z'' then 0
          else (let (h, r) = read_int 2 r; (m, r) = read_int 2 (tl r); z = 60 * (60 * h + m)
                in if c = CHR ''-'' then - z else z)
      | [] \<Rightarrow> 0)"

definition read_time :: "string \<Rightarrow> time" where
  "read_time s =
     (let (y, s) = read_int 4 s; (mo, s) = read_int 2 (tl s); (d, s) = read_int 2 (tl s);
          (h, s) = read_int 2 (tl s); (mi, s) = read_int 2 (tl s); (sec, s) = read_int 2 (tl s);
          (ns, s) = read_fraction s
      in (civil_days y mo d * 86400 + h * 3600 + mi * 60 + sec - read_zone s) * Second + ns)"

section \<open>Round trip\<close>

lemma padded_length: "n < 10 ^ w \<Longrightarrow> 0 < w \<Longrightarrow> length (padded w n) = w"
  using decimal_length [of n w] by (simp add: padded_def)

lemma decimal_val_zeros: "decimal_val (replicate k (CHR ''0'') @ s) = decimal_val s"
  by (induction k) (simp_all add: decimal_val_def digit_val_def)

lemma padded_val [simp]: "decimal_val (padded w n) = n"
  by (simp add: padded_def decimal_val_zeros)

lemma padded_digits: "list_all digit (padded w n)"
  using decimal_digits [of n] by (auto simp: padded_def digit_def list_all_iff)

lemma read_padded: "n < 10 ^ w \<Longrightarrow> 0 < w \<Longrightarrow> read_int w (padded w n @ s) = (int n, s)"
  by (simp add: read_int_def padded_length)

text \<open>One cut of the calendar: a fifth short cycle, which only its last day can reach, counts with the fourth.\<close>

lemma cut_cycle:
  fixes r k :: int
  assumes "0 \<le> r" and "r \<le> 4 * k" and "0 < k" and "b = r div k - r div k div 4" and "r' = r - k * b"
  shows "0 \<le> b" and "b \<le> 3" and "0 \<le> r'" and "r' \<le> k" and "b < 3 \<Longrightarrow> r' < k" and "r < 4 * k \<Longrightarrow> r' < k"
proof -
  define q where "q = r div k"
  have q: "k * q \<le> r" "r < k * q + k"
    using pos_mod_sign [OF assms(3), of r] pos_mod_bound [OF assms(3), of r] mult_div_mod_eq [of k r]
    unfolding q_def by linarith+
  have "0 \<le> q" using assms(1,3) by (simp add: q_def pos_imp_zdiv_nonneg_iff)
  moreover have "q \<le> 4"
  proof -
    have "k * q < k * 5" using q(1) assms(2,3) by linarith
    then show ?thesis using assms(3) by simp
  qed
  ultimately have "q \<in> {0, 1, 2, 3, 4}" by auto
  then show "0 \<le> b" "b \<le> 3" "0 \<le> r'" "r' \<le> k" "b < 3 \<Longrightarrow> r' < k" "r < 4 * k \<Longrightarrow> r' < k"
    using q assms unfolding q_def [symmetric] by auto
qed

lemma year_day_days:
  assumes "year_day d = (y, yday)"
  shows "365 * (y - 1) + (y - 1) div 4 - (y - 1) div 100 + (y - 1) div 400 + yday = d"
    and "0 \<le> yday" and "yday \<le> 365" and "\<not> isLeap y \<Longrightarrow> yday \<le> 364"
proof -
  define a r1 where "a = d div 146097" and "r1 = d - 146097 * a"
  have r1: "0 \<le> r1" "r1 < 146097" unfolding r1_def a_def minus_mult_div_eq_mod by simp_all
  define b r2 where "b = r1 div 36524 - r1 div 36524 div 4" and "r2 = r1 - 36524 * b"
  have b: "0 \<le> b" "b \<le> 3" "0 \<le> r2" "r2 \<le> 36524" "b < 3 \<Longrightarrow> r2 < 36524"
    using cut_cycle [of r1 36524, OF _ _ _ b_def r2_def] r1 by simp_all
  define c r3 where "c = r2 div 1461" and "r3 = r2 - 1461 * c"
  have r3: "r3 = r2 mod 1461" unfolding r3_def c_def by (rule minus_mult_div_eq_mod)
  have c: "0 \<le> c" "c \<le> 24" "0 \<le> r3" "r3 < 1461" "b < 3 \<Longrightarrow> c = 24 \<Longrightarrow> r3 < 1460"
  proof -
    have e: "r2 = 1461 * c + r3" "0 \<le> r3" "r3 < 1461" by (simp_all add: c_def r3)
    then show "0 \<le> c" "c \<le> 24" "0 \<le> r3" "r3 < 1461" using b by linarith+
    show "r3 < 1460" if "b < 3" "c = 24" using e b that by linarith
  qed
  define n r4 where "n = r3 div 365 - r3 div 365 div 4" and "r4 = r3 - 365 * n"
  have n: "0 \<le> n" "n \<le> 3" "0 \<le> r4" "r4 \<le> 365" "n < 3 \<Longrightarrow> r4 < 365" "r3 < 1460 \<Longrightarrow> r4 < 365"
    using cut_cycle [of r3 365, OF _ _ _ n_def r4_def] c by simp_all
  have y: "y = 400 * a + 100 * b + 4 * c + n + 1" "yday = r4"
    using assms
    by (simp_all only: year_day_def Let_def a_def [symmetric] r1_def [symmetric] b_def [symmetric] r2_def [symmetric]
        c_def [symmetric] r3_def [symmetric] n_def [symmetric] r4_def [symmetric] prod.inject)
  have y1: "y - 1 = 4 * (100 * a + 25 * b + c) + n" "y - 1 = 100 * (4 * a + b) + (4 * c + n)"
    "y - 1 = 400 * a + (100 * b + 4 * c + n)" using y(1) by simp_all
  have q: "(y - 1) div 4 = 100 * a + 25 * b + c" "(y - 1) div 100 = 4 * a + b" "(y - 1) div 400 = a"
    by (rule int_div_pos_eq [OF y1(1)], use n in linarith, use n in linarith,
        rule int_div_pos_eq [OF y1(2)], use c n in linarith, use c n in linarith,
        rule int_div_pos_eq [OF y1(3)], use b c n in linarith, use b c n in linarith)
  have d: "d = 146097 * a + 36524 * b + 1461 * c + 365 * n + r4"
    by (simp add: r1_def r2_def r3_def r4_def)
  show "365 * (y - 1) + (y - 1) div 4 - (y - 1) div 100 + (y - 1) div 400 + yday = d"
    unfolding q using y d by simp
  show "0 \<le> yday" "yday \<le> 365" using n y by simp_all
  show "yday \<le> 364" if "\<not> isLeap y"
  proof (rule ccontr)
    assume "\<not> yday \<le> 364"
    then have "\<not> n < 3" and r3: "\<not> r3 < 1460" using n(5,6) y(2) by linarith+
    then have f: "n = 3" using n(2) by linarith
    have g: "c \<noteq> 24 \<or> b = 3" using r3 b(2) c(5) by linarith
    have "y = 4 * (100 * a + 25 * b + c + 1)" using y(1) f by simp
    then have "y mod 4 = 0" by (simp only: mod_mult_self1_is_0)
    moreover have "y = 100 * (4 * a + b) + 4 * (c + 1)" using y(1) f by simp
    then have "y mod 100 = 4 * (c + 1) mod 100" by (simp only: mod_mult_self4)
    moreover have "y = 400 * a + (100 * b + 4 * (c + 1))" using y(1) f by simp
    then have "y mod 400 = (100 * b + 4 * (c + 1)) mod 400" by (simp only: mod_mult_self4)
    moreover have "4 * (c + 1) mod 100 = 4 * (c + 1)" if "c \<noteq> 24"
    proof -
      have "c < 24" using c(2) that by (simp add: order_less_le)
      then show ?thesis using c(1) by (intro mod_pos_pos_trivial) simp_all
    qed
    ultimately have "isLeap y"
    proof (cases "c = 24")
      case True
      then have "b = 3" using g by simp
      with True show ?thesis using \<open>y mod 4 = 0\<close> \<open>y mod 400 = (100 * b + 4 * (c + 1)) mod 400\<close> by (simp add: isLeap_def)
    next
      case False
      then have "y mod 100 = 4 * (c + 1)"
        using \<open>y mod 100 = 4 * (c + 1) mod 100\<close> \<open>c \<noteq> 24 \<Longrightarrow> 4 * (c + 1) mod 100 = 4 * (c + 1)\<close> by simp
      moreover have "4 * (c + 1) \<noteq> 0" using c(1) by simp
      ultimately show ?thesis using \<open>y mod 4 = 0\<close> unfolding isLeap_def by metis
    qed
    then show False using that by simp
  qed
qed

lemma month_day_inverse:
  assumes "month_day leap yday = (m, d)" and "0 \<le> yday" and "yday \<le> 365" and "\<not> leap \<Longrightarrow> yday \<le> 364"
  shows "1 \<le> m \<and> m \<le> 12 \<and> 1 \<le> d \<and> d \<le> 31 \<and>
    daysBefore ! nat (m - 1) + (if leap \<and> m > 2 then 1 else 0) + d - 1 = yday"
proof (cases "leap \<and> yday = 59")
  case True
  then show ?thesis using assms(1) by (auto simp: month_day_def daysBefore_def)
next
  case False
  define day where "day = (if leap \<and> yday > 59 then yday - 1 else yday)"
  define k where "k = day div 31"
  have day: "0 \<le> day" "day \<le> 364" using assms(2-4) False by (auto simp: day_def)
  then have "k \<in> {0, 1, 2, 3, 4, 5, 6, 7, 8, 9, 10, 11}" unfolding k_def by (simp, presburger)
  moreover have "31 * k \<le> day" "day < 31 * k + 31" unfolding k_def by presburger+
  moreover have md: "(m, d) = (if day \<ge> daysBefore ! nat (k + 1) then (k + 2, day - daysBefore ! nat (k + 1) + 1)
      else (k + 1, day - daysBefore ! nat k + 1))"
    using assms(1) False unfolding month_day_def day_def [symmetric] k_def [symmetric] Let_def by (simp only: if_False)
  moreover have "yday = day + (if leap \<and> day \<ge> 59 then 1 else 0)"
    using False by (auto simp: day_def)
  ultimately show ?thesis using day
    by (elim insertE emptyE) (auto simp: daysBefore_def split: if_splits)
qed

lemma read_fraction_text:
  assumes "ns < 10 ^ 9" and "r = [] \<or> \<not> digit (hd r) \<and> hd r \<noteq> CHR ''.''"
  shows "read_fraction (fraction_text ns @ r) = (int ns, r)"
proof (cases "ns = 0")
  case True
  then show ?thesis using assms(2) by (cases r) (auto simp: fraction_text_def read_fraction_def)
next
  case False
  define z where "z = takeWhile (\<lambda>c. c = CHR ''0'') (rev (padded 9 ns))"
  define ds where "ds = rev (dropWhile (\<lambda>c. c = CHR ''0'') (rev (padded 9 ns)))"
  have "set z \<subseteq> {CHR ''0''}" by (auto simp: z_def dest: set_takeWhileD)
  then have z: "rev z = replicate (length z) (CHR ''0'')"
    by (metis length_rev replicate_eqI set_rev singletonD subsetD)
  have split: "padded 9 ns = ds @ rev z"
    unfolding ds_def z_def by (metis rev_append rev_rev_ident takeWhile_dropWhile_id)
  have len: "length ds + length z = 9" using split padded_length [of ns 9] assms(1) by (metis length_append length_rev zero_less_numeral)
  have "decimal_val (ds @ replicate k (CHR ''0'')) = decimal_val ds * 10 ^ k" for k
  proof (induction k)
    case (Suc k)
    have "ds @ replicate (Suc k) (CHR ''0'') = (ds @ replicate k (CHR ''0'')) @ [CHR ''0'']"
      by (simp add: replicate_append_same)
    then show ?case using Suc by (simp only: decimal_val_snoc) (simp add: digit_val_def)
  qed simp
  then have v: "decimal_val ds * 10 ^ length z = ns" using split z by (metis padded_val)
  have "list_all digit ds" using padded_digits [of 9 ns] split by simp
  then have t: "takeWhile digit (ds @ r) = ds" "dropWhile digit (ds @ r) = r"
    using assms(2) by (induction ds; cases r; simp)+
  have "9 - length ds = length z" using len by simp
  then have "int (decimal_val ds) * 10 ^ (9 - length ds) = int ns"
    using arg_cong [OF v, of int] by simp
  then show ?thesis
    using False t by (simp add: fraction_text_def read_fraction_def ds_def [symmetric])
qed

lemma zone_text_front: "zone_text offset \<noteq> [] \<and> \<not> digit (hd (zone_text offset)) \<and> hd (zone_text offset) \<noteq> CHR ''.''"
  by (auto simp: zone_text_def Let_def digit_def)

lemma read_zone_text:
  assumes "60 dvd offset" and "\<bar>offset\<bar> < 86400"
  shows "read_zone (zone_text offset) = offset"
proof (cases "offset = 0")
  case True
  then show ?thesis by (simp add: zone_text_def read_zone_def)
next
  case False
  define zone where "zone = nat (\<bar>offset\<bar> div 60)"
  have z: "int zone * 60 = \<bar>offset\<bar>" using assms(1) by (auto simp: zone_def)
  then have "zone < 1440" using assms(2) by linarith
  then have b: "zone div 60 < 10 ^ 2" "zone mod 60 < 10 ^ 2"
    by (simp_all add: less_mult_imp_div_less order_less_trans [OF mod_less_divisor])
  have "60 * (60 * int (zone div 60) + int (zone mod 60)) = \<bar>offset\<bar>"
    using z by (simp add: zdiv_int zmod_int)
  moreover have "zone \<noteq> 0" using z False by auto
  moreover have "read_int 2 (padded 2 (zone div 60) @ '':'' @ padded 2 (zone mod 60)) = (int (zone div 60), '':'' @ padded 2 (zone mod 60))"
    by (rule read_padded) (use b in simp_all)
  moreover have "read_int 2 (padded 2 (zone mod 60)) = (int (zone mod 60), [])"
    using read_padded [of "zone mod 60" 2 "[]"] b by simp
  ultimately show ?thesis
    using False by (auto simp: zone_text_def read_zone_def zone_def [symmetric] Let_def)
qed

text \<open>The clock and the calendar together give back the seconds.\<close>

lemma civil_seconds:
  assumes "year_day (secs div 86400) = (y, yday)" and "month_day (isLeap y) yday = (m, d)"
    and "clock = nat (secs mod 86400)"
  shows "civil_days y m d * 86400 + int (clock div 3600) * 3600 + int (clock mod 3600 div 60) * 60 + int (clock mod 60) = secs"
    and "1 \<le> m \<and> m \<le> 12 \<and> 1 \<le> d \<and> d \<le> 31" and "clock < 86400"
proof -
  note yd = year_day_days [OF assms(1)]
  note md = month_day_inverse [OF assms(2) yd(2,3)]
  have "civil_days y m d = secs div 86400" using md yd(1,4) by (simp add: civil_days_def)
  moreover have c: "int clock = secs mod 86400" by (simp add: assms(3))
  moreover have "clock mod 3600 mod 60 = clock mod 60" by (rule mod_mod_cancel) simp
  then have "clock div 3600 * 3600 + clock mod 3600 div 60 * 60 + clock mod 60 = clock"
    using div_mult_mod_eq [of clock 3600] div_mult_mod_eq [of "clock mod 3600" 60] by linarith
  then have "int (clock div 3600) * 3600 + int (clock mod 3600 div 60) * 60 + int (clock mod 60) = int clock"
    by linarith
  ultimately show "civil_days y m d * 86400 + int (clock div 3600) * 3600 + int (clock mod 3600 div 60) * 60 + int (clock mod 60) = secs"
    using div_mult_mod_eq [of secs 86400] by linarith
  show "1 \<le> m \<and> m \<le> 12 \<and> 1 \<le> d \<and> d \<le> 31" using md yd(4) by simp
  show "clock < 86400" using c by linarith
qed

lemma read_time_rfc3339:
  assumes "rfc3339 offset t = Some s" and "60 dvd offset"
  shows "read_time s = t"
proof -
  define secs where "secs = t div Second + offset"
  define clock where "clock = nat (secs mod 86400)"
  obtain y yday where yd: "year_day (secs div 86400) = (y, yday)" by fastforce
  obtain m d where md: "month_day (isLeap y) yday = (m, d)" by fastforce
  note f = civil_seconds [OF yd md clock_def]
  have ok: "0 \<le> y" "y \<le> 9999" "\<bar>offset\<bar> < 86400"
    and s: "s = padded 4 (nat y) @ ''-'' @ padded 2 (nat m) @ ''-'' @ padded 2 (nat d) @ ''T'' @
      padded 2 (clock div 3600) @ '':'' @ padded 2 (clock mod 3600 div 60) @ '':'' @ padded 2 (clock mod 60) @
      fraction_text (nat (t mod Second)) @ zone_text offset"
    using assms(1) unfolding rfc3339_def
    by (simp_all add: secs_def [symmetric] clock_def [symmetric] yd md Let_def split: if_splits)
  have b: "nat y < 10 ^ 4" "nat m < 10 ^ 2" "nat d < 10 ^ 2" "clock div 3600 < 10 ^ 2" "clock mod 3600 div 60 < 10 ^ 2"
    "clock mod 60 < 10 ^ 2" "nat (t mod Second) < 10 ^ 9"
    using ok f(2,3) by (auto simp: Second_def less_mult_imp_div_less order_less_trans [OF mod_less_divisor] nat_less_iff)
  have "read_fraction (fraction_text (nat (t mod Second)) @ zone_text offset) = (int (nat (t mod Second)), zone_text offset)"
    by (rule read_fraction_text) (use b(7) zone_text_front in auto)
  then have "read_time s = (civil_days (int (nat y)) (int (nat m)) (int (nat d)) * 86400 + int (clock div 3600) * 3600 +
      int (clock mod 3600 div 60) * 60 + int (clock mod 60) - offset) * Second + int (nat (t mod Second))"
    unfolding s using b by (simp add: read_time_def read_padded read_zone_text [OF assms(2) ok(3)])
  also have "\<dots> = (secs - offset) * Second + t mod Second"
    using f(1,2) ok(1) by (simp add: Second_def)
  finally show ?thesis by (simp add: secs_def)
qed

end
