(* ===== verification/Protocol_Json.thy ===== *)
theory Protocol_Json
  imports Json_Encode Go_Time Protocol "HOL-Library.Monad_Syntax" "HOL-Library.List_Lexorder" "HOL-Library.Char_ord"
begin

text \<open>
  The JSON form of the public data, after the tags of \<^verbatim>\<open>pkg/protocol/types.go\<close>: the value that
  \<^verbatim>\<open>encoding/json\<close> writes for each type, in the order of the fields, or \<open>None\<close> when a time cannot be written.
  Every time is in UTC except \<^verbatim>\<open>Client.LastSeenAt\<close>, which the sweeper sets from \<^verbatim>\<open>time.Now()\<close> in the local zone;
  \<open>zone\<close> gives the offset of that zone in seconds.
\<close>

section \<open>Writing\<close>

definition time_json :: "int \<Rightarrow> time \<Rightarrow> json option" where
  "time_json offset t = map_option JStr (rfc3339 offset t)"

definition number_json :: "int \<Rightarrow> json" where
  "number_json n = JNum (int_decimal n)"

definition strings_json :: "string list \<Rightarrow> json" where
  "strings_json ss = JArr (map JStr ss)"

fun state_text :: "PresenceState \<Rightarrow> string" where
  "state_text StatePresent = ''present''"
| "state_text StateAbsent = ''absent''"
| "state_text StateUnknown = ''unknown''"
| "state_text StateZero = []"

definition connection_json :: "Connection \<Rightarrow> json option" where
  "connection_json n = do {
     connected \<leftarrow> time_json 0 (conn_ConnectedAt n);
     seen \<leftarrow> time_json 0 (conn_LastSeenAt n);
     Some (JObj ([(''id'', JStr (conn_ID n)), (''provider'', JStr (conn_Provider n)),
                  (''source_instance'', JStr (conn_SourceInstance n)), (''connected_at'', connected),
                  (''last_seen_at'', seen)] @
                 (if conn_Stale n then [(''stale'', JBool True)] else [])))
   }"

definition client_json :: "(time \<Rightarrow> int) \<Rightarrow> Client \<Rightarrow> json option" where
  "client_json zone c = do {
     conns \<leftarrow> those (map connection_json (cl_Connections c));
     first \<leftarrow> time_json 0 (cl_FirstSeenAt c);
     seen \<leftarrow> time_json (zone (cl_LastSeenAt c)) (cl_LastSeenAt c);
     Some (JObj [(''id'', JStr (cl_ID c)), (''state'', JStr (state_text (cl_State c))),
                 (''present'', case cl_Present c of None \<Rightarrow> JNull | Some b \<Rightarrow> JBool b),
                 (''connections'', JArr conns), (''first_seen_at'', first), (''last_seen_at'', seen)])
   }"

definition snapshot_json :: "(time \<Rightarrow> int) \<Rightarrow> Snapshot \<Rightarrow> json option" where
  "snapshot_json zone s = do {
     generated \<leftarrow> time_json 0 (snap_GeneratedAt s);
     clients \<leftarrow> those (map (client_json zone) (snap_Clients s));
     Some (JObj [(''stream_epoch'', JStr (snap_StreamEpoch s)), (''sequence'', number_json (uint (snap_Sequence s))),
                 (''generated_at'', generated), (''clients'', JArr clients)])
   }"

text \<open>A list of sources that is empty is always the nil slice, which is written as \<^verbatim>\<open>null\<close>.\<close>

definition provider_json :: "Provider \<Rightarrow> json option" where
  "provider_json p = do {
     snapshot \<leftarrow> time_json 0 (pr_LastSnapshotAt p);
     event \<leftarrow> time_json 0 (pr_LastEventAt p);
     Some (JObj ([(''id'', JStr (pr_ID p)), (''kind'', JStr (pr_Kind p)), (''status'', JStr (pr_Status p)),
                  (''snapshot_supported'', JBool (pr_SnapshotSupported p)),
                  (''sources'', if pr_Sources p = [] then JNull else strings_json (pr_Sources p)),
                  (''last_snapshot_at'', snapshot), (''last_event_at'', event)] @
                 (if pr_LastError p = [] then [] else [(''last_error'', JStr (pr_LastError p))]) @
                 [(''snapshot_source'', JStr (pr_SnapshotSource p)), (''event_source'', JStr (pr_EventSource p))]))
   }"

text \<open>A map is written in the order of its keys.\<close>

definition map_json :: "(string, json) gomap \<Rightarrow> json" where
  "map_json m = JObj (sort_key fst m)"

fun any_json :: "any_value \<Rightarrow> json" where
  "any_json (AnyString s) = JStr s"
| "any_json (AnyBool b) = JBool b"

text \<open>The member \<^verbatim>\<open>data\<close> of an event, if there is one.\<close>

definition data_json :: "(time \<Rightarrow> int) \<Rightarrow> EventData \<Rightarrow> (string \<times> json) list option" where
  "data_json zone d =
     (case d of
        NoData \<Rightarrow> Some []
      | ClientData c \<Rightarrow> map_option (\<lambda>j. [(''data'', j)]) (client_json zone c)
      | ProviderData p \<Rightarrow> map_option (\<lambda>j. [(''data'', j)]) (provider_json p)
      | SnapshotData s \<Rightarrow> map_option (\<lambda>j. [(''data'', j)]) (snapshot_json zone s)
      | MapData m \<Rightarrow> Some [(''data'', map_json (map (map_prod id any_json) m))])"

definition event_json :: "(time \<Rightarrow> int) \<Rightarrow> Event \<Rightarrow> json option" where
  "event_json zone ev = do {
     timestamp \<leftarrow> time_json 0 (ev_Timestamp ev);
     data \<leftarrow> data_json zone (ev_Data ev);
     Some (JObj ([(''type'', JStr (ev_Type ev)), (''event_id'', JStr (ev_EventID ev)),
                  (''stream_epoch'', JStr (ev_StreamEpoch ev)), (''sequence'', number_json (uint (ev_Sequence ev))),
                  (''timestamp'', timestamp)] @
                 (if ev_Reason ev = [] then [] else [(''reason'', JStr (ev_Reason ev))]) @ data))
   }"

text \<open>\<^verbatim>\<open>json.Marshal\<close> of an event.\<close>

definition Marshal :: "(time \<Rightarrow> int) \<Rightarrow> Event \<Rightarrow> string option" where
  "Marshal zone ev = map_option json_print (event_json zone ev)"

section \<open>Reading\<close>

text \<open>What a client of the protocol makes of a value.\<close>

definition member :: "json \<Rightarrow> string \<Rightarrow> json option" where
  "member j k = (case j of JObj kvs \<Rightarrow> map_of kvs k | _ \<Rightarrow> None)"

definition as_string :: "json \<Rightarrow> string option" where
  "as_string j = (case j of JStr s \<Rightarrow> Some s | _ \<Rightarrow> None)"

definition as_list :: "json \<Rightarrow> json list option" where
  "as_list j = (case j of JArr vs \<Rightarrow> Some vs | _ \<Rightarrow> None)"

definition as_number :: "json \<Rightarrow> nat option" where
  "as_number j = (case j of JNum n \<Rightarrow> Some (decimal_val n) | _ \<Rightarrow> None)"

definition text_of :: "json \<Rightarrow> string \<Rightarrow> string option" where
  "text_of j k = Option.bind (member j k) as_string"

definition time_of :: "json \<Rightarrow> string \<Rightarrow> time option" where
  "time_of j k = map_option read_time (text_of j k)"

definition read_state :: "string \<Rightarrow> PresenceState" where
  "read_state s =
     (if s = ''present'' then StatePresent else if s = ''absent'' then StateAbsent
      else if s = ''unknown'' then StateUnknown else StateZero)"

definition read_connection :: "json \<Rightarrow> Connection option" where
  "read_connection j = do {
     i \<leftarrow> text_of j ''id'';
     provider \<leftarrow> text_of j ''provider'';
     source \<leftarrow> text_of j ''source_instance'';
     connected \<leftarrow> time_of j ''connected_at'';
     seen \<leftarrow> time_of j ''last_seen_at'';
     Some \<lparr>conn_ID = i, conn_Provider = provider, conn_SourceInstance = source, conn_ConnectedAt = connected,
           conn_LastSeenAt = seen, conn_Stale = (member j ''stale'' = Some (JBool True))\<rparr>
   }"

definition read_client :: "json \<Rightarrow> Client option" where
  "read_client j = do {
     i \<leftarrow> text_of j ''id'';
     state \<leftarrow> text_of j ''state'';
     present \<leftarrow> member j ''present'';
     conns \<leftarrow> Option.bind (member j ''connections'') as_list;
     ns \<leftarrow> those (map read_connection conns);
     first \<leftarrow> time_of j ''first_seen_at'';
     seen \<leftarrow> time_of j ''last_seen_at'';
     Some \<lparr>cl_ID = i, cl_State = read_state state,
           cl_Present = (case present of JBool b \<Rightarrow> Some b | _ \<Rightarrow> None),
           cl_Connections = ns, cl_FirstSeenAt = first, cl_LastSeenAt = seen\<rparr>
   }"

definition read_snapshot :: "json \<Rightarrow> Snapshot option" where
  "read_snapshot j = do {
     epoch \<leftarrow> text_of j ''stream_epoch'';
     n \<leftarrow> Option.bind (member j ''sequence'') as_number;
     generated \<leftarrow> time_of j ''generated_at'';
     cs \<leftarrow> Option.bind (member j ''clients'') as_list;
     clients \<leftarrow> those (map read_client cs);
     Some \<lparr>snap_StreamEpoch = epoch, snap_Sequence = of_nat n, snap_GeneratedAt = generated, snap_Clients = clients\<rparr>
   }"

definition read_provider :: "json \<Rightarrow> Provider option" where
  "read_provider j = do {
     i \<leftarrow> text_of j ''id'';
     kind \<leftarrow> text_of j ''kind'';
     status \<leftarrow> text_of j ''status'';
     snapshot \<leftarrow> time_of j ''last_snapshot_at'';
     event \<leftarrow> time_of j ''last_event_at'';
     sources \<leftarrow> those (map as_string (case Option.bind (member j ''sources'') as_list of None \<Rightarrow> [] | Some vs \<Rightarrow> vs));
     snapshot_source \<leftarrow> text_of j ''snapshot_source'';
     event_source \<leftarrow> text_of j ''event_source'';
     Some \<lparr>pr_ID = i, pr_Kind = kind, pr_Status = status,
           pr_SnapshotSupported = (member j ''snapshot_supported'' = Some (JBool True)),
           pr_Sources = sources, pr_LastSnapshotAt = snapshot, pr_LastEventAt = event,
           pr_LastError = (case text_of j ''last_error'' of None \<Rightarrow> [] | Some s \<Rightarrow> s),
           pr_SnapshotSource = snapshot_source, pr_EventSource = event_source\<rparr>
   }"

fun read_any :: "json \<Rightarrow> any_value" where
  "read_any (JBool b) = AnyBool b"
| "read_any (JStr s) = AnyString s"
| "read_any _ = AnyString []"

text \<open>The data of an event are told apart by the members that only one kind has.\<close>

definition read_data :: "json option \<Rightarrow> EventData option" where
  "read_data d =
     (case d of
        None \<Rightarrow> Some NoData
      | Some j \<Rightarrow>
          if member j ''connections'' \<noteq> None then map_option ClientData (read_client j)
          else if member j ''clients'' \<noteq> None then map_option SnapshotData (read_snapshot j)
          else if member j ''kind'' \<noteq> None then map_option ProviderData (read_provider j)
          else (case j of JObj kvs \<Rightarrow> Some (MapData (map (map_prod id read_any) kvs)) | _ \<Rightarrow> None))"

definition read_event :: "json \<Rightarrow> Event option" where
  "read_event j = do {
     kind \<leftarrow> text_of j ''type'';
     i \<leftarrow> text_of j ''event_id'';
     epoch \<leftarrow> text_of j ''stream_epoch'';
     n \<leftarrow> Option.bind (member j ''sequence'') as_number;
     timestamp \<leftarrow> time_of j ''timestamp'';
     data \<leftarrow> read_data (member j ''data'');
     Some \<lparr>ev_Type = kind, ev_EventID = i, ev_StreamEpoch = epoch, ev_Sequence = of_nat n, ev_Timestamp = timestamp,
           ev_Reason = (case text_of j ''reason'' of None \<Rightarrow> [] | Some s \<Rightarrow> s), ev_Data = data\<rparr>
   }"

section \<open>Round trips\<close>

lemma those_inverse:
  assumes "those (map f xs) = Some ys" and "\<And>x y. x \<in> set xs \<Longrightarrow> f x = Some y \<Longrightarrow> g y = Some x"
  shows "those (map g ys) = Some xs"
  using assms
proof (induction xs arbitrary: ys)
  case (Cons x xs)
  then obtain y zs where y: "f x = Some y" "those (map f xs) = Some zs" "ys = y # zs" by (auto split: option.splits)
  have "g y = Some x" using Cons.prems(2) y(1) by simp
  then show ?case using Cons.IH [OF y(2)] Cons.prems(2) y(3) by simp
qed simp

lemma time_of_json:
  assumes "time_json offset t = Some j" and "60 dvd offset" and "member v k = Some j"
  shows "time_of v k = Some t"
  using assms read_time_rfc3339
  by (auto simp: time_json_def time_of_def text_of_def as_string_def)

lemma as_number_json [simp]: "as_number (number_json (uint n)) = Some (unat n)"
  by (simp add: as_number_def number_json_def int_decimal_def)

lemma member_simps [simp]:
  "member (JObj ((k, v) # kvs)) k' = (if k' = k then Some v else member (JObj kvs) k')"
  "member (JObj []) k' = None" "member (JObj (xs @ ys)) k' = (case member (JObj xs) k' of None \<Rightarrow> member (JObj ys) k' | Some v \<Rightarrow> Some v)"
  by (simp_all add: member_def map_add_def split: option.split)

lemma as_simps [simp]: "as_string (JStr s) = Some s" "as_list (JArr vs) = Some vs"
  by (simp_all add: as_string_def as_list_def)

lemma read_state_text [simp]: "read_state (state_text st) = st"
  by (cases st) (simp_all add: read_state_def)

lemma read_connection_json: "connection_json n = Some j \<Longrightarrow> read_connection j = Some n"
  by (cases n)
    (auto simp: connection_json_def read_connection_def bind_eq_Some_conv text_of_def
      intro!: exI time_of_json split: if_splits)

definition whole_minutes :: "(time \<Rightarrow> int) \<Rightarrow> bool" where
  "whole_minutes zone \<longleftrightarrow> (\<forall>t. 60 dvd zone t)"

lemma read_client_json:
  assumes "client_json zone c = Some j" and "whole_minutes zone"
  shows "read_client j = Some c"
proof -
  obtain conns first seen where p: "those (map connection_json (cl_Connections c)) = Some conns"
    "time_json 0 (cl_FirstSeenAt c) = Some first" "time_json (zone (cl_LastSeenAt c)) (cl_LastSeenAt c) = Some seen"
    "j = JObj [(''id'', JStr (cl_ID c)), (''state'', JStr (state_text (cl_State c))),
      (''present'', case cl_Present c of None \<Rightarrow> JNull | Some b \<Rightarrow> JBool b),
      (''connections'', JArr conns), (''first_seen_at'', first), (''last_seen_at'', seen)]"
    using assms(1) by (auto simp: client_json_def bind_eq_Some_conv)
  have "those (map read_connection conns) = Some (cl_Connections c)"
    by (rule those_inverse [OF p(1) read_connection_json])
  moreover have "time_of j ''first_seen_at'' = Some (cl_FirstSeenAt c)" "time_of j ''last_seen_at'' = Some (cl_LastSeenAt c)"
    using assms(2) by (auto simp: p(4) whole_minutes_def intro: time_of_json [OF p(2)] time_of_json [OF p(3)])
  ultimately show ?thesis
    by (simp add: read_client_def text_of_def p(4) split: option.split)
qed

lemma read_snapshot_json:
  assumes "snapshot_json zone s = Some j" and "whole_minutes zone"
  shows "read_snapshot j = Some s"
proof -
  obtain generated clients where p: "time_json 0 (snap_GeneratedAt s) = Some generated"
    "those (map (client_json zone) (snap_Clients s)) = Some clients"
    "j = JObj [(''stream_epoch'', JStr (snap_StreamEpoch s)), (''sequence'', number_json (uint (snap_Sequence s))),
      (''generated_at'', generated), (''clients'', JArr clients)]"
    using assms(1) by (auto simp: snapshot_json_def bind_eq_Some_conv)
  have "those (map read_client clients) = Some (snap_Clients s)"
    by (rule those_inverse [OF p(2)]) (rule read_client_json [OF _ assms(2)])
  moreover have "time_of j ''generated_at'' = Some (snap_GeneratedAt s)"
    by (rule time_of_json [OF p(1)]) (simp_all add: p(3))
  ultimately show ?thesis by (simp add: read_snapshot_def text_of_def p(3))
qed

lemma read_provider_json:
  assumes "provider_json p = Some j"
  shows "read_provider j = Some p"
proof -
  obtain snapshot event where e: "time_json 0 (pr_LastSnapshotAt p) = Some snapshot" "time_json 0 (pr_LastEventAt p) = Some event"
    and j: "j = JObj ([(''id'', JStr (pr_ID p)), (''kind'', JStr (pr_Kind p)), (''status'', JStr (pr_Status p)),
      (''snapshot_supported'', JBool (pr_SnapshotSupported p)),
      (''sources'', if pr_Sources p = [] then JNull else strings_json (pr_Sources p)),
      (''last_snapshot_at'', snapshot), (''last_event_at'', event)] @
      (if pr_LastError p = [] then [] else [(''last_error'', JStr (pr_LastError p))]) @
      [(''snapshot_source'', JStr (pr_SnapshotSource p)), (''event_source'', JStr (pr_EventSource p))])"
    using assms by (auto simp: provider_json_def bind_eq_Some_conv)
  have "time_of j ''last_snapshot_at'' = Some (pr_LastSnapshotAt p)"
    by (rule time_of_json [OF e(1)]) (simp_all add: j)
  moreover have "time_of j ''last_event_at'' = Some (pr_LastEventAt p)"
    by (rule time_of_json [OF e(2)]) (simp_all add: j)
  moreover have "those (map as_string (map JStr ss)) = Some ss" for ss
    by (induction ss) simp_all
  moreover have "as_list JNull = None" by (simp add: as_list_def)
  ultimately show ?thesis
    by (simp add: read_provider_def text_of_def j strings_json_def)
qed

text \<open>A map is read back with its keys in order; its keys must not look like those of the other data.\<close>

fun data_read :: "EventData \<Rightarrow> EventData" where
  "data_read (MapData m) = MapData (sort_key fst m)"
| "data_read d = d"

definition plain_map :: "EventData \<Rightarrow> bool" where
  "plain_map d = (case d of MapData m \<Rightarrow> list_all (\<lambda>(k, v). k \<notin> {''connections'', ''clients'', ''kind''}) m | _ \<Rightarrow> True)"

lemma sort_key_values: "sort_key fst (map (map_prod id f) m) = map (map_prod id f) (sort_key fst m)"
  unfolding id_def
proof (induction m)
  case (Cons x m)
  have "insort_key fst (map_prod (\<lambda>a. a) f x) (map (map_prod (\<lambda>a. a) f) ys) = map (map_prod (\<lambda>a. a) f) (insort_key fst x ys)" for ys
    by (induction ys) simp_all
  then show ?case using Cons by simp
qed simp

lemma data_json_cases:
  assumes "data_json zone d = Some kvs" and "whole_minutes zone" and "plain_map d"
  shows "read_data (member (JObj kvs) ''data'') = Some (data_read d)" and "kvs = [] \<or> (\<exists>j. kvs = [(''data'', j)])"
proof -
  show "kvs = [] \<or> (\<exists>j. kvs = [(''data'', j)])" using assms(1) by (auto simp: data_json_def split: EventData.splits)
  show "read_data (member (JObj kvs) ''data'') = Some (data_read d)"
  proof (cases d)
    case NoData
    then show ?thesis using assms(1) by (simp add: data_json_def read_data_def)
  next
    case (ClientData c)
    then obtain j where j: "client_json zone c = Some j" "kvs = [(''data'', j)]" using assms(1) by (auto simp: data_json_def)
    then have "member j ''connections'' \<noteq> None" by (auto simp: client_json_def bind_eq_Some_conv)
    then show ?thesis using j ClientData read_client_json [OF j(1) assms(2)] by (simp add: read_data_def)
  next
    case (SnapshotData s)
    then obtain j where j: "snapshot_json zone s = Some j" "kvs = [(''data'', j)]" using assms(1) by (auto simp: data_json_def)
    then have "member j ''clients'' \<noteq> None" "member j ''connections'' = None" by (auto simp: snapshot_json_def bind_eq_Some_conv)
    then show ?thesis using j SnapshotData read_snapshot_json [OF j(1) assms(2)] by (simp add: read_data_def)
  next
    case (ProviderData p)
    then obtain j where j: "provider_json p = Some j" "kvs = [(''data'', j)]" using assms(1) by (auto simp: data_json_def)
    then have "member j ''kind'' \<noteq> None" "member j ''clients'' = None" "member j ''connections'' = None"
      by (auto simp: provider_json_def bind_eq_Some_conv)
    then show ?thesis using j ProviderData read_provider_json [OF j(1)] by (simp add: read_data_def)
  next
    case (MapData m)
    let ?m = "map (map_prod id any_json) m"
    have r: "read_any (any_json x) = x" for x by (cases x) simp_all
    have m: "map (map_prod id read_any) (sort_key fst ?m) = sort_key fst m"
      using r by (simp add: sort_key_values prod.map_comp comp_def prod.map_ident)
    have n: "member (JObj (sort_key fst ?m)) k = None" if "k \<in> {''connections'', ''clients'', ''kind''}" for k
      using assms(3) that by (auto simp: MapData plain_map_def member_def map_of_eq_None_iff list_all_iff)
    have "kvs = [(''data'', JObj (sort_key fst ?m))]" using assms(1) by (simp add: MapData data_json_def map_json_def)
    then have "member (JObj kvs) ''data'' = Some (JObj (sort_key fst ?m))" by simp
    then show ?thesis
      using n [of "''connections''"] n [of "''clients''"] n [of "''kind''"] m by (simp only: read_data_def MapData) simp
  qed
qed

lemma read_event_json:
  assumes "event_json zone ev = Some j" and "whole_minutes zone" and "plain_map (ev_Data ev)"
  shows "read_event j = Some (ev\<lparr>ev_Data := data_read (ev_Data ev)\<rparr>)"
proof -
  obtain timestamp kvs where e: "time_json 0 (ev_Timestamp ev) = Some timestamp" "data_json zone (ev_Data ev) = Some kvs"
    and j: "j = JObj ([(''type'', JStr (ev_Type ev)), (''event_id'', JStr (ev_EventID ev)),
      (''stream_epoch'', JStr (ev_StreamEpoch ev)), (''sequence'', number_json (uint (ev_Sequence ev))),
      (''timestamp'', timestamp)] @ (if ev_Reason ev = [] then [] else [(''reason'', JStr (ev_Reason ev))]) @ kvs)"
    using assms(1) by (auto simp: event_json_def bind_eq_Some_conv)
  note d = data_json_cases [OF e(2) assms(2,3)]
  have "time_of j ''timestamp'' = Some (ev_Timestamp ev)"
    by (rule time_of_json [OF e(1)]) (simp_all add: j)
  moreover have "member j ''data'' = member (JObj kvs) ''data''" by (simp add: j)
  moreover have "text_of j ''reason'' = (if ev_Reason ev = [] then None else Some (ev_Reason ev))"
    using d(2) by (auto simp: j text_of_def)
  ultimately show ?thesis using d(1) by (simp add: read_event_def text_of_def j)
qed

section \<open>What can be written\<close>

text \<open>The strings of an event.  When they are UTF-8, the text of the event is read back.\<close>

definition connection_strings :: "Connection \<Rightarrow> string list" where
  "connection_strings n = [conn_ID n, conn_Provider n, conn_SourceInstance n]"

definition client_strings :: "Client \<Rightarrow> string list" where
  "client_strings c = cl_ID c # concat (map connection_strings (cl_Connections c))"

definition snapshot_strings :: "Snapshot \<Rightarrow> string list" where
  "snapshot_strings s = snap_StreamEpoch s # concat (map client_strings (snap_Clients s))"

definition provider_strings :: "Provider \<Rightarrow> string list" where
  "provider_strings p =
     [pr_ID p, pr_Kind p, pr_Status p, pr_LastError p, pr_SnapshotSource p, pr_EventSource p] @ pr_Sources p"

definition any_strings :: "any_value \<Rightarrow> string list" where
  "any_strings v = (case v of AnyString s \<Rightarrow> [s] | AnyBool b \<Rightarrow> [])"

definition data_strings :: "EventData \<Rightarrow> string list" where
  "data_strings d =
     (case d of
        NoData \<Rightarrow> []
      | ClientData c \<Rightarrow> client_strings c
      | ProviderData p \<Rightarrow> provider_strings p
      | SnapshotData s \<Rightarrow> snapshot_strings s
      | MapData m \<Rightarrow> concat (map (\<lambda>(k, v). k # any_strings v) m))"

definition event_strings :: "Event \<Rightarrow> string list" where
  "event_strings ev = [ev_Type ev, ev_EventID ev, ev_StreamEpoch ev, ev_Reason ev] @ data_strings (ev_Data ev)"

lemma rfc3339_ascii: "rfc3339 offset t = Some s \<Longrightarrow> ascii s"
proof -
  have p: "ascii (padded w n)" for w n by (rule digits_ascii [OF padded_digits])
  have "ascii (fraction_text n)" for n
  proof -
    have "set (rev (dropWhile (\<lambda>c. c = CHR ''0'') (rev (padded 9 n)))) \<subseteq> set (padded 9 n)"
      using set_dropWhileD by fastforce
    then have "ascii (rev (dropWhile (\<lambda>c. c = CHR ''0'') (rev (padded 9 n))))"
      using p [of 9 n] by (auto simp: ascii_def list_all_iff)
    then show ?thesis by (simp add: fraction_text_def within_def)
  qed
  moreover have "ascii (zone_text offset)" by (simp add: zone_text_def Let_def p within_def)
  moreover assume "rfc3339 offset t = Some s"
  ultimately show ?thesis
    by (auto simp: rfc3339_def Let_def p within_def split: prod.splits if_splits)
qed

lemma printable_time: "time_json offset t = Some j \<Longrightarrow> printable d j"
  by (auto simp: time_json_def ascii_valid rfc3339_ascii)

lemma printable_number [simp]: "printable d (number_json n)"
  by (simp add: number_json_def)

lemma those_all:
  assumes "those (map f xs) = Some ys" and "\<And>x y. x \<in> set xs \<Longrightarrow> f x = Some y \<Longrightarrow> P y"
  shows "list_all P ys"
  using assms
proof (induction xs arbitrary: ys)
  case (Cons x xs)
  then obtain y zs where y: "f x = Some y" "those (map f xs) = Some zs" "ys = y # zs" by (auto split: option.splits)
  then show ?case using Cons.IH [OF y(2)] Cons.prems(2) by auto
qed simp

lemma ascii_key: "within 0 0x7F c \<Longrightarrow> ascii s \<Longrightarrow> valid_utf8 (c # s)"
  by (rule ascii_valid) simp

lemma printable_connection:
  assumes "connection_json n = Some j" and "list_all valid_utf8 (connection_strings n)"
  shows "printable (Suc d) j"
  using assms
  by (auto simp: connection_json_def bind_eq_Some_conv connection_strings_def ascii_key within_def printable_time)

lemma printable_client:
  assumes "client_json zone c = Some j" and "list_all valid_utf8 (client_strings c)"
  shows "printable (Suc (Suc (Suc d))) j"
proof -
  obtain conns first seen where p: "those (map connection_json (cl_Connections c)) = Some conns"
    "time_json 0 (cl_FirstSeenAt c) = Some first" "time_json (zone (cl_LastSeenAt c)) (cl_LastSeenAt c) = Some seen"
    "j = JObj [(''id'', JStr (cl_ID c)), (''state'', JStr (state_text (cl_State c))),
      (''present'', case cl_Present c of None \<Rightarrow> JNull | Some b \<Rightarrow> JBool b),
      (''connections'', JArr conns), (''first_seen_at'', first), (''last_seen_at'', seen)]"
    using assms(1) by (auto simp: client_json_def bind_eq_Some_conv)
  have "list_all (printable (Suc d)) conns"
    using assms(2) by (intro those_all [OF p(1)]) (auto simp: client_strings_def list_all_iff intro!: printable_connection)
  moreover have "valid_utf8 (state_text st)" for st
    by (rule ascii_valid, cases st) (simp_all add: within_def)
  ultimately show ?thesis
    using assms(2) p(2,3)
    by (simp add: p(4) client_strings_def ascii_key within_def printable_time split: option.split)
qed

lemma printable_snapshot:
  assumes "snapshot_json zone s = Some j" and "list_all valid_utf8 (snapshot_strings s)"
  shows "printable (Suc (Suc (Suc (Suc (Suc d))))) j"
proof -
  obtain generated clients where p: "time_json 0 (snap_GeneratedAt s) = Some generated"
    "those (map (client_json zone) (snap_Clients s)) = Some clients"
    "j = JObj [(''stream_epoch'', JStr (snap_StreamEpoch s)), (''sequence'', number_json (uint (snap_Sequence s))),
      (''generated_at'', generated), (''clients'', JArr clients)]"
    using assms(1) by (auto simp: snapshot_json_def bind_eq_Some_conv)
  have "list_all (printable (Suc (Suc (Suc d)))) clients"
    using assms(2) by (intro those_all [OF p(2)]) (auto simp: snapshot_strings_def list_all_iff intro!: printable_client)
  then show ?thesis
    using assms(2) p(1) by (simp add: p(3) snapshot_strings_def ascii_key within_def printable_time)
qed

lemma printable_provider:
  assumes "provider_json p = Some j" and "list_all valid_utf8 (provider_strings p)"
  shows "printable (Suc (Suc d)) j"
  using assms
  by (auto simp: provider_json_def bind_eq_Some_conv provider_strings_def strings_json_def list_all_iff ascii_key within_def
      printable_time split: if_splits)

lemma printable_event:
  assumes "event_json zone ev = Some j" and "list_all valid_utf8 (event_strings ev)"
  shows "printable (Suc (Suc (Suc (Suc (Suc (Suc d)))))) j"
proof -
  obtain timestamp kvs where e: "time_json 0 (ev_Timestamp ev) = Some timestamp" "data_json zone (ev_Data ev) = Some kvs"
    and j: "j = JObj ([(''type'', JStr (ev_Type ev)), (''event_id'', JStr (ev_EventID ev)),
      (''stream_epoch'', JStr (ev_StreamEpoch ev)), (''sequence'', number_json (uint (ev_Sequence ev))),
      (''timestamp'', timestamp)] @ (if ev_Reason ev = [] then [] else [(''reason'', JStr (ev_Reason ev))]) @ kvs)"
    using assms(1) by (auto simp: event_json_def bind_eq_Some_conv)
  have "list_all valid_utf8 (data_strings (ev_Data ev))" using assms(2) by (simp add: event_strings_def)
  moreover have "printable e (any_json v)" if "list_all valid_utf8 (any_strings v)" for e v
    using that by (cases v) (simp_all add: any_strings_def)
  ultimately have "list_all (\<lambda>(k, v). valid_utf8 k \<and> printable (Suc (Suc (Suc (Suc (Suc d))))) v) kvs"
    using e(2) printable_client [of zone] printable_snapshot [of zone] printable_provider
    by (fastforce simp: data_json_def data_strings_def map_json_def list_all_iff ascii_key within_def
        split: EventData.splits)
  then show ?thesis
    using assms(2) e(1) by (auto simp: j event_strings_def ascii_key within_def printable_time)
qed

end
