(* ===== verification/Auth.thy ===== *)
theory Auth
  imports Api_WebSocket Complex_Main
begin

text \<open>
  \<^verbatim>\<open>internal/auth/bearer.go\<close>: the bearer token and the budget for failed attempts.  The hash function of
  the standard library is the parameter \<open>sha256\<close>; the budget, a \<^verbatim>\<open>float64\<close>, is an exact fraction here.
\<close>

section \<open>Definitions\<close>

record Bearer =
  br_digest :: "byte list"
  br_failures :: uint64
  br_tokens :: rat
  br_updated :: time

definition NewBearer :: "(byte list \<Rightarrow> byte list) \<Rightarrow> string \<Rightarrow> time \<Rightarrow> Bearer" where
  "NewBearer sha256 token now =
     \<lparr>br_digest = sha256 (bytes_of token), br_failures = 0, br_tokens = 20, br_updated = now\<rparr>"

text \<open>\<^verbatim>\<open>d.Seconds()\<close>.\<close>

definition seconds :: "duration \<Rightarrow> rat" where
  "seconds d = of_int d / 1000000000"

definition allowFailure :: "time \<Rightarrow> Bearer \<Rightarrow> bool \<times> Bearer" where
  "allowFailure now b =
     (let tokens = br_tokens b + seconds (now - br_updated b) * 5;
          tokens = (if tokens > 20 then 20 else tokens)
      in if tokens < 1 then (False, b\<lparr>br_tokens := tokens, br_updated := now\<rparr>)
         else (True, b\<lparr>br_tokens := tokens - 1, br_updated := now\<rparr>))"

datatype auth_outcome = Passed | Unauthorized | TooManyFailures

definition provided_token :: "string \<Rightarrow> string" where
  "provided_token header =
     (if HasPrefix header ''Bearer '' \<and> length header > length ''Bearer '' then drop (length ''Bearer '') header else [])"

definition Middleware :: "(byte list \<Rightarrow> byte list) \<Rightarrow> time \<Rightarrow> http_header \<Rightarrow> Bearer \<Rightarrow> auth_outcome \<times> Bearer" where
  "Middleware sha256 now h b =
     (let digest = sha256 (bytes_of (provided_token (header_get h ''Authorization'')))
      in if digest \<noteq> br_digest b
         then (case allowFailure now (b\<lparr>br_failures := br_failures b + 1\<rparr>) of
                 (False, b') \<Rightarrow> (TooManyFailures, b')
               | (True, b') \<Rightarrow> (Unauthorized, b'))
         else (Passed, b))"

definition Failures :: "Bearer \<Rightarrow> uint64" where
  "Failures b = br_failures b"

section \<open>The token\<close>

text \<open>A sequence of requests, each with its time and headers.\<close>

fun auth_run :: "(byte list \<Rightarrow> byte list) \<Rightarrow> (time \<times> http_header) list \<Rightarrow> Bearer \<Rightarrow> auth_outcome list \<times> Bearer" where
  "auth_run sha256 [] b = ([], b)"
| "auth_run sha256 ((now, h) # rs) b =
     (case Middleware sha256 now h b of
        (o1, b1) \<Rightarrow> (case auth_run sha256 rs b1 of (os, b2) \<Rightarrow> (o1 # os, b2)))"

lemma allowFailure_digest [simp]: "br_digest (snd (allowFailure now b)) = br_digest b"
  "br_failures (snd (allowFailure now b)) = br_failures b"
  by (simp_all add: allowFailure_def Let_def)

lemma Middleware_digest: "Middleware sha256 now h b = (out, b') \<Longrightarrow> br_digest b' = br_digest b"
  using allowFailure_digest [of now "b\<lparr>br_failures := br_failures b + 1\<rparr>"]
  by (cases "allowFailure now (b\<lparr>br_failures := br_failures b + 1\<rparr>)")
     (auto simp: Middleware_def Let_def split: if_splits bool.splits)

lemma Middleware_passes:
  "fst (Middleware sha256 now h b) = Passed \<longleftrightarrow>
     sha256 (bytes_of (provided_token (header_get h ''Authorization''))) = br_digest b"
  by (auto simp: Middleware_def Let_def split: prod.split bool.split)

lemma bearer_prefix: "HasPrefix h ''Bearer '' \<longleftrightarrow> (\<exists>t. h = ''Bearer '' @ t)"
  unfolding HasPrefix_def by (metis append_eq_conv_conj append_take_drop_id)

lemma provided_iff: "t \<noteq> [] \<Longrightarrow> provided_token h = t \<longleftrightarrow> h = ''Bearer '' @ t"
  by (auto simp: provided_token_def bearer_prefix)

text \<open>No presented value other than the token has the token's hash.\<close>

definition no_collision :: "(byte list \<Rightarrow> byte list) \<Rightarrow> string \<Rightarrow> (time \<times> http_header) list \<Rightarrow> bool" where
  "no_collision sha256 token rs \<longleftrightarrow>
     list_all (\<lambda>(now, h). let t = provided_token (header_get h ''Authorization'')
                           in sha256 (bytes_of t) = sha256 (bytes_of token) \<longrightarrow> t = token) rs"

lemma auth_run_exact:
  assumes "br_digest b = sha256 (bytes_of token)" and "token \<noteq> []" and "no_collision sha256 token rs"
    and "auth_run sha256 rs b = (os, b')"
  shows "map (\<lambda>out. out = Passed) os = map (\<lambda>(now, h). header_get h ''Authorization'' = ''Bearer '' @ token) rs"
  using assms
proof (induction rs arbitrary: b os)
  case (Cons r rs)
  obtain now h where r: "r = (now, h)" by (cases r)
  obtain o1 b1 where m: "Middleware sha256 now h b = (o1, b1)" by fastforce
  obtain os2 b2 where a: "auth_run sha256 rs b1 = (os2, b2)" by fastforce
  let ?t = "provided_token (header_get h ''Authorization'')"
  have "o1 = Passed \<longleftrightarrow> sha256 (bytes_of ?t) = sha256 (bytes_of token)"
    using Middleware_passes [of sha256 now h b] m Cons.prems(1) by simp
  also have "\<dots> \<longleftrightarrow> ?t = token" using Cons.prems(3) by (auto simp: no_collision_def r Let_def)
  also have "\<dots> \<longleftrightarrow> header_get h ''Authorization'' = ''Bearer '' @ token" by (rule provided_iff [OF Cons.prems(2)])
  finally have "o1 = Passed \<longleftrightarrow> header_get h ''Authorization'' = ''Bearer '' @ token" .
  moreover have "map (\<lambda>out. out = Passed) os2 = map (\<lambda>(now, h). header_get h ''Authorization'' = ''Bearer '' @ token) rs"
    using Cons.IH [of b1 os2] Cons.prems(1,2,3) Middleware_digest [OF m] a Cons.prems(4) m r
    by (simp add: no_collision_def)
  moreover have "os = o1 # os2" using Cons.prems(4) m a r by auto
  ultimately show ?case by (simp add: r del: append.simps)
qed simp

section \<open>The budget\<close>

lemma seconds_add: "seconds (a - b) + seconds (b - c) = seconds (a - c)"
  by (simp add: seconds_def flip: add_divide_distrib of_int_add)

lemma seconds_nonneg: "0 \<le> d \<Longrightarrow> 0 \<le> seconds d"
  by (simp add: seconds_def)

lemma Middleware_budget:
  assumes "Middleware sha256 now h b = (out, b')" and "0 \<le> br_tokens b" and "br_updated b \<le> now"
  shows "0 \<le> br_tokens b'" and "br_updated b \<le> br_updated b'" and "br_updated b' \<le> now"
    and "(if out = Unauthorized then 1 else 0) + br_tokens b' \<le> br_tokens b + 5 * seconds (br_updated b' - br_updated b)"
proof -
  have s: "0 \<le> seconds (now - br_updated b)" using assms(3) by (simp add: seconds_nonneg)
  have z: "seconds 0 = 0" by (simp add: seconds_def)
  have "0 \<le> br_tokens b' \<and> br_updated b \<le> br_updated b' \<and> br_updated b' \<le> now \<and>
    (if out = Unauthorized then 1 else 0) + br_tokens b' \<le> br_tokens b + 5 * seconds (br_updated b' - br_updated b)"
    using assms s z by (auto simp: Middleware_def allowFailure_def Let_def split: if_splits)
  then show "0 \<le> br_tokens b'" "br_updated b \<le> br_updated b'" "br_updated b' \<le> now"
    "(if out = Unauthorized then 1 else 0) + br_tokens b' \<le> br_tokens b + 5 * seconds (br_updated b' - br_updated b)"
    by blast+
qed

lemma auth_run_budget:
  assumes "auth_run sha256 rs b = (os, b')" and "0 \<le> br_tokens b" and "sorted (br_updated b # map fst rs)"
    and "\<forall>(now, h) \<in> set rs. now \<le> t1" and "br_updated b \<le> t1"
  shows "0 \<le> br_tokens b' \<and> br_updated b \<le> br_updated b' \<and> br_updated b' \<le> t1 \<and>
    of_nat (length (filter ((=) Unauthorized) os)) + br_tokens b' \<le> br_tokens b + 5 * seconds (br_updated b' - br_updated b)"
  using assms
proof (induction rs arbitrary: b os)
  case Nil
  then show ?case by (simp add: seconds_def)
next
  case (Cons r rs)
  obtain now h where r: "r = (now, h)" by (cases r)
  obtain o1 b1 where m: "Middleware sha256 now h b = (o1, b1)" by fastforce
  obtain os2 b2 where a: "auth_run sha256 rs b1 = (os2, b2)" by fastforce
  have os: "os = o1 # os2" "b2 = b'" using Cons.prems(1) m a r by auto
  note a = a [unfolded os(2)]
  have now: "br_updated b \<le> now" "now \<le> t1" using Cons.prems(3,4) r by auto
  note mb = Middleware_budget [OF m Cons.prems(2) now(1)]
  have "sorted (br_updated b1 # map fst rs)" using Cons.prems(3) mb(3) r by fastforce
  then have ih: "0 \<le> br_tokens b' \<and> br_updated b1 \<le> br_updated b' \<and> br_updated b' \<le> t1 \<and>
    of_nat (length (filter ((=) Unauthorized) os2)) + br_tokens b' \<le> br_tokens b1 + 5 * seconds (br_updated b' - br_updated b1)"
    using Cons.IH [OF a mb(1)] Cons.prems(4) mb(3) now(2) by auto
  have "5 * seconds (br_updated b' - br_updated b1) + 5 * seconds (br_updated b1 - br_updated b) =
      5 * seconds (br_updated b' - br_updated b)"
    using seconds_add [of "br_updated b'" "br_updated b1" "br_updated b"] by (simp flip: distrib_left)
  moreover have "of_nat (length (filter ((=) Unauthorized) os)) =
      (if o1 = Unauthorized then 1 else 0) + (of_nat (length (filter ((=) Unauthorized) os2)) :: rat)"
    using os(1) by auto
  ultimately show ?case using ih mb(2,4) by linarith
qed

text \<open>A failed attempt leaves a budget of at most 20, however long the bearer was idle.\<close>

lemma Middleware_cap:
  assumes "Middleware sha256 now h b = (out, b')" and "out \<noteq> Passed"
  shows "br_updated b' = now \<and> (if out = Unauthorized then 1 else 0) + br_tokens b' \<le> 20"
  using assms by (auto simp: Middleware_def allowFailure_def Let_def split: if_splits)

lemma Middleware_passed: "Middleware sha256 now h b = (Passed, b') \<Longrightarrow> b' = b"
  by (auto simp: Middleware_def Let_def split: if_splits prod.splits bool.splits)

lemma auth_run_period:
  assumes "auth_run sha256 rs b = (os, b')" and "0 \<le> br_tokens b" and "sorted (br_updated b # map fst rs)"
    and "\<forall>(now, h) \<in> set rs. u0 \<le> now \<and> now \<le> u1" and "u0 \<le> u1"
  shows "of_nat (length (filter ((=) Unauthorized) os)) \<le> 20 + 5 * seconds (u1 - u0)"
  using assms
proof (induction rs arbitrary: os)
  case Nil
  then show ?case using seconds_nonneg [of "u1 - u0"] by simp
next
  case (Cons r rs)
  obtain now h where r: "r = (now, h)" by (cases r)
  obtain o1 b1 where m: "Middleware sha256 now h b = (o1, b1)" by fastforce
  obtain os2 b2 where a: "auth_run sha256 rs b1 = (os2, b2)" by fastforce
  have os: "os = o1 # os2" "b2 = b'" using Cons.prems(1) m a r by auto
  note a = a [unfolded os(2)]
  have now: "br_updated b \<le> now" "u0 \<le> now" "now \<le> u1" "sorted (br_updated b # map fst rs)" "sorted (now # map fst rs)"
    using Cons.prems(3,4) r by auto
  show ?case
  proof (cases "o1 = Passed")
    case True
    then have "b1 = b" using Middleware_passed m by simp
    with Cons.IH [of os2] a Cons.prems(2,4,5) now(4) True os(1) show ?thesis by auto
  next
    case False
    note cap = Middleware_cap [OF m False]
    have tok: "0 \<le> br_tokens b1" by (rule Middleware_budget(1) [OF m Cons.prems(2) now(1)])
    have "sorted (br_updated b1 # map fst rs)" "\<forall>(now, h) \<in> set rs. now \<le> u1" "br_updated b1 \<le> u1"
      using cap now(3,5) Cons.prems(4) by auto
    from auth_run_budget [OF a tok this] have c: "0 \<le> br_tokens b'" "br_updated b' \<le> u1"
      "of_nat (length (filter ((=) Unauthorized) os2)) + br_tokens b' \<le> br_tokens b1 + 5 * seconds (br_updated b' - now)"
      using cap by auto
    have "seconds (br_updated b' - now) \<le> seconds (u1 - u0)"
      using c(2) now(2) by (simp add: seconds_def divide_right_mono)
    moreover have "of_nat (length (filter ((=) Unauthorized) os)) =
        (if o1 = Unauthorized then 1 else 0) + (of_nat (length (filter ((=) Unauthorized) os2)) :: rat)"
      using os(1) by auto
    ultimately show ?thesis using c cap by linarith
  qed
qed

lemma auth_run_append:
  "auth_run sha256 (xs @ ys) b = (let (os1, b1) = auth_run sha256 xs b; (os2, b2) = auth_run sha256 ys b1 in (os1 @ os2, b2))"
  by (induction xs arbitrary: b) (auto simp: Let_def split: prod.splits)

lemma auth_run_length: "length (fst (auth_run sha256 rs b)) = length rs"
  by (induction rs arbitrary: b) (auto split: prod.splits, metis fst_conv)

lemma auth_run_after:
  assumes "auth_run sha256 rs b = (os, b')" and "0 \<le> br_tokens b" and "sorted (br_updated b # map fst (rs @ later))"
  shows "0 \<le> br_tokens b' \<and> sorted (br_updated b' # map fst later)"
  using assms
proof (induction rs arbitrary: b os)
  case (Cons r rs)
  obtain now h where r: "r = (now, h)" by (cases r)
  obtain o1 b1 where m: "Middleware sha256 now h b = (o1, b1)" by fastforce
  have "br_updated b \<le> now" using Cons.prems(3) r by simp
  note mb = Middleware_budget [OF m Cons.prems(2) this]
  have "sorted (now # map fst (rs @ later))" using Cons.prems(3) r by simp
  then have "sorted (br_updated b1 # map fst (rs @ later))" using mb(3) by (auto intro: order_trans)
  then show ?case using Cons.IH [of b1] mb(1) Cons.prems(1) m r by (auto split: prod.splits)
qed simp

text \<open>
  C36. Only the holder of the token gets through, and guessing is slow.  Of any sequence of requests,
  those pass that carry exactly \<^verbatim>\<open>Bearer\<close> and the token; and of the requests in any period, whatever came
  before it, at most 20 failed attempts and 5 more per second of the period are answered individually, the
  rest with the same refusal.
\<close>

theorem authentication_guard:
  assumes "token \<noteq> []" and "no_collision sha256 token (before @ during @ later)"
    and "sorted (t0 # map fst (before @ during @ later))"
    and "\<forall>(now, h) \<in> set during. u0 \<le> now \<and> now \<le> u1" and "u0 \<le> u1"
    and "auth_run sha256 (before @ during @ later) (NewBearer sha256 token t0) = (os, b')"
  shows "map (\<lambda>out. out = Passed) os =
      map (\<lambda>(now, h). header_get h ''Authorization'' = ''Bearer '' @ token) (before @ during @ later) \<and>
    of_nat (length (filter ((=) Unauthorized) (take (length during) (drop (length before) os)))) \<le> 20 + 5 * seconds (u1 - u0)"
proof
  let ?b = "NewBearer sha256 token t0"
  have b: "br_digest ?b = sha256 (bytes_of token)" "0 \<le> br_tokens ?b" "br_updated ?b = t0" by (simp_all add: NewBearer_def)
  show "map (\<lambda>out. out = Passed) os =
      map (\<lambda>(now, h). header_get h ''Authorization'' = ''Bearer '' @ token) (before @ during @ later)"
    by (rule auth_run_exact [OF b(1) assms(1,2,6)])
  obtain os1 b1 where 1: "auth_run sha256 before ?b = (os1, b1)" by fastforce
  obtain os2 b2 where 2: "auth_run sha256 during b1 = (os2, b2)" by fastforce
  obtain os3 b3 where 3: "auth_run sha256 later b2 = (os3, b3)" by fastforce
  have "os = os1 @ os2 @ os3" using assms(6) 1 2 3 by (simp add: auth_run_append)
  moreover have "length os1 = length before" "length os2 = length during"
    using auth_run_length [of sha256 before ?b] auth_run_length [of sha256 during b1] 1 2 by simp_all
  ultimately have os2: "take (length during) (drop (length before) os) = os2" by simp
  have "0 \<le> br_tokens b1" "sorted (br_updated b1 # map fst (during @ later))"
    using auth_run_after [OF 1 b(2), of "during @ later"] assms(3) b(3) by auto
  moreover from this(2) have "sorted (br_updated b1 # map fst during)" by (auto simp: sorted_append)
  ultimately show "of_nat (length (filter ((=) Unauthorized) (take (length during) (drop (length before) os)))) \<le> 20 + 5 * seconds (u1 - u0)"
    unfolding os2 by (intro auth_run_period [OF 2 _ _ assms(4,5)])
qed

theorem authentication_guard_witness:
  "\<exists>os b'. auth_run (\<lambda>bs. bs) [(1, [(''Authorization'', [''Bearer key''])]), (2, [])] (NewBearer (\<lambda>bs. bs) ''key'' 0) = (os, b') \<and>
     map (\<lambda>out. out = Passed) os = [True, False]"
proof -
  let ?rs = "[(1, [(''Authorization'', [''Bearer key''])]), (2, [])] :: (time \<times> http_header) list"
  obtain os b' where r: "auth_run (\<lambda>bs. bs) ?rs (NewBearer (\<lambda>bs. bs) ''key'' 0) = (os, b')" by fastforce
  have n: "no_collision (\<lambda>bs. bs) ''key'' ?rs" by code_simp
  have h: "header_get [(''Authorization'', [''Bearer key''])] ''Authorization'' = ''Bearer '' @ ''key''"
    "header_get [] ''Authorization'' \<noteq> ''Bearer '' @ ''key''" by code_simp+
  have "sorted (0 # map fst ?rs)" "\<forall>(now, h) \<in> set ?rs. 1 \<le> now \<and> now \<le> 2" by simp_all
  from authentication_guard [of "''key''" _ "[]" ?rs "[]", unfolded append_Nil append_Nil2, OF _ n this _ r] h r
  show ?thesis by (simp del: append.simps)
qed

end
