(* ===== verification/Config.thy ===== *)
theory Config
  imports Go_Net
begin

text \<open>
  \<^verbatim>\<open>internal/config/config.go\<close>: the configuration, its defaults and its validation, and the bearer token.
  \<^verbatim>\<open>config_Parse\<close> starts from what the \<^verbatim>\<open>flag\<close> package returns, the configuration after all flags have been
  assigned and the arguments that are left, or the error; \<^verbatim>\<open>Config_Flags\<close> models that part.
\<close>

record Config =
  ListenAddress :: string
  Port :: int
  TokenFile :: string
  AgentIDFile :: string
  UbusPath :: string
  HostapdSocket :: string
  ArpingPath :: string
  DHCPLeasesFile :: string
  LANInterface :: string
  MDNS :: bool
  MDNSInterface :: string
  ProviderName :: string
  ReconcileInterval :: duration
  WiredReconcileInterval :: duration
  DiscoveryInterval :: duration
  CommandTimeout :: duration
  MaxCommandOutput :: int
  MaxEventBytes :: int
  CfgMaxClients :: int
  MaxHTTPConnections :: int
  ProviderQueueSize :: int
  MaxStreamClients :: int
  StreamQueueSize :: int
  LogLevel :: string
  CfgReconnectGrace :: duration

definition Default :: Config where
  "Default =
     \<lparr>ListenAddress = ''127.0.0.1'', Port = 8787, TokenFile = ''/etc/openwrt-presence-agent/token'',
      AgentIDFile = ''/etc/openwrt-presence-agent/agent-id'', UbusPath = ''/bin/ubus'',
      HostapdSocket = ''/var/run/hostapd/global'', ArpingPath = ''/usr/bin/arping'',
      DHCPLeasesFile = ''/tmp/dhcp.leases'', LANInterface = ''br-lan'', MDNS = False, MDNSInterface = ''br-lan'',
      ProviderName = ''ubus'', ReconcileInterval = 30 * Second, WiredReconcileInterval = 2 * Second,
      DiscoveryInterval = 10 * Second, CommandTimeout = 5 * Second, MaxCommandOutput = 1024 * 1024,
      MaxEventBytes = 64 * 1024, CfgMaxClients = 512, MaxHTTPConnections = 16, ProviderQueueSize = 256,
      MaxStreamClients = 4, StreamQueueSize = 64, LogLevel = ''info'', CfgReconnectGrace = 0\<rparr>"

datatype config_err =
    FlagError
  | UnexpectedArguments
  | BadListenAddress
  | BadPort
  | BadTokenFile
  | BadAgentIDFile
  | BadUbusPath
  | BadHostapdSocket
  | BadArpingPath
  | BadLeasesFile
  | BadLANInterface
  | BadMDNSInterface
  | UnsupportedProvider string
  | BadIntervals
  | BadCommandOutput
  | BadEventBytes
  | BadMaxClients
  | BadHTTPConnections
  | BadProviderQueue
  | BadStreamLimits
  | BadLogLevel string
  | BadGraceRange
  | BadGraceMinimum

definition not_absolute :: "string \<Rightarrow> bool" where
  "not_absolute p \<longleftrightarrow> p = [] \<or> p ! 0 \<noteq> CHR 0x2F"

definition bad_interface :: "string \<Rightarrow> bool" where
  "bad_interface s \<longleftrightarrow> s = [] \<or> ContainsAny s [CHR '' '', CHR 0x09, CHR 0x0D, CHR 0x0A, CHR 0x2F]"

definition Validate :: "Config \<Rightarrow> config_err option" where
  "Validate c =
     (if ParseIP (ListenAddress c) = None then Some BadListenAddress
      else if Port c < 1 \<or> Port c > 65535 then Some BadPort
      else if not_absolute (TokenFile c) then Some BadTokenFile
      else if not_absolute (AgentIDFile c) then Some BadAgentIDFile
      else if not_absolute (UbusPath c) then Some BadUbusPath
      else if not_absolute (HostapdSocket c) then Some BadHostapdSocket
      else if not_absolute (ArpingPath c) then Some BadArpingPath
      else if not_absolute (DHCPLeasesFile c) then Some BadLeasesFile
      else if bad_interface (LANInterface c) then Some BadLANInterface
      else if bad_interface (MDNSInterface c) then Some BadMDNSInterface
      else if ProviderName c \<noteq> ''ubus'' then Some (UnsupportedProvider (ProviderName c))
      else if ReconcileInterval c < Second \<or> WiredReconcileInterval c < Second \<or>
              DiscoveryInterval c < Second \<or> CommandTimeout c < Second then Some BadIntervals
      else if MaxCommandOutput c < 4096 \<or> MaxCommandOutput c > 16 * 1024 * 1024 then Some BadCommandOutput
      else if MaxEventBytes c < 1024 \<or> MaxEventBytes c > 1024 * 1024 then Some BadEventBytes
      else if CfgMaxClients c < 1 \<or> CfgMaxClients c > 100000 then Some BadMaxClients
      else if MaxHTTPConnections c < 1 \<or> MaxHTTPConnections c > 4096 then Some BadHTTPConnections
      else if ProviderQueueSize c < 1 \<or> ProviderQueueSize c > 65536 then Some BadProviderQueue
      else if MaxStreamClients c < 1 \<or> MaxStreamClients c > 1024 \<or> StreamQueueSize c < 1 \<or> StreamQueueSize c > 4096
      then Some BadStreamLimits
      else if LogLevel c \<notin> {''error'', ''warn'', ''info'', ''debug''} then Some (BadLogLevel (LogLevel c))
      else if CfgReconnectGrace c < 0 \<or> CfgReconnectGrace c > 10 * Minute then Some BadGraceRange
      else if CfgReconnectGrace c > 0 \<and> CfgReconnectGrace c < Second then Some BadGraceMinimum
      else None)"

definition config_Parse :: "(Config \<times> string list) option \<Rightarrow> config_err + Config" where
  "config_Parse flags =
     (case flags of
        None \<Rightarrow> Inl FlagError
      | Some (c, args) \<Rightarrow>
          if length args \<noteq> 0 then Inl UnexpectedArguments
          else (case Validate c of None \<Rightarrow> Inr c | Some err \<Rightarrow> Inl err))"

text \<open>\<^verbatim>\<open>net.JoinHostPort\<close>.\<close>

definition Address :: "Config \<Rightarrow> string" where
  "Address c =
     (let port = decimal (nat (Port c)) in
      if CHR '':'' \<in> set (ListenAddress c) then ''['' @ ListenAddress c @ '']:'' @ port
      else ListenAddress c @ '':'' @ port)"

text \<open>
  \<^verbatim>\<open>LoadToken\<close>: the result of \<^verbatim>\<open>os.Stat\<close> (whether the file is regular and its permission bits) and the
  contents of the file, \<open>None\<close> for an error.
\<close>

datatype token_err = StatFailed | NotRegular | OpenToOthers | ReadTokenFailed | TokenLength | TokenWhitespace

definition LoadToken :: "(bool \<times> nat) option \<Rightarrow> string option \<Rightarrow> token_err + string" where
  "LoadToken info file =
     (case info of
        None \<Rightarrow> Inl StatFailed
      | Some (regular, perm) \<Rightarrow>
          if \<not> regular then Inl NotRegular
          else if perm mod 8 \<noteq> 0 then Inl OpenToOthers
          else (case file of
                  None \<Rightarrow> Inl ReadTokenFailed
                | Some data \<Rightarrow>
                    let token = TrimSpace data in
                    if length token < 43 \<or> length token > 512 then Inl TokenLength
                    else if ContainsAny token [CHR '' '', CHR 0x09, CHR 0x0D, CHR 0x0A] then Inl TokenWhitespace
                    else Inr token))"

section \<open>Lemmas\<close>

lemma Validate_facts:
  assumes "Validate c = None"
  shows "ParseIP (ListenAddress c) \<noteq> None" and "1 \<le> Port c" and "Port c \<le> 65535" and "ProviderName c = ''ubus''"
    and "Second \<le> ReconcileInterval c" and "Second \<le> WiredReconcileInterval c" and "Second \<le> DiscoveryInterval c"
    and "Second \<le> CommandTimeout c" and "4096 \<le> MaxCommandOutput c" and "1024 \<le> MaxEventBytes c"
    and "1 \<le> CfgMaxClients c" and "CfgMaxClients c \<le> 100000" and "1 \<le> MaxHTTPConnections c" and "1 \<le> ProviderQueueSize c"
    and "1 \<le> MaxStreamClients c" and "MaxStreamClients c \<le> 1024" and "1 \<le> StreamQueueSize c" and "StreamQueueSize c \<le> 4096"
    and "CfgReconnectGrace c = 0 \<or> Second \<le> CfgReconnectGrace c" and "CfgReconnectGrace c \<le> 10 * Minute"
  using assms unfolding Validate_def by (simp_all add: not_less split: if_splits)

lemma LoadToken_facts:
  assumes "LoadToken info file = Inr token"
  shows "43 \<le> length token" and "length token \<le> 512" and "\<not> ContainsAny token [CHR '' '', CHR 0x09, CHR 0x0D, CHR 0x0A]"
    and "\<exists>perm. info = Some (True, perm) \<and> perm mod 8 = 0"
  using assms by (auto simp: LoadToken_def Let_def split: option.splits if_splits)

lemma Default_valid: "Validate Default = None"
  by code_simp

end
