(* ===== verification/Api_Server.thy ===== *)
theory Api_Server
  imports Engine_Props Auth Config
begin

text \<open>
  \<^verbatim>\<open>internal/api/server.go\<close>: the handlers of the read-only API, the limit on connections, and the event
  stream.  A body is the value that is encoded, whose text \<^verbatim>\<open>Api_Text\<close> gives; the clock, the
  success of writes and the choices of \<^verbatim>\<open>select\<close> are inputs.
\<close>

section \<open>Responses\<close>

record Server =
  sv_config :: Config
  sv_agentID :: string
  sv_version :: string
  sv_startedAt :: time

datatype setting = Text string | Number int | Span duration

datatype body =
    TextBody string
  | InfoBody string string string "string list"
  | HealthBody string "Provider list"
  | ClientsBody Snapshot
  | ClientBody Client
  | ProvidersBody "Provider list"
  | DiagnosticsBody int "(string \<times> setting) list" "(string \<times> setting) list" "Provider list" EngineStats uint64 "nat \<times> nat"

record response =
  hr_Code :: int
  hr_Body :: body

definition writeJSON :: "int \<Rightarrow> body \<Rightarrow> response" where
  "writeJSON status value = \<lparr>hr_Code = status, hr_Body = value\<rparr>"

definition http_Error :: "string \<Rightarrow> int \<Rightarrow> response" where
  "http_Error message code = \<lparr>hr_Code = code, hr_Body = TextBody message\<rparr>"

section \<open>Handlers\<close>

definition info :: "Server \<Rightarrow> response" where
  "info s =
     writeJSON 200 (InfoBody Version (sv_agentID s) (sv_version s)
       [''wifi_snapshot'', ''wifi_events'', ''wired_snapshot'', ''wired_events'', ''websocket''])"

fun health_scan :: "Provider list \<Rightarrow> string \<times> int \<Rightarrow> string \<times> int" where
  "health_scan [] acc = acc"
| "health_scan (p # ps) acc =
     (if pr_Status p = ''healthy'' then (''operational'', 200)
      else health_scan ps (if pr_Status p = ''unavailable'' \<and> pr_LastSnapshotAt p \<noteq> 0 then (''degraded'', 200) else acc))"

text \<open>
  \<^verbatim>\<open>health\<close> takes the engine's lock anew for each of its reads, so other goroutines may act between them:
  \<open>health_reads\<close> has the states of the three reads, \<open>health\<close> is the handler when nobody does.
\<close>

definition health_reads :: "Engine \<Rightarrow> Engine \<Rightarrow> Engine \<Rightarrow> response" where
  "health_reads e1 e2 e3 =
     (if \<not> HasAuthoritativeSnapshot ''wifi'' e1 then writeJSON 503 (HealthBody ''not_ready'' (Providers e3))
      else let (status, code) = health_scan (Providers e2) (''not_ready'', 503)
           in writeJSON code (HealthBody status (Providers e3)))"

definition health :: "Engine \<Rightarrow> response" where
  "health e = health_reads e e e"

lemma health_def':
  "health e =
     (if \<not> HasAuthoritativeSnapshot ''wifi'' e then writeJSON 503 (HealthBody ''not_ready'' (Providers e))
      else let (status, code) = health_scan (Providers e) (''not_ready'', 503)
           in writeJSON code (HealthBody status (Providers e)))"
  by (simp add: health_def health_reads_def)

text \<open>\<^verbatim>\<open>requireReady\<close>: the response it writes when it refuses.\<close>

definition requireReady :: "Engine \<Rightarrow> response option" where
  "requireReady e =
     (if HasAuthoritativeSnapshot ''wifi'' e then None else Some (http_Error ''observer is not ready'' 503))"

definition clients :: "time \<Rightarrow> Engine \<Rightarrow> response" where
  "clients now e =
     (case requireReady e of
        Some r \<Rightarrow> r
      | None \<Rightarrow> writeJSON 200 (ClientsBody (snapshotLocked now e)))"

text \<open>\<^verbatim>\<open>url.PathUnescape\<close>.\<close>

fun PathUnescape :: "string \<Rightarrow> string option" where
  "PathUnescape [] = Some []"
| "PathUnescape (c # s) =
     (if c = CHR ''%''
      then (case s of
              a # b # rest \<Rightarrow>
                (case (hexval a, hexval b) of
                   (Some x, Some y) \<Rightarrow> map_option (Cons (char_of (16 * x + y))) (PathUnescape rest)
                 | _ \<Rightarrow> None)
            | _ \<Rightarrow> None)
      else map_option (Cons c) (PathUnescape s))"

definition client_by_id :: "string \<Rightarrow> Engine \<Rightarrow> response" where
  "client_by_id pathValue e =
     (case requireReady e of
        Some r \<Rightarrow> r
      | None \<Rightarrow>
          (case PathUnescape pathValue of
             None \<Rightarrow> http_Error ''invalid client id'' 400
           | Some i \<Rightarrow>
               if length i > 128 \<or> \<not> HasPrefix i ''mac:'' then http_Error ''invalid client id'' 400
               else (case lookupClient i e of
                       None \<Rightarrow> http_Error ''client not found'' 404
                     | Some value \<Rightarrow> writeJSON 200 (ClientBody value))))"

definition providers :: "Engine \<Rightarrow> response" where
  "providers e = writeJSON 200 (ProvidersBody (Providers e))"

definition listener_settings :: "Config \<Rightarrow> (string \<times> setting) list" where
  "listener_settings c = [(''address'', Text (ListenAddress c)), (''port'', Number (Port c))]"

definition configuration_settings :: "Config \<Rightarrow> (string \<times> setting) list" where
  "configuration_settings c =
     [(''provider'', Text (ProviderName c)),
      (''reconcile_interval'', Span (ReconcileInterval c)),
      (''wired_reconcile_interval'', Span (WiredReconcileInterval c)),
      (''discovery_interval'', Span (DiscoveryInterval c)),
      (''lan_interface'', Text (LANInterface c)),
      (''max_clients'', Number (CfgMaxClients c)),
      (''max_http_connections'', Number (MaxHTTPConnections c)),
      (''provider_queue_size'', Number (ProviderQueueSize c)),
      (''max_stream_clients'', Number (MaxStreamClients c)),
      (''stream_queue_size'', Number (StreamQueueSize c)),
      (''reconnect_grace'', Span (CfgReconnectGrace c)),
      (''authentication'', Text ''bearer'')]"

text \<open>The constant entries \<^verbatim>\<open>clock\<close> and \<^verbatim>\<open>privilege\<close> are added by \<^verbatim>\<open>body_json\<close> of the theory \<^verbatim>\<open>Api_Text\<close>; \<open>memory\<close> is what the runtime reports.\<close>

definition diagnostics :: "Server \<Rightarrow> time \<Rightarrow> nat \<times> nat \<Rightarrow> Bearer \<Rightarrow> Engine \<Rightarrow> response" where
  "diagnostics s now memory b e =
     writeJSON 200 (DiagnosticsBody ((now - sv_startedAt s) div Second)
       (listener_settings (sv_config s)) (configuration_settings (sv_config s))
       (Providers e) (Stats e) (Failures b) memory)"

section \<open>The limit on connections\<close>

text \<open>
  \<open>ll_slots\<close> is the fill of the channel, \<open>ll_accepting\<close> the calls of \<^verbatim>\<open>Accept\<close> that hold a slot and wait for a
  connection, and \<open>ll_conns\<close> whether each accepted connection has given its slot back.
\<close>

record limitedListener =
  ll_limit :: nat
  ll_slots :: nat
  ll_accepting :: nat
  ll_done :: bool
  ll_conns :: "bool list"

definition newLimitedListener :: "nat \<Rightarrow> limitedListener" where
  "newLimitedListener limit = \<lparr>ll_limit = limit, ll_slots = 0, ll_accepting = 0, ll_done = False, ll_conns = []\<rparr>"

text \<open>
  \<^verbatim>\<open>Accept\<close> up to the inner call: \<open>None\<close> is waiting, \<open>Some False\<close> the return of \<^verbatim>\<open>net.ErrClosed\<close>.  When both
  branches are open, \<open>pick\<close> chooses.
\<close>

definition ll_Accept :: "bool \<Rightarrow> limitedListener \<Rightarrow> bool option \<times> limitedListener" where
  "ll_Accept pick l =
     (let free = ll_slots l < ll_limit l in
      if free \<and> (\<not> ll_done l \<or> pick)
      then (Some True, l\<lparr>ll_slots := ll_slots l + 1, ll_accepting := ll_accepting l + 1\<rparr>)
      else if ll_done l then (Some False, l)
      else (None, l))"

text \<open>The rest of \<^verbatim>\<open>Accept\<close>, after the inner call has failed or has returned a connection.\<close>

definition ll_Accepted :: "bool \<Rightarrow> limitedListener \<Rightarrow> limitedListener" where
  "ll_Accepted ok l =
     (if \<not> ok then l\<lparr>ll_slots := ll_slots l - 1, ll_accepting := ll_accepting l - 1\<rparr>
      else l\<lparr>ll_accepting := ll_accepting l - 1, ll_conns := ll_conns l @ [False]\<rparr>)"

definition ll_Close :: "limitedListener \<Rightarrow> limitedListener" where
  "ll_Close l = l\<lparr>ll_done := True\<rparr>"

definition conn_Close :: "nat \<Rightarrow> limitedListener \<Rightarrow> limitedListener" where
  "conn_Close i l =
     (if ll_conns l ! i then l else l\<lparr>ll_conns := (ll_conns l)[i := True], ll_slots := ll_slots l - 1\<rparr>)"

section \<open>The event stream\<close>

datatype out_frame = JsonFrame Event | RawFrame byte "byte list"

text \<open>
  The state of one call of \<^verbatim>\<open>events\<close> after the upgrade: the snapshot, the number that \<^verbatim>\<open>cancel\<close> captures, the
  channel, the frames written to the connection, and whether the handler has returned.
\<close>

record stream =
  hs_snapshot :: Snapshot
  hs_sub :: uint64
  hs_events :: nat
  hs_sent :: "out_frame list"
  hs_done :: bool

definition helloEvent :: "time \<Rightarrow> Snapshot \<Rightarrow> Event" where
  "helloEvent now snapshot =
     \<lparr>ev_Type = ''stream.hello'', ev_EventID = snap_StreamEpoch snapshot @ '':hello'',
      ev_StreamEpoch = snap_StreamEpoch snapshot, ev_Sequence = snap_Sequence snapshot, ev_Timestamp = now,
      ev_Reason = [], ev_Data = MapData [(''protocol_version'', AnyString Version), (''replay'', AnyBool False)]\<rparr>"

definition initialEvent :: "time \<Rightarrow> Snapshot \<Rightarrow> Event" where
  "initialEvent now snapshot =
     \<lparr>ev_Type = ''state.snapshot'', ev_EventID = snap_StreamEpoch snapshot @ '':snapshot'',
      ev_StreamEpoch = snap_StreamEpoch snapshot, ev_Sequence = snap_Sequence snapshot, ev_Timestamp = now,
      ev_Reason = ''consumer_connected'', ev_Data = SnapshotData snapshot\<rparr>"

text \<open>A heartbeat and the farewell carry the engine's sequence number at that moment.\<close>

definition service_event :: "string \<Rightarrow> string \<Rightarrow> time \<Rightarrow> Snapshot \<Rightarrow> Engine \<Rightarrow> Event" where
  "service_event kind reason now snapshot e =
     \<lparr>ev_Type = ''stream.'' @ kind, ev_EventID = snap_StreamEpoch snapshot @ '':'' @ kind,
      ev_StreamEpoch = snap_StreamEpoch snapshot, ev_Sequence = e_sequence e, ev_Timestamp = now,
      ev_Reason = reason, ev_Data = NoData\<rparr>"

text \<open>The deferred \<^verbatim>\<open>cancel\<close> when the handler returns.\<close>

definition finish :: "stream \<Rightarrow> Engine \<Rightarrow> stream \<times> Engine" where
  "finish h e = (h\<lparr>hs_done := True\<rparr>, cancel (hs_sub h) e)"

text \<open>A frame that is written, and the return if that fails.\<close>

definition send_frame :: "bool \<Rightarrow> out_frame \<Rightarrow> stream \<Rightarrow> Engine \<Rightarrow> stream \<times> Engine" where
  "send_frame ok f h e = (if ok then (h\<lparr>hs_sent := hs_sent h @ [f]\<rparr>, e) else finish h e)"

text \<open>The handler up to its loop; \<open>w1\<close> and \<open>w2\<close> are the success of the first two frames.\<close>

definition events_open ::
    "(byte list \<Rightarrow> byte list) \<Rightarrow> string \<Rightarrow> http_header \<Rightarrow> bool option \<Rightarrow> bool \<Rightarrow> time \<Rightarrow> bool \<Rightarrow> bool \<Rightarrow> Engine \<Rightarrow>
     (response + stream) \<times> Engine" where
  "events_open sha1 method h hijack ok now w1 w2 e =
     (case requireReady e of
        Some r \<Rightarrow> (Inl r, e)
      | None \<Rightarrow>
          (case Subscribe now e of
             (Inl err, e1) \<Rightarrow> (Inl (http_Error ''stream client limit reached'' 503), e1)
           | (Inr (snapshot, i, r), e1) \<Rightarrow>
               (case websocketUpgrade sha1 method h hijack ok of
                  Inl _ \<Rightarrow> (Inl (http_Error ''WebSocket upgrade required'' 400), cancel i e1)
                | Inr _ \<Rightarrow>
                    let s0 = \<lparr>hs_snapshot = snapshot, hs_sub = i, hs_events = r, hs_sent = [], hs_done = False\<rparr>;
                        (s1, e2) = send_frame w1 (JsonFrame (helloEvent now snapshot)) s0 e1;
                        (s2, e3) = (if hs_done s1 then (s1, e2)
                                    else send_frame w2 (JsonFrame (initialEvent now snapshot)) s1 e2)
                    in (Inr s2, e3))))"

text \<open>
  What the \<^verbatim>\<open>select\<close> of the loop receives, with the clock and the success of writing; an event is taken
  only when the channel has one or is closed.
\<close>

datatype stream_input =
    ShutdownSignal time bool
  | PeerGone
  | ControlReady byte "byte list" bool
  | EventsReady bool
  | HeartbeatTick time bool

definition stream_turn :: "stream_input \<Rightarrow> stream \<Rightarrow> Engine \<Rightarrow> stream \<times> Engine" where
  "stream_turn inp h e =
     (case inp of
        ShutdownSignal now ok \<Rightarrow>
          (case send_frame ok (JsonFrame (service_event ''shutdown'' ''service_stopping'' now (hs_snapshot h) e)) h e of
             (h1, e1) \<Rightarrow> if hs_done h1 then (h1, e1) else finish h1 e1)
      | PeerGone \<Rightarrow> finish h e
      | ControlReady opcode payload ok \<Rightarrow> send_frame ok (RawFrame opcode payload) h e
      | EventsReady ok \<Rightarrow>
          (case receive (hs_events h) e of
             (None, e1) \<Rightarrow> (h, e1)
           | (Some None, e1) \<Rightarrow>
               (case send_frame ok (RawFrame 0x8 [0x03, 0xf3]) h e1 of
                  (h1, e2) \<Rightarrow> if hs_done h1 then (h1, e2) else finish h1 e2)
           | (Some (Some ev), e1) \<Rightarrow> send_frame ok (JsonFrame ev) h e1)
      | HeartbeatTick now ok \<Rightarrow>
          send_frame ok (JsonFrame (service_event ''heartbeat'' [] now (hs_snapshot h) e)) h e)"

section \<open>Routing\<close>

text \<open>
  The patterns of the multiplexer, on a cleaned path that is still percent-encoded; a request with another
  path, unless its method is \<^verbatim>\<open>CONNECT\<close>, is redirected to the cleaned one.  \<^verbatim>\<open>net/http\<close> decodes a
  segment before it compares it or binds it to \<^verbatim>\<open>{id}\<close>, and a lone slash binds to nothing.
\<close>

datatype route = RInfo | RHealth | RClients | RClient string | RProviders | RDiagnostics | REvents

fun path_segments :: "string \<Rightarrow> string list" where
  "path_segments [] = [[]]"
| "path_segments (c # s) =
     (if c = CHR 0x2F then [] # path_segments s
      else (case path_segments s of [] \<Rightarrow> [[c]] | x # xs \<Rightarrow> (c # x) # xs))"

text \<open>
  \<^verbatim>\<open>cleanPath\<close> of \<^verbatim>\<open>net/http\<close>: empty and dot segments go, a double dot takes the segment before it along, and
  a slash at the end stays.
\<close>

fun clean_segments :: "string list \<Rightarrow> string list \<Rightarrow> string list" where
  "clean_segments [] done = rev done"
| "clean_segments (x # xs) done =
     (if x = [] \<or> x = ''.'' then clean_segments xs done
      else if x = ''..'' then clean_segments xs (drop 1 done)
      else clean_segments xs (x # done))"

definition cleanPath :: "string \<Rightarrow> string" where
  "cleanPath path =
     (if path = [] then [CHR 0x2F]
      else
        let np = concat (map (\<lambda>x. CHR 0x2F # x) (clean_segments (path_segments path) [])) in
        if np = [] then [CHR 0x2F]
        else if path ! (length path - 1) = CHR 0x2F then np @ [CHR 0x2F] else np)"

definition http_Redirect :: "string \<Rightarrow> int \<Rightarrow> response" where
  "http_Redirect url code = \<lparr>hr_Code = code, hr_Body = TextBody url\<rparr>"

definition mux_segment :: "string \<Rightarrow> string" where
  "mux_segment x = (case PathUnescape x of None \<Rightarrow> x | Some y \<Rightarrow> y)"

definition route_of :: "string \<Rightarrow> route option" where
  "route_of path =
     (case map mux_segment (path_segments path) of
        [lead, v1, name] \<Rightarrow>
          if lead \<noteq> [] \<or> v1 \<noteq> ''v1'' then None
          else if name = ''info'' then Some RInfo
          else if name = ''health'' then Some RHealth
          else if name = ''clients'' then Some RClients
          else if name = ''providers'' then Some RProviders
          else if name = ''diagnostics'' then Some RDiagnostics
          else if name = ''events'' then Some REvents
          else None
      | [lead, v1, name, i] \<Rightarrow>
          if lead = [] \<and> v1 = ''v1'' \<and> name = ''clients'' \<and> i \<noteq> [] \<and> i \<noteq> [CHR 0x2F] then Some (RClient i) else None
      | _ \<Rightarrow> None)"

record request =
  rq_Method :: string
  rq_Path :: string
  rq_Header :: http_header

text \<open>What a request meets outside: the clock, the memory statistics and the state of the connection.\<close>

record surroundings =
  su_now :: time
  su_memory :: "nat \<times> nat"
  su_hijack :: "bool option"
  su_handshake :: bool
  su_writes :: "bool \<times> bool"

definition dispatch ::
    "(byte list \<Rightarrow> byte list) \<Rightarrow> Server \<Rightarrow> surroundings \<Rightarrow> request \<Rightarrow> Bearer \<Rightarrow> Engine \<Rightarrow> (response + stream) \<times> Engine" where
  "dispatch sha1 s u q b e =
     (if rq_Method q \<noteq> ''CONNECT'' \<and> cleanPath (rq_Path q) \<noteq> rq_Path q
      then (Inl (http_Redirect (cleanPath (rq_Path q)) 301), e)
      else case route_of (rq_Path q) of
        None \<Rightarrow> (Inl (http_Error ''404 page not found'' 404), e)
      | Some r \<Rightarrow>
          if rq_Method q \<noteq> ''GET'' \<and> rq_Method q \<noteq> ''HEAD'' then (Inl (http_Error ''Method Not Allowed'' 405), e)
          else (case r of
                  RInfo \<Rightarrow> (Inl (info s), e)
                | RHealth \<Rightarrow> (Inl (health e), e)
                | RClients \<Rightarrow> (Inl (clients (su_now u) e), e)
                | RClient i \<Rightarrow> (Inl (client_by_id i e), e)
                | RProviders \<Rightarrow> (Inl (providers e), e)
                | RDiagnostics \<Rightarrow> (Inl (diagnostics s (su_now u) (su_memory u) b e), e)
                | REvents \<Rightarrow>
                    events_open sha1 (rq_Method q) (rq_Header q) (su_hijack u) (su_handshake u) (su_now u)
                      (fst (su_writes u)) (snd (su_writes u)) e))"

text \<open>A pattern for \<^verbatim>\<open>GET\<close> also serves \<^verbatim>\<open>HEAD\<close>.  The handler of the HTTP server: authentication in front of the multiplexer.\<close>

definition serve ::
    "(byte list \<Rightarrow> byte list) \<Rightarrow> (byte list \<Rightarrow> byte list) \<Rightarrow> Server \<Rightarrow> surroundings \<Rightarrow> request \<Rightarrow> Bearer \<Rightarrow> Engine \<Rightarrow>
     (response + stream) \<times> Bearer \<times> Engine" where
  "serve sha256 sha1 s u q b e =
     (case Middleware sha256 (su_now u) (rq_Header q) b of
        (TooManyFailures, b1) \<Rightarrow> (Inl (http_Error ''too many authentication failures'' 429), b1, e)
      | (Unauthorized, b1) \<Rightarrow> (Inl (http_Error ''unauthorized'' 401), b1, e)
      | (Passed, b1) \<Rightarrow> (case dispatch sha1 s u q b1 e of (r, e1) \<Rightarrow> (r, b1, e1)))"

end
