(* ===== verification/Api_Stream.thy ===== *)
theory Api_Stream
  imports Api_Server
begin

text \<open>
  The event stream on the wire: what a WebSocket client has been sent at any moment, whatever the engine,
  the other requests and the connection do in between.
\<close>

section \<open>Specification\<close>

text \<open>
  A frame of the service itself carries no data; a client that follows the protocol takes the clients of
  the second frame and applies every later event.
\<close>

definition service_frame :: "Snapshot \<Rightarrow> out_frame \<Rightarrow> bool" where
  "service_frame snap f =
     (case f of
        RawFrame _ _ \<Rightarrow> True
      | JsonFrame ev \<Rightarrow>
          ev_Data ev = NoData \<and> ev_StreamEpoch ev = snap_StreamEpoch snap \<and>
          ev_Type ev \<in> {''stream.heartbeat'', ''stream.shutdown''})"

definition wire_step :: "out_frame \<Rightarrow> view \<Rightarrow> view" where
  "wire_step f v = (case f of RawFrame _ _ \<Rightarrow> v | JsonFrame ev \<Rightarrow> consume ev v)"

definition wire_view :: "out_frame list \<Rightarrow> view option" where
  "wire_view fs =
     (case fs of
        JsonFrame hello # JsonFrame initial # rest \<Rightarrow>
          (case ev_Data initial of
             SnapshotData s \<Rightarrow> Some (fold wire_step rest (snapshot_view s))
           | _ \<Rightarrow> None)
      | _ \<Rightarrow> None)"

text \<open>The frames sent are the greeting, the snapshot, and the events in order with service frames between them.\<close>

definition wire_ok :: "time \<Rightarrow> Event list \<Rightarrow> stream \<Rightarrow> bool" where
  "wire_ok now evs h \<longleftrightarrow>
     (\<exists>z svc. hs_sent h = JsonFrame (helloEvent now (hs_snapshot h)) # JsonFrame (initialEvent now (hs_snapshot h)) # z \<and>
        z \<in> shuffles (map JsonFrame evs) svc \<and> (\<forall>f \<in> set svc. service_frame (hs_snapshot h) f))"

text \<open>
  One step of the system while the stream is served: any other operation on the engine, where only this
  handler receives from its channel, or a turn of the handler's loop.
\<close>

inductive serves :: "stream \<times> Engine \<Rightarrow> stream \<times> Engine \<Rightarrow> bool" where
  other: "engine_step e e' \<Longrightarrow> ch_taken (e_heap e' ! hs_events h) = ch_taken (e_heap e ! hs_events h) \<Longrightarrow>
     serves (h, e) (h, e')"
| turn: "\<not> hs_done h \<Longrightarrow> stream_turn inp h e = (h', e') \<Longrightarrow> serves (h, e) (h', e')"

section \<open>Shuffles\<close>

lemma shuffles_snoc: "z \<in> shuffles xs ys \<Longrightarrow> z @ [x] \<in> shuffles (xs @ [x]) ys"
proof (induction xs ys arbitrary: z rule: shuffles.induct)
  case (1 ys)
  then have "z = ys" by simp
  moreover have "ys @ [x] \<in> shuffles [x] ys" for ys
    by (induction ys) (auto simp: Cons_in_shuffles_iff)
  ultimately show ?case by simp
qed (auto simp: Cons_in_shuffles_iff)

lemma shuffles_snoc_right: "z \<in> shuffles xs ys \<Longrightarrow> z @ [x] \<in> shuffles xs (ys @ [x])"
  using shuffles_snoc [of z ys xs x] by (simp add: shuffles_commutes)

lemma fold_shuffle:
  assumes "z \<in> shuffles xs ys" and "\<forall>y \<in> set ys. \<forall>v. f y v = v"
  shows "fold f z v = fold f xs v"
proof -
  have nil: "fold f ys v = v" if "\<forall>y \<in> set ys. \<forall>v. f y v = v" for ys v
    using that by (induction ys) simp_all
  show ?thesis
    using assms by (induction xs ys arbitrary: z v rule: shuffles.induct) (auto simp: nil)
qed

lemma service_silent: "service_frame snap f \<Longrightarrow> wire_step f v = v"
  by (cases f) (simp_all add: service_frame_def wire_step_def consume_def)

lemma wire_ok_view:
  assumes "wire_ok now evs h"
  shows "wire_view (hs_sent h) = Some (fold consume evs (snapshot_view (hs_snapshot h)))"
proof -
  from assms obtain z svc where z: "hs_sent h = JsonFrame (helloEvent now (hs_snapshot h)) # JsonFrame (initialEvent now (hs_snapshot h)) # z"
    "z \<in> shuffles (map JsonFrame evs) svc" "\<forall>f \<in> set svc. service_frame (hs_snapshot h) f"
    by (auto simp: wire_ok_def)
  have "fold wire_step z v = fold wire_step (map JsonFrame evs) v" for v
    using z(2,3) by (intro fold_shuffle) (auto simp: service_silent)
  moreover have "fold wire_step (map JsonFrame evs) v = fold consume evs v" for v
    by (induction evs arbitrary: v) (simp_all add: wire_step_def)
  ultimately show ?thesis by (simp add: wire_view_def z(1) initialEvent_def)
qed

lemma wire_ok_event: "wire_ok now evs h \<Longrightarrow> wire_ok now (evs @ [ev]) (h\<lparr>hs_sent := hs_sent h @ [JsonFrame ev]\<rparr>)"
  using shuffles_snoc by (fastforce simp: wire_ok_def)

lemma wire_ok_service:
  "wire_ok now evs h \<Longrightarrow> service_frame (hs_snapshot h) f \<Longrightarrow> wire_ok now evs (h\<lparr>hs_sent := hs_sent h @ [f]\<rparr>)"
  unfolding wire_ok_def
  by (elim exE conjE, rule_tac x = "z @ [f]" in exI, rule_tac x = "svc @ [f]" in exI)
     (auto intro: shuffles_snoc_right)

lemma wire_ok_done [simp]: "wire_ok now evs (h\<lparr>hs_done := d\<rparr>) = wire_ok now evs h"
  by (simp add: wire_ok_def)

lemma service_event_frame:
  "service_frame snap (JsonFrame (service_event ''heartbeat'' reason now snap e))"
  "service_frame snap (JsonFrame (service_event ''shutdown'' reason now snap e))"
  "service_frame snap (RawFrame opcode payload)"
  by (simp_all add: service_frame_def service_event_def)

section \<open>The invariant of a served stream\<close>

text \<open>\<open>lg\<close> is the engine's log when the stream was opened.\<close>

definition served :: "time \<Rightarrow> Event list \<Rightarrow> stream \<times> Engine \<Rightarrow> bool" where
  "served now lg = (\<lambda>(h, e).
     engine_inv e \<and> hs_events h < length (e_heap e) \<and> ch_opened (e_heap e ! hs_events h) = length lg \<and>
     prefix lg (e_log e) \<and>
     (\<forall>s \<in> set (e_subscribers e). snd s = hs_events h \<longrightarrow> fst s = hs_sub h \<and> \<not> hs_done h) \<and>
     (\<exists>evs. prefix evs (ch_taken (e_heap e ! hs_events h)) \<and>
        (\<not> hs_done h \<longrightarrow> evs = ch_taken (e_heap e ! hs_events h)) \<and> wire_ok now evs h))"

lemma served_engine:
  assumes "served now lg (h, e)" and "engine_step e e'"
    and "ch_taken (e_heap e' ! hs_events h) = ch_taken (e_heap e ! hs_events h)"
  shows "served now lg (h, e')"
proof -
  have inv: "engine_inv e" using assms(1) by (simp add: served_def)
  note x = engine_step_ext [OF assms(2) inv]
  have "\<forall>s \<in> set (e_subscribers e'). snd s = hs_events h \<longrightarrow> s \<in> set (e_subscribers e)"
    using x assms(1) by (auto simp: ext_def served_def)
  then show ?thesis
    using assms(1,3) x engine_step_keeps [OF assms(2) inv] by (auto simp: served_def ext_def intro: prefix_order.order_trans)
qed

lemma cancel_taken: "r < length (e_heap e) \<Longrightarrow> ch_taken (e_heap (cancel i e) ! r) = ch_taken (e_heap e ! r)"
  by (cases "map_of (e_subscribers e) i = Some r") (auto simp: cancel_def close_chan_def split: option.split)

lemma cancel_subs: "s \<in> set (e_subscribers (cancel i e)) \<longleftrightarrow> s \<in> set (e_subscribers e) \<and> fst s \<noteq> i"
  by (cases s) (auto simp: cancel_def close_chan_def mem_delete map_of_eq_None_iff split: option.split
      intro: rev_image_eqI)

lemma served_finish:
  assumes "engine_inv e" and "hs_events h < length (e_heap e)" and "ch_opened (e_heap e ! hs_events h) = length lg" and "prefix lg (e_log e)"
    and "\<forall>s \<in> set (e_subscribers e). snd s = hs_events h \<longrightarrow> fst s = hs_sub h"
    and "prefix evs (ch_taken (e_heap e ! hs_events h))" and "wire_ok now evs h"
  shows "served now lg (finish h e)"
proof -
  let ?e = "cancel (hs_sub h) e"
  have st: "engine_step e ?e" by (rule engine_step.cancel)
  note x = engine_step_ext [OF st assms(1)] and k = engine_step_keeps [OF st assms(1)]
  have "\<forall>s \<in> set (e_subscribers ?e). snd s \<noteq> hs_events h"
    using assms(5) by (auto simp: cancel_subs)
  then show ?thesis
    using x k assms(2,3,4,6,7) by (auto simp: finish_def served_def ext_def cancel_taken intro: prefix_order.order_trans)
qed

lemma served_finish':
  assumes "served now lg (h, e)"
  shows "served now lg (finish h e)"
proof -
  from assms obtain evs where "prefix evs (ch_taken (e_heap e ! hs_events h))" "wire_ok now evs h"
    by (auto simp: served_def)
  with assms show ?thesis by (intro served_finish) (auto simp: served_def)
qed

lemma served_send:
  assumes "served now lg (h, e)" and "service_frame (hs_snapshot h) f"
  shows "served now lg (send_frame ok f h e)"
  using assms served_finish' [OF assms(1)]
  by (auto simp: send_frame_def served_def intro: wire_ok_service)

text \<open>A frame and the return after it.\<close>

lemma served_last:
  assumes "served now lg (h, e)" and "service_frame (hs_snapshot h) f"
  shows "served now lg (case send_frame ok f h e of (h1, e1) \<Rightarrow> if hs_done h1 then (h1, e1) else finish h1 e1)"
  using served_send [OF assms, of ok] served_finish' by (auto split: prod.split)

lemma served_event:
  assumes "served now lg (h, e)" and "\<not> hs_done h" and "receive (hs_events h) e = (Some (Some ev), e1)"
  shows "served now lg (send_frame ok (JsonFrame ev) h e1)"
proof -
  let ?r = "hs_events h"
  have r: "?r < length (e_heap e)" and inv: "engine_inv e" using assms(1) by (auto simp: served_def)
  have st: "engine_step e e1" using engine_step.receive [OF r] assms(3) by simp
  note x = engine_step_ext [OF st inv] and k = engine_step_keeps [OF st inv]
  have taken: "ch_taken (e_heap e1 ! ?r) = ch_taken (e_heap e ! ?r) @ [ev]" and subs: "e_subscribers e1 = e_subscribers e"
    using assms(3) r by (auto simp: receive_def split: list.splits if_splits)
  have w: "wire_ok now (ch_taken (e_heap e ! ?r)) h" using assms(1,2) by (auto simp: served_def)
  have base: "?r < length (e_heap e1)" "ch_opened (e_heap e1 ! ?r) = length lg" "prefix lg (e_log e1)"
    "\<forall>s \<in> set (e_subscribers e1). snd s = ?r \<longrightarrow> fst s = hs_sub h"
    using x assms(1) r by (auto simp: served_def ext_def subs intro: prefix_order.order_trans)
  show ?thesis
  proof (cases ok)
    case True
    then show ?thesis
      using base k wire_ok_event [OF w] assms(2) by (simp add: send_frame_def served_def taken)
  next
    case False
    have "served now lg (finish h e1)"
      by (rule served_finish [OF k base _ w]) (simp add: taken)
    then show ?thesis by (simp add: send_frame_def False)
  qed
qed

lemma served_turn:
  assumes "served now lg (h, e)" and "\<not> hs_done h"
  shows "served now lg (stream_turn inp h e)"
proof (cases inp)
  case (ShutdownSignal now' ok)
  then show ?thesis using served_last [OF assms(1) service_event_frame(2)] by (simp add: stream_turn_def)
next
  case PeerGone
  then show ?thesis using served_finish' [OF assms(1)] by (simp add: stream_turn_def)
next
  case (ControlReady opcode payload ok)
  then show ?thesis using served_send [OF assms(1) service_event_frame(3)] by (simp add: stream_turn_def)
next
  case (HeartbeatTick now' ok)
  then show ?thesis using served_send [OF assms(1) service_event_frame(1)] by (simp add: stream_turn_def)
next
  case (EventsReady ok)
  consider (blocked) "receive (hs_events h) e = (None, e)" | (closed) "receive (hs_events h) e = (Some None, e)"
    | (event) ev e1 where "receive (hs_events h) e = (Some (Some ev), e1)"
    by (cases "receive (hs_events h) e" rule: prod.exhaust)
       (auto simp: receive_def split: list.splits if_splits)
  then show ?thesis
  proof cases
    case closed
    with EventsReady show ?thesis
      using served_last [OF assms(1) service_event_frame(3)] by (simp add: stream_turn_def)
  next
    case event
    with EventsReady show ?thesis using served_event [OF assms event] by (simp add: stream_turn_def)
  qed (use EventsReady assms in \<open>simp add: stream_turn_def\<close>)
qed

lemma serves_served:
  assumes "serves s s'" and "served now lg s"
  shows "served now lg s' \<and> hs_snapshot (fst s') = hs_snapshot (fst s)"
  using assms
proof cases
  case (other e e' h)
  with assms(2) show ?thesis using served_engine by auto
next
  case (turn h inp e h' e')
  have "hs_snapshot h' = hs_snapshot h"
    using turn(4) by (auto simp: stream_turn_def send_frame_def finish_def split: stream_input.splits if_splits
        prod.splits option.splits)
  then show ?thesis using served_turn [of now lg h e inp] turn assms(2) by auto
qed


lemma serves_run:
  assumes "serves\<^sup>*\<^sup>* s s'" and "served now lg s"
  shows "served now lg s' \<and> hs_snapshot (fst s') = hs_snapshot (fst s)"
  using assms(1)
proof (induction rule: rtranclp_induct)
  case base
  with assms(2) show ?case by simp
next
  case (step s' s'')
  then show ?case using serves_served by metis
qed

text \<open>What the handler has when its first two frames are out.\<close>

lemma events_open_served:
  assumes "engine_reach e0" and "events_open sha1 method header hijack ok now True True e0 = (Inr h, e1)"
  shows "served now (e_log e0) (h, e1)" and "hs_snapshot h = snapshotLocked now e1"
    and "e_log e1 = e_log e0" and "e_sequence e1 = e_sequence e0"
proof -
  obtain snap i r where s: "Subscribe now e0 = (Inr (snap, i, r), e1)" and r: "hs_events h = r" "hs_sub h = i"
    "hs_snapshot h = snap" "\<not> hs_done h"
    "hs_sent h = [JsonFrame (helloEvent now snap), JsonFrame (initialEvent now snap)]"
    using assms(2)
    by (auto simp: events_open_def send_frame_def Let_def split: option.splits sum.splits prod.splits)
  have inv1: "engine_inv e1"
    using engine_reach_inv [OF engine_reach.step [OF assms(1) engine_step.subscribe [of e0 now]]] s by simp
  have inv0: "engine_inv e0" by (rule engine_reach_inv [OF assms(1)])
  have e1: "r = length (e_heap e0)" "i = e_nextSub e0" "e_log e1 = e_log e0" "e_sequence e1 = e_sequence e0"
    "e_subscribers e1 = AList.update i r (e_subscribers e0)" "snap = snapshotLocked now e1"
    "e_heap e1 = e_heap e0 @ [chan_make (nat (QueueSize (e_limits e0))) (length (e_log e0))]"
    using s by (auto simp: Subscribe_def Let_def split: if_splits)
  have "x = (i, r) \<or> x \<in> set m" if "x \<in> set (AList.update i r m)" for x and m :: "(uint64 \<times> nat) list"
    using that by (induction m) (auto split: if_splits)
  moreover have "snd x \<noteq> r" if "x \<in> set (e_subscribers e0)" for x
    using inv0 that by (force simp: e1(1) engine_inv_def inv_but_def stream_inv_def sub_ok_def)
  ultimately have "\<forall>x \<in> set (e_subscribers e1). snd x = r \<longrightarrow> fst x = i" by (fastforce simp: e1(5))
  moreover have "wire_ok now [] h" by (simp add: wire_ok_def r)
  ultimately show "served now (e_log e0) (h, e1)"
    using inv1 r e1 by (auto simp: served_def chan_make_def)
  show "hs_snapshot h = snapshotLocked now e1" "e_log e1 = e_log e0" "e_sequence e1 = e_sequence e0"
    using r e1 by simp_all
qed

lemma served_events:
  assumes "served now lg (h, e)" and "prefix evs (ch_taken (e_heap e ! hs_events h))"
  shows "take (length lg + length evs) (e_log e) = lg @ evs"
proof -
  have "chan_ok (nat (QueueSize (e_limits e))) (e_log e) (e_heap e ! hs_events h)"
    using assms(1) by (auto simp: served_def engine_inv_def inv_but_def stream_inv_def)
  then have "prefix evs (drop (length lg) (e_log e))"
    using assms by (auto simp: served_def chan_ok_def chan_stream_def prefix_def)
  moreover have "prefix lg (e_log e)" using assms(1) by (simp add: served_def)
  ultimately show ?thesis by (auto simp: prefix_def)
qed

section \<open>The served stream\<close>

lemma served_numbers:
  assumes "served now (e_log e0) (h, e)" and "prefix evs (ch_taken (e_heap e ! hs_events h))"
    and "snap_Sequence (hs_snapshot h) = of_nat (length (e_log e0))"
  shows "map ev_Sequence evs = map (\<lambda>n. snap_Sequence (hs_snapshot h) + of_nat (Suc n)) [0..<length evs]"
proof (rule nth_equalityI)
  note log = served_events [OF assms(1,2)]
  have ok: "log_ok e" using assms(1) by (auto simp: served_def engine_inv_def inv_but_def stream_inv_def)
  fix k assume "k < length (map ev_Sequence evs)"
  then have k: "k < length evs" by simp
  have "e_log e ! (length (e_log e0) + k) = take (length (e_log e0) + length evs) (e_log e) ! (length (e_log e0) + k)"
    using k by simp
  then have "e_log e ! (length (e_log e0) + k) = evs ! k" by (simp add: log)
  moreover have "length (e_log e0) + k < length (e_log e)"
    using arg_cong [OF log, of length] k by simp
  ultimately have "ev_Sequence (evs ! k) = of_nat (Suc (length (e_log e0) + k))" using ok by (metis log_ok_def)
  then show "map ev_Sequence evs ! k = map (\<lambda>n. snap_Sequence (hs_snapshot h) + of_nat (Suc n)) [0..<length evs] ! k"
    using k assms(3) by (simp add: algebra_simps)
qed simp

lemma served_current:
  assumes "served now log0 (h, e)" and "evs = ch_taken (e_heap e ! hs_events h)"
    and "\<not> hs_done h" and "hs_events h \<in> snd ` set (e_subscribers e)" and "ch_buf (e_heap e ! hs_events h) = []"
  shows "take (length log0 + length evs) (e_log e) = e_log e"
proof -
  have "sub_ok e (hs_events h)"
    using assms(1,4) by (auto simp: served_def engine_inv_def inv_but_def stream_inv_def)
  then have "evs = drop (length log0) (e_log e)"
    using assms by (simp add: sub_ok_def chan_stream_def served_def)
  then show ?thesis using assms(1) by (auto simp: served_def prefix_def)
qed

text \<open>All that holds of a stream at any moment.\<close>

lemma stream_facts:
  assumes "engine_reach e0" and "events_open sha1 method header hijack ok now True True e0 = (Inr h1, e1)"
    and "serves\<^sup>*\<^sup>* (h1, e1) (h, e)"
  shows "\<exists>evs. prefix evs (ch_taken (e_heap e ! hs_events h)) \<and>
      (\<not> hs_done h \<longrightarrow> evs = ch_taken (e_heap e ! hs_events h)) \<and> wire_ok now evs h \<and>
      map ev_Sequence evs = map (\<lambda>n. snap_Sequence (hs_snapshot h) + of_nat (Suc n)) [0..<length evs] \<and>
      wire_view (hs_sent h) = Some (replay (take (length (e_log e0) + length evs) (e_log e))) \<and>
      (\<not> hs_done h \<and> hs_events h \<in> snd ` set (e_subscribers e) \<and> ch_buf (e_heap e ! hs_events h) = [] \<longrightarrow>
         wire_view (hs_sent h) = Some (engine_view e)) \<and>
      (hs_done h \<longrightarrow> hs_events h \<notin> snd ` set (e_subscribers e))"
proof -
  note o1 = events_open_served [OF assms(1,2)]
  from serves_run [OF assms(3) o1(1)] have s: "served now (e_log e0) (h, e)"
    and snap: "hs_snapshot h = snapshotLocked now e1" using o1(2) by simp_all
  have inv1: "engine_inv e1" using o1(1) by (simp add: served_def)
  have inv: "engine_inv e" and subs: "\<forall>x \<in> set (e_subscribers e). snd x = hs_events h \<longrightarrow> \<not> hs_done h"
    using s by (auto simp: served_def)
  obtain evs where evs: "prefix evs (ch_taken (e_heap e ! hs_events h))"
    "\<not> hs_done h \<longrightarrow> evs = ch_taken (e_heap e ! hs_events h)" "wire_ok now evs h"
    using s by (auto simp: served_def)
  note log = served_events [OF s evs(1)]
  have view1: "snapshot_view (hs_snapshot h) = replay (e_log e0)"
    using inv1 o1(3) unfolding snap
    by (subst snapshot_view_engine) (auto simp: engine_inv_def inv_but_def clients_wf_def wf_client_def)
  have view: "wire_view (hs_sent h) = Some (replay (take (length (e_log e0) + length evs) (e_log e)))"
    by (simp add: wire_ok_view [OF evs(3)] log view1 replay_def)
  have "log_ok e1" using inv1 by (auto simp: engine_inv_def inv_but_def stream_inv_def)
  then have "snap_Sequence (hs_snapshot h) = of_nat (length (e_log e0))"
    using o1(3) by (simp add: snap snapshotLocked_def log_ok_def)
  note served_numbers [OF s evs(1) this]
  moreover note served_current [OF s]
  moreover have "replay (e_log e) = engine_view e" using inv by (auto simp: engine_inv_def inv_but_def)
  moreover have "hs_done h \<longrightarrow> hs_events h \<notin> snd ` set (e_subscribers e)" using subs by fastforce
  ultimately show ?thesis using evs view by (intro exI [of _ evs]) simp
qed

text \<open>
  C31. A WebSocket client is served the engine's own history.  At any moment after the first two frames,
  whatever else happens to the engine: the frames sent are the greeting, the snapshot, and the events
  taken from the channel in order with only service frames between them; the events number on from the
  snapshot without a gap; a client that applies them to the snapshot has exactly the view that the engine
  had after the last of them, which is the current one when the queue of a registered stream is empty;
  and once the handler has returned its subscription is gone.
\<close>

theorem stream_served:
  assumes "engine_reach e0" and "events_open sha1 method header hijack ok now True True e0 = (Inr h1, e1)"
    and "serves\<^sup>*\<^sup>* (h1, e1) (h, e)"
  shows "\<exists>evs. prefix evs (ch_taken (e_heap e ! hs_events h)) \<and>
      (\<not> hs_done h \<longrightarrow> evs = ch_taken (e_heap e ! hs_events h)) \<and> wire_ok now evs h \<and>
      map ev_Sequence evs = map (\<lambda>n. snap_Sequence (hs_snapshot h) + of_nat (Suc n)) [0..<length evs] \<and>
      wire_view (hs_sent h) = Some (replay (take (length (e_log e0) + length evs) (e_log e))) \<and>
      (\<not> hs_done h \<and> hs_events h \<in> snd ` set (e_subscribers e) \<and> ch_buf (e_heap e ! hs_events h) = [] \<longrightarrow>
         wire_view (hs_sent h) = Some (engine_view e)) \<and>
      (hs_done h \<longrightarrow> hs_events h \<notin> snd ` set (e_subscribers e))"
  by (rule stream_facts [OF assms])

definition demo_upgrade :: http_header where
  "demo_upgrade =
     [(''Connection'', [''Upgrade'']), (''Upgrade'', [''websocket'']), (''Sec-Websocket-Version'', [''13'']),
      (''Sec-Websocket-Key'', [''AAAAAAAAAAAAAAAAAAAAAA==''])]"

definition demo_opened :: "(response + stream) \<times> Engine" where
  "demo_opened = events_open (\<lambda>_. []) ''GET'' demo_upgrade (Some True) True 6 True True (demo_present 0)"

definition demo_arrived :: Engine where
  "demo_arrived = snd (Apply demo_env (demo_obs WiFiAssociated ''w0'' ''n'' 7) (snd demo_opened))"

definition demo_served :: "stream \<times> Engine" where
  "demo_served = stream_turn (EventsReady True) (projr (fst demo_opened)) demo_arrived"

lemma demo_serves:
  shows "events_open (\<lambda>_. []) ''GET'' demo_upgrade (Some True) True 6 True True (demo_present 0) =
      (Inr (projr (fst demo_opened)), snd demo_opened)" (is ?o)
    and "serves\<^sup>*\<^sup>* (projr (fst demo_opened), snd demo_opened) (fst demo_served, snd demo_served)" (is ?s)
    and "\<not> hs_done (fst demo_served) \<and> hs_events (fst demo_served) \<in> snd ` set (e_subscribers (snd demo_served)) \<and>
      ch_buf (e_heap (snd demo_served) ! hs_events (fst demo_served)) = [] \<and> length (hs_sent (fst demo_served)) = 3"
proof -
  let ?h1 = "projr (fst demo_opened)"
  have "\<not> isl (fst demo_opened)" by code_simp
  then show ?o by (metis demo_opened_def prod.collapse sum.collapse(2))
  have "ch_taken (e_heap demo_arrived ! hs_events ?h1) = ch_taken (e_heap (snd demo_opened) ! hs_events ?h1)"
    and "\<not> hs_done ?h1" by code_simp+
  then have "serves (?h1, snd demo_opened) (?h1, demo_arrived)"
    unfolding demo_arrived_def by (intro serves.other engine_step.apply_obs) (simp_all add: demo_arrived_def)
  moreover have "serves (?h1, demo_arrived) (fst demo_served, snd demo_served)"
    using \<open>\<not> hs_done ?h1\<close> by (rule serves.turn [of _ "EventsReady True"]) (simp add: demo_served_def)
  ultimately show ?s by simp
qed code_simp

theorem stream_served_witness:
  "wire_view (hs_sent (fst demo_served)) = Some (engine_view (snd demo_served)) \<and> length (hs_sent (fst demo_served)) = 3"
  using stream_served [OF demo_present_reach demo_serves(1,2)] demo_serves(3) by metis

end
