(* ===== verification/Api_Wire.thy ===== *)
theory Api_Wire
  imports Protocol_Json Api_Frames Api_Stream
begin

text \<open>
  The event stream in bytes: \<^verbatim>\<open>writeJSONFrame\<close>, and what a client that knows only RFC 6455, JSON and the public
  types makes of the bytes on the connection.
\<close>

section \<open>Writing\<close>

definition writeJSONFrame :: "(time \<Rightarrow> int) \<Rightarrow> Event \<Rightarrow> byte list option" where
  "writeJSONFrame zone ev = map_option (\<lambda>payload. writeFrame 0x1 (bytes_of payload)) (Marshal zone ev)"

definition frame_bytes :: "(time \<Rightarrow> int) \<Rightarrow> out_frame \<Rightarrow> byte list option" where
  "frame_bytes zone f =
     (case f of JsonFrame ev \<Rightarrow> writeJSONFrame zone ev | RawFrame opcode payload \<Rightarrow> Some (writeFrame opcode payload))"

section \<open>Reading\<close>

text \<open>One frame of a server: a single fragment without a mask.\<close>

definition server_frame :: "byte list \<Rightarrow> ((byte \<times> byte list) \<times> byte list) option" where
  "server_frame bs =
     (case bs of
        b0 # b1 # r \<Rightarrow>
          if b0 AND 0x70 \<noteq> 0 \<or> b0 AND 0x80 = 0 \<or> b1 AND 0x80 \<noteq> 0 then None
          else (case frame_length b1 r of
                  None \<Rightarrow> None
                | Some (len, r1) \<Rightarrow> map_option (map_prod (Pair (b0 AND 0x0f)) id) (ReadFull (unat len) r1))
      | _ \<Rightarrow> None)"

lemma server_frame_shorter [termination_simp]: "server_frame bs = Some (f, rest) \<Longrightarrow> length rest < length bs"
  by (auto simp: server_frame_def frame_length_def ReadFull_def Let_def split: list.splits if_splits option.splits)

function server_frames :: "byte list \<Rightarrow> (byte \<times> byte list) list option" where
  "server_frames bs =
     (if bs = [] then Some []
      else (case server_frame bs of
              None \<Rightarrow> None
            | Some (f, rest) \<Rightarrow> map_option (Cons f) (server_frames rest)))"
  by auto
termination by (relation "measure length") (auto simp: termination_simp)

declare server_frames.simps [simp del]

definition read_frame :: "byte \<times> byte list \<Rightarrow> out_frame option" where
  "read_frame f =
     (if fst f = 0x1
      then map_option JsonFrame (Option.bind (json_parse (string_of (snd f))) read_event)
      else Some (RawFrame (fst f) (snd f)))"

definition client_sees :: "byte list \<Rightarrow> view option" where
  "client_sees bs = do {
     fs \<leftarrow> server_frames bs;
     frames \<leftarrow> those (map read_frame fs);
     wire_view frames
   }"

section \<open>Frames\<close>

text \<open>What can be told apart on the wire: strings in UTF-8, and control frames that are no text frames.  A slice of
  bytes in Go is shorter than 2 to the 63.\<close>

definition wire_clean :: "(time \<Rightarrow> int) \<Rightarrow> out_frame \<Rightarrow> bool" where
  "wire_clean zone f \<longleftrightarrow>
     (case f of
        JsonFrame ev \<Rightarrow> plain_map (ev_Data ev) \<and> list_all valid_utf8 (event_strings ev)
      | RawFrame opcode payload \<Rightarrow> opcode \<noteq> 0x1 \<and> unat opcode < 16) \<and>
     (\<forall>bs. frame_bytes zone f = Some bs \<longrightarrow> length bs < 2 ^ 63)"

lemma low_byte:
  assumes "unat (b :: byte) < 128"
  shows "b AND 0x7f = b" and "b AND 0x80 = 0"
proof -
  have "unat (take_bit 7 b) = unat b"
    using assms by (simp only: unsigned_take_bit_eq) (simp add: take_bit_eq_mod)
  then have t: "take_bit 7 b = b" by (rule unsigned_word_eqI)
  have m: "(0x7f :: byte) = mask 7" by (simp add: mask_eq_exp_minus_1)
  show a: "b AND 0x7f = b" unfolding m take_bit_eq_mask [symmetric] by (rule t)
  have "(0x7f :: byte) AND 0x80 = 0" by simp
  then show "b AND 0x80 = 0" using a by (metis and.assoc and_zero_eq)
qed

lemma unmasked_size:
  assumes "n < 2 ^ 63"
  shows "\<exists>b t len. size_bytes False (int n) = b # t \<and> b AND 0x80 = 0 \<and>
    (\<forall>tail. frame_length b (t @ tail) = Some (len, tail)) \<and> unat len = n"
proof -
  consider "n \<le> 125" | "125 < n" "n \<le> 65535" | "65535 < n" by linarith
  then show ?thesis
  proof cases
    case 1
    then have u: "unat (of_nat n :: byte) = n" by (simp add: unsigned_of_nat take_bit_eq_mod)
    then have "unat (of_nat n :: byte) < 128" using 1 by simp
    note lb = low_byte [OF this]
    have "(of_nat n :: byte) \<noteq> 126" "(of_nat n :: byte) \<noteq> 127" using u 1 by auto
    moreover have "unat (ucast (of_nat n :: byte) :: 64 word) = n" using 1 u by (simp add: unsigned_ucast_eq take_bit_eq_mod)
    ultimately show ?thesis using 1 lb by (simp add: size_bytes_def frame_length_def Let_def)
  next
    case 2
    then have "unat (ucast (of_nat n :: 16 word) :: 64 word) = n"
      by (simp add: unsigned_ucast_eq unsigned_of_nat take_bit_eq_mod)
    then show ?thesis using 2 by (simp add: size_bytes_def frame_length_def Let_def ReadFull_def)
  next
    case 3
    then have "unat (of_nat n :: 64 word) = n" using assms by (simp add: unsigned_of_nat take_bit_eq_mod)
    then show ?thesis using 3 by (simp add: size_bytes_def frame_length_def Let_def ReadFull_def)
  qed
qed

lemma server_frame_written:
  assumes "unat opcode < 16" and "length payload < 2 ^ 63"
  shows "server_frame (writeFrame opcode payload @ rest) = Some ((opcode, payload), rest)"
proof -
  obtain b t len where b: "size_bytes False (int (length payload)) = b # t" "b AND 0x80 = 0"
    "\<And>tail. frame_length b (t @ tail) = Some (len, tail)" "unat len = length payload"
    using unmasked_size [OF assms(2)] by blast
  then show ?thesis
    using nibble_facts [OF assms(1)] by (simp add: writeFrame_rfc rfc_frame_def server_frame_def ReadFull_def)
qed

section \<open>Bytes and frames\<close>

text \<open>A frame as a reader sees it: the data of a map in the order of its keys.\<close>

definition frame_read :: "out_frame \<Rightarrow> out_frame" where
  "frame_read f = (case f of JsonFrame ev \<Rightarrow> JsonFrame (ev\<lparr>ev_Data := data_read (ev_Data ev)\<rparr>) | RawFrame opcode payload \<Rightarrow> f)"

lemma read_frame_bytes:
  assumes "frame_bytes zone f = Some bs" and "wire_clean zone f" and "whole_minutes zone"
  shows "\<exists>opcode payload. server_frame (bs @ rest) = Some ((opcode, payload), rest) \<and>
    read_frame (opcode, payload) = Some (frame_read f) \<and> bs \<noteq> []"
proof -
  have len: "length payload < 2 ^ 63" if "bs = writeFrame opcode payload" for opcode payload
    using assms(1,2) that by (auto simp: wire_clean_def writeFrame_def Let_def)
  have ne: "writeFrame opcode payload \<noteq> []" for opcode payload by (simp add: writeFrame_def Let_def)
  show ?thesis
  proof (cases f)
    case (RawFrame opcode payload)
    then have bs: "bs = writeFrame opcode payload" using assms(1) by (simp add: frame_bytes_def)
    have "unat opcode < 16" "opcode \<noteq> 1" using assms(2) RawFrame by (simp_all add: wire_clean_def)
    then show ?thesis
      using server_frame_written [of opcode payload rest] len [OF bs] ne
      by (simp add: bs RawFrame read_frame_def frame_read_def)
  next
    case (JsonFrame ev)
    then obtain j where j: "event_json zone ev = Some j" "bs = writeFrame 1 (bytes_of (json_print j))"
      using assms(1) by (auto simp: frame_bytes_def writeJSONFrame_def Marshal_def)
    have c: "plain_map (ev_Data ev)" "list_all valid_utf8 (event_strings ev)"
      using assms(2) JsonFrame by (simp_all add: wire_clean_def)
    have "printable maxNestingDepth j"
      by (rule printable_mono [OF printable_event [OF j(1) c(2), of 0]]) (simp add: maxNestingDepth_def)
    then have "json_parse (json_print j) = Some j" using json_parse_print [of j "[]"] by simp
    then have "read_frame (1, bytes_of (json_print j)) = Some (frame_read f)"
      using read_event_json [OF j(1) assms(3) c(1)] by (simp add: read_frame_def frame_read_def JsonFrame)
    then show ?thesis
      using server_frame_written [of 1 "bytes_of (json_print j)" rest] len [OF j(2)] ne j(2) by auto
  qed
qed

lemma client_reads_frames:
  assumes "those (map (frame_bytes zone) fs) = Some bss" and "\<forall>f \<in> set fs. wire_clean zone f" and "whole_minutes zone"
  shows "\<exists>raw. server_frames (concat bss) = Some raw \<and> those (map read_frame raw) = Some (map frame_read fs)"
  using assms(1,2)
proof (induction fs arbitrary: bss)
  case Nil
  then show ?case by (simp add: server_frames.simps)
next
  case (Cons f fs)
  then obtain bs rest where p: "frame_bytes zone f = Some bs" "those (map (frame_bytes zone) fs) = Some rest" "bss = bs # rest"
    by (auto split: option.splits)
  obtain raw where r: "server_frames (concat rest) = Some raw" "those (map read_frame raw) = Some (map frame_read fs)"
    using Cons.IH [OF p(2)] Cons.prems(2) by auto
  obtain opcode payload where f: "server_frame (bs @ concat rest) = Some ((opcode, payload), concat rest)"
    "read_frame (opcode, payload) = Some (frame_read f)" "bs \<noteq> []"
    using read_frame_bytes [OF p(1) _ assms(3)] Cons.prems(2) by fastforce
  then show ?case using r p(3) by (subst server_frames.simps) simp
qed

lemma wire_view_read: "wire_view (map frame_read fs) = wire_view fs"
proof -
  have c: "consume (ev\<lparr>ev_Data := data_read (ev_Data ev)\<rparr>) = consume ev" for ev
    by (cases "ev_Data ev") (simp_all add: fun_eq_iff consume_def)
  then have "wire_step (frame_read f) = wire_step f" for f
    by (cases f) (simp_all add: fun_eq_iff wire_step_def frame_read_def)
  then have s: "fold wire_step (map frame_read gs) v = fold wire_step gs v" for gs v
    by (induction gs arbitrary: v) simp_all
  show ?thesis
  proof (cases "\<exists>hello initial rest. fs = JsonFrame hello # JsonFrame initial # rest")
    case True
    then obtain hello initial rest where fs: "fs = JsonFrame hello # JsonFrame initial # rest" by blast
    have "frame_read (JsonFrame ev) = JsonFrame (ev\<lparr>ev_Data := data_read (ev_Data ev)\<rparr>)" for ev by (simp add: frame_read_def)
    then show ?thesis by (cases "ev_Data initial") (simp_all add: fs wire_view_def s)
  next
    case False
    then show ?thesis by (auto simp: wire_view_def frame_read_def split: list.splits out_frame.splits)
  qed
qed

text \<open>The bytes on the connection determine what the frames determine.\<close>

lemma client_sees_frames:
  assumes "those (map (frame_bytes zone) fs) = Some bss" and "\<forall>f \<in> set fs. wire_clean zone f" and "whole_minutes zone"
  shows "client_sees (concat bss) = wire_view fs"
  using client_reads_frames [OF assms] by (auto simp: client_sees_def wire_view_read)

section \<open>The stream in bytes\<close>

text \<open>
  C32. The bytes on the wire carry the state.  Of a stream that has been served for any time, whatever else
  happens to the engine: as long as its frames can be written at all, with strings in UTF-8, a client that
  splits the bytes it has received into frames, parses the JSON of each and reads the public types from it has
  exactly the view that the engine had after the last event it was sent, which is the current one when the
  queue of a registered stream is empty.  Neither the local zone of \<^verbatim>\<open>last_seen_at\<close> nor an omitted member
  loses anything.
\<close>

theorem stream_bytes:
  assumes "engine_reach e0" and "events_open sha1 method header hijack ok now True True e0 = (Inr h1, e1)"
    and "serves\<^sup>*\<^sup>* (h1, e1) (h, e)"
    and "those (map (frame_bytes zone) (hs_sent h)) = Some bss"
    and "\<forall>f \<in> set (hs_sent h). wire_clean zone f" and "whole_minutes zone"
  shows "\<exists>evs. prefix evs (ch_taken (e_heap e ! hs_events h)) \<and>
      (\<not> hs_done h \<longrightarrow> evs = ch_taken (e_heap e ! hs_events h)) \<and>
      client_sees (concat bss) = Some (replay (take (length (e_log e0) + length evs) (e_log e))) \<and>
      (\<not> hs_done h \<and> hs_events h \<in> snd ` set (e_subscribers e) \<and> ch_buf (e_heap e ! hs_events h) = [] \<longrightarrow>
         client_sees (concat bss) = Some (engine_view e))"
  using stream_facts [OF assms(1-3)] unfolding client_sees_frames [OF assms(4-6)] by blast

definition demo_zone :: "time \<Rightarrow> int" where
  "demo_zone t = 3600"

definition demo_hello :: Event where
  "demo_hello =
     \<lparr>ev_Type = ''stream.hello'', ev_EventID = ''abababababababababababababababab:hello'', ev_StreamEpoch = ''abababababababababababababababab'', ev_Sequence = 2, ev_Timestamp = 6,
      ev_Reason = [], ev_Data = MapData [(''protocol_version'', AnyString ''v1''), (''replay'', AnyBool False)]\<rparr>"

definition demo_client :: "string \<Rightarrow> time \<Rightarrow> Client" where
  "demo_client k t =
     \<lparr>cl_ID = k, cl_State = StatePresent, cl_Present = Some True,
      cl_Connections = [\<lparr>conn_ID = ''ubus:w0'', conn_Provider = ''ubus'', conn_SourceInstance = ''w0'',
                         conn_ConnectedAt = t, conn_LastSeenAt = t, conn_Stale = False\<rparr>],
      cl_FirstSeenAt = t, cl_LastSeenAt = t\<rparr>"

definition demo_initial :: Event where
  "demo_initial =
     \<lparr>ev_Type = ''state.snapshot'', ev_EventID = ''abababababababababababababababab:snapshot'', ev_StreamEpoch = ''abababababababababababababababab'', ev_Sequence = 2, ev_Timestamp = 6,
      ev_Reason = ''consumer_connected'',
      ev_Data = SnapshotData \<lparr>snap_StreamEpoch = ''abababababababababababababababab'', snap_Sequence = 2, snap_GeneratedAt = 6,
                              snap_Clients = [demo_client ''m'' 5]\<rparr>\<rparr>"

definition demo_change :: Event where
  "demo_change =
     \<lparr>ev_Type = ''client.presence_changed'', ev_EventID = ''abababababababababababababababab:3'', ev_StreamEpoch = ''abababababababababababababababab'', ev_Sequence = 3,
      ev_Timestamp = 1003, ev_Reason = ''provider_event'', ev_Data = ClientData (demo_client ''n'' 7)\<rparr>"

lemma demo_sent: "hs_sent (fst demo_served) = [JsonFrame demo_hello, JsonFrame demo_initial, JsonFrame demo_change]"
proof -
  have p: "P (hs_sent (fst demo_served))"
    if "P [JsonFrame demo_hello, JsonFrame demo_initial, JsonFrame demo_change]" for P
    apply code_simp
    using that by (simp only: demo_hello_def demo_initial_def demo_change_def demo_client_def)
  show ?thesis by (rule p [of "\<lambda>fs. fs = [JsonFrame demo_hello, JsonFrame demo_initial, JsonFrame demo_change]"]) (rule refl)
qed

lemma replicates: "replicate 3 x = [x, x, x]" "replicate 5 x = [x, x, x, x, x]" "replicate 8 x = [x, x, x, x, x, x, x, x]"
  by (simp_all add: numeral_eq_Suc)
lemma demo_padded:
  "padded 2 0 = ''00''" "padded 2 (Suc 0) = ''01''" "padded 4 (Suc 0) = ''0001''" "fraction_text 5 = ''.000000005''"
  "fraction_text 6 = ''.000000006''" "fraction_text 7 = ''.000000007''" "fraction_text 1003 = ''.000001003''"
  "fraction_text 0 = []"
  by (simp_all add: fraction_text_def padded_def decimal.simps hexDigit_def replicates)

lemma day_zero: "year_day 0 = (1, 0)" "month_day (isLeap 1) 0 = (1, 1)"
  by code_simp+

lemma demo_times:
  "rfc3339 0 5 = Some ''0001-01-01T00:00:00.000000005Z''" "rfc3339 0 6 = Some ''0001-01-01T00:00:00.000000006Z''"
  "rfc3339 0 7 = Some ''0001-01-01T00:00:00.000000007Z''" "rfc3339 0 1003 = Some ''0001-01-01T00:00:00.000001003Z''"
  "rfc3339 3600 5 = Some ''0001-01-01T01:00:00.000000005+01:00''"
  "rfc3339 3600 7 = Some ''0001-01-01T01:00:00.000000007+01:00''"
  by (simp_all add: rfc3339_def day_zero zone_text_def Second_def demo_padded)

lemmas demo_write = event_json_def data_json_def snapshot_json_def time_json_def number_json_def int_decimal_def
  map_json_def demo_times

lemma demo_numbers: "decimal 2 = ''2''" "decimal 3 = ''3''"
  by (simp_all add: decimal.simps hexDigit_def)

lemma demo_client_json:
  "\<exists>j. client_json demo_zone (demo_client ''m'' 5) = Some j \<and> print_bound j < 3000"
  "\<exists>j. client_json demo_zone (demo_client ''n'' 7) = Some j \<and> print_bound j < 3000"
  by (simp_all add: demo_client_def client_json_def connection_json_def time_json_def demo_zone_def demo_times)

lemma demo_event_json:
  "\<exists>j. event_json demo_zone demo_hello = Some j \<and> print_bound j < 10000"
  "\<exists>j. event_json demo_zone demo_initial = Some j \<and> print_bound j < 10000"
  "\<exists>j. event_json demo_zone demo_change = Some j \<and> print_bound j < 10000"
proof -
  show "\<exists>j. event_json demo_zone demo_hello = Some j \<and> print_bound j < 10000"
    by (simp add: demo_hello_def demo_write demo_numbers)
  obtain c where c: "client_json demo_zone (demo_client ''m'' 5) = Some c" "print_bound c < 3000"
    using demo_client_json(1) by blast
  show "\<exists>j. event_json demo_zone demo_initial = Some j \<and> print_bound j < 10000"
    using c(2) by (simp add: demo_initial_def demo_write demo_numbers c(1))
  obtain d where d: "client_json demo_zone (demo_client ''n'' 7) = Some d" "print_bound d < 3000"
    using demo_client_json(2) by blast
  show "\<exists>j. event_json demo_zone demo_change = Some j \<and> print_bound j < 10000"
    using d(2) by (simp add: demo_change_def demo_write demo_numbers d(1))
qed

lemma demo_marshal:
  assumes "\<exists>j. event_json zone ev = Some j \<and> print_bound j < 10000"
  shows "\<exists>s. Marshal zone ev = Some s \<and> length s < 10000"
  using assms order_le_less_trans [OF print_bounds(1)] by (auto simp: Marshal_def)

lemma ascii_frame_clean:
  assumes "\<exists>j. event_json zone ev = Some j \<and> print_bound j < 10000" and "plain_map (ev_Data ev)"
    and "list_all ascii (event_strings ev)"
  shows "wire_clean zone (JsonFrame ev) \<and> (\<exists>bs. frame_bytes zone (JsonFrame ev) = Some bs)"
proof -
  obtain s where s: "Marshal zone ev = Some s" "length s < 10000" using demo_marshal [OF assms(1)] by blast
  have "length (writeFrame opcode payload) \<le> length payload + 10" for opcode payload
    by (simp add: writeFrame_def Let_def AppendUint64_def AppendUint32_def)
  then have "length (writeFrame 1 (bytes_of s)) \<le> length (bytes_of s) + 10" .
  also have "\<dots> < 2 ^ 63" using s(2) by (simp add: bytes_of_def)
  finally have "length (writeFrame 1 (bytes_of s)) < 2 ^ 63" .
  moreover have "list_all valid_utf8 (event_strings ev)" using assms(3) by (auto simp: list_all_iff ascii_valid)
  ultimately show ?thesis using s(1) assms(2) by (simp add: wire_clean_def frame_bytes_def writeJSONFrame_def)
qed

lemmas demo_strings = plain_map_def event_strings_def data_strings_def snapshot_strings_def client_strings_def
  connection_strings_def any_strings_def within_def

lemma demo_clean:
  "wire_clean demo_zone (JsonFrame demo_hello) \<and> (\<exists>bs. frame_bytes demo_zone (JsonFrame demo_hello) = Some bs)"
  "wire_clean demo_zone (JsonFrame demo_initial) \<and> (\<exists>bs. frame_bytes demo_zone (JsonFrame demo_initial) = Some bs)"
  "wire_clean demo_zone (JsonFrame demo_change) \<and> (\<exists>bs. frame_bytes demo_zone (JsonFrame demo_change) = Some bs)"
  by (rule ascii_frame_clean [OF demo_event_json(1)], simp_all add: demo_hello_def demo_strings)
    (rule ascii_frame_clean [OF demo_event_json(2)], simp_all add: demo_initial_def demo_client_def demo_strings,
     rule ascii_frame_clean [OF demo_event_json(3)], simp_all add: demo_change_def demo_client_def demo_strings)

theorem stream_bytes_witness:
  "\<exists>bss. those (map (frame_bytes demo_zone) (hs_sent (fst demo_served))) = Some bss \<and>
     client_sees (concat bss) = Some (engine_view (snd demo_served))"
proof -
  have c: "\<forall>f \<in> set (hs_sent (fst demo_served)). wire_clean demo_zone f" using demo_clean by (simp add: demo_sent)
  obtain bs1 bs2 bs3 where "frame_bytes demo_zone (JsonFrame demo_hello) = Some bs1"
    "frame_bytes demo_zone (JsonFrame demo_initial) = Some bs2" "frame_bytes demo_zone (JsonFrame demo_change) = Some bs3"
    using demo_clean by blast
  then obtain bss where b: "those (map (frame_bytes demo_zone) (hs_sent (fst demo_served))) = Some bss" by (simp add: demo_sent)
  have "whole_minutes demo_zone" by (simp add: whole_minutes_def demo_zone_def)
  from stream_bytes [OF demo_present_reach demo_serves(1,2) b c this] demo_serves(3) b show ?thesis by metis
qed

end
