(* ===== verification/Engine_Types.thy ===== *)
theory Engine_Types
  imports Engine_History
begin

text \<open>
  What the engine stores is what it was given: when every observation names a client, a source and a provider
  status of the right form, then so does every client, connection and provider that the engine holds, and its
  events have the form that the protocol fixes.
\<close>

section \<open>Definitions\<close>

text \<open>\<open>A\<close> are the client identifiers, \<open>S\<close> the pairs of provider and source instance, \<open>R\<close> the provider statuses.\<close>

definition typed_client :: "(string \<Rightarrow> bool) \<Rightarrow> (string \<times> string) set \<Rightarrow> client \<Rightarrow> bool" where
  "typed_client A S c \<longleftrightarrow> A (c_ID c) \<and> (\<forall>(i, n) \<in> set (c_Connections c). (conn_Provider n, conn_SourceInstance n) \<in> S)"

definition typed_event :: "string \<Rightarrow> Event \<Rightarrow> bool" where
  "typed_event epoch ev \<longleftrightarrow>
     ev_StreamEpoch ev = epoch \<and> ev_EventID ev = epoch @ '':'' @ show_nat (unat (ev_Sequence ev)) \<and>
     length (ev_Type ev) \<le> 64 \<and> length (ev_Reason ev) \<le> 128"

definition typed :: "(string \<Rightarrow> bool) \<Rightarrow> (string \<times> string) set \<Rightarrow> (Provider \<Rightarrow> bool) \<Rightarrow> Engine \<Rightarrow> bool" where
  "typed A S R e \<longleftrightarrow> (\<forall>(k, c) \<in> set (e_clients e). typed_client A S c) \<and> (\<forall>(i, p) \<in> set (e_providers e). R p) \<and>
     (\<forall>ev \<in> set (e_log e). typed_event (e_epoch e) ev)"

text \<open>Runs of the engine on observations of the right form.\<close>

inductive fed :: "(string \<Rightarrow> bool) \<Rightarrow> (string \<times> string) set \<Rightarrow> (Provider \<Rightarrow> bool) \<Rightarrow> Engine \<Rightarrow> bool"
  for A S R where
  start: "New raw l = Inr e \<Longrightarrow> fed A S R e"
| obs: "fed A S R e \<Longrightarrow> good_env env \<Longrightarrow> A (ob_ClientID v) \<Longrightarrow> (ob_Provider v, ob_SourceInstance v) \<in> S \<Longrightarrow>
    fed A S R (snd (Apply env v e))"
| snapshot: "fed A S R e \<Longrightarrow> good_env env \<Longrightarrow>
    \<forall>(source, ids) \<in> set (os_Stations s). (os_Provider s, source) \<in> S \<and> list_all A ids \<Longrightarrow>
    ApplySnapshot env s e = Some (err, e') \<Longrightarrow> fed A S R e'"
| source: "fed A S R e \<Longrightarrow> good_env env \<Longrightarrow> (ss_Provider ss, ss_SourceInstance ss) \<in> S \<Longrightarrow> list_all A (ss_Clients ss) \<Longrightarrow>
    ApplySourceSnapshot env ss e = Some (err, e') \<Longrightarrow> fed A S R e'"
| status: "fed A S R e \<Longrightarrow> good_env env \<Longrightarrow> R (provider_of_status st) \<Longrightarrow> fed A S R (SetProviderStatus env st e)"
| sweep: "fed A S R e \<Longrightarrow> good_env env \<Longrightarrow> e_stopSweeper e = Some False \<Longrightarrow> fed A S R (sweepPending env now e)"
| subscribe: "fed A S R e \<Longrightarrow> fed A S R (snd (Subscribe now e))"
| cancel: "fed A S R e \<Longrightarrow> fed A S R (Engine.cancel i e)"
| receive: "fed A S R e \<Longrightarrow> r < length (e_heap e) \<Longrightarrow> fed A S R (snd (Engine.receive r e))"
| stop: "fed A S R e \<Longrightarrow> fed A S R (Stop e)"

lemma fed_reach: "fed A S R e \<Longrightarrow> engine_reach e"
  by (induction rule: fed.induct) (blast intro: engine_reach.intros engine_step.intros)+

section \<open>Elementary steps\<close>

lemma typed_core [simp]:
  "typed A S R (e\<lparr>e_pending := y\<rparr>) = typed A S R e"
  "typed A S R (e\<lparr>e_reconciliations := n\<rparr>) = typed A S R e"
  "typed A S R (e\<lparr>e_dropped := u\<rparr>) = typed A S R e"
  "typed A S R (e\<lparr>e_nextSub := u\<rparr>) = typed A S R e"
  "typed A S R (e\<lparr>e_sequence := u\<rparr>) = typed A S R e"
  "typed A S R (e\<lparr>e_panicked := b\<rparr>) = typed A S R e"
  "typed A S R (e\<lparr>e_stopOnce := b\<rparr>) = typed A S R e"
  "typed A S R (e\<lparr>e_stopSweeper := w\<rparr>) = typed A S R e"
  "typed A S R (e\<lparr>e_heap := h\<rparr>) = typed A S R e"
  "typed A S R (e\<lparr>e_subscribers := m\<rparr>) = typed A S R e"
  by (simp_all add: typed_def)

lemma in_update: "x \<in> set (AList.update k v m) \<Longrightarrow> x = (k, v) \<or> x \<in> set m"
  by (induction m) (auto split: if_splits)

lemma in_delete: "x \<in> set (AList.delete k m) \<Longrightarrow> x \<in> set m"
  by (auto simp: AList.delete_eq)

lemma typed_put:
  "typed A S R e \<Longrightarrow> typed_client A S c \<Longrightarrow> m = e_clients e \<Longrightarrow> typed A S R (e\<lparr>e_clients := AList.update k c m\<rparr>)"
  by (auto simp: typed_def dest!: in_update)

lemma typed_remove: "typed A S R e \<Longrightarrow> typed A S R (e\<lparr>e_clients := AList.delete k (e_clients e)\<rparr>)"
  by (auto simp: typed_def dest!: in_delete)

lemma typed_look: "typed A S R e \<Longrightarrow> map_of (e_clients e) k = Some c \<Longrightarrow> typed_client A S c"
  by (auto simp: typed_def dest!: map_of_mem)

lemma typed_deliver: "typed A S R (deliver ev s e) = typed A S R e"
  by (simp add: deliver_def close_chan_def split: prod.split send_result.split)

lemma typed_emit:
  assumes "typed A S R e" and "length kind \<le> 64" and "length reason \<le> 128"
  shows "typed A S R (emitLocked env kind reason d e)"
proof -
  let ?e = "e\<lparr>e_sequence := e_sequence e + 1\<rparr>"
  have "typed A S R (?e\<lparr>e_log := e_log ?e @ [mk_event env kind reason d ?e]\<rparr>)"
    using assms by (auto simp: typed_def typed_event_def mk_event_def)
  then show ?thesis
    unfolding emitLocked_def Let_def
    by (rule fold_invariant) (simp add: typed_deliver)
qed

lemma typed_client_upd [simp]:
  "typed_client A S (c\<lparr>c_State := s\<rparr>) = typed_client A S c"
  "typed_client A S (c\<lparr>c_LastSeenAt := t\<rparr>) = typed_client A S c"
  by (simp_all add: typed_client_def)

lemma typed_client_new: "A cid \<Longrightarrow> typed_client A S (new_client cid at)"
  by (simp add: typed_client_def new_client_def)

lemma typed_client_drop: "typed_client A S c \<Longrightarrow> typed_client A S (c\<lparr>c_Connections := AList.delete i (c_Connections c)\<rparr>)"
  by (auto simp: typed_client_def dest!: in_delete)

lemma typed_client_join:
  "typed_client A S c \<Longrightarrow> (conn_Provider n, conn_SourceInstance n) \<in> S \<Longrightarrow>
   typed_client A S (c\<lparr>c_Connections := AList.update i n (c_Connections c)\<rparr>)"
  by (auto simp: typed_client_def dest!: in_update)

lemma typed_client_conn:
  "typed_client A S c \<Longrightarrow> map_of (c_Connections c) i = Some n \<Longrightarrow> (conn_Provider n, conn_SourceInstance n) \<in> S"
  by (auto simp: typed_client_def dest!: map_of_mem)

lemma new_conn_names [simp]:
  "conn_Provider (new_conn p s at seen) = p" "conn_SourceInstance (new_conn p s at seen) = s"
  by (simp_all add: new_conn_def)

lemma typed_pend [simp]: "typed A S R (ensurePendingLocked k p s at e) = typed A S R e"
  by (simp add: ensurePendingLocked_def split: option.split)

section \<open>Operations\<close>

lemma typed_publish:
  assumes "typed A S R e" and "typed_client A S c" and "length kind \<le> 64" and "length reason \<le> 128"
  shows "typed A S R (emitLocked env kind reason d (put_client k c e))"
  using assms by (intro typed_emit typed_put) simp_all

lemma typed_dropConnection:
  assumes "typed A S R e" and "typed_client A S c" and "length reason \<le> 128"
  shows "typed A S R (dropConnection env cid c i at reason e)"
  using assms typed_client_drop [OF assms(2), of i]
  by (auto simp: dropConnection_def Let_def typed_client_def intro!: typed_publish)

lemma typed_evict: "typed A S R e \<Longrightarrow> typed A S R (snd (evictOldestNonPresentLocked env ex e))"
  by (auto simp: evictOldestNonPresentLocked_def intro!: typed_emit dest: typed_remove split: option.split)

lemma typed_associate:
  assumes "typed A S R e" and "typed_client A S c" and "(provider, source) \<in> S" and "length reason \<le> 128"
  shows "typed A S R (associate_client env provider source cid at reason c e)"
proof -
  define n where "n = (case map_of (c_Connections c) (connectionID provider source) of Some n \<Rightarrow> n | None \<Rightarrow> new_conn provider source at 0)"
  have "(conn_Provider n, conn_SourceInstance n) \<in> S"
    using assms(2,3) by (auto simp: n_def split: option.split dest: typed_client_conn)
  then have "typed_client A S (c\<lparr>c_Connections := AList.update i (n\<lparr>conn_LastSeenAt := at, conn_Stale := False\<rparr>) (c_Connections c)\<rparr>)" for i
    using typed_client_join [OF assms(2), of "n\<lparr>conn_LastSeenAt := at, conn_Stale := False\<rparr>"] by simp
  then have "typed_client A S (c\<lparr>c_Connections := AList.update i (n\<lparr>conn_LastSeenAt := at, conn_Stale := False\<rparr>) (c_Connections c),
      c_State := StatePresent, c_LastSeenAt := at\<rparr>)" for i
    by (simp add: typed_client_def)
  with assms(1,4) show ?thesis
    unfolding associate_client_def Let_def n_def [symmetric]
    by (auto intro!: typed_emit typed_put)
qed

lemma typed_Associate:
  assumes "typed A S R e" and "A cid" and "(provider, source) \<in> S" and "length reason \<le> 128"
  shows "typed A S R (snd (Associate env provider source cid at reason e))"
  using assms typed_evict [OF assms(1), of env "[]"] typed_look [OF assms(1), of cid]
  by (auto simp: Associate_def typed_client_new intro!: typed_associate split: option.split prod.split bool.split)

lemma typed_Disassociate:
  assumes "typed A S R e" and "length reason \<le> 128"
  shows "typed A S R (Disassociate env provider source cid at reason e)"
  using assms typed_look [OF assms(1), of cid]
  by (auto simp: Disassociate_def Let_def intro!: typed_dropConnection split: option.split)

lemma typed_sweep: "typed A S R e \<Longrightarrow> typed A S R (sweepPending env now e)"
  unfolding sweepPending_def
  by (rule fold_invariant)
    (auto simp: sweep_one_def applyPendingDepartureLocked_def Let_def intro!: typed_dropConnection
      split: option.split dest: typed_look)

lemma typed_stale:
  assumes "typed A S R e"
  shows "typed A S R (stale_one env p cid e)"
proof (cases "map_of (e_clients e) cid")
  case (Some c)
  let ?c = "c\<lparr>c_Connections := map (\<lambda>(i, conn). (i, if conn_Provider conn = p \<and> \<not> conn_Stale conn
    then conn\<lparr>conn_Stale := True\<rparr> else conn)) (c_Connections c)\<rparr>"
  have "typed_client A S ?c" using typed_look [OF assms Some] by (auto simp: typed_client_def)
  then show ?thesis
    using assms Some by (auto simp: stale_one_def Let_def intro!: typed_emit typed_put)
qed (simp add: stale_one_def assms)

lemma typed_SetProvider:
  assumes "typed A S R e" and "R p"
  shows "typed A S R (SetProvider env p e)"
proof -
  have "typed A S R (e\<lparr>e_providers := AList.update (pr_ID p) p (e_providers e)\<rparr>)"
    using assms by (auto simp: typed_def dest!: in_update)
  moreover have "typed A S R x \<Longrightarrow> typed A S R (fold (stale_one env q) ks x)" for q ks x
    by (rule fold_invariant) (simp_all add: typed_stale)
  ultimately show ?thesis by (simp add: SetProvider_def Let_def typed_emit)
qed

lemma typed_evict_loop:
  assumes "good_env env" and "engine_inv e" and "typed A S R e" and "evict_loop env ex n e = Some (ok, e')"
  shows "typed A S R e'"
proof -
  have "inv_but {} {} e" using assms(2) by (simp add: engine_inv_def)
  from evict_loop_returns [OF assms(1) this, of "typed A S R" ex n] assms(3,4) typed_evict [of A S R _ env ex]
  show ?thesis by (metis Pair_inject option.inject snd_conv)
qed

section \<open>Snapshots\<close>

definition typed_wanted :: "(string \<Rightarrow> bool) \<Rightarrow> (string \<times> string) set \<Rightarrow> string \<Rightarrow> (string, string list) gomap \<Rightarrow> bool" where
  "typed_wanted A S provider w \<longleftrightarrow> (\<forall>(cid, ss) \<in> set w. A cid \<and> (\<forall>s \<in> set ss. (provider, s) \<in> S))"

lemma typed_build_wanted:
  assumes "\<forall>(source, ids) \<in> set stations. (provider, source) \<in> S \<and> list_all A ids"
  shows "typed_wanted A S provider (build_wanted stations)"
proof -
  have "typed_wanted A S provider (wanted_add source cid w)"
    if "typed_wanted A S provider w" "A cid" "(provider, source) \<in> S" for source cid w
    using that by (fastforce simp: typed_wanted_def wanted_add_def dest!: in_update map_of_mem split: option.splits)
  then have "typed_wanted A S provider (fold (wanted_add source) ids w)"
    if "typed_wanted A S provider w" "list_all A ids" "(provider, source) \<in> S" for source ids w
    using that by (intro fold_invariant [where P = "typed_wanted A S provider"]) (auto simp: list_all_iff)
  moreover have "typed_wanted A S provider []" by (simp add: typed_wanted_def)
  ultimately show ?thesis
    unfolding build_wanted_def using assms by (intro fold_invariant [where P = "typed_wanted A S provider"]) auto
qed

lemma typed_pair_fold:
  assumes "\<And>x s. x \<in> set xs \<Longrightarrow> typed A S R (fst s) \<Longrightarrow> typed A S R (fst (f x s))" and "typed A S R (fst s)"
  shows "typed A S R (fst (fold f xs s))"
  using assms by (rule_tac fold_invariant [where P = "\<lambda>s. typed A S R (fst s)"]) auto

lemma typed_scan:
  assumes "typed A S R (fst s)"
  shows "typed A S R (fst (reconcile_scan env provider w at cid s))"
    and "typed A S R (fst (source_scan provider source wanted at cid s))"
proof -
  have "typed A S R (fst (scan_conn provider w at cid i t))" if "typed A S R (fst t)" for i t
    using that by (cases t) (auto simp: scan_conn_def intro!: typed_put typed_client_drop dest: typed_look split: option.split)
  then show "typed A S R (fst (reconcile_scan env provider w at cid s))"
    using assms by (auto simp: reconcile_scan_def intro: typed_pair_fold split: option.split)
  show "typed A S R (fst (source_scan provider source wanted at cid s))"
    using assms by (cases s) (auto simp: source_scan_def Let_def intro!: typed_put typed_client_drop dest: typed_look split: option.split)
qed

lemma typed_want_source:
  assumes "typed_client A S (fst s)" and "(provider, source) \<in> S"
  shows "typed_client A S (fst (want_source provider at source s))"
  using assms by (cases s) (auto simp: want_source_def Let_def intro!: typed_client_join dest: typed_client_conn split: option.split)

lemma typed_entry:
  "typed A S R e \<Longrightarrow> A cid \<Longrightarrow> typed_client A S (case map_of (e_clients e) cid of Some c \<Rightarrow> c | None \<Rightarrow> new_client cid at)"
  by (auto simp: typed_client_new split: option.split dest: typed_look)

lemma typed_reconcile_want:
  assumes "typed A S R (fst s)" and "A (fst w)" and "\<forall>source \<in> set (snd w). (provider, source) \<in> S"
  shows "typed A S R (fst (reconcile_want provider at w s))"
proof -
  obtain e ch cid sources where s: "s = (e, ch)" "w = (cid, sources)" by fastforce
  let ?c = "case map_of (e_clients e) cid of Some c \<Rightarrow> c | None \<Rightarrow> new_client cid at"
  have "typed_client A S ?c" using assms(1,2) by (simp add: s typed_entry)
  then have "typed_client A S (fst (fold (want_source provider at) sources (?c, False)))"
    using assms(3) by (intro fold_invariant [where P = "\<lambda>s. typed_client A S (fst s)"]) (auto simp: s intro: typed_want_source)
  then show ?thesis
    using assms(1) by (auto simp: reconcile_want_def s Let_def intro!: typed_put split: prod.split)
qed

lemma typed_source_want:
  assumes "typed A S R (fst s)" and "A cid" and "(provider, source) \<in> S"
  shows "typed A S R (fst (source_want provider source at cid s))"
proof -
  obtain e ch where s: "s = (e, ch)" by fastforce
  define c where "c = (case map_of (e_clients e) cid of Some c \<Rightarrow> c | None \<Rightarrow> new_client cid at)"
  have "typed_client A S c" using assms(1,2) by (simp add: s c_def typed_entry)
  then show ?thesis
    using assms(1,3)
    by (auto simp: source_want_def s Let_def c_def [symmetric] intro!: typed_put typed_client_join
        split: option.split dest: typed_client_conn)
qed

lemma typed_publishes:
  assumes "typed A S R e"
  shows "typed A S R (reconcile_publish env ch at cid e)" and "typed A S R (source_publish env at cid e)"
  using assms typed_look [OF assms, of cid]
  by (auto simp: reconcile_publish_def source_publish_def Let_def intro!: typed_publish typed_put split: option.split)

lemma typed_reconcile_apply:
  assumes "typed A S R e" and "typed_wanted A S provider wanted"
  shows "typed A S R (reconcile_apply env provider wanted at e)"
proof -
  let ?s = "fold (reconcile_want provider at) wanted
    (fold (reconcile_scan env provider wanted at) (map fst (e_clients e))
      (e\<lparr>e_reconciliations := e_reconciliations e + 1\<rparr>, []))"
  have "typed A S R (fst (reconcile_want provider at w s))" if "w \<in> set wanted" "typed A S R (fst s)" for w s
    using that assms(2) by (intro typed_reconcile_want) (auto simp: typed_wanted_def)
  then have "typed A S R (fst ?s)" by (intro typed_pair_fold) (simp_all add: typed_scan assms(1))
  moreover have "typed A S R (fold (reconcile_publish env ch at) ks e1)" if "typed A S R e1" for ch ks e1
    using that by (rule fold_invariant) (simp add: typed_publishes)
  ultimately show ?thesis by (cases ?s) (simp add: reconcile_apply_def Let_def typed_emit)
qed

lemma typed_source_apply:
  assumes "typed A S R e" and "(provider, source) \<in> S" and "list_all A wanted"
  shows "typed A S R (source_apply env provider source wanted at e)"
proof -
  let ?s = "fold (source_want provider source at) wanted
    (fold (source_scan provider source wanted at) (map fst (e_clients e)) (e, []))"
  have "typed A S R (fst ?s)"
    using assms(2,3) by (intro typed_pair_fold) (auto simp: list_all_iff typed_scan typed_source_want assms(1))
  moreover have "typed A S R (fold (source_publish env at) ks e1)" if "typed A S R e1" for ks e1
    using that by (rule fold_invariant) (simp add: typed_publishes)
  ultimately show ?thesis by (cases ?s) (simp add: source_apply_def Let_def typed_emit)
qed

section \<open>Runs\<close>

lemma fed_typed: "fed A S R e \<Longrightarrow> typed A S R e"
proof (induction rule: fed.induct)
  case (start raw l e)
  then show ?case by (auto simp: New_def startSweeper_def Let_def typed_def split: if_splits option.splits)
next
  case (obs e env v)
  then show ?case by (cases "ob_Kind v") (simp_all add: Apply_def typed_Associate typed_Disassociate)
next
  case (snapshot e env s err e')
  note inv = engine_reach_inv [OF fed_reach [OF snapshot.hyps(1)]]
  show ?case
    using snapshot typed_evict_loop [OF snapshot.hyps(2) inv snapshot.IH] typed_build_wanted [OF snapshot.hyps(3)]
    by (auto simp: ApplySnapshot_def Reconcile_def Let_def intro!: typed_reconcile_apply
        split: option.splits prod.splits bool.splits)
next
  case (source e env ss err e')
  note inv = engine_reach_inv [OF fed_reach [OF source.hyps(1)]]
  show ?case
    using source typed_evict_loop [OF source.hyps(2) inv source.IH]
    by (auto simp: ApplySourceSnapshot_def ReconcileSource_def Let_def list_all_iff intro!: typed_source_apply
        split: option.splits prod.splits bool.splits)
next
  case (status e env st)
  then show ?case by (simp add: SetProviderStatus_def typed_SetProvider)
qed (simp_all add: typed_sweep Subscribe_def Engine.cancel_def Engine.receive_def close_chan_def Stop_def Let_def
    split: option.split list.split)

end
