(* ===== verification/Api_Schema.thy ===== *)
theory Api_Schema
  imports Engine_Types Engine_Props Protocol_Json Identity
begin

text \<open>
  The schemas that the program publishes for its clients, \<^verbatim>\<open>api/protocol.schema.json\<close>, what it means that a value
  conforms to one, and the proof that what the engine hands out does.
\<close>

section \<open>Schemas\<close>

text \<open>The part of JSON Schema that the published files use.  A length in bytes bounds the one in characters.\<close>

datatype form = AnyText | MacText | HexText | DateTime

datatype schema =
    SAny
  | SText "nat option" form
  | SOneOf "json list"
  | SInteger int "int option"
  | SBoolean
  | SNullable schema
  | SArray "nat option" schema
  | SObject bool "string list" "(string \<times> schema) list"

definition lower_hex :: "char \<Rightarrow> bool" where
  "lower_hex c \<longleftrightarrow> c \<in> set ''0123456789abcdef''"

text \<open>\<^verbatim>\<open>^mac:[0-9a-f]{2}(:[0-9a-f]{2}){5}$\<close> and \<^verbatim>\<open>^[0-9a-f]{32}$\<close>.\<close>

definition mac_text :: "string \<Rightarrow> bool" where
  "mac_text s \<longleftrightarrow> take 4 s = ''mac:'' \<and>
     map (\<lambda>c. if lower_hex c then CHR ''0'' else c) (drop 4 s) = ''00:00:00:00:00:00''"

definition hex_text :: "string \<Rightarrow> bool" where
  "hex_text s \<longleftrightarrow> length s = 32 \<and> list_all lower_hex s"

text \<open>The syntax of a date and time of RFC 3339.\<close>

definition shape :: "string \<Rightarrow> string" where
  "shape s = map (\<lambda>c. if digit c then CHR ''0'' else c) s"

definition date_time :: "string \<Rightarrow> bool" where
  "date_time s \<longleftrightarrow>
     take 19 (shape s) = ''0000-00-00T00:00:00'' \<and>
     (let r = drop 19 (shape s);
          zones = [''Z'', ''+00:00'', ''-00:00'']
      in if take 2 r = ''.0'' then dropWhile (\<lambda>c. c = CHR ''0'') (tl r) \<in> set zones else r \<in> set zones)"

fun has_form :: "form \<Rightarrow> string \<Rightarrow> bool" where
  "has_form AnyText s = True"
| "has_form MacText s = mac_text s"
| "has_form HexText s = hex_text s"
| "has_form DateTime s = date_time s"

definition at_most :: "nat option \<Rightarrow> nat \<Rightarrow> bool" where
  "at_most b n \<longleftrightarrow> (case b of None \<Rightarrow> True | Some m \<Rightarrow> n \<le> m)"

definition integer_of :: "string \<Rightarrow> int option" where
  "integer_of n =
     (if \<not> int_text n then None
      else if n ! 0 = CHR ''-'' then Some (- int (decimal_val (tl n))) else Some (int (decimal_val n)))"

text \<open>Parts are smaller than the whole.\<close>

lemma element_size: "(v :: json) \<in> set vs \<Longrightarrow> size v < Suc (size_list size vs)"
  by (induction vs) (auto simp: less_Suc_eq)

lemma member_size: "kv \<in> set kvs \<Longrightarrow> size (snd kv :: json) < Suc (size_list (size_prod (\<lambda>x. 0) size) kvs)"
  by (induction kvs) (auto simp: less_Suc_eq)

function (sequential) conforms :: "schema \<Rightarrow> json \<Rightarrow> bool" where
  "conforms SAny j = True"
| "conforms (SText b f) (JStr s) = (at_most b (length s) \<and> has_form f s)"
| "conforms (SOneOf vs) j = (j \<in> set vs)"
| "conforms (SInteger lo hi) (JNum n) =
     (case integer_of n of None \<Rightarrow> False | Some i \<Rightarrow> lo \<le> i \<and> (case hi of None \<Rightarrow> True | Some h \<Rightarrow> i \<le> h))"
| "conforms SBoolean (JBool b) = True"
| "conforms (SNullable s) JNull = True"
| "conforms (SNullable s) j = conforms s j"
| "conforms (SArray b s) (JArr vs) = (at_most b (length vs) \<and> list_all (conforms s) vs)"
| "conforms (SObject open required props) (JObj kvs) =
     (list_all (\<lambda>k. k \<in> set (map fst kvs)) required \<and>
      list_all (\<lambda>kv. case map_of props (fst kv) of None \<Rightarrow> open | Some s \<Rightarrow> conforms s (snd kv)) kvs)"
| "conforms _ _ = False"
  by pat_completeness auto

termination
  by (relation "inv_image (less_than <*lex*> less_than) (\<lambda>(s, j). (size j, size s))")
    (auto dest!: member_size element_size)

text \<open>The order of the members does not matter.\<close>

lemma conforms_map [simp]:
  "conforms (SObject open required props) (map_json m) = conforms (SObject open required props) (JObj m)"
  by (simp add: map_json_def list_all_iff)

section \<open>The published protocol\<close>

definition text_upto :: "nat \<Rightarrow> schema" where
  "text_upto n = SText (Some n) AnyText"

definition time_schema :: schema where
  "time_schema = SText None DateTime"

definition connection_schema :: schema where
  "connection_schema =
     SObject True [''id'', ''provider'', ''source_instance'', ''connected_at'', ''last_seen_at'']
       [(''id'', text_upto 128), (''provider'', text_upto 64), (''source_instance'', text_upto 128),
        (''connected_at'', time_schema), (''last_seen_at'', time_schema), (''stale'', SBoolean)]"

definition client_schema :: schema where
  "client_schema =
     SObject True [''id'', ''state'', ''present'', ''connections'', ''first_seen_at'', ''last_seen_at'']
       [(''id'', SText (Some 128) MacText),
        (''state'', SOneOf [JStr ''present'', JStr ''absent'', JStr ''unknown'']),
        (''present'', SNullable SBoolean), (''connections'', SArray (Some 128) connection_schema),
        (''first_seen_at'', time_schema), (''last_seen_at'', time_schema)]"

definition snapshot_schema :: schema where
  "snapshot_schema =
     SObject True [''stream_epoch'', ''sequence'', ''generated_at'', ''clients'']
       [(''stream_epoch'', SText None HexText), (''sequence'', SInteger 0 None), (''generated_at'', time_schema),
        (''clients'', SArray (Some 100000) client_schema)]"

definition event_schema :: schema where
  "event_schema =
     SObject True [''type'', ''event_id'', ''stream_epoch'', ''sequence'', ''timestamp'']
       [(''type'', text_upto 64), (''event_id'', text_upto 128), (''stream_epoch'', SText None HexText),
        (''sequence'', SInteger 0 None), (''timestamp'', time_schema), (''reason'', text_upto 128), (''data'', SAny)]"

section \<open>Texts\<close>

lemma at_most_Some [simp]: "at_most (Some m) n \<longleftrightarrow> n \<le> m"
  and at_most_None [simp]: "at_most None n"
  by (simp_all add: at_most_def)

lemma shape_append [simp]: "shape (s @ t) = shape s @ shape t"
  by (simp add: shape_def)

lemma shape_Cons [simp]: "shape (c # s) = (if digit c then CHR ''0'' else c) # shape s" "shape [] = []"
  by (simp_all add: shape_def)

lemma shape_digits: "list_all digit s \<Longrightarrow> shape s = replicate (length s) (CHR ''0'')"
  by (induction s) simp_all

lemma shape_padded: "n < 10 ^ w \<Longrightarrow> 0 < w \<Longrightarrow> shape (padded w n) = replicate w (CHR ''0'')"
  using shape_digits [OF padded_digits [of w n]] padded_length [of n w] by simp

lemma shape_fraction:
  assumes "ns < 10 ^ 9"
  shows "shape (fraction_text ns) = [] \<or> (\<exists>k. shape (fraction_text ns) = CHR ''.'' # CHR ''0'' # replicate k (CHR ''0''))"
proof (cases "ns = 0")
  case False
  define ds where "ds = rev (dropWhile (\<lambda>c. c = CHR ''0'') (rev (padded 9 ns)))"
  have "set ds \<subseteq> set (padded 9 ns)" using set_dropWhileD by (fastforce simp: ds_def)
  then have d: "list_all digit ds" using padded_digits [of 9 ns] by (auto simp: list_all_iff)
  have "ds \<noteq> []"
  proof
    assume "ds = []"
    then have "\<forall>c \<in> set (padded 9 ns). c = CHR ''0''" by (simp add: ds_def dropWhile_eq_Nil_conv)
    then have "padded 9 ns = replicate (length (padded 9 ns)) (CHR ''0'') @ []" by (simp add: replicate_eqI)
    then have "decimal_val (padded 9 ns) = 0" using decimal_val_zeros by (metis decimal_val_def foldl_Nil)
    then show False using False by simp
  qed
  then have "shape ds = CHR ''0'' # replicate (length ds - 1) (CHR ''0'')"
    using shape_digits [OF d] by (cases ds) simp_all
  then show ?thesis using False by (simp add: fraction_text_def ds_def [symmetric] digit_def)
qed (simp add: fraction_text_def)

lemma shape_zone: "\<bar>offset\<bar> < 86400 \<Longrightarrow> shape (zone_text offset) \<in> {''Z'', ''+00:00'', ''-00:00''}"
proof -
  assume "\<bar>offset\<bar> < 86400"
  define zone where "zone = nat (\<bar>offset\<bar> div 60)"
  have "zone < 1440" using \<open>\<bar>offset\<bar> < 86400\<close> by (simp add: zone_def nat_less_iff)
  then have "zone div 60 < 10 ^ 2" "zone mod 60 < 10 ^ 2"
    by (simp_all add: less_mult_imp_div_less order_less_trans [OF mod_less_divisor])
  then show ?thesis
    by (simp add: zone_text_def zone_def [symmetric] Let_def shape_padded digit_def numeral_2_eq_2)
qed

lemma rfc3339_date_time:
  assumes "rfc3339 offset t = Some s"
  shows "date_time s"
proof -
  define secs where "secs = t div Second + offset"
  define clock where "clock = nat (secs mod 86400)"
  obtain y yday where yd: "year_day (secs div 86400) = (y, yday)" by fastforce
  obtain m d where md: "month_day (isLeap y) yday = (m, d)" by fastforce
  note f = civil_seconds [OF yd md clock_def]
  have ok: "0 \<le> y" "y \<le> 9999" "\<bar>offset\<bar> < 86400"
    and s: "s = padded 4 (nat y) @ ''-'' @ padded 2 (nat m) @ ''-'' @ padded 2 (nat d) @ ''T'' @
      padded 2 (clock div 3600) @ '':'' @ padded 2 (clock mod 3600 div 60) @ '':'' @ padded 2 (clock mod 60) @
      fraction_text (nat (t mod Second)) @ zone_text offset"
    using assms unfolding rfc3339_def
    by (simp_all add: secs_def [symmetric] clock_def [symmetric] yd md Let_def split: if_splits)
  have b: "nat y < 10 ^ 4" "nat m < 10 ^ 2" "nat d < 10 ^ 2" "clock div 3600 < 10 ^ 2" "clock mod 3600 div 60 < 10 ^ 2"
    "clock mod 60 < 10 ^ 2" "nat (t mod Second) < 10 ^ 9"
    using ok f(2,3) by (auto simp: Second_def less_mult_imp_div_less order_less_trans [OF mod_less_divisor] nat_less_iff)
  have z: "shape (zone_text offset) \<in> {''Z'', ''+00:00'', ''-00:00''}" by (rule shape_zone [OF ok(3)])
  have r: "replicate 4 x = [x, x, x, x]" "replicate 2 x = [x, x]" for x :: char by (simp_all add: numeral_eq_Suc)
  have "shape s = ''0000-00-00T00:00:00'' @ shape (fraction_text (nat (t mod Second))) @ shape (zone_text offset)"
    unfolding s shape_append shape_padded [OF b(1) zero_less_numeral] shape_padded [OF b(2) zero_less_numeral]
      shape_padded [OF b(3) zero_less_numeral] shape_padded [OF b(4) zero_less_numeral]
      shape_padded [OF b(5) zero_less_numeral] shape_padded [OF b(6) zero_less_numeral] r
    by (simp add: digit_def)
  moreover have "dropWhile (\<lambda>c. c = CHR ''0'') (replicate k (CHR ''0'') @ r) = dropWhile (\<lambda>c. c = CHR ''0'') r" for k r
    by (induction k) simp_all
  ultimately show ?thesis
    using shape_fraction [OF b(7)] z by (auto simp: date_time_def)
qed

lemma time_conforms: "time_json offset t = Some j \<Longrightarrow> conforms time_schema j"
  by (auto simp: time_json_def time_schema_def rfc3339_date_time)

lemma integer_of_decimal: "integer_of (decimal n) = Some (int n)"
proof -
  have "decimal n ! 0 \<noteq> CHR ''-''" using decimal_front [of n] by (simp add: hd_conv_nth)
  then show ?thesis by (simp add: integer_of_def)
qed

lemma integer_of_int: "integer_of (int_decimal i) = Some i"
proof (cases "i < 0")
  case True
  then have "int_decimal i = CHR ''-'' # decimal (nat (- i))" by (simp add: int_decimal_def)
  then show ?thesis using int_decimal_text [of i] True by (simp add: integer_of_def)
qed (simp add: int_decimal_def integer_of_decimal)

lemma number_conforms [simp]:
  "conforms (SInteger lo hi) (number_json i) \<longleftrightarrow> lo \<le> i \<and> (case hi of None \<Rightarrow> True | Some h \<Rightarrow> i \<le> h)"
  by (simp add: number_json_def integer_of_int)

lemma hexDigit_lower: "n < 16 \<Longrightarrow> lower_hex (hexDigit n)"
proof -
  assume "n < 16"
  then have "n \<in> {0, 1, 2, 3, 4, 5, 6, 7, 8, 9, 10, 11, 12, 13, 14, 15}" by (simp, presburger)
  then show ?thesis by (auto simp: lower_hex_def hexDigit_def)
qed

lemma hex_byte_lower: "\<exists>a b. hex_byte x = [a, b] \<and> lower_hex a \<and> lower_hex b"
  using unsigned_less [of x, where 'a = nat] by (simp add: hex_byte_def hexDigit_lower less_mult_imp_div_less)

lemma EncodeToString_hex: "length raw = 16 \<Longrightarrow> hex_text (EncodeToString raw)"
proof -
  have "length (EncodeToString bs) = 2 * length bs \<and> list_all lower_hex (EncodeToString bs)" for bs
  proof (induction bs)
    case (Cons x bs)
    then show ?case using hex_byte_lower [of x] by (auto simp: EncodeToString_def)
  qed (simp add: EncodeToString_def)
  then show "length raw = 16 \<Longrightarrow> ?thesis" by (simp add: hex_text_def)
qed

text \<open>Every identifier that the providers hand to the engine comes from \<^verbatim>\<open>identity.ClientID\<close>.\<close>

lemma ClientID_mac_text:
  assumes "ClientID value = Inr i"
  shows "mac_text i"
proof -
  obtain hw where hw: "length hw = 6" "i = ''mac:'' @ mac_string hw"
    using assms by (auto simp: ClientID_def split: option.splits if_splits)
  obtain a b c d e f where l: "hw = [a, b, c, d, e, f]" using hw(1) by (auto simp: six_octets)
  show ?thesis
    using hex_byte_lower [of a] hex_byte_lower [of b] hex_byte_lower [of c] hex_byte_lower [of d] hex_byte_lower [of e]
      hex_byte_lower [of f]
    by (auto simp: hw(2) l mac_text_def) (simp_all add: lower_hex_def)
qed

lemma show_nat_length: "n < 10 ^ w \<Longrightarrow> 0 < w \<Longrightarrow> length (show_nat n) \<le> w"
proof (induction w arbitrary: n)
  case (Suc w)
  show ?case
  proof (cases "n < 10")
    case True
    then show ?thesis by (subst show_nat.simps) simp
  next
    case False
    then have "0 < w" using Suc.prems(1) by (cases w) auto
    moreover have "n div 10 < 10 ^ w" using Suc.prems(1) by (simp add: less_mult_imp_div_less mult.commute)
    ultimately show ?thesis using Suc.IH [of "n div 10"] False by (subst show_nat.simps) simp
  qed
qed simp

section \<open>The engine's data\<close>

text \<open>A bounded set of sources with short names, as the providers have them.\<close>

definition small_sources :: "(string \<times> string) set \<Rightarrow> bool" where
  "small_sources S \<longleftrightarrow> finite S \<and> card S \<le> 128 \<and>
     (\<forall>(p, s) \<in> S. length p \<le> 64 \<and> length s \<le> 128 \<and> length p + length s < 128)"

lemma those_length: "those (map f xs) = Some ys \<Longrightarrow> length ys = length xs"
  by (induction xs arbitrary: ys) (auto split: option.splits)

lemma connection_conforms:
  assumes "connection_json n = Some j" and "(conn_Provider n, conn_SourceInstance n) \<in> S" and "small_sources S"
    and "conn_ID n = connectionID (conn_Provider n) (conn_SourceInstance n)"
  shows "conforms connection_schema j"
proof -
  have l: "length (conn_Provider n) \<le> 64" "length (conn_SourceInstance n) \<le> 128" "length (conn_ID n) \<le> 128"
    using assms(2-4) by (auto simp: small_sources_def connectionID_def)
  obtain connected seen where t: "time_json 0 (conn_ConnectedAt n) = Some connected" "time_json 0 (conn_LastSeenAt n) = Some seen"
    and j: "j = JObj ([(''id'', JStr (conn_ID n)), (''provider'', JStr (conn_Provider n)),
      (''source_instance'', JStr (conn_SourceInstance n)), (''connected_at'', connected), (''last_seen_at'', seen)] @
      (if conn_Stale n then [(''stale'', JBool True)] else []))"
    using assms(1) by (auto simp: connection_json_def bind_eq_Some_conv)
  show ?thesis
    using l time_conforms [OF t(1)] time_conforms [OF t(2)] by (simp add: connection_schema_def text_upto_def j)
qed

text \<open>One connection per source.\<close>

lemma connections_few:
  assumes "wf_client k c" and "typed_client A S c" and "small_sources S"
  shows "length (c_Connections c) \<le> 128"
proof -
  let ?f = "\<lambda>(i, n). (conn_Provider n, conn_SourceInstance n)"
  have k: "fst x = connectionID (fst (?f x)) (snd (?f x))" if "x \<in> set (c_Connections c)" for x
    using assms(1) that by (auto simp: wf_client_def)
  have "inj_on ?f (set (c_Connections c))"
  proof (rule inj_onI)
    fix x y assume "x \<in> set (c_Connections c)" "y \<in> set (c_Connections c)" "?f x = ?f y"
    then have "fst x = fst y" by (simp only: k)
    moreover have "dkeys (c_Connections c)" using assms(1) by (simp add: wf_client_def)
    ultimately show "x = y"
      using \<open>x \<in> set (c_Connections c)\<close> \<open>y \<in> set (c_Connections c)\<close> by (metis map_of_eq_Some_iff option.inject prod.collapse)
  qed
  moreover have "?f ` set (c_Connections c) \<subseteq> S" using assms(2) by (auto simp: typed_client_def)
  ultimately have "card (set (c_Connections c)) \<le> card S"
    using assms(3) by (auto simp: small_sources_def intro: card_inj_on_le)
  moreover have "card (set (c_Connections c)) = length (c_Connections c)"
    using assms(1) by (simp add: wf_client_def distinct_card distinct_map)
  ultimately show ?thesis using assms(3) by (simp add: small_sources_def)
qed

lemma client_conforms:
  assumes "client_json zone (publicClientLocked c) = Some j" and "wf_client k c" and "state_ok c"
    and "typed_client mac_text S c" and "small_sources S"
  shows "conforms client_schema j"
proof -
  let ?p = "publicClientLocked c"
  obtain conns first seen where p: "those (map connection_json (cl_Connections ?p)) = Some conns"
    "time_json 0 (cl_FirstSeenAt ?p) = Some first" "time_json (zone (cl_LastSeenAt ?p)) (cl_LastSeenAt ?p) = Some seen"
    "j = JObj [(''id'', JStr (cl_ID ?p)), (''state'', JStr (state_text (cl_State ?p))),
      (''present'', case cl_Present ?p of None \<Rightarrow> JNull | Some b \<Rightarrow> JBool b),
      (''connections'', JArr conns), (''first_seen_at'', first), (''last_seen_at'', seen)]"
    using assms(1) by (auto simp: client_json_def bind_eq_Some_conv)
  have m: "set (cl_Connections ?p) = snd ` set (c_Connections c)" by (simp add: publicClientLocked_def)
  have "list_all (conforms connection_schema) conns"
  proof (rule those_all [OF p(1)])
    fix n y assume "n \<in> set (cl_Connections ?p)" "connection_json n = Some y"
    then show "conforms connection_schema y"
      using assms(2,4) by (intro connection_conforms [OF _ _ assms(5)]) (auto simp: m wf_client_def typed_client_def)
  qed
  moreover have "length conns \<le> 128"
    using those_length [OF p(1)] connections_few [OF assms(2,4,5)] by (simp add: publicClientLocked_def)
  moreover have i: "mac_text (c_ID c)" using assms(4) by (simp add: typed_client_def)
  moreover have "length (c_ID c) \<le> 128"
  proof -
    have "length (drop 4 (c_ID c)) = length ''00:00:00:00:00:00''"
      using i unfolding mac_text_def by (metis length_map)
    then show ?thesis by simp
  qed
  moreover have "c_State c \<in> {StatePresent, StateAbsent, StateUnknown}"
    using assms(3) by (auto simp: state_ok_def split: if_splits)
  ultimately show ?thesis
    using time_conforms [OF p(2)] time_conforms [OF p(3)]
    by (auto simp: client_schema_def p(4) publicClientLocked_def)
qed

lemma engine_client_conforms:
  assumes "fed mac_text S R e" and "small_sources S" and "(k, c) \<in> set (e_clients e)"
    and "client_json zone (publicClientLocked c) = Some j"
  shows "conforms client_schema j"
proof -
  have inv: "inv_but {} {} e" using engine_reach_inv [OF fed_reach [OF assms(1)]] by (simp add: engine_inv_def)
  then have l: "map_of (e_clients e) k = Some c" using assms(3) by (simp add: inv_but_def clients_wf_def)
  show ?thesis
    using inv l fed_typed [OF assms(1)] assms(2-4)
    by (intro client_conforms [of zone c j k S]) (auto simp: inv_but_def clients_wf_def typed_def)
qed

lemma fed_epoch:
  assumes "fed A S R e"
  shows "hex_text (e_epoch e)"
proof -
  from fed_reach [OF assms] show ?thesis
  proof (induction rule: engine_reach.induct)
    case (start random l e)
    then have "\<exists>fill. e_epoch e = EncodeToString (map fill [0..<16])"
      by (auto simp: New_def Let_def startSweeper_def split: option.splits if_splits)
    then show ?case using EncodeToString_hex by fastforce
  next
    case (step e e')
    then show ?case using engine_step_ext [OF step.hyps(2) engine_reach_inv [OF step.hyps(1)]] by (simp add: ext_def)
  qed
qed

lemma snapshot_conforms:
  assumes "fed mac_text S R e" and "small_sources S" and "MaxClients (e_limits e) \<le> 100000"
    and "snapshot_json zone (snapshotLocked now e) = Some j"
  shows "conforms snapshot_schema j"
proof -
  let ?s = "snapshotLocked now e"
  obtain generated clients where p: "time_json 0 (snap_GeneratedAt ?s) = Some generated"
    "those (map (client_json zone) (snap_Clients ?s)) = Some clients"
    "j = JObj [(''stream_epoch'', JStr (snap_StreamEpoch ?s)), (''sequence'', number_json (uint (snap_Sequence ?s))),
      (''generated_at'', generated), (''clients'', JArr clients)]"
    using assms(4) by (auto simp: snapshot_json_def bind_eq_Some_conv)
  have "list_all (conforms client_schema) clients"
    by (rule those_all [OF p(2)]) (auto simp: snapshotLocked_def intro: engine_client_conforms [OF assms(1,2)])
  moreover have "length clients \<le> 100000"
    using those_length [OF p(2)] engine_reach_inv [OF fed_reach [OF assms(1)]] assms(3)
    by (simp add: snapshotLocked_def engine_inv_def within_limit_def)
  ultimately show ?thesis
    using fed_epoch [OF assms(1)] time_conforms [OF p(1)] by (simp add: snapshot_schema_def p(3) snapshotLocked_def)
qed

lemma event_conforms:
  assumes "typed_event epoch ev" and "hex_text epoch" and "event_json zone ev = Some j"
  shows "conforms event_schema j"
proof -
  obtain timestamp kvs where e: "time_json 0 (ev_Timestamp ev) = Some timestamp" "data_json zone (ev_Data ev) = Some kvs"
    and j: "j = JObj ([(''type'', JStr (ev_Type ev)), (''event_id'', JStr (ev_EventID ev)),
      (''stream_epoch'', JStr (ev_StreamEpoch ev)), (''sequence'', number_json (uint (ev_Sequence ev))),
      (''timestamp'', timestamp)] @ (if ev_Reason ev = [] then [] else [(''reason'', JStr (ev_Reason ev))]) @ kvs)"
    using assms(3) by (auto simp: event_json_def bind_eq_Some_conv)
  have kvs: "kvs = [] \<or> (\<exists>d. kvs = [(''data'', d)])" using e(2) by (auto simp: data_json_def split: EventData.splits)
  have "unat (ev_Sequence ev) < 10 ^ 20" using unsigned_less [of "ev_Sequence ev", where 'a = nat] by simp
  then have "length (show_nat (unat (ev_Sequence ev))) \<le> 20" by (rule show_nat_length) simp
  then have "length (ev_EventID ev) \<le> 128" using assms(1,2) by (simp add: typed_event_def hex_text_def)
  then show ?thesis
    using assms(1,2) kvs time_conforms [OF e(1)]
    by (auto simp: event_schema_def j text_upto_def typed_event_def)
qed

text \<open>
  C33. What the program hands out conforms to the schemas that it publishes.  In every state that an engine reaches on
  observations of clients with a canonical identifier, from at most 128 sources with short names: each snapshot,
  each client that is looked up and each event that was ever emitted, written as JSON, conforms to its schema in
  \<^verbatim>\<open>protocol.schema.json\<close>, with every required member, the values of its enumerations, its patterns, times and limits.
\<close>

theorem protocol_conforms:
  assumes "fed mac_text S R e" and "small_sources S" and "MaxClients (e_limits e) \<le> 100000"
  shows "(\<forall>now j. snapshot_json zone (snapshotLocked now e) = Some j \<longrightarrow> conforms snapshot_schema j) \<and>
    (\<forall>i c j. lookupClient i e = Some c \<longrightarrow> client_json zone c = Some j \<longrightarrow> conforms client_schema j) \<and>
    (\<forall>ev j. ev \<in> set (e_log e) \<longrightarrow> event_json zone ev = Some j \<longrightarrow> conforms event_schema j)"
  using snapshot_conforms [OF assms] engine_client_conforms [OF assms(1,2)] event_conforms fed_typed [OF assms(1)] fed_epoch [OF assms(1)]
  by (fastforce simp: lookupClient_def typed_def dest: map_of_mem)

definition demo_typed :: Engine where
  "demo_typed =
     snd (Apply demo_env (demo_obs WiFiAssociated ''w0'' ''mac:00:11:22:33:44:5f'' 5)
       (SetProviderStatus demo_env (demo_status ''healthy'')
         (projr (New (Some (\<lambda>_. 0xaa)) \<lparr>MaxClients = 4, MaxSubscribers = 2, QueueSize = 2, ReconnectGrace = 0\<rparr>))))"

lemma demo_typed_fed:
  assumes "R (provider_of_status (demo_status ''healthy''))"
  shows "fed mac_text {(''ubus'', ''w0'')} R demo_typed"
proof -
  let ?l = "\<lparr>MaxClients = 4, MaxSubscribers = 2, QueueSize = 2, ReconnectGrace = 0\<rparr>"
  have "New (Some (\<lambda>_. 0xaa)) ?l = Inr (projr (New (Some (\<lambda>_. 0xaa)) ?l))"
    by (simp add: New_def Let_def)
  moreover have "good_env demo_env" by (simp add: good_env_def demo_env_def)
  moreover have "mac_text ''mac:00:11:22:33:44:5f''" by code_simp
  ultimately show ?thesis
    unfolding demo_typed_def
    by (intro fed.obs fed.status fed.start assms) (simp_all add: demo_obs_def)
qed

lemma demo_sources: "small_sources {(''ubus'', ''w0'')}"
  by (simp add: small_sources_def)

lemma demo_typed_facts: "MaxClients (e_limits demo_typed) \<le> 100000"
  "snapshot_json (\<lambda>_. 0) (snapshotLocked 6 demo_typed) \<noteq> None" "length (e_clients demo_typed) = 1"
  by code_simp+

theorem protocol_conforms_witness:
  "\<exists>j. snapshot_json (\<lambda>_. 0) (snapshotLocked 6 demo_typed) = Some j \<and> conforms snapshot_schema j"
proof -
  have "fed mac_text {(''ubus'', ''w0'')} (\<lambda>_. True) demo_typed" by (rule demo_typed_fed) simp
  from protocol_conforms [OF this demo_sources demo_typed_facts(1)] demo_typed_facts(2) show ?thesis by blast
qed

end
