(* ===== verification/Api_Props.thy ===== *)
theory Api_Props
  imports Api_Server
begin

text \<open>
  What the API lets through: requests without the token, requests before the observer is ready, errors in
  requests, and more connections than the configuration allows.
\<close>

section \<open>Requests\<close>

definition authorized :: "(byte list \<Rightarrow> byte list) \<Rightarrow> request \<Rightarrow> Bearer \<Rightarrow> bool" where
  "authorized sha256 q b \<longleftrightarrow>
     sha256 (bytes_of (provided_token (header_get (rq_Header q) ''Authorization''))) = br_digest b"

text \<open>The status of each handler.\<close>

definition route_code :: "Engine \<Rightarrow> route \<Rightarrow> int" where
  "route_code e r =
     (case r of
        RInfo \<Rightarrow> 200
      | RProviders \<Rightarrow> 200
      | RDiagnostics \<Rightarrow> 200
      | RHealth \<Rightarrow>
          if HasAuthoritativeSnapshot ''wifi'' e \<and>
             (\<exists>p \<in> set (Providers e). pr_Status p = ''healthy'' \<or> pr_Status p = ''unavailable'' \<and> pr_LastSnapshotAt p \<noteq> 0)
          then 200 else 503
      | RClients \<Rightarrow> if HasAuthoritativeSnapshot ''wifi'' e then 200 else 503
      | RClient i \<Rightarrow>
          if \<not> HasAuthoritativeSnapshot ''wifi'' e then 503
          else (case PathUnescape i of
                  None \<Rightarrow> 400
                | Some k \<Rightarrow>
                    if length k > 128 \<or> \<not> HasPrefix k ''mac:'' then 400
                    else if k \<in> fst ` set (e_clients e) then 200 else 404)
      | REvents \<Rightarrow>
          if \<not> HasAuthoritativeSnapshot ''wifi'' e \<or> int (length (e_subscribers e)) \<ge> MaxSubscribers (e_limits e)
          then 503 else 400)"

text \<open>
  The documented paths, by their percent-decoded segments: \<^verbatim>\<open>/v1/info\<close>, \<^verbatim>\<open>/v1/health\<close>, \<^verbatim>\<open>/v1/clients\<close>,
  \<^verbatim>\<open>/v1/clients/{client_id}\<close>, \<^verbatim>\<open>/v1/providers\<close>, \<^verbatim>\<open>/v1/diagnostics\<close> and \<^verbatim>\<open>/v1/events\<close>.
\<close>

definition visits :: "string \<Rightarrow> string list \<Rightarrow> bool" where
  "visits path names \<longleftrightarrow> map mux_segment (path_segments path) = [] # names"

text \<open>
  The status that is documented for a path, \<open>None\<close> for one that is not: everything but the description of
  the agent waits for the first snapshot of the Wi-Fi provider.
\<close>

definition documented_code :: "Engine \<Rightarrow> string \<Rightarrow> int option" where
  "documented_code e path =
     (let ready = HasAuthoritativeSnapshot ''wifi'' e;
          serving = list_ex (\<lambda>p. pr_Status p = ''healthy'' \<or> pr_Status p = ''unavailable'' \<and> pr_LastSnapshotAt p \<noteq> 0) (Providers e);
          full = int (length (e_subscribers e)) \<ge> MaxSubscribers (e_limits e)
      in if visits path [''v1'', ''info''] \<or> visits path [''v1'', ''providers''] \<or> visits path [''v1'', ''diagnostics''] then Some 200
         else if visits path [''v1'', ''health''] then Some (if ready \<and> serving then 200 else 503)
         else if visits path [''v1'', ''clients''] then Some (if ready then 200 else 503)
         else if visits path [''v1'', ''events''] then Some (if \<not> ready \<or> full then 503 else 400)
         else (case map mux_segment (path_segments path) of
                 [lead, v1, name, i] \<Rightarrow>
                   if lead = [] \<and> v1 = ''v1'' \<and> name = ''clients'' \<and> i \<noteq> [] \<and> i \<noteq> ''/''
                   then Some (if \<not> ready then 503
                              else (case PathUnescape i of
                                      None \<Rightarrow> 400
                                    | Some k \<Rightarrow>
                                        if length k > 128 \<or> take 4 k \<noteq> ''mac:'' then 400
                                        else if k \<in> fst ` set (e_clients e) then 200 else 404))
                   else None
               | _ \<Rightarrow> None))"

text \<open>A path that is not in its shortest form is redirected, and a documented one is for \<^verbatim>\<open>GET\<close> and \<^verbatim>\<open>HEAD\<close>.\<close>

definition answer_code :: "Engine \<Rightarrow> string \<Rightarrow> string \<Rightarrow> int" where
  "answer_code e path method =
     (if method \<noteq> ''CONNECT'' \<and> cleanPath path \<noteq> path then 301
      else (case documented_code e path of
              None \<Rightarrow> 404
            | Some code \<Rightarrow> if method = ''GET'' \<or> method = ''HEAD'' then code else 405))"

lemma visits_segments:
  "map mux_segment (path_segments path) = segs \<Longrightarrow> visits path names \<longleftrightarrow> segs = [] # names"
  by (simp add: visits_def)

lemma names_agree:
  assumes "distinct [a, b, c, d, f, g]"
  shows "(if name = a \<or> name = d \<or> name = f then Some 200 else if name = b then Some H else if name = c then Some C
       else if name = g then Some V else None) =
     map_option (case_route 200 H C X 200 200 V)
       (if name = a then Some RInfo else if name = b then Some RHealth else if name = c then Some RClients
        else if name = d then Some RProviders else if name = f then Some RDiagnostics
        else if name = g then Some REvents else None)"
    and "(if name = a then Some RInfo else if name = b then Some RHealth else if name = c then Some RClients
        else if name = d then Some RProviders else if name = f then Some RDiagnostics
        else if name = g then Some REvents else None) = Some REvents \<longleftrightarrow> name = g"
  using assms by auto

lemma names_distinct: "distinct [''info'', ''health'', ''clients'', ''providers'', ''diagnostics'', ''events'']"
  by code_simp

lemma documented_three:
  assumes segs: "map mux_segment (path_segments path) = [lead, v1, name]"
  shows "documented_code e path = map_option (route_code e) (route_of path) \<and>
    (route_of path = Some REvents \<longleftrightarrow> visits path [''v1'', ''events''])"
proof (cases "lead = [] \<and> v1 = ''v1''")
  case False
  have v: "visits path [''v1'', x] \<longleftrightarrow> False" for x
    using False by (simp only: visits_segments [OF segs] list.inject) blast
  have "route_of path = None"
    unfolding route_of_def segs list.case using False by (simp only: de_Morgan_conj if_True)
  moreover have "documented_code e path = None"
    unfolding documented_code_def segs v Let_def list.case by (simp only: simp_thms if_False)
  ultimately show ?thesis using v by simp
next
  case True
  have v: "visits path [''v1'', x] \<longleftrightarrow> name = x" for x
    using True by (simp only: visits_segments [OF segs] list.inject simp_thms)
  note n = names_agree [OF names_distinct]
  have k: "route_of path = (if name = ''info'' then Some RInfo else if name = ''health'' then Some RHealth
        else if name = ''clients'' then Some RClients else if name = ''providers'' then Some RProviders
        else if name = ''diagnostics'' then Some RDiagnostics else if name = ''events'' then Some REvents else None)"
    using True unfolding route_of_def segs list.case by (simp only: simp_thms if_False)
  have r: "route_code e = case_route 200 H C X 200 200 V"
    if "H = route_code e RHealth" "C = route_code e RClients" "X = (\<lambda>i. route_code e (RClient i))" "V = route_code e REvents" for H C X V
    unfolding that by (rule ext, rename_tac r, case_tac r) (simp_all only: route.case, simp_all add: route_code_def)
  have "documented_code e path =
     (if name = ''info'' \<or> name = ''providers'' \<or> name = ''diagnostics'' then Some 200
      else if name = ''health'' then Some (route_code e RHealth) else if name = ''clients'' then Some (route_code e RClients)
      else if name = ''events'' then Some (route_code e REvents) else None)"
    unfolding documented_code_def segs v Let_def list.case route_code_def route.case list_ex_iff by (rule refl)
  from trans [OF this n(1)] arg_cong [OF r [OF refl refl refl refl], of "\<lambda>f. map_option f (route_of path)", unfolded k]
  have "documented_code e path = map_option (route_code e) (route_of path)" unfolding k by (rule trans [OF _ sym])
  from this n(2) [of name] show ?thesis unfolding k v by (rule conjI)
qed

lemma documented_route:
  "documented_code e path = map_option (route_code e) (route_of path)"
  "route_of path = Some REvents \<longleftrightarrow> visits path [''v1'', ''events'']"
proof -
  obtain segs where segs: "map mux_segment (path_segments path) = segs" by blast
  note v = visits_segments [OF segs]
  have h: "take 4 k = ''mac:'' \<longleftrightarrow> HasPrefix k ''mac:''" for k
  proof -
    have "length ''mac:'' = 4" by simp
    then show ?thesis unfolding HasPrefix_def by (simp only:)
  qed
  have x: "documented_code e path = map_option (route_code e) (route_of path) \<and>
      (route_of path = Some REvents \<longleftrightarrow> visits path [''v1'', ''events''])"
  proof (cases "\<exists>lead v1 name. segs = [lead, v1, name]")
    case True
    then obtain lead v1 name where "segs = [lead, v1, name]" by blast
    from documented_three [OF segs [unfolded this]] show ?thesis .
  next
    case False
    then have "segs \<noteq> [[], a, b]" for a b by blast
    then have n: "visits path [a, b] = False" for a b by (simp add: v)
    show ?thesis
    proof (cases "\<exists>lead v1 name i. segs = [lead, v1, name, i]")
      case True
      then obtain lead v1 name i where s4: "segs = [lead, v1, name, i]" by blast
      show ?thesis
        unfolding documented_code_def route_of_def n segs s4 Let_def list.case h simp_thms if_False
        by (simp add: route_code_def)
    next
      case other: False
      have "(case segs of [lead, v1, name] \<Rightarrow> A lead v1 name | [lead, v1, name, i] \<Rightarrow> B lead v1 name i | _ \<Rightarrow> None) = None" for A :: "string \<Rightarrow> string \<Rightarrow> string \<Rightarrow> route option" and B
        using False other by (auto split: list.split)
      moreover have "(case segs of [lead, v1, name, i] \<Rightarrow> C lead v1 name i | _ \<Rightarrow> None) = None" for C :: "string \<Rightarrow> string \<Rightarrow> string \<Rightarrow> string \<Rightarrow> int option"
        using other by (auto split: list.split)
      ultimately show ?thesis
        unfolding documented_code_def route_of_def n segs Let_def by simp
    qed
  qed
  from x show "documented_code e path = map_option (route_code e) (route_of path)" ..
  from x show "route_of path = Some REvents \<longleftrightarrow> visits path [''v1'', ''events'']" ..
qed

text \<open>The bodies that tell of clients.\<close>

definition tells_clients :: "body \<Rightarrow> bool" where
  "tells_clients v = (case v of ClientsBody _ \<Rightarrow> True | ClientBody _ \<Rightarrow> True | _ \<Rightarrow> False)"

lemma health_scan_code:
  "snd (health_scan ps acc) =
     (if \<exists>p \<in> set ps. pr_Status p = ''healthy'' \<or> pr_Status p = ''unavailable'' \<and> pr_LastSnapshotAt p \<noteq> 0 then 200 else snd acc)"
  by (induction ps acc rule: health_scan.induct) auto

lemma health_code:
  "hr_Code (health e) =
     (if HasAuthoritativeSnapshot ''wifi'' e \<and>
         (\<exists>p \<in> set (Providers e). pr_Status p = ''healthy'' \<or> pr_Status p = ''unavailable'' \<and> pr_LastSnapshotAt p \<noteq> 0)
      then 200 else 503)"
  using health_scan_code [of "Providers e" "(''not_ready'', 503)"]
  by (cases "health_scan (Providers e) (''not_ready'', 503)") (auto simp: health_def' writeJSON_def)

lemma client_code:
  "hr_Code (client_by_id i e) = route_code e (RClient i)"
  "tells_clients (hr_Body (client_by_id i e)) \<Longrightarrow> HasAuthoritativeSnapshot ''wifi'' e"
  by (auto simp: client_by_id_def route_code_def requireReady_def writeJSON_def http_Error_def lookupClient_def
      map_of_eq_None_iff tells_clients_def split: option.splits if_splits dest: map_of_mem_keys)

text \<open>What a subscription adds to the engine, and what is left of it when it is cancelled at once.\<close>

definition with_subscription :: "chan \<Rightarrow> (uint64, nat) gomap \<Rightarrow> Engine \<Rightarrow> Engine" where
  "with_subscription ch subs e =
     e\<lparr>e_nextSub := e_nextSub e + 1, e_heap := e_heap e @ [ch], e_subscribers := subs\<rparr>"

lemma Subscribe_cancel:
  assumes "Subscribe now e = (Inr (snap, i, r), e1)"
  shows "\<exists>ch. e1 = with_subscription ch (AList.update i (length (e_heap e)) (e_subscribers e)) e \<and> i = e_nextSub e \<and>
      cancel i e1 = with_subscription (ch\<lparr>ch_closed := True\<rparr>) (AList.delete i (e_subscribers e)) e"
    and "\<not> int (length (e_subscribers e)) \<ge> MaxSubscribers (e_limits e)"
proof -
  let ?ch = "chan_make (nat (QueueSize (e_limits e))) (length (e_log e))"
  have e1: "e1 = with_subscription ?ch (AList.update i (length (e_heap e)) (e_subscribers e)) e" "i = e_nextSub e"
    using assms by (auto simp: Subscribe_def Let_def with_subscription_def split: if_splits)
  moreover have "AList.delete i (AList.update i v m) = AList.delete i m" for m :: "(uint64 \<times> nat) list" and v
    by (induction m) auto
  moreover have "\<not> ch_closed ?ch" by (simp add: chan_make_def)
  ultimately have "cancel i e1 = with_subscription (?ch\<lparr>ch_closed := True\<rparr>) (AList.delete i (e_subscribers e)) e"
    unfolding e1(1) by (simp add: cancel_def close_chan_def with_subscription_def update_conv')
  with e1 show "\<exists>ch. e1 = with_subscription ch (AList.update i (length (e_heap e)) (e_subscribers e)) e \<and> i = e_nextSub e \<and>
      cancel i e1 = with_subscription (ch\<lparr>ch_closed := True\<rparr>) (AList.delete i (e_subscribers e)) e" by blast
  show "\<not> int (length (e_subscribers e)) \<ge> MaxSubscribers (e_limits e)"
    using assms by (auto simp: Subscribe_def split: if_splits)
qed

text \<open>
  What a request may do to the engine: nothing, or add a subscription, which is cancelled again unless a
  stream is opened.
\<close>

definition engine_kept :: "bool \<Rightarrow> Engine \<Rightarrow> Engine \<Rightarrow> bool" where
  "engine_kept stream e e' \<longleftrightarrow> e' = e \<or>
     (\<exists>ch. ch_closed ch \<and> e' = with_subscription ch (AList.delete (e_nextSub e) (e_subscribers e)) e) \<or>
     stream \<and> (\<exists>ch. e' = with_subscription ch (AList.update (e_nextSub e) (length (e_heap e)) (e_subscribers e)) e)"

lemma send_frame_engine: "send_frame ok f h e = (h', e') \<Longrightarrow> hs_sub h' = hs_sub h \<and>
    (if ok then e' = e \<and> hs_done h' = hs_done h else e' = cancel (hs_sub h) e \<and> hs_done h')"
  by (auto simp: send_frame_def finish_def split: if_splits)

lemma events_open_keeps:
  assumes "events_open sha1 method h hijack ok now w1 w2 e = (res, e1)"
  shows "engine_kept (\<not> isl res) e e1"
proof (cases "requireReady e")
  case (Some r)
  then show ?thesis using assms by (simp add: events_open_def engine_kept_def)
next
  case None
  obtain out e0 where s: "Subscribe now e = (out, e0)" by fastforce
  show ?thesis
  proof (cases out)
    case (Inl err)
    then have "e0 = e" using s by (auto simp: Subscribe_def Let_def split: if_splits)
    then show ?thesis using assms None s Inl by (simp add: events_open_def engine_kept_def)
  next
    case (Inr t)
    obtain snap i r where t: "t = (snap, i, r)" by (cases t)
    obtain ch where c: "e0 = with_subscription ch (AList.update i (length (e_heap e)) (e_subscribers e)) e" "i = e_nextSub e"
      "cancel i e0 = with_subscription (ch\<lparr>ch_closed := True\<rparr>) (AList.delete i (e_subscribers e)) e"
      using Subscribe_cancel(1) s Inr t by blast
    have k: "engine_kept True e e0" "engine_kept b e (cancel i e0)" for b
    proof -
      show "engine_kept True e e0"
        unfolding engine_kept_def by (intro disjI2 conjI TrueI exI) (rule c(1) [unfolded c(2)])
      have "ch_closed (ch\<lparr>ch_closed := True\<rparr>)" by simp
      with c(3) show "engine_kept b e (cancel i e0)"
        unfolding engine_kept_def c(2) by (intro disjI2 [OF disjI1] exI conjI)
    qed
    show ?thesis
    proof (cases "websocketUpgrade sha1 method h hijack ok")
      case (Inl x)
      then show ?thesis using assms None s Inr t k by (auto simp: events_open_def)
    next
      case Inr': (Inr x)
      let ?s0 = "\<lparr>hs_snapshot = snap, hs_sub = i, hs_events = r, hs_sent = [], hs_done = False\<rparr>"
      obtain s1 e2 where 1: "send_frame w1 (JsonFrame (helloEvent now snap)) ?s0 e0 = (s1, e2)" by fastforce
      obtain s2 e3 where 2: "send_frame w2 (JsonFrame (initialEvent now snap)) s1 e2 = (s2, e3)" by fastforce
      note f = send_frame_engine [OF 1] send_frame_engine [OF 2]
      have "res = Inr (if hs_done s1 then s1 else s2) \<and> e1 = (if hs_done s1 then e2 else e3)"
        using assms None s Inr t Inr' 1 2 by (auto simp: events_open_def Let_def)
      then show ?thesis using f k by (cases w1; cases w2) auto
    qed
  qed
qed

text \<open>What a handler's outcome must satisfy.\<close>

definition answers :: "Engine \<Rightarrow> route \<Rightarrow> string \<Rightarrow> response + stream \<Rightarrow> bool" where
  "answers e r method res \<longleftrightarrow>
     (case res of
        Inl v \<Rightarrow> hr_Code v = route_code e r \<and> (tells_clients (hr_Body v) \<longrightarrow> HasAuthoritativeSnapshot ''wifi'' e)
      | Inr _ \<Rightarrow> r = REvents \<and> method = ''GET'' \<and> HasAuthoritativeSnapshot ''wifi'' e)"

lemma websocketUpgrade_method: "websocketUpgrade sha1 method h hijack ok = Inr x \<Longrightarrow> method = ''GET''"
  by (rule ccontr) (simp add: websocketUpgrade_def)

lemma events_open_answers:
  assumes "events_open sha1 method h hijack ok now w1 w2 e = (res, e1)"
  shows "answers e REvents method res"
proof (cases "HasAuthoritativeSnapshot ''wifi'' e")
  case False
  with assms show ?thesis
    by (auto simp: events_open_def requireReady_def answers_def route_code_def http_Error_def tells_clients_def)
next
  case True
  obtain out e0 where s: "Subscribe now e = (out, e0)" by fastforce
  show ?thesis
  proof (cases out)
    case (Inl err)
    then have "int (length (e_subscribers e)) \<ge> MaxSubscribers (e_limits e)"
      using s by (auto simp: Subscribe_def Let_def split: if_splits)
    with Inl show ?thesis
      using assms True s
      by (auto simp: events_open_def requireReady_def answers_def route_code_def http_Error_def tells_clients_def)
  next
    case (Inr t)
    obtain snap i r where t: "t = (snap, i, r)" by (cases t)
    have "\<not> int (length (e_subscribers e)) \<ge> MaxSubscribers (e_limits e)"
      using Subscribe_cancel(2) s Inr t by metis
    with Inr t show ?thesis
      using assms True s
      by (cases "websocketUpgrade sha1 method h hijack ok")
         (auto simp: events_open_def requireReady_def answers_def route_code_def http_Error_def tells_clients_def Let_def
           split: prod.splits dest: websocketUpgrade_method)
  qed
qed

lemma dispatch_answers:
  assumes "dispatch sha1 s u q b e = (res, e1)"
  shows "case res of
      Inl v \<Rightarrow> hr_Code v = answer_code e (rq_Path q) (rq_Method q) \<and>
        (tells_clients (hr_Body v) \<longrightarrow> HasAuthoritativeSnapshot ''wifi'' e)
    | Inr st \<Rightarrow> visits (rq_Path q) [''v1'', ''events''] \<and> cleanPath (rq_Path q) = rq_Path q \<and> rq_Method q = ''GET'' \<and>
        HasAuthoritativeSnapshot ''wifi'' e"
proof (cases "rq_Method q \<noteq> ''CONNECT'' \<and> cleanPath (rq_Path q) \<noteq> rq_Path q")
  case True
  with assms show ?thesis by (auto simp: dispatch_def answer_code_def http_Redirect_def tells_clients_def)
next
  case clean: False
  show ?thesis
  proof (cases "route_of (rq_Path q)")
    case None
    with assms clean show ?thesis
      by (auto simp: dispatch_def answer_code_def documented_route(1) http_Error_def tells_clients_def)
  next
    case (Some r)
    show ?thesis
    proof (cases "rq_Method q \<noteq> ''GET'' \<and> rq_Method q \<noteq> ''HEAD''")
      case True
      with assms clean Some show ?thesis
        by (auto simp: dispatch_def answer_code_def documented_route(1) http_Error_def tells_clients_def)
    next
      case False
      have d: "dispatch sha1 s u q b e = (case r of
                  RInfo \<Rightarrow> (Inl (info s), e)
                | RHealth \<Rightarrow> (Inl (health e), e)
                | RClients \<Rightarrow> (Inl (clients (su_now u) e), e)
                | RClient i \<Rightarrow> (Inl (client_by_id i e), e)
                | RProviders \<Rightarrow> (Inl (providers e), e)
                | RDiagnostics \<Rightarrow> (Inl (diagnostics s (su_now u) (su_memory u) b e), e)
                | REvents \<Rightarrow>
                    events_open sha1 (rq_Method q) (rq_Header q) (su_hijack u) (su_handshake u) (su_now u)
                      (fst (su_writes u)) (snd (su_writes u)) e)"
        using clean Some False by (auto simp: dispatch_def)
      have "answers e r (rq_Method q) res"
      proof (cases r)
        case REvents
        then show ?thesis using assms d events_open_answers by simp
      next
        case (RClient i)
        then show ?thesis using assms d client_code [of i e] by (auto simp: answers_def)
      next
        case RHealth
        then show ?thesis
          using assms d health_code [of e]
          by (auto simp: answers_def route_code_def tells_clients_def health_def' writeJSON_def split: prod.splits)
      qed (use assms d in \<open>auto simp: answers_def route_code_def tells_clients_def writeJSON_def
          clients_def requireReady_def http_Error_def info_def providers_def diagnostics_def\<close>)
      then show ?thesis
        using False Some clean documented_route(1) [of e "rq_Path q"] documented_route(2) [of "rq_Path q"]
        by (auto simp: answers_def answer_code_def split: sum.splits)
    qed
  qed
qed

lemma dispatch_keeps:
  assumes "dispatch sha1 s u q b e = (res, e1)"
  shows "if visits (rq_Path q) [''v1'', ''events''] then engine_kept (\<not> isl res) e e1 else e1 = e"
  using assms events_open_keeps documented_route(2) [of "rq_Path q"]
  by (auto simp: dispatch_def engine_kept_def split: option.splits route.splits if_splits)


definition demo_request :: "string \<Rightarrow> string \<Rightarrow> request" where
  "demo_request path token =
     \<lparr>rq_Method = ''GET'', rq_Path = path, rq_Header = [(''Authorization'', [''Bearer '' @ token])]\<rparr>"

definition demo_around :: surroundings where
  "demo_around = \<lparr>su_now = 9, su_memory = (0, 0), su_hijack = None, su_handshake = False, su_writes = (False, False)\<rparr>"

definition demo_server :: Server where
  "demo_server = \<lparr>sv_config = Default, sv_agentID = ''id'', sv_version = ''dev'', sv_startedAt = 0\<rparr>"


section \<open>Connections\<close>

text \<open>
  The listener as the HTTP server drives it: any number of calls of \<^verbatim>\<open>Accept\<close>, their ends, \<^verbatim>\<open>Close\<close>, and the
  closing of accepted connections, repeated or not.
\<close>

inductive ll_step :: "limitedListener \<Rightarrow> limitedListener \<Rightarrow> bool" where
  accept: "ll_step l (snd (ll_Accept pick l))"
| accepted: "ll_accepting l > 0 \<Longrightarrow> ll_step l (ll_Accepted ok l)"
| close_listener: "ll_step l (ll_Close l)"
| close_conn: "i < length (ll_conns l) \<Longrightarrow> ll_step l (conn_Close i l)"

definition open_conns :: "limitedListener \<Rightarrow> nat" where
  "open_conns l = length (filter Not (ll_conns l))"

definition ll_inv :: "limitedListener \<Rightarrow> bool" where
  "ll_inv l \<longleftrightarrow> ll_slots l = ll_accepting l + open_conns l \<and> ll_slots l \<le> ll_limit l"

lemma filter_close:
  "i < length xs \<Longrightarrow> \<not> xs ! i \<Longrightarrow> Suc (length (filter Not (xs[i := True]))) = length (filter Not xs)"
  by (induction xs arbitrary: i) (auto simp: nth_Cons split: nat.splits)

lemma open_conn_counts: "i < length (ll_conns l) \<Longrightarrow> \<not> ll_conns l ! i \<Longrightarrow> 0 < open_conns l"
  unfolding open_conns_def by (metis filter_close zero_less_Suc)

lemma ll_step_inv:
  assumes "ll_step l l'" and "ll_inv l"
  shows "ll_inv l' \<and> ll_limit l' = ll_limit l"
  using assms
proof cases
  case (accept pick)
  then show ?thesis using assms(2) by (auto simp: ll_Accept_def ll_inv_def open_conns_def Let_def)
next
  case (accepted ok)
  then show ?thesis using assms(2) by (auto simp: ll_Accepted_def ll_inv_def open_conns_def)
next
  case close_listener
  then show ?thesis using assms(2) by (simp add: ll_Close_def ll_inv_def open_conns_def)
next
  case (close_conn i)
  show ?thesis
  proof (cases "ll_conns l ! i")
    case False
    with filter_close [OF close_conn(2) False] close_conn assms(2) show ?thesis
      by (auto simp: conn_Close_def ll_inv_def open_conns_def)
  qed (use close_conn assms(2) in \<open>simp add: conn_Close_def\<close>)
qed

lemma ll_reach:
  assumes "ll_step\<^sup>*\<^sup>* (newLimitedListener limit) l"
  shows "ll_inv l \<and> ll_limit l = limit"
  using assms
proof (induction rule: rtranclp_induct)
  case base
  show ?case by (simp add: newLimitedListener_def ll_inv_def open_conns_def)
next
  case (step l l')
  with ll_step_inv show ?case by blast
qed

text \<open>
  The limit on connections holds and no slot is lost or given back twice: in every state of the
  listener the slots in use are those of the calls waiting for a connection and of the connections still
  open, at most the limit; closing a connection frees exactly its slot the first time and nothing after
  that; and \<^verbatim>\<open>Accept\<close> waits only while every slot is taken and the listener is open.
\<close>

theorem connections_limited:
  assumes "ll_step\<^sup>*\<^sup>* (newLimitedListener limit) l"
  shows "ll_accepting l + open_conns l \<le> limit \<and> ll_slots l = ll_accepting l + open_conns l \<and>
    (\<forall>i < length (ll_conns l).
       (ll_conns l ! i \<longrightarrow> conn_Close i l = l) \<and>
       (\<not> ll_conns l ! i \<longrightarrow> 0 < ll_slots l \<and> Suc (ll_slots (conn_Close i l)) = ll_slots l \<and>
          conn_Close i (conn_Close i l) = conn_Close i l)) \<and>
    (\<forall>pick. fst (ll_Accept pick l) = None \<longrightarrow> ll_accepting l + open_conns l = limit \<and> \<not> ll_done l)"
proof -
  note r = ll_reach [OF assms]
  have "0 < ll_slots l" if "i < length (ll_conns l)" "\<not> ll_conns l ! i" for i
    using open_conn_counts [OF that] r by (simp add: ll_inv_def)
  then show ?thesis
    using r by (auto simp: ll_inv_def conn_Close_def ll_Accept_def Let_def split: if_splits)
qed

definition demo_listener :: limitedListener where
  "demo_listener = ll_Accepted True (snd (ll_Accept True (newLimitedListener 1)))"

theorem connections_limited_witness:
  "open_conns demo_listener = 1 \<and> ll_slots demo_listener = 1 \<and> ll_slots (conn_Close 0 demo_listener) = 0 \<and>
   conn_Close 0 (conn_Close 0 demo_listener) = conn_Close 0 demo_listener"
proof -
  let ?l = "snd (ll_Accept True (newLimitedListener 1))"
  have "0 < ll_accepting ?l" by code_simp
  then have "ll_step (newLimitedListener 1) ?l" "ll_step ?l demo_listener"
    by (auto simp: demo_listener_def intro: ll_step.accept ll_step.accepted)
  then have "ll_step\<^sup>*\<^sup>* (newLimitedListener 1) demo_listener" by simp
  from connections_limited [OF this] have "\<forall>i < length (ll_conns demo_listener). \<not> ll_conns demo_listener ! i \<longrightarrow>
      Suc (ll_slots (conn_Close i demo_listener)) = ll_slots demo_listener \<and>
      conn_Close i (conn_Close i demo_listener) = conn_Close i demo_listener" by blast
  moreover have "length (ll_conns demo_listener) = 1 \<and> \<not> ll_conns demo_listener ! 0 \<and> open_conns demo_listener = 1 \<and>
      ll_slots demo_listener = 1" by code_simp
  ultimately show ?thesis by auto
qed

end
