(* ===== verification/Api_Text.thy ===== *)
theory Api_Text
  imports Api_Schema Api_Props
begin

text \<open>
  The text of the responses: \<^verbatim>\<open>writeJSON\<close> with the JSON form of each body, \<^verbatim>\<open>http.Error\<close>, and the schemas that
  \<^verbatim>\<open>api/openapi.yaml\<close> publishes for the paths.
\<close>

section \<open>Durations\<close>

text \<open>\<^verbatim>\<open>Duration.String\<close>; \<open>frac_text\<close> is \<^verbatim>\<open>fmtFrac\<close> of the digits after the point.\<close>

definition frac_text :: "nat \<Rightarrow> nat \<Rightarrow> string" where
  "frac_text prec v =
     (if v = 0 then [] else CHR ''.'' # rev (dropWhile (\<lambda>c. c = CHR ''0'') (rev (padded prec v))))"

definition unsigned_duration :: "nat \<Rightarrow> string" where
  "unsigned_duration u =
     (if u = 0 then ''0s''
      else if u < 1000 then decimal u @ ''ns''
      else if u < 1000000 then decimal (u div 1000) @ frac_text 3 (u mod 1000) @ [CHR 0xC2, CHR 0xB5, CHR ''s'']
      else if u < 1000000000 then decimal (u div 1000000) @ frac_text 6 (u mod 1000000) @ ''ms''
      else (let secs = u div 1000000000;
                mins = secs div 60;
                hours = mins div 60;
                tail = decimal (secs mod 60) @ frac_text 9 (u mod 1000000000) @ ''s''
            in if mins = 0 then tail
               else (if hours = 0 then [] else decimal hours @ ''h'') @ decimal (mins mod 60) @ ''m'' @ tail))"

definition Duration_String :: "duration \<Rightarrow> string" where
  "Duration_String d = (if d < 0 then ''-'' else []) @ unsigned_duration (nat \<bar>d\<bar>)"

section \<open>Bodies\<close>

fun setting_json :: "setting \<Rightarrow> json" where
  "setting_json (Text s) = JStr s"
| "setting_json (Number n) = number_json n"
| "setting_json (Span d) = JStr (Duration_String d)"

definition settings_json :: "(string \<times> setting) list \<Rightarrow> json" where
  "settings_json kvs = map_json (map (map_prod id setting_json) kvs)"

definition providers_json :: "Provider list \<Rightarrow> json option" where
  "providers_json ps = map_option JArr (those (map provider_json ps))"

definition stats_json :: "EngineStats \<Rightarrow> json" where
  "stats_json s =
     map_json [(''clients'', number_json (int (st_clients s))), (''connections'', number_json (int (st_connections s))),
               (''stream_clients'', number_json (int (st_stream_clients s))),
               (''dropped_stream_clients'', number_json (uint (st_dropped_stream_clients s))),
               (''sequence'', number_json (uint (st_sequence s))),
               (''reconciliations'', number_json (uint (st_reconciliations s))),
               (''pending_departures'', number_json (int (st_pending_departures s)))]"

text \<open>The value that a handler encodes, with the members that are constants of the code.\<close>

definition body_json :: "(time \<Rightarrow> int) \<Rightarrow> body \<Rightarrow> json option" where
  "body_json zone b =
     (case b of
        TextBody message \<Rightarrow> None
      | InfoBody protocol agent version capabilities \<Rightarrow>
          Some (map_json [(''name'', JStr ''openwrt-presence-agent''), (''protocol_version'', JStr protocol),
                          (''agent_id'', JStr agent), (''version'', JStr version),
                          (''capabilities'', strings_json capabilities)])
      | HealthBody status ps \<Rightarrow>
          map_option (\<lambda>j. map_json [(''status'', JStr status), (''providers'', j)]) (providers_json ps)
      | ClientsBody snapshot \<Rightarrow> snapshot_json zone snapshot
      | ClientBody c \<Rightarrow> client_json zone c
      | ProvidersBody ps \<Rightarrow> map_option (\<lambda>j. map_json [(''providers'', j)]) (providers_json ps)
      | DiagnosticsBody uptime listener configuration ps stats failures memory \<Rightarrow>
          map_option (\<lambda>j. map_json
            [(''uptime_seconds'', number_json uptime),
             (''listener'', settings_json listener),
             (''configuration'', settings_json configuration),
             (''providers'', j), (''state'', stats_json stats),
             (''authentication_failures'', number_json (uint failures)),
             (''memory'', map_json [(''alloc_bytes'', number_json (int (fst memory))),
                                    (''sys_bytes'', number_json (int (snd memory)))]),
             (''clock'', map_json [(''synchronization'', JStr ''unverified'')]),
             (''privilege'', map_json [(''mode'', JStr ''service process identity''),
                                       (''verified_unprivileged'', JBool False)])])
            (providers_json ps))"

text \<open>
  What is sent: \<^verbatim>\<open>Encode\<close> ends the text with a newline and writes nothing when it fails, and so does \<^verbatim>\<open>http.Error\<close> with
  its message.
\<close>

definition response_header :: "response \<Rightarrow> (string \<times> string) list" where
  "response_header r =
     (case hr_Body r of
        TextBody message \<Rightarrow> [(''Content-Type'', ''text/plain; charset=utf-8''), (''X-Content-Type-Options'', ''nosniff'')]
      | _ \<Rightarrow> [(''Content-Type'', ''application/json''), (''Cache-Control'', ''no-store''),
              (''X-Content-Type-Options'', ''nosniff'')])"

definition response_text :: "(time \<Rightarrow> int) \<Rightarrow> response \<Rightarrow> string" where
  "response_text zone r =
     (case hr_Body r of
        TextBody message \<Rightarrow> message @ [CHR 0x0A]
      | b \<Rightarrow> (case body_json zone b of None \<Rightarrow> [] | Some j \<Rightarrow> json_print j @ [CHR 0x0A]))"

section \<open>The published paths\<close>

definition provider_schema :: schema where
  "provider_schema =
     SObject False [''id'', ''kind'', ''status'', ''snapshot_supported'', ''sources'', ''snapshot_source'', ''event_source'']
       [(''id'', text_upto 64), (''kind'', text_upto 32),
        (''status'', SOneOf [JStr ''initializing'', JStr ''healthy'', JStr ''unavailable'', JStr ''stopped'']),
        (''snapshot_supported'', SBoolean), (''sources'', SArray (Some 128) (text_upto 64)),
        (''last_snapshot_at'', time_schema), (''last_event_at'', time_schema), (''last_error'', text_upto 512),
        (''snapshot_source'', text_upto 64), (''event_source'', text_upto 64)]"

definition info_schema :: schema where
  "info_schema =
     SObject False [''name'', ''protocol_version'', ''agent_id'', ''version'', ''capabilities'']
       [(''name'', SOneOf [JStr ''openwrt-presence-agent'']), (''protocol_version'', SOneOf [JStr ''v1'']),
        (''agent_id'', SText None HexText), (''version'', text_upto 64), (''capabilities'', SArray (Some 16) (SText None AnyText))]"

definition provider_list_schema :: schema where
  "provider_list_schema = SArray (Some 16) provider_schema"

definition health_schema :: schema where
  "health_schema =
     SObject False [''status'', ''providers'']
       [(''status'', SOneOf [JStr ''not_ready'', JStr ''operational'', JStr ''degraded'']), (''providers'', provider_list_schema)]"

definition providers_schema :: schema where
  "providers_schema = SObject False [''providers''] [(''providers'', provider_list_schema)]"

text \<open>The schema of the diagnostics; the published one has no further members.\<close>

definition diagnostics_schema :: "(string \<times> schema) list \<Rightarrow> (string \<times> schema) list \<Rightarrow> schema" where
  "diagnostics_schema more_configuration more_state =
     (let natural = SInteger 0 None; positive = SInteger 1 None; string = SText None AnyText in
      SObject False
        [''uptime_seconds'', ''listener'', ''configuration'', ''providers'', ''state'', ''authentication_failures'',
         ''memory'', ''clock'', ''privilege'']
        [(''uptime_seconds'', natural),
         (''listener'', SObject False [''address'', ''port''] [(''address'', string), (''port'', SInteger 1 (Some 65535))]),
         (''configuration'',
            SObject False
              [''provider'', ''reconcile_interval'', ''wired_reconcile_interval'', ''discovery_interval'', ''lan_interface'',
               ''max_clients'', ''max_http_connections'', ''provider_queue_size'', ''max_stream_clients'',
               ''stream_queue_size'', ''authentication'']
              ([(''provider'', SOneOf [JStr ''ubus'']), (''reconcile_interval'', string),
                (''wired_reconcile_interval'', string), (''discovery_interval'', string), (''lan_interface'', string),
                (''max_clients'', positive), (''max_http_connections'', positive), (''provider_queue_size'', positive),
                (''max_stream_clients'', positive), (''stream_queue_size'', positive),
                (''authentication'', SOneOf [JStr ''bearer''])] @ more_configuration)),
         (''providers'', provider_list_schema),
         (''state'',
            SObject False
              [''clients'', ''connections'', ''stream_clients'', ''dropped_stream_clients'', ''sequence'', ''reconciliations'']
              ([(''clients'', natural), (''connections'', natural), (''stream_clients'', natural),
                (''dropped_stream_clients'', natural), (''sequence'', natural), (''reconciliations'', natural)] @ more_state)),
         (''authentication_failures'', natural),
         (''memory'', SObject False [''alloc_bytes'', ''sys_bytes''] [(''alloc_bytes'', natural), (''sys_bytes'', natural)]),
         (''clock'', SObject False [''synchronization''] [(''synchronization'', SOneOf [JStr ''unverified''])]),
         (''privilege'',
            SObject False [''mode'', ''verified_unprivileged'']
              [(''mode'', SOneOf [JStr ''service process identity'']), (''verified_unprivileged'', SOneOf [JBool False])])])"

text \<open>A successful \<^verbatim>\<open>/v1/events\<close> leaves HTTP, so it has no schema.\<close>

definition published_schema :: "route \<Rightarrow> schema option" where
  "published_schema r =
     (case r of
        RInfo \<Rightarrow> Some info_schema
      | RHealth \<Rightarrow> Some health_schema
      | RClients \<Rightarrow> Some snapshot_schema
      | RClient i \<Rightarrow> Some client_schema
      | RProviders \<Rightarrow> Some providers_schema
      | RDiagnostics \<Rightarrow> Some (diagnostics_schema [] [])
      | REvents \<Rightarrow> None)"

section \<open>Conformance\<close>

text \<open>
  A provider as the schema wants it, apart from its sources and its last error, and what it still has to meet.
  Lengths are counted in bytes, the schema counts characters: there are never more of these.
\<close>

definition fine_provider :: "Provider \<Rightarrow> bool" where
  "fine_provider p \<longleftrightarrow>
     pr_Status p \<in> {''initializing'', ''healthy'', ''unavailable'', ''stopped''} \<and> length (pr_ID p) \<le> 64 \<and>
     length (pr_Kind p) \<le> 32 \<and> length (pr_SnapshotSource p) \<le> 64 \<and>
     length (pr_EventSource p) \<le> 64 \<and> length (pr_Sources p) \<le> 128 \<and> list_all (\<lambda>s. length s \<le> 64) (pr_Sources p)"

definition published_provider :: "Provider \<Rightarrow> bool" where
  "published_provider p \<longleftrightarrow> pr_Sources p \<noteq> [] \<and> length (pr_LastError p) \<le> 512"

lemma text_conforms [simp]: "conforms (text_upto n) (JStr s) \<longleftrightarrow> length s \<le> n"
  by (simp add: text_upto_def)

lemma provider_conforms:
  assumes "provider_json p = Some j" and "fine_provider p"
  shows "conforms provider_schema j \<longleftrightarrow> published_provider p"
proof -
  obtain snapshot event where e: "time_json 0 (pr_LastSnapshotAt p) = Some snapshot" "time_json 0 (pr_LastEventAt p) = Some event"
    and j: "j = JObj ([(''id'', JStr (pr_ID p)), (''kind'', JStr (pr_Kind p)), (''status'', JStr (pr_Status p)),
      (''snapshot_supported'', JBool (pr_SnapshotSupported p)),
      (''sources'', if pr_Sources p = [] then JNull else strings_json (pr_Sources p)),
      (''last_snapshot_at'', snapshot), (''last_event_at'', event)] @
      (if pr_LastError p = [] then [] else [(''last_error'', JStr (pr_LastError p))]) @
      [(''snapshot_source'', JStr (pr_SnapshotSource p)), (''event_source'', JStr (pr_EventSource p))])"
    using assms(1) by (auto simp: provider_json_def bind_eq_Some_conv)
  have "conforms (SArray (Some 128) (text_upto 64)) (strings_json (pr_Sources p))"
    using assms(2) by (simp add: strings_json_def fine_provider_def list_all_iff)
  then show ?thesis
    using assms(2) time_conforms [OF e(1)] time_conforms [OF e(2)]
    by (auto simp: provider_schema_def j fine_provider_def published_provider_def)
qed

text \<open>A list of providers conforms exactly if each of them knows a source and has no longer error.\<close>

lemma providers_conform:
  assumes "providers_json ps = Some j" and "list_all fine_provider ps" and "length ps \<le> 16"
  shows "conforms provider_list_schema j \<longleftrightarrow> list_all published_provider ps"
proof -
  obtain vs where v: "those (map provider_json ps) = Some vs" "j = JArr vs"
    using assms(1) by (auto simp: providers_json_def)
  have "list_all (conforms provider_schema) vs \<longleftrightarrow> list_all published_provider ps"
    using v(1) assms(2)
  proof (induction ps arbitrary: vs)
    case (Cons p ps)
    then obtain y ys where "provider_json p = Some y" "those (map provider_json ps) = Some ys" "vs = y # ys"
      by (auto split: option.splits)
    then show ?case using Cons provider_conforms by simp
  qed simp
  then show ?thesis using those_length [OF v(1)] assms(3) by (simp add: provider_list_schema_def v(2))
qed

lemma health_status: "fst (health_scan ps acc) = fst acc \<or> fst (health_scan ps acc) \<in> {''operational'', ''degraded''}"
  by (induction ps acc rule: health_scan.induct) auto

lemma Duration_schema [simp]: "conforms (SText None AnyText) (JStr s)"
  by simp

lemma diagnostics_conforms:
  assumes "hr_Body (diagnostics s now memory b e) = body" and "body_json zone body = Some j" and "Validate (sv_config s) = None"
    and "sv_startedAt s \<le> now" and "list_all fine_provider (Providers e)" and "length (Providers e) \<le> 16"
    and "list_all published_provider (Providers e)"
  shows "conforms (diagnostics_schema [(''reconnect_grace'', SText None AnyText)] [(''pending_departures'', SInteger 0 None)]) j"
proof -
  obtain ps where p: "providers_json (Providers e) = Some ps"
    and j: "body_json zone body = Some j" "body = DiagnosticsBody ((now - sv_startedAt s) div Second)
       (listener_settings (sv_config s)) (configuration_settings (sv_config s)) (Providers e) (Stats e) (Failures b) memory"
    using assms(1,2) by (auto simp: diagnostics_def writeJSON_def body_json_def)
  have "conforms provider_list_schema ps" using providers_conform [OF p assms(5,6)] assms(7) by simp
  moreover have "0 \<le> (now - sv_startedAt s) div Second" using assms(4) by (simp add: Second_def pos_imp_zdiv_nonneg_iff)
  moreover note Validate_facts [OF assms(3)]
  ultimately show ?thesis
    using j p by (auto simp: body_json_def diagnostics_schema_def Let_def settings_json_def listener_settings_def
        configuration_settings_def stats_json_def)
qed

lemma diagnostics_deviates:
  assumes "body_json zone (hr_Body (diagnostics s now memory b e)) = Some j"
  shows "\<not> conforms (diagnostics_schema [] []) j"
  using assms
  by (auto simp: diagnostics_def writeJSON_def body_json_def diagnostics_schema_def Let_def stats_json_def)

lemma info_conforms:
  assumes "body_json zone (hr_Body (info s)) = Some j" and "hex_text (sv_agentID s)" and "length (sv_version s) \<le> 64"
  shows "conforms info_schema j"
  using assms by (auto simp: info_def writeJSON_def body_json_def info_schema_def strings_json_def Version_def)

lemma health_conforms:
  assumes "body_json zone (hr_Body (health e)) = Some j" and "list_all fine_provider (Providers e)" and "length (Providers e) \<le> 16"
  shows "conforms health_schema j \<longleftrightarrow> list_all published_provider (Providers e)"
proof -
  obtain status ps where b: "hr_Body (health e) = HealthBody status (Providers e)"
    "status \<in> {''not_ready'', ''operational'', ''degraded''}" "providers_json (Providers e) = Some ps"
    "j = map_json [(''status'', JStr status), (''providers'', ps)]"
    using assms(1) health_status [of "Providers e" "(''not_ready'', 503)"]
    by (auto simp: health_def' writeJSON_def body_json_def split: if_splits prod.splits)
  then show ?thesis using providers_conform [OF b(3) assms(2,3)] by (auto simp: health_schema_def)
qed

lemma listing_conforms:
  assumes "body_json zone (hr_Body (providers e)) = Some j" and "list_all fine_provider (Providers e)" and "length (Providers e) \<le> 16"
  shows "conforms providers_schema j \<longleftrightarrow> list_all published_provider (Providers e)"
  using assms by (auto simp: providers_def writeJSON_def body_json_def providers_schema_def providers_conform)

lemma refusals: "body_json zone (hr_Body (http_Error m c)) = None" "requireReady e = Some r \<Longrightarrow> body_json zone (hr_Body r) = None"
    "body_json zone (hr_Body (http_Redirect m c)) = None"
  by (auto simp: http_Error_def http_Redirect_def body_json_def requireReady_def split: if_splits)

lemma body_json_simps [simp]:
  "body_json zone (ClientsBody snapshot) = snapshot_json zone snapshot" "body_json zone (ClientBody c) = client_json zone c"
  by (simp_all add: body_json_def)

lemma clients_conform:
  assumes "fed mac_text S R e" and "small_sources S" and "MaxClients (e_limits e) \<le> 100000"
  shows "body_json zone (hr_Body (clients now e)) = Some j \<Longrightarrow> conforms snapshot_schema j"
    and "body_json zone (hr_Body (client_by_id i e)) = Some j \<Longrightarrow> conforms client_schema j"
proof -
  show "body_json zone (hr_Body (clients now e)) = Some j \<Longrightarrow> conforms snapshot_schema j"
    using snapshot_conforms [OF assms] refusals(2)
    by (auto simp: clients_def writeJSON_def split: option.splits)
  show "body_json zone (hr_Body (client_by_id i e)) = Some j \<Longrightarrow> conforms client_schema j"
    using engine_client_conforms [OF assms(1,2)]
    by (auto simp: client_by_id_def writeJSON_def refusals lookupClient_def split: option.splits if_splits dest!: map_of_mem)
qed


definition demo_named :: Server where
  "demo_named = demo_server\<lparr>sv_agentID := replicate 32 CHR ''a''\<rparr>"


end
