(* ===== verification/Api_Life.thy ===== *)
theory Api_Life
  imports Api_Server
begin

text \<open>
  The life of the API server: what \<^verbatim>\<open>api.New\<close> sets up for \<^verbatim>\<open>net/http\<close>, and \<^verbatim>\<open>Shutdown\<close>, which tells the streams by
  closing a channel, once.
\<close>

section \<open>Model\<close>

record http_server =
  ht_Addr :: string
  ht_ReadHeaderTimeout :: duration
  ht_ReadTimeout :: duration
  ht_WriteTimeout :: duration
  ht_IdleTimeout :: duration
  ht_MaxHeaderBytes :: int

definition http_settings :: "Config \<Rightarrow> http_server" where
  "http_settings c =
     \<lparr>ht_Addr = Address c, ht_ReadHeaderTimeout = 5 * Second, ht_ReadTimeout = 10 * Second,
      ht_WriteTimeout = 15 * Second, ht_IdleTimeout = 60 * Second, ht_MaxHeaderBytes = 16 * 1024\<rparr>"

text \<open>\<open>al_shutdown\<close> is whether the channel has been closed; closing it again would be a panic.\<close>

record api_life =
  al_server :: Server
  al_http :: http_server
  al_stopOnce :: bool
  al_shutdown :: bool
  al_panicked :: bool
  al_stopped :: bool

definition api_New :: "Config \<Rightarrow> string \<Rightarrow> string \<Rightarrow> time \<Rightarrow> api_life" where
  "api_New c agentID version now =
     \<lparr>al_server = \<lparr>sv_config = c, sv_agentID = agentID, sv_version = version, sv_startedAt = now\<rparr>,
      al_http = http_settings c, al_stopOnce = False, al_shutdown = False, al_panicked = False, al_stopped = False\<rparr>"

text \<open>\<open>al_stopped\<close> is the call of \<^verbatim>\<open>http.Server.Shutdown\<close>, whose error is returned.\<close>

definition api_Shutdown :: "'err option \<Rightarrow> api_life \<Rightarrow> 'err option \<times> api_life" where
  "api_Shutdown err l =
     (let l1 = (if al_stopOnce l then l
                else if al_shutdown l then l\<lparr>al_stopOnce := True, al_panicked := True\<rparr>
                else l\<lparr>al_stopOnce := True, al_shutdown := True\<rparr>)
      in (err, l1\<lparr>al_stopped := True\<rparr>))"

text \<open>What a stream may receive: the farewell branch is open once the channel is closed.\<close>

definition stream_inputs :: "api_life \<Rightarrow> stream_input \<Rightarrow> bool" where
  "stream_inputs l inp \<longleftrightarrow> (case inp of ShutdownSignal now ok \<Rightarrow> al_shutdown l | _ \<Rightarrow> True)"

section \<open>Shutting down\<close>

text \<open>However often \<^verbatim>\<open>Shutdown\<close> is called, and with whatever result, the channel is closed exactly once.\<close>

lemma Shutdown_closes_once:
  assumes "errs \<noteq> []"
  shows "fold (\<lambda>err l. snd (api_Shutdown err l)) errs (api_New c agentID version now) =
    (api_New c agentID version now)\<lparr>al_stopOnce := True, al_shutdown := True, al_stopped := True\<rparr>"
proof -
  let ?l = "(api_New c agentID version now)\<lparr>al_stopOnce := True, al_shutdown := True, al_stopped := True\<rparr>"
  have "fold (\<lambda>err l. snd (api_Shutdown err l)) errs ?l = ?l" for errs :: "'a option list"
    by (induction errs) (simp_all add: api_Shutdown_def Let_def)
  moreover have "snd (api_Shutdown err (api_New c agentID version now)) = ?l" for err :: "'a option"
    by (simp add: api_Shutdown_def Let_def api_New_def)
  ultimately show ?thesis using assms by (cases errs) simp_all
qed

text \<open>Every stream that takes the farewell branch is over, and has left the engine.\<close>

lemma Shutdown_ends_stream:
  assumes "stream_turn (ShutdownSignal now ok) h e = (h', e')" and "\<not> hs_done h"
  shows "hs_done h' \<and> e' = Engine.cancel (hs_sub h) e"
  using assms by (auto simp: stream_turn_def send_frame_def finish_def split: if_splits)

end
