(* ===== verification/Config_Flags.thy ===== *)
theory Config_Flags
  imports Config
begin

text \<open>
  The command line of \<^verbatim>\<open>internal/config/config.go\<close>: the flags that \<^verbatim>\<open>Parse\<close> registers, and the functions of the
  packages \<^verbatim>\<open>flag\<close>, \<^verbatim>\<open>strconv\<close> and \<^verbatim>\<open>time\<close> that read them.  The width of \<^verbatim>\<open>int\<close> depends on the router, and the
  fractional part of a duration is computed in floating point; both are parameters.
\<close>

section \<open>Numbers\<close>

text \<open>A digit up to base 36, as \<^verbatim>\<open>ParseUint\<close> reads it.\<close>

definition digit_value :: "char \<Rightarrow> nat option" where
  "digit_value c =
     (let n = (of_char (lower_char c) :: nat) in
      if 0x30 \<le> n \<and> n \<le> 0x39 then Some (n - 0x30)
      else if 0x61 \<le> n \<and> n \<le> 0x7A then Some (n - 0x61 + 10)
      else None)"

text \<open>The digits in a base, skipping underscores.\<close>

fun digits_value :: "nat \<Rightarrow> nat \<Rightarrow> string \<Rightarrow> nat option" where
  "digits_value base n [] = Some n"
| "digits_value base n (c # s) =
     (if c = CHR ''_'' then digits_value base n s
      else (case digit_value c of
              None \<Rightarrow> None
            | Some d \<Rightarrow> if d \<ge> base then None else digits_value base (n * base + d) s))"

text \<open>\<^verbatim>\<open>underscoreOK\<close> after the sign and the prefix: the kind of the last character.\<close>

datatype last_char = AtStart | ADigit | Underscore | Other

fun underscores :: "bool \<Rightarrow> last_char \<Rightarrow> string \<Rightarrow> bool" where
  "underscores hex l [] = (l \<noteq> Underscore)"
| "underscores hex l (c # s) =
     (if digit c \<or> hex \<and> (case digit_value c of None \<Rightarrow> False | Some d \<Rightarrow> 10 \<le> d \<and> d < 16) then underscores hex ADigit s
      else if c = CHR ''_'' then (if l \<noteq> ADigit then False else underscores hex Underscore s)
      else if l = Underscore then False
      else underscores hex Other s)"

text \<open>The base, the digits and whether a prefix names the base.\<close>

definition split_base :: "string \<Rightarrow> nat \<times> string \<times> bool" where
  "split_base s =
     (case s of
        z # p # d # r \<Rightarrow>
          if z \<noteq> CHR ''0'' then (10, s, False)
          else if lower_char p = CHR ''b'' then (2, d # r, True)
          else if lower_char p = CHR ''o'' then (8, d # r, True)
          else if lower_char p = CHR ''x'' then (16, d # r, True)
          else (8, p # d # r, False)
      | z # r \<Rightarrow> if z = CHR ''0'' then (8, r, False) else (10, s, False)
      | [] \<Rightarrow> (10, [], False))"

definition ParseUint :: "string \<Rightarrow> nat option" where
  "ParseUint s =
     (if s = [] then None
      else (case split_base s of
              (base, ds, prefixed) \<Rightarrow>
                (case digits_value base 0 ds of
                   None \<Rightarrow> None
                 | Some n \<Rightarrow>
                     if CHR ''_'' \<in> set ds \<and>
                        \<not> (if prefixed then underscores (base = 16) ADigit ds else underscores False AtStart s)
                     then None else Some n)))"

definition ParseInt :: "nat \<Rightarrow> string \<Rightarrow> int option" where
  "ParseInt bits s =
     (let neg = (case s of c # _ \<Rightarrow> c = CHR ''-'' | [] \<Rightarrow> False);
          signed = (case s of c # _ \<Rightarrow> c = CHR ''-'' \<or> c = CHR ''+'' | [] \<Rightarrow> False)
      in case ParseUint (if signed then tl s else s) of
           None \<Rightarrow> None
         | Some n \<Rightarrow>
             if \<not> neg \<and> int n \<ge> 2 ^ (bits - 1) \<or> neg \<and> int n > 2 ^ (bits - 1) then None
             else Some (if neg then - int n else int n))"

definition ParseBool :: "string \<Rightarrow> bool option" where
  "ParseBool s =
     (if s \<in> {''1'', ''t'', ''T'', ''true'', ''TRUE'', ''True''} then Some True
      else if s \<in> {''0'', ''f'', ''F'', ''false'', ''FALSE'', ''False''} then Some False
      else None)"

section \<open>Durations\<close>

definition unit_value :: "string \<Rightarrow> int option" where
  "unit_value u =
     map_of [(''ns'', 1), (''us'', 1000), ([CHR 0xC2, CHR 0xB5, CHR ''s''], 1000), ([CHR 0xCE, CHR 0xBC, CHR ''s''], 1000),
             (''ms'', 1000000), (''s'', 1000000000), (''m'', 60000000000), (''h'', 3600000000000)] u"

text \<open>\<^verbatim>\<open>leadingInt\<close>, with the rest; \<open>None\<close> is the overflow of 64 bits.\<close>

fun leadingInt :: "int \<Rightarrow> string \<Rightarrow> (int \<times> string) option" where
  "leadingInt x [] = Some (x, [])"
| "leadingInt x (c # s) =
     (if \<not> digit c then Some (x, c # s)
      else if x > 2 ^ 63 div 10 then None
      else let y = x * 10 + (int (of_char c) - 0x30) in if y > 2 ^ 63 then None else leadingInt y s)"

text \<open>\<^verbatim>\<open>leadingFraction\<close>: the digits as a number, the scale, and the rest; digits that no longer fit are ignored.\<close>

fun leadingFraction :: "int \<Rightarrow> int \<Rightarrow> bool \<Rightarrow> string \<Rightarrow> int \<times> int \<times> string" where
  "leadingFraction x scale over [] = (x, scale, [])"
| "leadingFraction x scale over (c # s) =
     (if \<not> digit c then (x, scale, c # s)
      else if over then leadingFraction x scale True s
      else if x > (2 ^ 63 - 1) div 10 then leadingFraction x scale True s
      else let y = x * 10 + (int (of_char c) - 0x30)
           in if y > 2 ^ 63 then leadingFraction x scale True s else leadingFraction y (scale * 10) False s)"

text \<open>The fraction after a decimal point: its digits as a number, the scale, and what follows.\<close>

definition duration_fraction :: "string \<Rightarrow> int \<times> int \<times> string" where
  "duration_fraction s =
     (case s of
        c # r \<Rightarrow> if c = CHR ''.'' then leadingFraction 0 1 False r else (0, 1, s)
      | [] \<Rightarrow> (0, 1, []))"

text \<open>The number in nanoseconds, in 64 bits without a sign.\<close>

definition duration_scaled :: "(int \<Rightarrow> int \<Rightarrow> int \<Rightarrow> int) \<Rightarrow> int \<Rightarrow> int \<Rightarrow> int \<Rightarrow> string \<Rightarrow> int option" where
  "duration_scaled fracval v f scale u =
     (case unit_value u of
        None \<Rightarrow> None
      | Some unit \<Rightarrow>
          if v > 2 ^ 63 div unit then None
          else if f > 0 then
            (let w = (v * unit + fracval f unit scale) mod 2 ^ 64 in if w > 2 ^ 63 then None else Some w)
          else Some (v * unit))"

text \<open>
  One turn of the loop of \<^verbatim>\<open>ParseDuration\<close>: the value of a number with its unit, and the rest.  Some digit has to
  stand before the point or after it.
\<close>

definition unit_char :: "char \<Rightarrow> bool" where
  "unit_char c \<longleftrightarrow> \<not> (c = CHR ''.'' \<or> digit c)"

definition duration_part :: "(int \<Rightarrow> int \<Rightarrow> int \<Rightarrow> int) \<Rightarrow> string \<Rightarrow> (int \<times> string) option" where
  "duration_part fracval s =
     (if s = [] \<or> unit_char (s ! 0) then None
      else case leadingInt 0 s of
             None \<Rightarrow> None
           | Some (v, s1) \<Rightarrow>
               (case duration_fraction s1 of
                  (f, scale, s2) \<Rightarrow>
                    if length s1 = length s \<and> (s1 ! 0 \<noteq> CHR ''.'' \<or> Suc (length s2) = length s1) then None
                    else if takeWhile unit_char s2 = [] then None
                    else map_option (\<lambda>w. (w, dropWhile unit_char s2))
                           (duration_scaled fracval v f scale (takeWhile unit_char s2))))"

lemma leadingInt_rest: "leadingInt x s = Some (v, r) \<Longrightarrow> length r \<le> length s"
  by (induction x s rule: leadingInt.induct) (auto simp: Let_def split: if_splits)

lemma leadingFraction_rest: "leadingFraction x scale over s = (f, sc, r) \<Longrightarrow> length r \<le> length s"
  by (induction x scale over s rule: leadingFraction.induct) (auto simp: Let_def split: if_splits)

lemma duration_fraction_rest: "duration_fraction s = (f, sc, r) \<Longrightarrow> length r \<le> length s"
  by (auto simp: duration_fraction_def dest: leadingFraction_rest split: list.splits if_splits)

lemma duration_part_shorter:
  assumes "duration_part fracval s = Some (w, r)"
  shows "length r < length s"
proof -
  obtain v s1 f scale s2 where p: "leadingInt 0 s = Some (v, s1)" "duration_fraction s1 = (f, scale, s2)"
    "r = dropWhile unit_char s2" "takeWhile unit_char s2 \<noteq> []"
    using assms by (auto simp: duration_part_def split: option.splits prod.splits if_splits)
  have "length (takeWhile unit_char s2 @ dropWhile unit_char s2) = length s2" by simp
  then have "length r < length s2" using p(3,4) by (simp only: length_append) (cases "takeWhile unit_char s2", auto)
  then show ?thesis using duration_fraction_rest [OF p(2)] leadingInt_rest [OF p(1)] by simp
qed

function duration_loop :: "(int \<Rightarrow> int \<Rightarrow> int \<Rightarrow> int) \<Rightarrow> int \<Rightarrow> string \<Rightarrow> int option" where
  "duration_loop fracval d s =
     (if s = [] then Some d
      else (case duration_part fracval s of
              None \<Rightarrow> None
            | Some (w, r) \<Rightarrow>
                let d' = (d + w) mod 2 ^ 64 in if d' > 2 ^ 63 then None else duration_loop fracval d' r))"
  by pat_completeness auto
termination
  by (relation "measure (\<lambda>(_, _, s). length s)") (auto dest: duration_part_shorter)

declare duration_loop.simps [simp del]

definition ParseDuration :: "(int \<Rightarrow> int \<Rightarrow> int \<Rightarrow> int) \<Rightarrow> string \<Rightarrow> duration option" where
  "ParseDuration fracval s =
     (let neg = (case s of c # _ \<Rightarrow> c = CHR ''-'' | [] \<Rightarrow> False);
          signed = (case s of c # _ \<Rightarrow> c = CHR ''-'' \<or> c = CHR ''+'' | [] \<Rightarrow> False);
          s1 = (if signed then tl s else s)
      in if s1 = ''0'' then Some 0
         else if s1 = [] then None
         else (case duration_loop fracval 0 s1 of
                 None \<Rightarrow> None
               | Some d \<Rightarrow> if neg then Some (- d) else if d > 2 ^ 63 - 1 then None else Some d))"

section \<open>Flags\<close>

datatype flag =
    StringVar "string \<Rightarrow> Config \<Rightarrow> Config"
  | BoolVar "bool \<Rightarrow> Config \<Rightarrow> Config"
  | IntVar "int \<Rightarrow> Config \<Rightarrow> Config"
  | Int64Var "int \<Rightarrow> Config \<Rightarrow> Config"
  | DurationVar "duration \<Rightarrow> Config \<Rightarrow> Config"

definition flags :: "(string \<times> flag) list" where
  "flags =
     [(''listen-address'', StringVar (\<lambda>v c. c\<lparr>ListenAddress := v\<rparr>)),
      (''port'', IntVar (\<lambda>v c. c\<lparr>Port := v\<rparr>)),
      (''token-file'', StringVar (\<lambda>v c. c\<lparr>TokenFile := v\<rparr>)),
      (''agent-id-file'', StringVar (\<lambda>v c. c\<lparr>AgentIDFile := v\<rparr>)),
      (''ubus-path'', StringVar (\<lambda>v c. c\<lparr>UbusPath := v\<rparr>)),
      (''hostapd-socket'', StringVar (\<lambda>v c. c\<lparr>HostapdSocket := v\<rparr>)),
      (''arping-path'', StringVar (\<lambda>v c. c\<lparr>ArpingPath := v\<rparr>)),
      (''dhcp-leases-file'', StringVar (\<lambda>v c. c\<lparr>DHCPLeasesFile := v\<rparr>)),
      (''lan-interface'', StringVar (\<lambda>v c. c\<lparr>LANInterface := v\<rparr>)),
      (''mdns'', BoolVar (\<lambda>v c. c\<lparr>MDNS := v\<rparr>)),
      (''mdns-interface'', StringVar (\<lambda>v c. c\<lparr>MDNSInterface := v\<rparr>)),
      (''provider'', StringVar (\<lambda>v c. c\<lparr>ProviderName := v\<rparr>)),
      (''reconcile-interval'', DurationVar (\<lambda>v c. c\<lparr>ReconcileInterval := v\<rparr>)),
      (''wired-reconcile-interval'', DurationVar (\<lambda>v c. c\<lparr>WiredReconcileInterval := v\<rparr>)),
      (''discovery-interval'', DurationVar (\<lambda>v c. c\<lparr>DiscoveryInterval := v\<rparr>)),
      (''command-timeout'', DurationVar (\<lambda>v c. c\<lparr>CommandTimeout := v\<rparr>)),
      (''max-command-output'', Int64Var (\<lambda>v c. c\<lparr>MaxCommandOutput := v\<rparr>)),
      (''max-event-bytes'', IntVar (\<lambda>v c. c\<lparr>MaxEventBytes := v\<rparr>)),
      (''max-clients'', IntVar (\<lambda>v c. c\<lparr>CfgMaxClients := v\<rparr>)),
      (''max-http-connections'', IntVar (\<lambda>v c. c\<lparr>MaxHTTPConnections := v\<rparr>)),
      (''provider-queue-size'', IntVar (\<lambda>v c. c\<lparr>ProviderQueueSize := v\<rparr>)),
      (''max-stream-clients'', IntVar (\<lambda>v c. c\<lparr>MaxStreamClients := v\<rparr>)),
      (''stream-queue-size'', IntVar (\<lambda>v c. c\<lparr>StreamQueueSize := v\<rparr>)),
      (''log-level'', StringVar (\<lambda>v c. c\<lparr>LogLevel := v\<rparr>)),
      (''reconnect-grace'', DurationVar (\<lambda>v c. c\<lparr>CfgReconnectGrace := v\<rparr>))]"

text \<open>\<^verbatim>\<open>Set\<close> of a flag's value.\<close>

definition set_flag :: "nat \<Rightarrow> (int \<Rightarrow> int \<Rightarrow> int \<Rightarrow> int) \<Rightarrow> flag \<Rightarrow> string \<Rightarrow> Config \<Rightarrow> Config option" where
  "set_flag bits fracval f v c =
     (case f of
        StringVar put \<Rightarrow> Some (put v c)
      | BoolVar put \<Rightarrow> map_option (\<lambda>b. put b c) (ParseBool v)
      | IntVar put \<Rightarrow> map_option (\<lambda>n. put n c) (ParseInt bits v)
      | Int64Var put \<Rightarrow> map_option (\<lambda>n. put n c) (ParseInt 64 v)
      | DurationVar put \<Rightarrow> map_option (\<lambda>d. put d c) (ParseDuration fracval v))"

text \<open>
  The name of a flag and the value given with it, and the value in the next argument otherwise; \<open>None\<close> stands for
  any error, the request for help included.
\<close>

definition split_name :: "string \<Rightarrow> string \<times> string option" where
  "split_name name =
     (case IndexByte (tl name) (CHR ''='') of
        None \<Rightarrow> (name, None)
      | Some i \<Rightarrow> (take (Suc i) name, Some (drop (Suc (Suc i)) name)))"

definition flag_value :: "flag \<Rightarrow> string option \<Rightarrow> string list \<Rightarrow> (string \<times> string list) option" where
  "flag_value f given args =
     (case given of
        Some v \<Rightarrow> Some (v, args)
      | None \<Rightarrow>
          (case f of
             BoolVar _ \<Rightarrow> Some (''true'', args)
           | _ \<Rightarrow> (case args of [] \<Rightarrow> None | v # others \<Rightarrow> Some (v, others))))"

text \<open>\<^verbatim>\<open>parseOne\<close>: whether a flag was seen, the configuration and the arguments that are left.\<close>

definition parseOne ::
    "nat \<Rightarrow> (int \<Rightarrow> int \<Rightarrow> int \<Rightarrow> int) \<Rightarrow> Config \<Rightarrow> string list \<Rightarrow> (bool \<times> Config \<times> string list) option" where
  "parseOne bits fracval c all_args =
     (case all_args of
        [] \<Rightarrow> Some (False, c, [])
      | a # args \<Rightarrow>
          if length a < 2 \<or> a ! 0 \<noteq> CHR ''-'' then Some (False, c, a # args)
          else if a = ''--'' then Some (False, c, args)
          else
            let name = (if a ! 1 = CHR ''-'' then drop 2 a else drop 1 a) in
            if name = [] \<or> name ! 0 = CHR ''-'' \<or> name ! 0 = CHR ''='' then None
            else
              (case split_name name of
                 (name, given) \<Rightarrow>
                   (case map_of flags name of
                      None \<Rightarrow> None
                    | Some f \<Rightarrow>
                        (case flag_value f given args of
                           None \<Rightarrow> None
                         | Some (v, others) \<Rightarrow> map_option (\<lambda>c'. (True, c', others)) (set_flag bits fracval f v c)))))"

lemma parseOne_cases:
  assumes "parseOne bits fracval c args = Some (seen, c', others)"
  shows "(if seen then length others < length args \<and> (\<exists>n f v. map_of flags n = Some f \<and> set_flag bits fracval f v c = Some c')
    else c' = c)"
  using assms
  by (auto simp: parseOne_def flag_value_def Let_def split: list.splits option.splits prod.splits flag.splits if_split_asm)

text \<open>The loop of \<^verbatim>\<open>FlagSet.Parse\<close>.\<close>

function flag_parse ::
    "nat \<Rightarrow> (int \<Rightarrow> int \<Rightarrow> int \<Rightarrow> int) \<Rightarrow> Config \<Rightarrow> string list \<Rightarrow> (Config \<times> string list) option" where
  "flag_parse bits fracval c args =
     (case parseOne bits fracval c args of
        None \<Rightarrow> None
      | Some (seen, c', others) \<Rightarrow> if seen then flag_parse bits fracval c' others else Some (c', others))"
  by pat_completeness auto
termination
  by (relation "measure (\<lambda>(_, _, _, args). length args)") (auto dest: parseOne_cases)

declare flag_parse.simps [simp del]

text \<open>The whole of \<^verbatim>\<open>Parse\<close>.\<close>

definition Parse :: "nat \<Rightarrow> (int \<Rightarrow> int \<Rightarrow> int \<Rightarrow> int) \<Rightarrow> string list \<Rightarrow> config_err + Config" where
  "Parse bits fracval args = config_Parse (flag_parse bits fracval Default args)"

section \<open>Every valid configuration has a command line\<close>

lemma hexDigit_facts:
  assumes "n < 10"
  shows "digit_value (hexDigit n) = Some n" and "of_char (hexDigit n) = 0x30 + n" and "hexDigit n \<noteq> CHR ''_''"
    and "hexDigit n \<noteq> CHR ''-''" and "hexDigit n \<noteq> CHR ''+''" and "digit (hexDigit n)"
    and "0 < n \<Longrightarrow> hexDigit n \<noteq> CHR ''0''"
proof -
  have "n \<in> {0, 1, 2, 3, 4, 5, 6, 7, 8, 9}" using assms by (simp, presburger)
  then show "digit_value (hexDigit n) = Some n" "of_char (hexDigit n) = 0x30 + n" "hexDigit n \<noteq> CHR ''_''"
    "hexDigit n \<noteq> CHR ''-''" "hexDigit n \<noteq> CHR ''+''" "digit (hexDigit n)" "0 < n \<Longrightarrow> hexDigit n \<noteq> CHR ''0''"
    by (auto simp: hexDigit_def digit_value_def digit_def lower_char_def)
qed

lemma digits_value_append:
  assumes "digits_value b n s = Some m"
  shows "digits_value b n (s @ t) = digits_value b m t"
  using assms by (induction b n s rule: digits_value.induct) (auto split: option.splits if_splits)

lemma digits_value_decimal: "digits_value 10 0 (decimal n) = Some n"
proof (induction n rule: decimal.induct)
  case (1 n)
  then show ?case
    by (subst decimal.simps) (auto simp: hexDigit_facts digits_value_append)
qed

lemma leadingInt_append:
  assumes "leadingInt x s = Some (y, [])"
  shows "leadingInt x (s @ t) = leadingInt y t"
  using assms by (induction x s rule: leadingInt.induct) (auto simp: Let_def split: if_splits)

lemma leadingInt_digit:
  assumes "m < 10" and "int (q * 10 + m) \<le> 2 ^ 63"
  shows "leadingInt (int q) [hexDigit m] = Some (int (q * 10 + m), [])"
proof -
  have "int q * 10 \<le> 2 ^ 63" using assms(2) by simp
  then have "int q \<le> 2 ^ 63 div 10" by simp
  moreover have "int (of_char (hexDigit m)) - 0x30 = int m" by (simp add: hexDigit_facts(2) [OF assms(1)])
  ultimately show ?thesis
    using assms(2) hexDigit_facts(6) [OF assms(1)] by (simp add: Let_def)
qed

lemma leadingInt_decimal:
  assumes "int n \<le> 2 ^ 63"
  shows "leadingInt 0 (decimal n) = Some (int n, [])"
  using assms
proof (induction n rule: decimal.induct)
  case (1 n)
  show ?case
  proof (cases "n < 10")
    case True
    then show ?thesis using leadingInt_digit [of n 0] by (subst decimal.simps) simp
  next
    case False
    have n: "n div 10 * 10 + n mod 10 = n" by simp
    have "int (n div 10) \<le> 2 ^ 63" using 1(2) by linarith
    then have "leadingInt 0 (decimal (n div 10)) = Some (int (n div 10), [])" using 1(1) False by blast
    moreover have "leadingInt (int (n div 10)) [hexDigit (n mod 10)] = Some (int n, [])"
      using leadingInt_digit [of "n mod 10" "n div 10"] 1(2) by (simp only: n)
    ultimately show ?thesis using False by (subst decimal.simps) (simp only: leadingInt_append if_False)
  qed
qed

lemma ParseInt_decimal:
  assumes "0 < n" and "n < 2 ^ (bits - 1)"
  shows "ParseInt bits (decimal (nat n)) = Some n"
proof -
  obtain c s where d: "decimal (nat n) = c # s" "c \<noteq> CHR ''0''" "c \<noteq> CHR ''-''" "c \<noteq> CHR ''+''" "CHR ''_'' \<notin> set (c # s)"
    using decimal_front [of "nat n"] assms(1) by (cases "decimal (nat n)") auto
  then have "split_base (c # s) = (10, c # s, False)" by (auto simp: split_base_def split: list.splits)
  then have "ParseUint (c # s) = Some (nat n)"
    using d digits_value_decimal [of "nat n"] by (simp add: ParseUint_def)
  then show ?thesis using d assms by (simp add: ParseInt_def)
qed

lemma ParseDuration_decimal:
  assumes "0 < n" and "n < 2 ^ 63"
  shows "ParseDuration fracval (decimal (nat n) @ ''ns'') = Some n"
proof -
  let ?s = "decimal (nat n) @ ''ns''"
  have l: "leadingInt 0 ?s = Some (n, ''ns'')"
    using leadingInt_decimal [of "nat n"] leadingInt_append [of 0 "decimal (nat n)" n "''ns''"] assms
    by (simp add: digit_def)
  obtain c s where d: "decimal (nat n) = c # s" "c \<noteq> CHR ''0''" "c \<noteq> CHR ''-''" "c \<noteq> CHR ''+''"
    using decimal_front [of "nat n"] assms(1) by (cases "decimal (nat n)") auto
  have "digit c" using decimal_digits [of "nat n"] d(1) by simp
  have u: "takeWhile unit_char ''ns'' = ''ns''" "dropWhile unit_char ''ns'' = []" by code_simp+
  have sc: "duration_scaled fracval n 0 1 ''ns'' = Some n"
    using assms by (simp add: duration_scaled_def unit_value_def)
  have "duration_part fracval ?s = Some (n, [])"
    using l d(1) \<open>digit c\<close> u sc
    by (simp add: duration_part_def duration_fraction_def unit_char_def [of c])
  then have "duration_loop fracval 0 ?s = Some n"
    using assms by (simp add: duration_loop.simps Let_def)
  then show ?thesis using d assms by (simp add: ParseDuration_def)
qed

text \<open>The arguments that name a configuration, one for each flag.\<close>

definition settings :: "Config \<Rightarrow> (string \<times> string) list" where
  "settings c =
     [(''listen-address'', ListenAddress c), (''port'', decimal (nat (Port c))), (''token-file'', TokenFile c),
      (''agent-id-file'', AgentIDFile c), (''ubus-path'', UbusPath c), (''hostapd-socket'', HostapdSocket c),
      (''arping-path'', ArpingPath c), (''dhcp-leases-file'', DHCPLeasesFile c), (''lan-interface'', LANInterface c),
      (''mdns'', if MDNS c then ''true'' else ''false''), (''mdns-interface'', MDNSInterface c),
      (''provider'', ProviderName c), (''reconcile-interval'', decimal (nat (ReconcileInterval c)) @ ''ns''),
      (''wired-reconcile-interval'', decimal (nat (WiredReconcileInterval c)) @ ''ns''),
      (''discovery-interval'', decimal (nat (DiscoveryInterval c)) @ ''ns''),
      (''command-timeout'', decimal (nat (CommandTimeout c)) @ ''ns''),
      (''max-command-output'', decimal (nat (MaxCommandOutput c))), (''max-event-bytes'', decimal (nat (MaxEventBytes c))),
      (''max-clients'', decimal (nat (CfgMaxClients c))),
      (''max-http-connections'', decimal (nat (MaxHTTPConnections c))),
      (''provider-queue-size'', decimal (nat (ProviderQueueSize c))),
      (''max-stream-clients'', decimal (nat (MaxStreamClients c))),
      (''stream-queue-size'', decimal (nat (StreamQueueSize c))), (''log-level'', LogLevel c),
      (''reconnect-grace'', if CfgReconnectGrace c = 0 then ''0'' else decimal (nat (CfgReconnectGrace c)) @ ''ns'')]"

definition argument :: "string \<times> string \<Rightarrow> string" where
  "argument nv = ''--'' @ fst nv @ ''='' @ snd nv"

text \<open>The flags in the order of the arguments: each with what it does to the configuration.\<close>

primrec set_all ::
    "nat \<Rightarrow> (int \<Rightarrow> int \<Rightarrow> int \<Rightarrow> int) \<Rightarrow> (string \<times> string) list \<Rightarrow> Config \<Rightarrow> Config option" where
  "set_all bits fracval [] c = Some c"
| "set_all bits fracval (nv # nvs) c =
     (case map_of flags (fst nv) of
        None \<Rightarrow> None
      | Some f \<Rightarrow> (case set_flag bits fracval f (snd nv) c of None \<Rightarrow> None | Some c' \<Rightarrow> set_all bits fracval nvs c'))"

lemma split_name_given:
  assumes "n \<noteq> []" and "CHR ''='' \<notin> set (tl n)"
  shows "split_name (n @ ''='' @ v) = (n, Some v)"
  using assms by (cases n) (simp_all add: split_name_def IndexByte_append)

lemma flag_names:
  assumes "map_of flags n = Some f"
  shows "n \<noteq> [] \<and> CHR ''='' \<notin> set n \<and> n ! 0 \<noteq> CHR ''-''"
proof -
  have "list_all (\<lambda>n. n \<noteq> [] \<and> CHR ''='' \<notin> set n \<and> n ! 0 \<noteq> CHR ''-'') (map fst flags)" by code_simp
  moreover have "n \<in> set (map fst flags)" using map_of_SomeD [OF assms] by force
  ultimately show ?thesis by (auto simp: list_all_iff)
qed

lemma flag_parse_argument:
  assumes "map_of flags (fst nv) = Some f"
  shows "flag_parse bits fracval c (argument nv # args) =
    (case set_flag bits fracval f (snd nv) c of None \<Rightarrow> None | Some c' \<Rightarrow> flag_parse bits fracval c' args)"
proof -
  obtain n v where nv: "nv = (n, v)" by (cases nv)
  have f: "n \<noteq> []" "CHR ''='' \<notin> set n" "n ! 0 \<noteq> CHR ''-''" using flag_names [of n f] assms nv by simp_all
  then have "n ! 0 \<noteq> CHR ''=''" by (cases n) auto
  moreover have "split_name (n @ ''='' @ v) = (n, Some v)"
    using f split_name_given [of n v] by (cases n) auto
  ultimately show ?thesis
    using f assms nv
    by (cases "set_flag bits fracval f v c"; subst flag_parse.simps)
      (simp_all add: argument_def nth_append parseOne_def flag_value_def)
qed

lemma flag_parse_set_all:
  assumes "set_all bits fracval nvs c = Some c'"
  shows "flag_parse bits fracval c (map argument nvs) = Some (c', [])"
  using assms
proof (induction nvs arbitrary: c)
  case (Cons nv nvs)
  then show ?case by (simp add: flag_parse_argument split: option.splits)
qed (simp add: flag_parse.simps parseOne_def)

lemma settings_set:
  assumes "Validate c = None" and "32 \<le> bits"
    and "ReconcileInterval c < 2 ^ 63" and "WiredReconcileInterval c < 2 ^ 63"
    and "DiscoveryInterval c < 2 ^ 63" and "CommandTimeout c < 2 ^ 63"
  shows "set_all bits fracval (settings c) Default = Some c"
proof -
  have "(2::int) ^ 31 \<le> 2 ^ (bits - 1)" using assms(2) by (intro power_increasing) auto
  then have i: "0 < n \<Longrightarrow> n \<le> 16777216 \<Longrightarrow> ParseInt bits (decimal (nat n)) = Some n" for n
    by (intro ParseInt_decimal) auto
  have i64: "0 < n \<Longrightarrow> n \<le> 16777216 \<Longrightarrow> ParseInt 64 (decimal (nat n)) = Some n" for n
    by (intro ParseInt_decimal) auto
  have b: "ParseBool (if d then ''true'' else ''false'') = Some d" for d by (simp add: ParseBool_def)
  have g: "ParseDuration fracval (if d = 0 then ''0'' else decimal (nat d) @ ''ns'') = Some d"
    if "0 \<le> d" "d \<le> 10 * Minute" for d
  proof (cases "d = 0")
    case True
    then show ?thesis by (simp add: ParseDuration_def)
  next
    case False
    then have "0 < d" "d < 2 ^ 63" using that by (simp_all add: Minute_def Second_def)
    then show ?thesis using False by (simp add: ParseDuration_decimal)
  qed
  have d: "ParseDuration fracval (decimal (nat d) @ ''ns'') = Some d" if "Second \<le> d" "d < 2 ^ 63" for d
    using that by (intro ParseDuration_decimal) (simp_all add: Second_def)
  have v: "0 < Port c" "Port c \<le> 16777216" "0 < MaxCommandOutput c" "MaxCommandOutput c \<le> 16777216"
    "0 < MaxEventBytes c" "MaxEventBytes c \<le> 16777216" "0 < CfgMaxClients c" "CfgMaxClients c \<le> 16777216"
    "0 < MaxHTTPConnections c" "MaxHTTPConnections c \<le> 16777216" "0 < ProviderQueueSize c"
    "ProviderQueueSize c \<le> 16777216" "0 < MaxStreamClients c" "MaxStreamClients c \<le> 16777216"
    "0 < StreamQueueSize c" "StreamQueueSize c \<le> 16777216" "0 \<le> CfgReconnectGrace c"
    using assms(1) unfolding Validate_def by (simp_all add: not_less split: if_split_asm)
  note r = d [OF Validate_facts(5) [OF assms(1)] assms(3)] d [OF Validate_facts(6) [OF assms(1)] assms(4)]
    d [OF Validate_facts(7) [OF assms(1)] assms(5)] d [OF Validate_facts(8) [OF assms(1)] assms(6)]
    g [OF v(17) Validate_facts(20) [OF assms(1)]]
    i [OF v(1,2)] i64 [OF v(3,4)] i [OF v(5,6)] i [OF v(7,8)] i [OF v(9,10)] i [OF v(11,12)] i [OF v(13,14)] i [OF v(15,16)]
  show ?thesis
    unfolding settings_def set_all.simps flags_def fst_conv snd_conv
    by (simp only: map_of.simps fst_conv snd_conv if_True if_False list.inject char.inject option.case set_flag_def flag.case b r option.map)
      simp
qed

lemma duration_loop_range: "duration_loop fracval d s = Some e \<Longrightarrow> 0 \<le> d \<Longrightarrow> 0 \<le> e"
proof (induction fracval d s rule: duration_loop.induct)
  case (1 fracval d s)
  show ?case
  proof (cases "s = []")
    case True
    then show ?thesis using 1(2,3) by (simp add: duration_loop.simps)
  next
    case False
    then obtain w r where p: "duration_part fracval s = Some (w, r)" "duration_loop fracval ((d + w) mod 2 ^ 64) r = Some e"
      "\<not> (d + w) mod 2 ^ 64 > 2 ^ 63"
      using 1(2) by (subst (asm) duration_loop.simps) (auto simp: Let_def split: option.splits if_splits)
    then show ?thesis using 1(1) [OF False p(1) refl refl p(3,2)] by simp
  qed
qed

lemma ParseDuration_range:
  assumes "ParseDuration fracval s = Some d"
  shows "d < 2 ^ 63"
  using assms duration_loop_range [of fracval 0] unfolding ParseDuration_def Let_def
  by (fastforce split: option.splits if_splits)

text \<open>What 64 bits can hold is all that the flags add to the validation.\<close>

definition intervals_fit :: "Config \<Rightarrow> bool" where
  "intervals_fit c \<longleftrightarrow> ReconcileInterval c < 2 ^ 63 \<and> WiredReconcileInterval c < 2 ^ 63 \<and>
     DiscoveryInterval c < 2 ^ 63 \<and> CommandTimeout c < 2 ^ 63"

lemma set_flag_fits:
  assumes "map_of flags n = Some f" and "set_flag bits fracval f v c = Some c'" and "intervals_fit c"
  shows "intervals_fit c'"
proof -
  have "list_all (\<lambda>nf. \<forall>v c c'. set_flag bits fracval (snd nf) v c = Some c' \<longrightarrow> intervals_fit c \<longrightarrow> intervals_fit c') flags"
    unfolding flags_def list.pred_inject snd_conv set_flag_def flag.case
    by (intro conjI allI impI TrueI) (auto simp: intervals_fit_def dest: ParseDuration_range)
  then have "\<forall>v c c'. set_flag bits fracval f v c = Some c' \<longrightarrow> intervals_fit c \<longrightarrow> intervals_fit c'"
    using map_of_SomeD [OF assms(1)] by (force simp: list_all_iff)
  then show ?thesis using assms(2,3) by blast
qed

lemma flag_parse_fits:
  assumes "flag_parse bits fracval c args = Some (c', rest)" and "intervals_fit c"
  shows "intervals_fit c'"
  using assms
proof (induction bits fracval c args rule: flag_parse.induct)
  case (1 bits fracval c args)
  obtain seen d others where p: "parseOne bits fracval c args = Some (seen, d, others)"
    using 1(2) by (subst (asm) flag_parse.simps) (auto split: option.splits)
  show ?case
  proof (cases seen)
    case True
    then have "flag_parse bits fracval d others = Some (c', rest)" using 1(2) p by (subst (asm) flag_parse.simps) simp
    moreover have "intervals_fit d" using parseOne_cases [OF p] True set_flag_fits 1(3) by metis
    ultimately show ?thesis using 1(1) [OF p refl refl True] by simp
  next
    case False
    then show ?thesis using 1(2,3) p parseOne_cases [OF p] by (subst (asm) flag_parse.simps) simp
  qed
qed

text \<open>
  C18. The command line reaches exactly the valid configurations: what \<^verbatim>\<open>Parse\<close> accepts has passed every check of
  \<^verbatim>\<open>Validate\<close>, and every valid configuration whose intervals fit in 64 bits is what \<^verbatim>\<open>Parse\<close> makes of the arguments
  that name its fields, each flag setting its own field and no other.
\<close>

theorem command_line_exact:
  assumes "32 \<le> bits"
  shows "if Validate c = None \<and> intervals_fit c then Parse bits fracval (map argument (settings c)) = Inr c
    else (\<forall>args. Parse bits fracval args \<noteq> Inr c)"
proof (cases "Validate c = None \<and> intervals_fit c")
  case True
  then have "set_all bits fracval (settings c) Default = Some c"
    using settings_set [OF _ assms] by (simp add: intervals_fit_def)
  then show ?thesis using True by (simp add: Parse_def config_Parse_def flag_parse_set_all)
next
  case False
  have "Validate c = None \<and> intervals_fit c" if ok: "Parse bits fracval args = Inr c" for args
  proof -
    obtain rest where p: "flag_parse bits fracval Default args = Some (c, rest)" "Validate c = None"
      using ok by (auto simp: Parse_def config_Parse_def split: option.splits prod.splits if_splits)
    have "intervals_fit Default" by (simp add: intervals_fit_def Default_def Second_def)
    then show ?thesis using flag_parse_fits [OF p(1)] p(2) by simp
  qed
  then show ?thesis using False by auto
qed

theorem command_line_exact_witness:
  "Parse 32 (\<lambda>f unit scale. 0) (map argument (settings (Default\<lparr>MDNS := True, Port := 9000\<rparr>))) =
     Inr (Default\<lparr>MDNS := True, Port := 9000\<rparr>)"
proof -
  have "Validate (Default\<lparr>MDNS := True, Port := 9000\<rparr>) = None \<and> intervals_fit (Default\<lparr>MDNS := True, Port := 9000\<rparr>)"
    by code_simp
  then show ?thesis
    using command_line_exact [of 32 "Default\<lparr>MDNS := True, Port := 9000\<rparr>" "\<lambda>f unit scale. 0"] by simp
qed

end
