(* ===== verification/Agent_Main.thy ===== *)
theory Agent_Main
  imports Config_Flags Api_Server Identity Mdns_Responder WiFi_Associations
begin

text \<open>
  \<^verbatim>\<open>cmd/openwrt-presence-agent/main.go\<close> and the construction of the providers in \<^verbatim>\<open>internal/providers/provider.go\<close>: how the
  process starts, which parts it builds from the configuration, and how it ends.  What the operating system
  answers is an input; log messages are left out, except for the level that is chosen.
\<close>

section \<open>The providers\<close>

record ubus_settings =
  ub_UbusPath :: string
  ub_HostapdSocket :: string
  ub_ReconcileInterval :: duration
  ub_DiscoveryInterval :: duration
  ub_CommandTimeout :: duration
  ub_MaxCommandOutput :: int
  ub_MaxEventBytes :: int
  ub_MaxClients :: int
  ub_QueueSize :: int

text \<open>\<^verbatim>\<open>Excluded\<close> is always \<^verbatim>\<open>wifiClients.Contains\<close>, the mirror next to the settings.\<close>

record wired_settings =
  we_ArpingPath :: string
  we_LeasesFile :: string
  we_Interface :: string
  we_Interval :: duration
  we_CommandTimeout :: duration
  we_MaxClients :: int

record 's provider_group =
  pg_mirror :: "'s wifiAssociations"
  pg_wifi :: ubus_settings
  pg_ethernet :: wired_settings

definition providers_New :: "Config \<Rightarrow> 's \<Rightarrow> string + 's provider_group" where
  "providers_New c sink =
     (if ProviderName c = ''ubus'' then
        Inr \<lparr>pg_mirror = newWiFiAssociations sink,
             pg_wifi =
               \<lparr>ub_UbusPath = UbusPath c, ub_HostapdSocket = HostapdSocket c, ub_ReconcileInterval = ReconcileInterval c,
                ub_DiscoveryInterval = DiscoveryInterval c, ub_CommandTimeout = CommandTimeout c,
                ub_MaxCommandOutput = MaxCommandOutput c, ub_MaxEventBytes = MaxEventBytes c,
                ub_MaxClients = CfgMaxClients c, ub_QueueSize = ProviderQueueSize c\<rparr>,
             pg_ethernet =
               \<lparr>we_ArpingPath = ArpingPath c, we_LeasesFile = DHCPLeasesFile c, we_Interface = LANInterface c,
                we_Interval = WiredReconcileInterval c, we_CommandTimeout = CommandTimeout c,
                we_MaxClients = CfgMaxClients c\<rparr>\<rparr>
      else Inl (ProviderName c))"

section \<open>Start\<close>

datatype log_level = LevelDebug | LevelWarn | LevelError | LevelInfo

definition newLogger :: "string \<Rightarrow> log_level" where
  "newLogger level =
     (if level = ''debug'' then LevelDebug
      else if level = ''warn'' then LevelWarn
      else if level = ''error'' then LevelError
      else LevelInfo)"

text \<open>
  The answers the start needs: the arguments and what their reading depends on (the width of \<^verbatim>\<open>int\<close>, the floating
  point value of a fraction), the status and contents of the token file, the
  rounds of the identity file, the random epoch, the clock, the addresses of the interface and the opening
  of the multicast socket.
\<close>

record boot_input =
  bi_args :: "string list"
  bi_bits :: nat
  bi_frac :: "int \<Rightarrow> int \<Rightarrow> int \<Rightarrow> int"
  bi_token_info :: "(bool \<times> nat) option"
  bi_token_file :: "string option"
  bi_identity :: "fs_round list"
  bi_epoch :: "(nat \<Rightarrow> byte) option"
  bi_now :: time
  bi_iface :: "byte list option list option option"
  bi_socket :: bool

record agent =
  ag_config :: Config
  ag_level :: log_level
  ag_token :: string
  ag_id :: string
  ag_engine :: Engine
  ag_providers :: "Engine provider_group"
  ag_bearer :: Bearer
  ag_server :: Server
  ag_listener :: limitedListener
  ag_responder :: "responder option"

datatype boot_result = Exit int | Running agent

text \<open>\<^verbatim>\<open>engine.New\<close> on the limits that \<^verbatim>\<open>run\<close> takes from the configuration.\<close>

definition engine_limits_of :: "Config \<Rightarrow> Limits" where
  "engine_limits_of c =
     \<lparr>MaxClients = CfgMaxClients c, MaxSubscribers = MaxStreamClients c, QueueSize = StreamQueueSize c,
      ReconnectGrace = CfgReconnectGrace c\<rparr>"

text \<open>A responder that cannot be made is left out, whatever the reason.\<close>

definition advertise :: "Config \<Rightarrow> string \<Rightarrow> byte list option list option option \<Rightarrow> bool \<Rightarrow> responder option" where
  "advertise c agentID iface opened =
     (if MDNS c
      then (case responder_New agentID (Port c) (ListenAddress c) iface opened of Inl err \<Rightarrow> None | Inr r \<Rightarrow> Some r)
      else None)"

definition boot :: "(byte list \<Rightarrow> byte list) \<Rightarrow> string \<Rightarrow> boot_input \<Rightarrow> boot_result option" where
  "boot sha256 version i =
     (if length (bi_args i) = 1 \<and> (bi_args i ! 0 = ''--version'' \<or> bi_args i ! 0 = ''-version'') then Some (Exit 0)
      else
        (case Parse (bi_bits i) (bi_frac i) (bi_args i) of
           Inl err \<Rightarrow> Some (Exit 2)
         | Inr c \<Rightarrow>
             (case LoadToken (bi_token_info i) (bi_token_file i) of
                Inl err \<Rightarrow> Some (Exit 1)
              | Inr token \<Rightarrow>
                  (case LoadOrCreateAgentID (bi_identity i) of
                     None \<Rightarrow> None
                   | Some (Inl err, written) \<Rightarrow> Some (Exit 1)
                   | Some (Inr agentID, written) \<Rightarrow>
                       (case New (bi_epoch i) (engine_limits_of c) of
                          Inl err \<Rightarrow> Some (Exit 1)
                        | Inr e \<Rightarrow>
                            (case providers_New c e of
                               Inl err \<Rightarrow> Some (Exit 1)
                             | Inr gr \<Rightarrow>
                                 Some (Running
                                   \<lparr>ag_config = c, ag_level = newLogger (LogLevel c), ag_token = token, ag_id = agentID,
                                    ag_engine = e, ag_providers = gr,
                                    ag_bearer = NewBearer sha256 token (bi_now i),
                                    ag_server = \<lparr>sv_config = c, sv_agentID = agentID, sv_version = version,
                                                 sv_startedAt = bi_now i\<rparr>,
                                    ag_listener = newLimitedListener (nat (MaxHTTPConnections c)),
                                    ag_responder = advertise c agentID (bi_iface i) (bi_socket i)\<rparr>)))))))"

section \<open>End\<close>

text \<open>
  \<^verbatim>\<open>ListenAndServe\<close>: the failure of \<^verbatim>\<open>net.Listen\<close>, and the error with which \<^verbatim>\<open>Serve\<close> always returns.
\<close>

datatype serve_err = ServerClosed | OtherServeError

definition ListenAndServe :: "serve_err option \<Rightarrow> serve_err \<Rightarrow> serve_err option" where
  "ListenAndServe listen served =
     (case listen of
        Some err \<Rightarrow> Some err
      | None \<Rightarrow> if served = ServerClosed then None else Some served)"

text \<open>
  The \<^verbatim>\<open>select\<close> at the end of \<^verbatim>\<open>run\<close>: the server's result, a provider's result (whether it is an error) with
  the state of the context at that moment, or the end of the context.
\<close>

datatype ending = ServerEnded "serve_err option" | ProviderEnded bool bool | ContextEnded

definition ending_code :: "ending \<Rightarrow> int" where
  "ending_code w =
     (case w of
        ServerEnded err \<Rightarrow> if err \<noteq> None \<and> err \<noteq> Some ServerClosed then 1 else 0
      | ProviderEnded failed cancelled \<Rightarrow> if \<not> cancelled then 1 else 0
      | ContextEnded \<Rightarrow> 0)"

text \<open>
  \<^verbatim>\<open>run\<close> after the \<^verbatim>\<open>select\<close>: the responder's \<^verbatim>\<open>Close\<close> is called while its \<^verbatim>\<open>Run\<close> goes on (\<open>acts\<close> is what the two do
  until the process ends), the server is shut down, and the deferred \<^verbatim>\<open>Stop\<close> ends the sweeper of the engine.
\<close>

definition wind_up ::
    "ending \<Rightarrow> mdns_action list \<Rightarrow> bool \<Rightarrow> mdns_system option \<Rightarrow> Engine \<Rightarrow> int \<times> mdns_system option \<times> Engine" where
  "wind_up w acts shutdownOk rd e =
     (if shutdownOk then ending_code w else 1, map_option (mdns_exec (CloseCalled # acts)) rd, Stop e)"

section \<open>What a start establishes\<close>

lemma newLogger_level:
  "Validate c = None \<Longrightarrow> newLogger (LogLevel c) = LevelInfo \<longleftrightarrow> LogLevel c = ''info''"
  unfolding Validate_def newLogger_def by (auto split: if_splits)

lemma New_validated:
  assumes "Validate c = None"
  shows "New None (engine_limits_of c) = Inl EpochUnavailable"
    and "\<exists>e. New (Some fill) (engine_limits_of c) = Inr e \<and> engine_reach e \<and> e_limits e = engine_limits_of c \<and>
      e_clients e = [] \<and> e_providers e = [] \<and> (e_stopSweeper e = Some False \<longleftrightarrow> CfgReconnectGrace c > 0)"
proof -
  note v = Validate_facts(11,15,17) [OF assms]
  then show "New None (engine_limits_of c) = Inl EpochUnavailable" by (simp add: New_def engine_limits_of_def)
  have "\<exists>e. New (Some fill) (engine_limits_of c) = Inr e \<and> e_limits e = engine_limits_of c \<and>
      e_clients e = [] \<and> e_providers e = [] \<and> (e_stopSweeper e = Some False \<longleftrightarrow> CfgReconnectGrace c > 0)"
    using v by (simp add: New_def engine_limits_of_def Let_def startSweeper_def)
  then show "\<exists>e. New (Some fill) (engine_limits_of c) = Inr e \<and> engine_reach e \<and> e_limits e = engine_limits_of c \<and>
      e_clients e = [] \<and> e_providers e = [] \<and> (e_stopSweeper e = Some False \<longleftrightarrow> CfgReconnectGrace c > 0)"
    using engine_reach.start by blast
qed

lemma identity_octets:
  assumes "\<forall>r \<in> set rounds. \<forall>raw. fr_rand r = Some raw \<longrightarrow> length raw = 16"
    and "LoadOrCreateAgentID rounds = Some (Inr v, written)"
  shows "\<exists>bs. DecodeString v = Some bs \<and> length bs = 16"
  using assms
proof (induction rounds)
  case (Cons q rounds)
  then show ?case
    using stored_identity_ok [of _ v]
    by (auto simp: Let_def DecodeString_Encode split: fs_read.splits fs_open.splits if_splits option.splits)
qed simp

lemma Parse_valid: "Parse bits fracval args = Inr c \<Longrightarrow> Validate c = None"
  by (auto simp: Parse_def config_Parse_def split: option.splits if_splits)

definition asks_version :: "boot_input \<Rightarrow> bool" where
  "asks_version i \<longleftrightarrow> bi_args i = [''--version''] \<or> bi_args i = [''-version'']"

lemma asks_version_iff:
  "asks_version i \<longleftrightarrow> length (bi_args i) = 1 \<and> (bi_args i ! 0 = ''--version'' \<or> bi_args i ! 0 = ''-version'')"
  by (cases "bi_args i") (auto simp: asks_version_def)

lemma boot_running:
  assumes "boot sha256 version i = Some (Running g)"
  obtains c token agentID written e where
    "\<not> asks_version i" "Parse (bi_bits i) (bi_frac i) (bi_args i) = Inr c" "LoadToken (bi_token_info i) (bi_token_file i) = Inr token"
    "LoadOrCreateAgentID (bi_identity i) = Some (Inr agentID, written)" "New (bi_epoch i) (engine_limits_of c) = Inr e"
    "ag_config g = c" "ag_token g = token" "ag_id g = agentID" "ag_engine g = e"
    "ag_bearer g = NewBearer sha256 token (bi_now i)" "ag_listener g = newLimitedListener (nat (MaxHTTPConnections c))"
    "ag_responder g = advertise c agentID (bi_iface i) (bi_socket i)" "pg_mirror (ag_providers g) = newWiFiAssociations e"
    "sv_config (ag_server g) = c" "sv_agentID (ag_server g) = agentID"
proof -
  have v: "\<not> asks_version i" using assms by (auto simp: boot_def asks_version_iff)
  then show thesis
    using assms that
    by (fastforce simp: boot_def asks_version_iff providers_New_def split: sum.splits option.splits if_splits)
qed

lemma boot_exit:
  assumes "boot sha256 version i = Some (Exit n)" and "\<not> asks_version i"
  shows "n = 2 \<and> isl (Parse (bi_bits i) (bi_frac i) (bi_args i)) \<or>
    n = 1 \<and> (\<exists>c. Parse (bi_bits i) (bi_frac i) (bi_args i) = Inr c) \<and>
      (isl (LoadToken (bi_token_info i) (bi_token_file i)) \<or>
       (\<exists>err written. LoadOrCreateAgentID (bi_identity i) = Some (Inl err, written)) \<or> bi_epoch i = None)"
proof (cases "Parse (bi_bits i) (bi_frac i) (bi_args i)")
  case (Inl err)
  then show ?thesis using assms by (auto simp: boot_def asks_version_iff)
next
  case (Inr c)
  note v = Parse_valid [OF Inr]
  have p: "ProviderName c = ''ubus''" by (rule Validate_facts(4) [OF v])
  show ?thesis
  proof (cases "bi_epoch i")
    case None
    then show ?thesis
      using assms Inr New_validated(1) [OF v]
      by (auto simp: boot_def asks_version_iff split: sum.splits option.splits prod.splits)
  next
    case (Some ep)
    then show ?thesis
      using assms Inr p New_validated(2) [OF v, of ep]
      by (auto simp: boot_def asks_version_iff providers_New_def split: sum.splits option.splits prod.splits)
  qed
qed

lemma advertise_facts:
  assumes "advertise c agentID iface opened = Some r"
  shows "MDNS c \<and> ad_agentID (rd_ad r) = agentID \<and> ad_port (rd_ad r) = of_int (Port c) \<and> rd_sent r = [] \<and>
    (\<exists>address. advertisedAddress (ListenAddress c) iface = Inr address)"
  using assms
  by (auto simp: advertise_def responder_New_def newAdvertisement_def Let_def split: if_splits sum.splits)

text \<open>
  C38. A start either ends with a status that says why, or leaves every part in order.  Status 2 means
  the configuration was refused, status 1 that the token, the identity or the random source failed: a
  validated configuration is never refused by a later part.  An agent runs only when none of these
  failed, on the very configuration, token and identity that were read; it has a fresh engine with the
  configured limits and a sweeper exactly when there is a grace, a token of 256 bits or more, an identity
  of 16 octets, intervals and queue sizes that no constructor panics on, a listener that accepts, an
  advertisement of its own identity and port, and it tells nobody of clients yet.
\<close>

theorem startup_sound:
  assumes "boot sha256 version i = Some res" and "\<not> asks_version i"
    and "\<forall>r \<in> set (bi_identity i). \<forall>raw. fr_rand r = Some raw \<longrightarrow> length raw = 16"
  shows "case res of
      Exit n \<Rightarrow>
        n = 2 \<and> isl (Parse (bi_bits i) (bi_frac i) (bi_args i)) \<or>
        n = 1 \<and> (\<exists>c. Parse (bi_bits i) (bi_frac i) (bi_args i) = Inr c) \<and>
          (isl (LoadToken (bi_token_info i) (bi_token_file i)) \<or>
           (\<exists>err written. LoadOrCreateAgentID (bi_identity i) = Some (Inl err, written)) \<or> bi_epoch i = None)
    | Running g \<Rightarrow>
        let c = ag_config g; e = ag_engine g in
        Parse (bi_bits i) (bi_frac i) (bi_args i) = Inr c \<and>
        LoadToken (bi_token_info i) (bi_token_file i) = Inr (ag_token g) \<and>
        (\<exists>written. LoadOrCreateAgentID (bi_identity i) = Some (Inr (ag_id g), written)) \<and>
        (\<exists>fill. bi_epoch i = Some fill \<and> e_epoch e = EncodeToString (map fill [0..<16])) \<and>
        Validate c = None \<and> engine_reach e \<and> e_limits e = engine_limits_of c \<and>
        (e_stopSweeper e = Some False \<longleftrightarrow> CfgReconnectGrace c > 0) \<and>
        pg_mirror (ag_providers g) = newWiFiAssociations e \<and>
        43 \<le> length (ag_token g) \<and> br_digest (ag_bearer g) = sha256 (bytes_of (ag_token g)) \<and>
        (\<exists>bs. DecodeString (ag_id g) = Some bs \<and> length bs = 16) \<and>
        sv_config (ag_server g) = c \<and> sv_agentID (ag_server g) = ag_id g \<and>
        (\<forall>d \<in> {ReconcileInterval c, WiredReconcileInterval c, DiscoveryInterval c, CommandTimeout c}. Second \<le> d) \<and>
        0 < ProviderQueueSize c \<and> 0 < CfgMaxClients c \<and>
        (\<forall>pick. fst (ll_Accept pick (ag_listener g)) = Some True) \<and>
        (\<forall>r. ag_responder g = Some r \<longrightarrow>
           MDNS c \<and> ad_agentID (rd_ad r) = ag_id g \<and> ad_port (rd_ad r) = of_int (Port c)) \<and>
        (\<forall>now k. hr_Code (health e) = 503 \<and> hr_Code (clients now e) = 503 \<and> hr_Code (client_by_id k e) = 503)"
proof (cases res)
  case (Exit n)
  with boot_exit assms(1,2) show ?thesis by simp
next
  case (Running g)
  from assms(1) [unfolded Running] obtain c token agentID written e where b:
    "Parse (bi_bits i) (bi_frac i) (bi_args i) = Inr c" "LoadToken (bi_token_info i) (bi_token_file i) = Inr token"
    "LoadOrCreateAgentID (bi_identity i) = Some (Inr agentID, written)" "New (bi_epoch i) (engine_limits_of c) = Inr e"
    "ag_config g = c" "ag_token g = token" "ag_id g = agentID" "ag_engine g = e"
    "ag_bearer g = NewBearer sha256 token (bi_now i)" "ag_listener g = newLimitedListener (nat (MaxHTTPConnections c))"
    "ag_responder g = advertise c agentID (bi_iface i) (bi_socket i)" "pg_mirror (ag_providers g) = newWiFiAssociations e"
    "sv_config (ag_server g) = c" "sv_agentID (ag_server g) = agentID"
    by (rule boot_running)
  note v = Parse_valid [OF b(1)]
  note f = Validate_facts [OF v]
  have ep: "\<exists>fill. bi_epoch i = Some fill \<and> e_epoch e = EncodeToString (map fill [0..<16])"
    using b(4) by (auto simp: New_def Let_def startSweeper_def split: option.splits if_splits)
  have "bi_epoch i \<noteq> None" using New_validated(1) [OF v] b(4) by (cases "bi_epoch i") auto
  then have e: "engine_reach e" "e_limits e = engine_limits_of c" "e_providers e = []"
    "e_stopSweeper e = Some False \<longleftrightarrow> CfgReconnectGrace c > 0"
    using New_validated(2) [OF v] b(4) by (metis Inr_inject option.exhaust)+
  have "\<not> HasAuthoritativeSnapshot ''wifi'' e" by (simp add: HasAuthoritativeSnapshot_def e(3))
  then have "hr_Code (health e) = 503 \<and> hr_Code (clients now e) = 503 \<and> hr_Code (client_by_id k e) = 503" for now k
    by (simp add: health_def' clients_def client_by_id_def requireReady_def writeJSON_def http_Error_def)
  moreover have "\<forall>pick. fst (ll_Accept pick (ag_listener g)) = Some True"
    using f(13) by (simp add: b ll_Accept_def newLimitedListener_def)
  moreover have "\<exists>bs. DecodeString agentID = Some bs \<and> length bs = 16" by (rule identity_octets [OF assms(3) b(3)])
  moreover have "\<forall>r. ag_responder g = Some r \<longrightarrow> MDNS c \<and> ad_agentID (rd_ad r) = agentID \<and> ad_port (rd_ad r) = of_int (Port c)"
    using advertise_facts by (metis b(11))
  moreover have "43 \<le> length token" by (rule LoadToken_facts(1) [OF b(2)])
  ultimately show ?thesis
    using v e f ep by (simp add: Running b NewBearer_def) blast
qed

definition demo_boot :: boot_input where
  "demo_boot =
     \<lparr>bi_args = [''-reconnect-grace'', ''2s''], bi_bits = 32, bi_frac = (\<lambda>f unit scale. 0), bi_token_info = Some (True, 384),
      bi_token_file = Some (replicate 43 CHR ''k'' @ [CHR 0x0A]), bi_identity = [demo_round],
      bi_epoch = Some (\<lambda>_. 0xab), bi_now = 5, bi_iface = None, bi_socket = True\<rparr>"

theorem startup_sound_witness:
  "\<exists>g. boot (\<lambda>x. x) ''dev'' demo_boot = Some (Running g) \<and> e_stopSweeper (ag_engine g) = Some False \<and>
     length (ag_token g) \<ge> 43 \<and> hr_Code (health (ag_engine g)) = 503"
proof -
  have "case boot (\<lambda>x. x) ''dev'' demo_boot of Some (Running g) \<Rightarrow> CfgReconnectGrace (ag_config g) > 0 | _ \<Rightarrow> False"
    by code_simp
  then obtain g where g: "boot (\<lambda>x. x) ''dev'' demo_boot = Some (Running g)" "CfgReconnectGrace (ag_config g) > 0"
    by (auto split: option.splits boot_result.splits)
  have "\<not> asks_version demo_boot" "\<forall>r \<in> set (bi_identity demo_boot). \<forall>raw. fr_rand r = Some raw \<longrightarrow> length raw = 16"
    by (simp_all add: asks_version_def demo_boot_def demo_round_def)
  from startup_sound [OF g(1) this] g show ?thesis by (simp add: Let_def)
qed

section \<open>What the end releases\<close>

text \<open>
  However the process ends, the sweeper never runs again; the status is 0 exactly when the shutdown
  succeeds and the end was asked for; and when the call of \<^verbatim>\<open>Close\<close> has returned, the responder's socket is
  closed, or \<^verbatim>\<open>Run\<close>, for which \<^verbatim>\<open>run\<close> does not wait, is about to close it.
\<close>

lemma mdns_exec_closes:
  assumes "CloseCalled \<notin> set acts"
  shows "length (ms_closes (mdns_exec acts s)) = length (ms_closes s)"
  using assms
proof (induction acts arbitrary: s)
  case (Cons a acts)
  then have "length (ms_closes (mdns_step a s)) = length (ms_closes s)" by (cases a) (auto split: prod.split)
  then show ?case using Cons by (simp add: mdns_exec_Cons)
qed (simp add: mdns_exec_def)

lemma mdns_exec_append: "mdns_exec as (mdns_exec bs s) = mdns_exec (bs @ as) s"
  by (simp add: mdns_exec_def)

lemma close_waited:
  assumes "responder_New agentID port listenAddress iface opened = Inr r"
    and "s = mdns_exec (before @ CloseCalled # acts) (mdns_start r)"
    and "CloseCalled \<notin> set before \<union> set acts" and "close_returned (ms_closes s ! 0)"
  shows "\<not> rd_connOpen (ms_res s) \<or> (\<exists>e pc. ms_run s = RunClose e pc)"
proof -
  let ?s0 = "mdns_exec before (mdns_start r)"
  have "length (ms_closes ?s0) = 0" using mdns_exec_closes [of before "mdns_start r"] assms(3) by (simp add: mdns_start_def)
  then have "length (ms_closes s) = 1"
    using mdns_exec_closes [of acts "mdns_step CloseCalled ?s0"] assms(3)
    by (simp add: assms(2) mdns_exec_append [symmetric] mdns_exec_Cons)
  then obtain pc where pc: "ms_closes s = [pc]" by (cases "ms_closes s") auto
  then obtain x where x: "pc = CloseReturned x" using assms(4) by (cases pc) auto
  have "system_inv False s"
    unfolding assms(2) using mdns_exec_inv [OF mdns_start_inv(1) [OF assms(1)], of False] by simp
  then have "close_inv False (ms_res s) (CloseReturned x # run_closers (ms_run s))" by (simp add: system_inv_def pc x)
  then have "\<not> rd_connOpen (ms_res s) \<or> run_closers (ms_run s) \<noteq> []" by (auto simp: close_inv_def split: if_splits)
  then show ?thesis by (cases "ms_run s") auto
qed

lemma wind_up_releases:
  assumes "wind_up w acts shutdownOk rd e = (code, rd', e')"
  shows "\<not> e_stopOnce e \<Longrightarrow> e_stopSweeper e' \<noteq> Some False"
    and "\<lbrakk>responder_New agentID port listenAddress iface opened = Inr r; rd = Some (mdns_exec before (mdns_start r));
      CloseCalled \<notin> set before \<union> set acts; rd' = Some s'; close_returned (ms_closes s' ! 0)\<rbrakk> \<Longrightarrow>
      \<not> rd_connOpen (ms_res s') \<or> (\<exists>e pc. ms_run s' = RunClose e pc)"
    and "code = 0 \<longleftrightarrow> shutdownOk \<and> (w = ContextEnded \<or> w = ServerEnded None \<or> w = ServerEnded (Some ServerClosed) \<or>
      (\<exists>failed. w = ProviderEnded failed True))"
proof -
  show "e_stopSweeper e' \<noteq> Some False" if "\<not> e_stopOnce e"
    using assms that by (auto simp: wind_up_def Stop_def)
  show "\<not> rd_connOpen (ms_res s') \<or> (\<exists>e pc. ms_run s' = RunClose e pc)"
    if "responder_New agentID port listenAddress iface opened = Inr r" "rd = Some (mdns_exec before (mdns_start r))"
      "CloseCalled \<notin> set before \<union> set acts" "rd' = Some s'" "close_returned (ms_closes s' ! 0)"
    using assms that(2,4) by (intro close_waited [OF that(1) _ that(3,5)]) (auto simp: wind_up_def mdns_exec_append)
  show "code = 0 \<longleftrightarrow> shutdownOk \<and> (w = ContextEnded \<or> w = ServerEnded None \<or> w = ServerEnded (Some ServerClosed) \<or>
      (\<exists>failed. w = ProviderEnded failed True))"
    using assms by (auto simp: wind_up_def ending_code_def split: ending.splits if_splits)
qed

end
