(* ===== verification/Findings.thy ===== *)
theory Findings
  imports Api_Text Mdns_Service Ubus_Provider
begin

text \<open>
  Places where the program does something else than its documentation or its own comments say, each as a
  concrete run of the model.
\<close>

section \<open>Reconnect grace\<close>

definition no_stations :: "time \<Rightarrow> ObsSnapshot" where
  "no_stations t = \<lparr>os_Provider = ''ubus'', os_ReceivedAt = t, os_Stations = [(''w0'', [])]\<rparr>"

definition demo_state :: "Engine \<Rightarrow> PresenceState option" where
  "demo_state e = map_option c_State (map_of (e_clients e) ''m'')"

definition demo_missed :: "duration \<Rightarrow> Engine" where
  "demo_missed g = (case ApplySnapshot demo_env (no_stations 6) (demo_present g) of Some (_, e) \<Rightarrow> e | None \<Rightarrow> undefined)"

text \<open>
  The documentation promises the same eventual state with a grace as without: a snapshot that misses the
  client makes it absent at once, but after the grace it is unknown.
\<close>

lemma grace_expiry_differs:
  "demo_state (demo_missed 0) = Some StateAbsent \<and>
   demo_state (sweepPending demo_env 100 (demo_missed 10)) = Some StateUnknown"
  by code_simp

text \<open>
  A client that is held and then appears at another access point keeps both connections; when it leaves the
  second one for good it stays present on the first.
\<close>

definition demo_roamed :: Engine where
  "demo_roamed =
     snd (Apply demo_env (demo_obs WiFiDisassociated ''w1'' ''m'' 8)
       (snd (Apply demo_env (demo_obs WiFiAssociated ''w1'' ''m'' 7)
         (snd (Apply demo_env (demo_obs WiFiDisassociated ''w0'' ''m'' 6) (demo_present 10))))))"

lemma phantom_connection:
  "demo_state demo_roamed = Some StatePresent \<and> e_pending demo_roamed = [] \<and>
   map_option (\<lambda>c. map (conn_SourceInstance \<circ> snd) (c_Connections c)) (map_of (e_clients demo_roamed) ''m'') = Some [''w0'']"
  by code_simp

section \<open>The stream\<close>

text \<open>A heartbeat can carry the number of an event that is still queued for the same client.\<close>

lemma heartbeat_ahead:
  "ev_Sequence (service_event ''heartbeat'' [] 9 (snapshotLocked 6 demo_stream) demo_streamed) = 3 \<and>
   map ev_Sequence (ch_buf (e_heap demo_streamed ! 0)) = [3] \<and> ch_taken (e_heap demo_streamed ! 0) = []"
  by code_simp

section \<open>Identity\<close>

text \<open>An identity in capitals is accepted from the file but refused by the advertisement.\<close>

lemma capital_identity:
  "stored_identity (replicate 32 CHR ''A'') = Inr (replicate 32 CHR ''A'') \<and> \<not> validAgentID (replicate 32 CHR ''A'')"
  by code_simp

section \<open>Texts\<close>

text \<open>
  A provider that has not discovered anything is written with \<^verbatim>\<open>null\<close> for its list of sources and with the first
  of January of year 1 for the times it does not have, although the tags of these ask to omit them.
\<close>

lemma empty_provider_text:
  "map_option (\<lambda>j. (member j ''sources'', member j ''last_event_at''))
     (provider_json (provider_of_status (demo_status ''initializing'')\<lparr>pr_Sources := []\<rparr>)) =
   Some (Some JNull, Some (JStr ''0001-01-01T00:00:00Z''))"
  by code_simp

text \<open>A departure at the end of a grace carries the local zone of the sweeper.\<close>

lemma local_zone_text:
  "map_option (\<lambda>j. member j ''last_seen_at'') (client_json (\<lambda>_. 60)
     \<lparr>cl_ID = ''m'', cl_State = StateUnknown, cl_Present = None, cl_Connections = [], cl_FirstSeenAt = 0, cl_LastSeenAt = 0\<rparr>) =
   Some (Some (JStr ''0001-01-01T00:01:00+00:01''))"
  by code_simp

text \<open>
  A message that the ubus provider has cut to 512 bytes gets a prefix after that, so that the last error is longer
  than the published schema allows.
\<close>

lemma plain_message: "drop_controls (replicate n CHR ''a'') = replicate n CHR ''a''"
proof (induction n)
  case 0
  show ?case by (subst drop_controls.simps) simp
next
  case (Suc n)
  have "rune_len (replicate (Suc n) CHR ''a'') = Some 1" by (simp add: rune_len_def)
  with Suc show ?case by (subst drop_controls.simps) simp
qed

lemma long_error_text:
  assumes "provider_json (p\<lparr>pr_LastError := ''snapshot failed: '' @ sanitizeError (replicate 600 CHR ''a'')\<rparr>) = Some j"
    and "fine_provider p"
  shows "\<not> conforms provider_schema j"
proof -
  let ?p = "p\<lparr>pr_LastError := ''snapshot failed: '' @ sanitizeError (replicate 600 CHR ''a'')\<rparr>"
  have "sanitizeError (replicate 600 CHR ''a'') = replicate 512 CHR ''a''"
    by (simp add: sanitizeError_def plain_message)
  then have "length (pr_LastError ?p) = 529" by simp
  then have "\<not> published_provider ?p" by (simp add: published_provider_def)
  moreover have "fine_provider ?p" using assms(2) by (simp add: fine_provider_def)
  ultimately show ?thesis using provider_conforms [OF assms(1)] by blast
qed

end
