(* ===== verification/Spec2Isabelle.thy ===== *)
theory Spec2Isabelle
  imports Engine_Source Ubus_Props Ubus_Decode Hostapd_Open Mdns_Responder Mdns_Socket Wired_Listen Wired_Props
    Api_Frames Api_Wire Api_Text Api_Life Agent_Main Findings
begin

text \<open>
  Verification of the presence agent.

  The agent runs on a router and tells which clients are connected to it.  Two providers observe: one asks
  hostapd through \<^verbatim>\<open>ubus\<close> and listens to its control socket (Wi-Fi), the other probes the clients with a DHCP
  lease by ARP and listens to the kernel's neighbour notices (Ethernet).  Both report to a sink: the Wi-Fi
  provider through a mirror that lets the Ethernet provider skip wireless clients, both in the end to the
  engine, which keeps one state per client and publishes a snapshot and a numbered stream of events.  The HTTP
  API hands these out over JSON and WebSocket, behind a bearer token.  A responder announces the agent over
  multicast DNS.  The engine is the core: everything it promises is proved for all sequences of its public
  operations, and the clients' theorems are stated for the composition with it.

  \<^bold>\<open>Groundwork\<close>
  \<^item> \<^verbatim>\<open>Prelude\<close>: Go maps as association lists, times and durations as integers of nanoseconds, folds.
  \<^item> \<^verbatim>\<open>Go_Strings\<close>, \<^verbatim>\<open>Go_Bytes\<close>, \<^verbatim>\<open>Go_Net\<close>, \<^verbatim>\<open>Go_Json\<close>: what the code uses of Go's standard library, as functions: trimming
    and splitting, hexadecimal, byte order, IP addresses, the JSON decoder.  \<^verbatim>\<open>Json_Texts\<close> gives the grammar of JSON and
    proves that every text of a value is decoded to it; \<^verbatim>\<open>Json_Encode\<close> is the encoder, whose text is one of them.
    \<^verbatim>\<open>Go_Time\<close>: the calendar and RFC 3339, with the proof that a time that is written is read back.
  \<^item> \<^verbatim>\<open>Protocol\<close>: \<^verbatim>\<open>pkg/protocol/types.go\<close> and \<^verbatim>\<open>internal/observation/observation.go\<close>.  \<^verbatim>\<open>Sink\<close>: the interface
    \<^verbatim>\<open>observation.Sink\<close> as a record of operations, and the locale \<open>observation_sink\<close> of what its users rely on.
  \<^item> \<^verbatim>\<open>Protocol_Json\<close>: the JSON form of the public types after their tags, a reader for it, and the proof that the
    reader gets back what was written.
  \<^item> \<^verbatim>\<open>Identity\<close>: \<^verbatim>\<open>internal/identity\<close>, the identifiers of clients and of the agent.

  \<^bold>\<open>Engine\<close>, \<^verbatim>\<open>internal/engine/engine.go\<close>
  \<^item> \<^verbatim>\<open>Engine\<close>: the record of its state and one definition per method.  Go's unordered iteration is a parameter
    (\<open>Env\<close>: the order in which maps are walked, and the clock), arbitrary in every theorem; channels live in a
    heap, with the events already received kept as history; a panic is a flag.
  \<^item> \<^verbatim>\<open>Engine_Stream\<close>, \<^verbatim>\<open>Engine_Inv\<close>, \<^verbatim>\<open>Engine_Evict\<close>, \<^verbatim>\<open>Engine_Events\<close>, \<^verbatim>\<open>Engine_Snapshots\<close>, \<^verbatim>\<open>Engine_Reach\<close>: the
    invariant and its preservation by every operation, the step relation \<open>engine_step\<close> and the reachable states.
    \<^verbatim>\<open>Engine_History\<close>: runs only extend the log.
  \<^item> \<^verbatim>\<open>Engine_Props\<close>, \<^verbatim>\<open>Engine_Behaviour\<close>, \<^verbatim>\<open>Engine_Departures\<close>, \<^verbatim>\<open>Engine_Exact\<close>, \<^verbatim>\<open>Engine_Source\<close>: what the engine promises:
    states and limits, snapshot plus stream equal to the engine's view, arrivals, departures, the grace, outages,
    the exact effect of full and source snapshots.  The loop that evicts clients is a partial function; both
    snapshot operations are proved to return.
  \<^item> \<^verbatim>\<open>Engine_Types\<close>: on observations of the right form, everything the engine holds has it too.
  \<^item> \<^verbatim>\<open>Engine_Sink\<close>: the engine as a sink; the interpretation of \<open>observation_sink\<close> on it.

  \<^bold>\<open>Providers\<close>, \<^verbatim>\<open>internal/providers\<close>
  \<^item> \<^verbatim>\<open>WiFi_Associations\<close>: \<^verbatim>\<open>wifi_associations.go\<close> and the gate and group of \<^verbatim>\<open>provider.go\<close>: the mirror refines a set of
    pairs and never runs ahead of the engine.
  \<^item> \<^verbatim>\<open>Hostapd\<close>, \<^verbatim>\<open>Hostapd_Open\<close>: \<^verbatim>\<open>ubus/global.go\<close>: events are parsed exactly, none is lost silently; the control socket is
    secured and released.  The set-up is modelled by the log of its system calls.
  \<^item> \<^verbatim>\<open>Ubus_Lists\<close>, \<^verbatim>\<open>Ubus_Decode\<close>: \<^verbatim>\<open>ubus/runner.go\<close> and the lists and JSON answers of \<^verbatim>\<open>ubus/provider.go\<close>.  \<^verbatim>\<open>Ubus_Provider\<close>,
    \<^verbatim>\<open>Ubus_Props\<close>: the life cycle over an arbitrary sink, then together with mirror and engine.
  \<^item> \<^verbatim>\<open>Wired_Parse\<close>, \<^verbatim>\<open>Wired_Messages\<close>, \<^verbatim>\<open>Wired_Listen\<close>, \<^verbatim>\<open>Wired_Provider\<close>, \<^verbatim>\<open>Wired_Props\<close>: \<^verbatim>\<open>wired/provider.go\<close> and
    \<^verbatim>\<open>wired/neighbor_linux.go\<close>: leases, ARP replies, netlink messages, the listener, the life cycle.

  \<^bold>\<open>Multicast DNS\<close>, \<^verbatim>\<open>internal/mdns\<close>
  \<^item> \<^verbatim>\<open>Mdns_Packet\<close>, \<^verbatim>\<open>Mdns_Names\<close>, \<^verbatim>\<open>Mdns_Sections\<close>: \<^verbatim>\<open>packet.go\<close>, the decoder of names against an inductive
    specification, round trips, responses within their limit.
  \<^item> \<^verbatim>\<open>Mdns_Service\<close>, \<^verbatim>\<open>Mdns_Answers\<close>: \<^verbatim>\<open>service.go\<close> and \<^verbatim>\<open>address.go\<close>.  \<^verbatim>\<open>Mdns_Responder\<close>: \<^verbatim>\<open>responder.go\<close>.  \<^verbatim>\<open>Mdns_Socket\<close>:
    \<^verbatim>\<open>socket_linux.go\<close>.

  \<^bold>\<open>API and process\<close>
  \<^item> \<^verbatim>\<open>Api_WebSocket\<close>, \<^verbatim>\<open>Api_Frames\<close>: \<^verbatim>\<open>internal/api/websocket.go\<close> against the framing of RFC 6455.
  \<^item> \<^verbatim>\<open>Auth\<close>: \<^verbatim>\<open>internal/auth/bearer.go\<close>.  \<^verbatim>\<open>Config\<close>, \<^verbatim>\<open>Config_Flags\<close>: \<^verbatim>\<open>internal/config/config.go\<close> with
    the part of the \<^verbatim>\<open>flag\<close> package it uses: the command line reaches exactly the valid configurations.
  \<^item> \<^verbatim>\<open>Api_Server\<close>: \<^verbatim>\<open>internal/api/server.go\<close>: handlers, routes, the event stream as a state with turns, the limit on
    connections.  \<^verbatim>\<open>Api_Stream\<close>: what a WebSocket client has been sent, as a relation between the handler and the
    engine that every step of either keeps.  \<^verbatim>\<open>Api_Props\<close>: who is told what, and the connection limit.
  \<^item> \<^verbatim>\<open>Api_Wire\<close>: \<^verbatim>\<open>writeJSONFrame\<close> and the stream in bytes: a client that knows the framing, JSON and the public types
    gets from the bytes what the model's frames say.
  \<^item> \<^verbatim>\<open>Api_Schema\<close>, \<^verbatim>\<open>Api_Text\<close>: the published schemas (\<^verbatim>\<open>api/protocol.schema.json\<close>, \<^verbatim>\<open>api/openapi.yaml\<close>) as values
    with a conformance check, the text of the responses (\<^verbatim>\<open>writeJSON\<close>), and which of them conform.
  \<^item> \<^verbatim>\<open>Api_Life\<close>: the settings of the HTTP server and \<^verbatim>\<open>Shutdown\<close>.
  \<^item> \<^verbatim>\<open>Agent_Main\<close>: \<^verbatim>\<open>cmd/openwrt-presence-agent/main.go\<close> and the construction of the providers.
  \<^item> \<^verbatim>\<open>Findings\<close>: concrete runs where the code and its documentation disagree.

  \<^bold>\<open>Conventions.\<close>  A Go string is a list of characters of one byte; fixed-width integers that are visible in
  the protocol are words, the others integers.  Errors are values of a datatype, \<open>None\<close> in a result stands for
  an operation that has not returned.  What the operating system, other goroutines, the clock and the choice
  of \<^verbatim>\<open>select\<close> contribute is an input of the definitions and arbitrary in the theorems.  Concurrent calls are
  interleaved as whole operations, since the code makes them under one mutex.

  \<^bold>\<open>Bounds.\<close>  The JSON decoder recurses on the remaining depth, 10000 at the start as in Go, and reads at
  most as many elements as characters remain, which each of them uses up.  The name decoder of mDNS counts its
  jumps, as the code does.  Sequences of inputs are lists of any length.

  \<^bold>\<open>Assumptions.\<close>  SHA-256 and SHA-1 are parameters; that only the token passes assumes that no presented value
  collides with it.  The fraction of a duration on the command line, which Go computes in floating point, is a
  parameter.  The budget for failed attempts is an exact fraction instead of a \<^verbatim>\<open>float64\<close>.  The local zone, in which
  \<^verbatim>\<open>last_seen_at\<close> is written after a reconnect grace, is a parameter; that bytes are read back assumes whole minutes of it,
  and strings in UTF-8, since the encoder replaces other bytes.

  \<^bold>\<open>Not modelled.\<close>  The usage text of the flags, HTTP itself and what its
  server does with its time-outs, the write deadlines of a stream, log messages, and \<^verbatim>\<open>internal/mdns/socket_other.go\<close>, which only returns an error.
\<close>

end
